(* ===== verification/Prelude.thy ===== *)
theory Prelude
  imports Main "HOL-Library.Word" "HOL-Library.Monad_Syntax"
begin

text \<open>
  Shared vocabulary of the development: the C integer types, the two ways the kernel
  stops (\<open>assert\<close> and \<open>panic\<close>, both of which spin for ever), bounds-checked array
  access, and the generic lemmas on options, lists and words the components use.

  Every operation that can stop the kernel has an \<open>option\<close> result: \<open>None\<close> is "the call
  does not return": a failed \<open>assert\<close> or a \<open>panic\<close> (\<^verbatim>\<open>assert_failure\<close> and \<^verbatim>\<open>panic\<close>
  end in \<^verbatim>\<open>while (true)\<close>), or an access outside the object the code holds (a null
  pointer, an index past an array). Ordinary error returns of the source (\<^verbatim>\<open>EOF\<close>,
  \<^verbatim>\<open>NULL\<close>, \<^verbatim>\<open>false\<close>) are ordinary values.
\<close>

unbundle bit_operations_syntax

section \<open>Machine types\<close>

type_synonym u8 = "8 word"
type_synonym u16 = "16 word"
type_synonym u32 = "32 word"

text \<open>
  \<^verbatim>\<open>EOF\<close> is -1; the code stores it in \<^verbatim>\<open>int\<close> and in \<^verbatim>\<open>uint32\<close> variables alike, and
  compares it as a 32-bit pattern.
\<close>

abbreviation EOF :: u32 where "EOF \<equiv> - 1"

section \<open>Assertions and bounds-checked arrays\<close>

definition check :: "bool \<Rightarrow> unit option" where
  "check b = (if b then Some () else None)"

definition rd :: "'a list \<Rightarrow> nat \<Rightarrow> 'a option" where
  "rd xs i = (if i < length xs then Some (xs ! i) else None)"

definition wr :: "'a list \<Rightarrow> nat \<Rightarrow> 'a \<Rightarrow> 'a list option" where
  "wr xs i v = (if i < length xs then Some (xs[i := v]) else None)"

named_theorems halt_simps "evaluation and inversion of checked operations"

lemma check_True [simp]: "check True = Some ()"
  by (simp add: check_def)

lemma check_eq_Some [simp]: "check b = Some u \<longleftrightarrow> b"
  by (cases u) (simp add: check_def)

lemma check_bind [simp]: "Option.bind (check b) f = (if b then f () else None)"
  by (simp add: check_def)

lemma rd_eq_Some [halt_simps]: "rd xs i = Some v \<longleftrightarrow> i < length xs \<and> v = xs ! i"
  by (auto simp: rd_def)

lemma wr_eq_Some [halt_simps]: "wr xs i v = Some ys \<longleftrightarrow> i < length xs \<and> ys = xs[i := v]"
  by (auto simp: wr_def)

lemma rd_bind [simp]: "i < length xs \<Longrightarrow> Option.bind (rd xs i) f = f (xs ! i)"
  by (simp add: rd_def)

lemma wr_bind [simp]: "i < length xs \<Longrightarrow> Option.bind (wr xs i v) f = f (xs[i := v])"
  by (simp add: wr_def)

lemma rd_in [simp]: "i < length xs \<Longrightarrow> rd xs i = Some (xs ! i)"
  by (simp add: rd_def)

lemma wr_in [simp]: "i < length xs \<Longrightarrow> wr xs i v = Some (xs[i := v])"
  by (simp add: wr_def)

text \<open>The same with a C \<^verbatim>\<open>int\<close> as the index.\<close>

definition rdi :: "'a list \<Rightarrow> int \<Rightarrow> 'a option" where
  "rdi xs i = (if 0 \<le> i then rd xs (nat i) else None)"

definition wri :: "'a list \<Rightarrow> int \<Rightarrow> 'a \<Rightarrow> 'a list option" where
  "wri xs i v = (if 0 \<le> i then wr xs (nat i) v else None)"

lemmas bind_Some = Option.bind_eq_Some_conv

declare bind_Some [halt_simps]

lemma bindE:
  assumes "Option.bind a f = Some y"
  obtains x where "a = Some x" "f x = Some y"
  using assms by (auto simp: bind_Some)

section \<open>Queues as interfaces see them\<close>

text \<open>\<open>fill\<close> and \<open>drain\<close>: what the producers and the consumers of a queue do with it.\<close>

fun fill :: "('q \<Rightarrow> 'a \<Rightarrow> 'q option) \<Rightarrow> 'q \<Rightarrow> 'a list \<Rightarrow> 'q option" where
  "fill put q [] = Some q"
| "fill put q (x # xs) = Option.bind (put q x) (\<lambda>q'. fill put q' xs)"

fun drain :: "('q \<Rightarrow> ('a \<times> 'q) option) \<Rightarrow> 'q \<Rightarrow> nat \<Rightarrow> ('a list \<times> 'q) option" where
  "drain get q 0 = Some ([], q)"
| "drain get q (Suc n) = do {
     (x, q') \<leftarrow> get q;
     (xs, q'') \<leftarrow> drain get q' n;
     Some (x # xs, q'')
   }"

section \<open>Words\<close>

lemma unat_of_nat_u32 [simp]: "n < 2 ^ 32 \<Longrightarrow> unat (of_nat n :: u32) = n"
  by (simp add: unat_of_nat take_bit_nat_eq_self)

lemma unat_u32_lt: "unat (x :: u32) < 2 ^ 32"
  using unsigned_less [of x] by simp

lemma word_and_bit_nonzero:
  assumes "n < LENGTH('a)"
  shows "(w :: 'a::len word) AND push_bit n 1 \<noteq> 0 \<longleftrightarrow> bit w n"
proof -
  have "w AND push_bit n 1 = (if bit w n then push_bit n 1 else 0)"
    by (rule bit_eqI) (auto simp: bit_simps assms)
  moreover have "(push_bit n 1 :: 'a word) \<noteq> 0"
    using assms by (metis bit_0_eq bit_exp_iff bot_apply bot_bool_def possible_bit_word push_bit_of_1)
  ultimately show ?thesis by simp
qed

lemma word_and_exp_nonzero:
  assumes "n < LENGTH('a)"
  shows "(w :: 'a::len word) AND 2 ^ n \<noteq> 0 \<longleftrightarrow> bit w n"
  using word_and_bit_nonzero [OF assms, of w] by (simp add: push_bit_of_1)

lemma unat_Suc_u32: "unat (x :: u32) < n \<Longrightarrow> n < 2 ^ 32 \<Longrightarrow> unat (x + 1) = Suc (unat x)"
  by (simp add: unat_word_ariths)

lemma unat_add_u32: "unat (x :: u32) + unat y < 2 ^ 32 \<Longrightarrow> unat (x + y) = unat x + unat y"
  by (simp add: unat_word_ariths)

lemma unat_EOF: "unat EOF = 2 ^ 32 - 1"
  by (simp add: unsigned_minus_1_eq_mask mask_eq_exp_minus_1)

lemma no_high_bit:
  assumes "unat (x :: 'a::len word) < 2 ^ k" "k \<le> n"
  shows "\<not> bit x n"
proof
  assume "bit x n"
  then have "bit (unat x) n" by (simp add: bit_unsigned_iff bit_imp_le_length)
  moreover have "take_bit k (unat x) = unat x" using assms(1) by (rule take_bit_nat_eq_self)
  ultimately have "bit (take_bit k (unat x)) n" by simp
  with assms(2) show False by (simp add: bit_take_bit_iff)
qed

end
