(* ===== verification/Bitmap.thy ===== *)
theory Bitmap
  imports Prelude
begin

text \<open>
  \<^verbatim>\<open>lib/bitmap.c\<close>: a bitmap over a byte buffer, whose bit 0 stands for the number
  \<^verbatim>\<open>offset\<close>. It backs the kernel page allocator (\<^verbatim>\<open>kernel_map\<close>), the per-process map of
  mmap pages, and the inode and zone maps of the file system. The buffer is the list
  \<open>bm_bits\<close>; an access outside it is \<open>None\<close>, also where the code does not test for it
  (\<^verbatim>\<open>bitmap_set\<close> checks no upper bound).
\<close>

section \<open>The operations\<close>

record bitmap =
  bm_bits :: "u8 list"
  bm_length :: u32
  bm_offset :: u32

definition bitmap_make :: "u8 list \<Rightarrow> u32 \<Rightarrow> u32 \<Rightarrow> bitmap" where
  "bitmap_make bits len off = \<lparr>bm_bits = bits, bm_length = len, bm_offset = off\<rparr>"

definition bitmap_init :: "u8 list \<Rightarrow> u32 \<Rightarrow> u32 \<Rightarrow> bitmap option" where
  "bitmap_init bits len start = do {
     check (unat len \<le> length bits);
     Some (bitmap_make (replicate (unat len) 0 @ drop (unat len) bits) len start)
   }"

definition bitmap_test :: "bitmap \<Rightarrow> u32 \<Rightarrow> bool option" where
  "bitmap_test mp index = do {
     check (index \<ge> bm_offset mp);
     let idx = index - bm_offset mp;
     let bytes = idx div 8;
     let bits = idx mod 8;
     check (bytes < bm_length mp);
     w \<leftarrow> rd (bm_bits mp) (unat bytes);
     Some (w AND push_bit (unat bits) 1 \<noteq> 0)
   }"

definition bitmap_set :: "bitmap \<Rightarrow> u32 \<Rightarrow> bool \<Rightarrow> bitmap option" where
  "bitmap_set mp index v = do {
     check (index \<ge> bm_offset mp);
     let idx = index - bm_offset mp;
     let bytes = idx div 8;
     let bits = idx mod 8;
     w \<leftarrow> rd (bm_bits mp) (unat bytes);
     ws \<leftarrow> wr (bm_bits mp) (unat bytes)
       (if v then w OR push_bit (unat bits) 1 else w AND NOT (push_bit (unat bits) 1));
     Some (mp\<lparr>bm_bits := ws\<rparr>)
   }"

text \<open>
  The search loop of \<^verbatim>\<open>bitmap_scan\<close>: \<open>left\<close> is what remains of \<^verbatim>\<open>bits_left\<close>; the result is
  the value of \<^verbatim>\<open>start\<close> after the loop.
\<close>

fun scan_search :: "bitmap \<Rightarrow> u32 \<Rightarrow> nat \<Rightarrow> u32 \<Rightarrow> u32 \<Rightarrow> u32 option" where
  "scan_search mp count 0 next_bit counter = Some EOF"
| "scan_search mp count (Suc left) next_bit counter = do {
     used \<leftarrow> bitmap_test mp (bm_offset mp + next_bit);
     let counter = (if \<not> used then counter + 1 else 0);
     let next_bit = next_bit + 1;
     if counter = count then Some (next_bit - count)
     else scan_search mp count left next_bit counter
   }"

fun scan_mark :: "bitmap \<Rightarrow> nat \<Rightarrow> u32 \<Rightarrow> bitmap option" where
  "scan_mark mp 0 next_bit = Some mp"
| "scan_mark mp (Suc left) next_bit = do {
     mp' \<leftarrow> bitmap_set mp (bm_offset mp + next_bit) True;
     scan_mark mp' left (next_bit + 1)
   }"

definition bitmap_scan :: "bitmap \<Rightarrow> u32 \<Rightarrow> (u32 \<times> bitmap) option" where
  "bitmap_scan mp count = do {
     start \<leftarrow> scan_search mp count (unat (bm_length mp * 8)) 0 0;
     if start = EOF then Some (EOF, mp)
     else do {
       mp' \<leftarrow> scan_mark mp (unat count) start;
       Some (start + bm_offset mp, mp')
     }
   }"


section \<open>The abstraction: a set of numbers\<close>

definition bm_used :: "bitmap \<Rightarrow> nat \<Rightarrow> bool" where
  "bm_used m i = bit (bm_bits m ! (i div 8)) (i mod 8)"

definition bm_dom :: "bitmap \<Rightarrow> nat set" where
  "bm_dom m = {unat (bm_offset m) ..< unat (bm_offset m) + 8 * length (bm_bits m)}"

definition bm_set :: "bitmap \<Rightarrow> nat set" where
  "bm_set m = {n \<in> bm_dom m. bm_used m (n - unat (bm_offset m))}"

definition bm_wf :: "bitmap \<Rightarrow> bool" where
  "bm_wf m \<longleftrightarrow> length (bm_bits m) = unat (bm_length m)
     \<and> unat (bm_offset m) + 8 * length (bm_bits m) < 2 ^ 32"

lemma bm_domD:
  assumes "bm_wf m" "unat x \<in> bm_dom m"
  shows "bm_offset m \<le> x" "unat (x - bm_offset m) = unat x - unat (bm_offset m)"
    "(unat x - unat (bm_offset m)) div 8 < length (bm_bits m)"
    "(x - bm_offset m) div 8 < bm_length m"
    "unat ((x - bm_offset m) div 8) = (unat x - unat (bm_offset m)) div 8"
    "unat ((x - bm_offset m) mod 8) = (unat x - unat (bm_offset m)) mod 8"
proof -
  from assms(2) show le: "bm_offset m \<le> x"
    by (simp add: bm_dom_def word_le_nat_alt)
  then show sub: "unat (x - bm_offset m) = unat x - unat (bm_offset m)"
    by (rule unat_sub)
  from assms(2) show lt: "(unat x - unat (bm_offset m)) div 8 < length (bm_bits m)"
    by (auto simp: bm_dom_def)
  show d: "unat ((x - bm_offset m) div 8) = (unat x - unat (bm_offset m)) div 8"
    by (simp add: unat_div sub)
  show "unat ((x - bm_offset m) mod 8) = (unat x - unat (bm_offset m)) mod 8"
    by (simp add: unat_mod sub)
  from lt assms(1) show "(x - bm_offset m) div 8 < bm_length m"
    by (simp add: word_less_nat_alt d bm_wf_def)
qed

lemma bitmap_test_eq:
  assumes "bm_wf m" "unat x \<in> bm_dom m"
  shows "bitmap_test m x = Some (unat x \<in> bm_set m)"
  using bm_domD[OF assms] assms(2)
  by (simp add: bitmap_test_def Let_def word_and_exp_nonzero bm_set_def bm_used_def)

lemma bm_bits_update:
  assumes i: "i < 8 * length (bm_bits m)" and j: "j < 8 * length (bm_bits m)"
    and w: "\<And>k. k < 8 \<Longrightarrow> bit w k = (if k = i mod 8 then v else bit (bm_bits m ! (i div 8)) k)"
  shows "bm_used (m\<lparr>bm_bits := (bm_bits m)[i div 8 := w]\<rparr>) j = (if j = i then v else bm_used m j)"
proof (cases "j div 8 = i div 8")
  case True
  then have "j = i \<longleftrightarrow> j mod 8 = i mod 8"
    by (metis mod_mult_div_eq)
  moreover have "i div 8 < length (bm_bits m)" using i by simp
  ultimately show ?thesis
    using True by (simp add: bm_used_def w)
next
  case False
  then show ?thesis by (auto simp: bm_used_def)
qed

lemma bitmap_set_eq:
  assumes "bm_wf m" "unat x \<in> bm_dom m"
  obtains m' where "bitmap_set m x v = Some m'" "bm_wf m'"
    "bm_set m' = (if v then insert (unat x) (bm_set m) else bm_set m - {unat x})"
    "bm_offset m' = bm_offset m" "bm_length m' = bm_length m"
    "length (bm_bits m') = length (bm_bits m)"
proof -
  note D = bm_domD[OF assms]
  let ?i = "unat x - unat (bm_offset m)"
  let ?w0 = "bm_bits m ! (?i div 8)"
  let ?w = "if v then ?w0 OR push_bit (?i mod 8) 1 else ?w0 AND NOT (push_bit (?i mod 8) 1)"
  let ?m = "m\<lparr>bm_bits := (bm_bits m)[?i div 8 := ?w]\<rparr>"
  have dom: "bm_dom ?m = bm_dom m" by (simp add: bm_dom_def)
  have i: "?i < 8 * length (bm_bits m)" using assms(2) by (auto simp: bm_dom_def)
  have "bm_used ?m (n - unat (bm_offset m)) =
      (if n = unat x then v else bm_used m (n - unat (bm_offset m)))" if "n \<in> bm_dom m" for n
  proof -
    have j: "n - unat (bm_offset m) < 8 * length (bm_bits m)"
      using that by (auto simp: bm_dom_def)
    have "bm_used ?m (n - unat (bm_offset m)) =
        (if n - unat (bm_offset m) = ?i then v else bm_used m (n - unat (bm_offset m)))"
      by (rule bm_bits_update[OF i j]) (auto simp: bit_simps)
    moreover have "n - unat (bm_offset m) = ?i \<longleftrightarrow> n = unat x"
      using that assms(2) by (auto simp: bm_dom_def)
    ultimately show ?thesis by simp
  qed
  then have "bm_set ?m = (if v then insert (unat x) (bm_set m) else bm_set m - {unat x})"
    using assms(2) dom by (auto simp: bm_set_def split: if_splits)
  moreover have "bitmap_set m x v = Some ?m"
    using D by (simp add: bitmap_set_def Let_def)
  moreover have "bm_wf ?m" using assms(1) by (simp add: bm_wf_def)
  ultimately show thesis using that by simp
qed


section \<open>First-fit search\<close>

definition free_run :: "bitmap \<Rightarrow> nat \<Rightarrow> nat \<Rightarrow> bool" where
  "free_run m c s \<longleftrightarrow> {s ..< s + c} \<subseteq> bm_dom m - bm_set m"

text \<open>
  What the search loop keeps, with \<open>n\<close> the bits looked at and \<open>k\<close> the clear bits at their end.
\<close>

definition scan_inv :: "bitmap \<Rightarrow> nat \<Rightarrow> nat \<Rightarrow> nat \<Rightarrow> bool" where
  "scan_inv m c n k \<longleftrightarrow> k < c \<and> k \<le> n
     \<and> (\<forall>i. n - k \<le> i \<and> i < n \<longrightarrow> \<not> bm_used m i)
     \<and> (k < n \<longrightarrow> bm_used m (n - k - 1))
     \<and> (\<forall>s. s + c \<le> n \<longrightarrow> (\<exists>i. s \<le> i \<and> i < s + c \<and> bm_used m i))"

lemma scan_inv_used:
  assumes "scan_inv m c n k" "bm_used m n"
  shows "scan_inv m c (Suc n) 0"
proof -
  have "\<exists>i. s \<le> i \<and> i < s + c \<and> bm_used m i" if "s + c \<le> Suc n" for s
    using that assms by (cases "s + c \<le> n") (auto simp: scan_inv_def intro: exI[of _ n])
  then show ?thesis using assms by (auto simp: scan_inv_def)
qed

lemma scan_inv_free:
  assumes I: "scan_inv m c n k" and F: "\<not> bm_used m n" and less: "Suc k < c"
  shows "scan_inv m c (Suc n) (Suc k)"
proof -
  have "\<exists>i. s \<le> i \<and> i < s + c \<and> bm_used m i" if s: "s + c \<le> Suc n" for s
  proof (cases "s + c \<le> n")
    case True
    then show ?thesis using I by (auto simp: scan_inv_def)
  next
    case False
    with s less have "s < n - k" "k < n" by auto
    then show ?thesis using I s False less
      by (intro exI[of _ "n - k - 1"]) (auto simp: scan_inv_def)
  qed
  then show ?thesis using I F less
    by (auto simp: scan_inv_def less_Suc_eq)
qed


lemma bm_domI: "i < 8 * length (bm_bits m) \<Longrightarrow> unat (bm_offset m) + i \<in> bm_dom m"
  by (simp add: bm_dom_def)

lemma free_run_iff:
  assumes "s + c \<le> 8 * length (bm_bits m)"
  shows "free_run m c (unat (bm_offset m) + s) \<longleftrightarrow> (\<forall>i. s \<le> i \<and> i < s + c \<longrightarrow> \<not> bm_used m i)"
proof -
  have "(\<forall>n \<in> {unat (bm_offset m) + s ..< unat (bm_offset m) + s + c}.
      n \<in> bm_dom m \<and> \<not> bm_used m (n - unat (bm_offset m))) \<longleftrightarrow>
    (\<forall>i. s \<le> i \<and> i < s + c \<longrightarrow> \<not> bm_used m i)" (is "?L \<longleftrightarrow> ?R")
  proof
    assume L: ?L
    show ?R
    proof (intro allI impI)
      fix i assume "s \<le> i \<and> i < s + c"
      then show "\<not> bm_used m i" using L [rule_format, of "unat (bm_offset m) + i"] by simp
    qed
  next
    assume ?R
    then have "\<not> bm_used m (n - unat (bm_offset m))"
      if "unat (bm_offset m) + s \<le> n" "n < unat (bm_offset m) + s + c" for n
      using that by (elim allE[of _ "n - unat (bm_offset m)"]) auto
    then show ?L using assms by (auto simp: bm_dom_def)
  qed
  then show ?thesis by (auto simp: free_run_def bm_set_def)
qed

lemma free_run_rel:
  assumes c: "0 < c"
  shows "free_run m c s \<longleftrightarrow> (\<exists>t. s = unat (bm_offset m) + t \<and> t + c \<le> 8 * length (bm_bits m)
    \<and> (\<forall>i. t \<le> i \<and> i < t + c \<longrightarrow> \<not> bm_used m i))" (is "?L \<longleftrightarrow> ?R")
proof
  assume L: ?L
  have "s \<in> {s ..< s + c}" "s + c - 1 \<in> {s ..< s + c}" using c by auto
  then have "s \<in> bm_dom m" "s + c - 1 \<in> bm_dom m"
    using L unfolding free_run_def by blast+
  then obtain t where t: "s = unat (bm_offset m) + t" "t + c \<le> 8 * length (bm_bits m)"
    using c by (auto simp: bm_dom_def dest!: le_Suc_ex)
  with L free_run_iff[OF t(2)] show ?R by auto
next
  assume ?R
  then show ?L using free_run_iff by blast
qed

lemma scan_search_correct:
  assumes wf: "bm_wf m" and "left + unat nb = 8 * length (bm_bits m)"
    and "scan_inv m (unat c) (unat nb) (unat k)"
  shows "\<exists>r. scan_search m c left nb k = Some r \<and>
    (if r = EOF then \<forall>s. s + unat c \<le> 8 * length (bm_bits m) \<longrightarrow> (\<exists>i. s \<le> i \<and> i < s + unat c \<and> bm_used m i)
     else unat r + unat c \<le> 8 * length (bm_bits m)
       \<and> (\<forall>i. unat r \<le> i \<and> i < unat r + unat c \<longrightarrow> \<not> bm_used m i)
       \<and> (\<forall>s < unat r. \<exists>i. s \<le> i \<and> i < s + unat c \<and> bm_used m i))"
  using assms(2,3)
proof (induction left arbitrary: nb k)
  case 0
  then show ?case by (auto simp: scan_inv_def)
next
  case (Suc left)
  let ?off = "bm_offset m"
  have lt: "unat nb < 8 * length (bm_bits m)" using Suc.prems(1) by simp
  have N: "unat ?off + 8 * length (bm_bits m) < 2 ^ 32" using wf by (simp add: bm_wf_def)
  have sum: "unat (?off + nb) = unat ?off + unat nb"
    using lt N by (intro unat_add_u32) simp
  have dom: "unat (?off + nb) \<in> bm_dom m" using lt by (simp add: sum bm_domI)
  have t: "bitmap_test m (?off + nb) = Some (bm_used m (unat nb))"
    using bitmap_test_eq[OF wf dom] dom by (simp add: bm_set_def sum)
  have nb1: "unat (nb + 1) = Suc (unat nb)" using lt N by (intro unat_Suc_u32[of _ "2 ^ 32 - 1"]) auto
  have k1: "unat (k + 1) = Suc (unat k)"
    using Suc.prems(2) unat_u32_lt[of c] by (intro unat_Suc_u32[of _ "unat c"]) (auto simp: scan_inv_def)
  show ?case
  proof (cases "bm_used m (unat nb)")
    case True
    have "0 \<noteq> c" using Suc.prems(2) by (auto simp: scan_inv_def)
    with True Suc.IH[of "nb + 1" 0] scan_inv_used[OF Suc.prems(2) True] Suc.prems(1) show ?thesis
      by (simp add: t nb1 Let_def)
  next
    case False
    show ?thesis
    proof (cases "k + 1 = c")
      case True
      then have c: "unat c = Suc (unat k)" using k1 by simp
      have le: "unat c \<le> Suc (unat nb)" using Suc.prems(2) c by (auto simp: scan_inv_def)
      then have r: "unat (nb + 1 - c) = Suc (unat nb) - unat c"
        using nb1 by (simp add: unat_sub word_le_nat_alt)
      have "nb + 1 - c \<noteq> EOF"
      proof
        assume "nb + 1 - c = EOF"
        then have "unat (nb + 1 - c) = unat EOF" by (rule arg_cong)
        then show False using r lt N c by (simp add: unat_EOF)
      qed
      then show ?thesis
        using True False Suc.prems le lt r c
        by (simp add: t Let_def) (auto simp: scan_inv_def less_Suc_eq)
    next
      case kc: False
      then have "unat (k + 1) \<noteq> unat c" by (metis unsigned_word_eqI)
      with k1 Suc.prems(2) have "Suc (unat k) < unat c" by (simp add: scan_inv_def)
      from scan_inv_free[OF Suc.prems(2) False this] Suc.IH[of "nb + 1" "k + 1"] Suc.prems(1) kc False
      show ?thesis by (simp add: t nb1 k1 Let_def)
    qed
  qed
qed


lemma scan_mark_correct:
  assumes "bm_wf m" and "unat nb + left \<le> 8 * length (bm_bits m)"
  shows "\<exists>m'. scan_mark m left nb = Some m' \<and> bm_wf m'
    \<and> bm_set m' = bm_set m \<union> {unat (bm_offset m) + unat nb ..< unat (bm_offset m) + unat nb + left}
    \<and> bm_offset m' = bm_offset m \<and> bm_length m' = bm_length m
    \<and> length (bm_bits m') = length (bm_bits m)"
  using assms
proof (induction left arbitrary: m nb)
  case 0
  then show ?case by simp
next
  case (Suc left)
  let ?off = "bm_offset m"
  have N: "unat ?off + 8 * length (bm_bits m) < 2 ^ 32" using Suc.prems(1) by (simp add: bm_wf_def)
  have sum: "unat (?off + nb) = unat ?off + unat nb"
    using Suc.prems(2) N by (intro unat_add_u32) simp
  have dom: "unat (?off + nb) \<in> bm_dom m" using Suc.prems(2) by (simp add: sum bm_domI)
  have nb1: "unat (nb + 1) = Suc (unat nb)"
    using Suc.prems(2) N by (intro unat_Suc_u32[of _ "2 ^ 32 - 1"]) auto
  from bitmap_set_eq[OF Suc.prems(1) dom, of True] obtain m1 where
    m1: "bitmap_set m (?off + nb) True = Some m1" "bm_wf m1"
      "bm_set m1 = insert (unat ?off + unat nb) (bm_set m)" "bm_offset m1 = ?off"
      "bm_length m1 = bm_length m" "length (bm_bits m1) = length (bm_bits m)"
    by (auto simp: sum)
  have "unat (nb + 1) + left \<le> 8 * length (bm_bits m1)" using Suc.prems(2) m1 nb1 by simp
  from Suc.IH[OF m1(2) this] m1 nb1 show ?case by fastforce
qed

lemma bitmap_scan_cases:
  assumes wf: "bm_wf m" and c: "0 < unat c"
  obtains (full) "bitmap_scan m c = Some (EOF, m)" "\<not> (\<exists>s. free_run m (unat c) s)"
  | (found) s m' where "bitmap_scan m c = Some (s, m')" "free_run m (unat c) (unat s)"
      "\<forall>s' < unat s. \<not> free_run m (unat c) s'" "s \<noteq> EOF" "bm_wf m'"
      "bm_set m' = bm_set m \<union> {unat s ..< unat s + unat c}"
      "bm_offset m' = bm_offset m" "bm_length m' = bm_length m"
      "length (bm_bits m') = length (bm_bits m)"
proof -
  let ?N = "8 * length (bm_bits m)" and ?off = "bm_offset m"
  have N: "unat ?off + ?N < 2 ^ 32" using wf by (simp add: bm_wf_def)
  have l8: "unat (bm_length m * 8) = ?N"
    using wf by (simp add: bm_wf_def unat_word_ariths)
  have "scan_inv m (unat c) (unat (0 :: u32)) (unat (0 :: u32))"
    using c by (simp add: scan_inv_def)
  from scan_search_correct[OF wf _ this, of ?N] obtain r where
    r: "scan_search m c ?N 0 0 = Some r" and
    spec: "if r = EOF then \<forall>s. s + unat c \<le> ?N \<longrightarrow> (\<exists>i. s \<le> i \<and> i < s + unat c \<and> bm_used m i)
     else unat r + unat c \<le> ?N
       \<and> (\<forall>i. unat r \<le> i \<and> i < unat r + unat c \<longrightarrow> \<not> bm_used m i)
       \<and> (\<forall>s < unat r. \<exists>i. s \<le> i \<and> i < s + unat c \<and> bm_used m i)"
    by auto
  show thesis
  proof (cases "r = EOF")
    case True
    have "\<not> free_run m (unat c) s" for s
      using spec True by (auto simp: free_run_rel[OF c])
    then show thesis using full r True by (simp add: bitmap_scan_def l8)
  next
    case False
    from spec False have le: "unat r + unat c \<le> ?N" by simp
    from scan_mark_correct[OF wf this] obtain m' where
      m': "scan_mark m (unat c) r = Some m'" "bm_wf m'"
        "bm_set m' = bm_set m \<union> {unat ?off + unat r ..< unat ?off + unat r + unat c}"
        "bm_offset m' = ?off" "bm_length m' = bm_length m"
        "length (bm_bits m') = length (bm_bits m)"
      by auto
    have sum: "unat (r + ?off) = unat ?off + unat r"
      using le N c by (simp add: unat_add_u32)
    have "r + ?off \<noteq> EOF"
    proof
      assume "r + ?off = EOF"
      then have "unat (r + ?off) = unat EOF" by (rule arg_cong)
      then show False using sum le N c by (simp add: unat_EOF)
    qed
    moreover have "free_run m (unat c) (unat (r + ?off))"
      using spec False le by (simp add: sum free_run_iff)
    moreover have "\<not> free_run m (unat c) s'" if "s' < unat (r + ?off)" for s'
      using spec False that by (auto simp: free_run_rel[OF c] sum)
    ultimately show thesis
      using found[of "r + ?off" m'] m' r False by (simp add: bitmap_scan_def l8 sum)
  qed
qed


section \<open>Properties\<close>

text \<open>
  C22: \<^verbatim>\<open>bitmap_scan\<close> is a first-fit allocator. On a well-formed bitmap and for a positive
  count it always returns: either \<^verbatim>\<open>EOF\<close>, and then no run of \<open>count\<close> free numbers exists
  and the bitmap is unchanged; or the lowest number at which a run of \<open>count\<close> free numbers
  starts, and then exactly these numbers become used and the bitmap stays well-formed.
\<close>

theorem bitmap_scan_first_fit:
  assumes "bm_wf m" and "0 < unat count"
  shows "\<exists>r m'. bitmap_scan m count = Some (r, m') \<and> bm_wf m' \<and>
    (if r = EOF then m' = m \<and> (\<forall>s. \<not> free_run m (unat count) s)
     else free_run m (unat count) (unat r) \<and> (\<forall>s < unat r. \<not> free_run m (unat count) s)
       \<and> bm_set m' = bm_set m \<union> {unat r ..< unat r + unat count})"
  using assms(1) by (cases rule: bitmap_scan_cases[OF assms]) auto

definition sample_bitmap :: bitmap where
  "sample_bitmap = bitmap_make [0xFB, 0x0F] 2 256"

lemma sample_bitmap_wf: "bm_wf sample_bitmap"
  by (simp add: sample_bitmap_def bitmap_make_def bm_wf_def)

lemma bitmap_scan_first_fit_witness:
  "\<exists>r m'. bitmap_scan sample_bitmap 2 = Some (r, m') \<and> bm_wf m' \<and>
    (if r = EOF then m' = sample_bitmap \<and> (\<forall>s. \<not> free_run sample_bitmap (unat (2::u32)) s)
     else free_run sample_bitmap (unat (2::u32)) (unat r)
       \<and> (\<forall>s < unat r. \<not> free_run sample_bitmap (unat (2::u32)) s)
       \<and> bm_set m' = bm_set sample_bitmap \<union> {unat r ..< unat r + unat (2::u32)})"
  by (rule bitmap_scan_first_fit) (simp_all add: sample_bitmap_wf)

text \<open>
  C23: \<^verbatim>\<open>bitmap_set\<close> and \<^verbatim>\<open>bitmap_test\<close> implement a set of numbers. On a well-formed bitmap
  neither trips an assertion for a number of its range, \<^verbatim>\<open>bitmap_set\<close> adds or removes
  exactly the number given, and a later \<^verbatim>\<open>bitmap_test\<close> of any number of the range answers
  with the value last stored for it.
\<close>

theorem bitmap_set_test:
  assumes "bm_wf m" and "unat x \<in> bm_dom m" and "unat y \<in> bm_dom m"
  shows "\<exists>m'. bitmap_set m x v = Some m' \<and> bm_wf m'
    \<and> bm_set m' = (if v then insert (unat x) (bm_set m) else bm_set m - {unat x})
    \<and> bitmap_test m' y = (if y = x then Some v else bitmap_test m y)"
proof -
  from bitmap_set_eq[OF assms(1,2)] obtain m' where m': "bitmap_set m x v = Some m'" "bm_wf m'"
    "bm_set m' = (if v then insert (unat x) (bm_set m) else bm_set m - {unat x})"
    "bm_offset m' = bm_offset m" "length (bm_bits m') = length (bm_bits m)" by blast
  then have "unat y \<in> bm_dom m'" using assms(3) by (simp add: bm_dom_def)
  from bitmap_test_eq[OF m'(2) this] bitmap_test_eq[OF assms(1,3)] m'
  show ?thesis by (auto simp: word_unat_eq_iff)
qed

lemma bitmap_set_test_witness:
  "\<exists>m'. bitmap_set sample_bitmap 258 True = Some m' \<and> bm_wf m'
    \<and> bm_set m' = (if True then insert (unat (258::u32)) (bm_set sample_bitmap)
        else bm_set sample_bitmap - {unat (258::u32)})
    \<and> bitmap_test m' 259 = (if (259::u32) = 258 then Some True else bitmap_test sample_bitmap 259)"
  by (rule bitmap_set_test)
    (simp_all add: bm_wf_def sample_bitmap_def bitmap_make_def bm_dom_def)

end
