(* ===== verification/Fifo.thy ===== *)
theory Fifo
  imports Prelude
begin

text \<open>
  \<^verbatim>\<open>lib/fifo.c\<close>: the ring buffer behind the keyboard, the serial lines and the pipes.
  One slot always stays free, so a buffer of \<^verbatim>\<open>length\<close> bytes holds \<^verbatim>\<open>length - 1\<close>;
  \<^verbatim>\<open>fifo_put\<close> on a full ring drops the oldest byte. The ring refines a bounded list,
  stated as the interface \<open>bounded_queue\<close>, which the model is shown to satisfy.
\<close>

section \<open>The operations\<close>

record fifo =
  f_buf :: "u8 list"
  f_length :: u32
  f_head :: u32
  f_tail :: u32

definition fifo_next :: "fifo \<Rightarrow> u32 \<Rightarrow> u32" where
  "fifo_next f pos = (pos + 1) mod f_length f"

definition fifo_init :: "u8 list \<Rightarrow> u32 \<Rightarrow> fifo" where
  "fifo_init b len = \<lparr>f_buf = b, f_length = len, f_head = 0, f_tail = 0\<rparr>"

definition fifo_full :: "fifo \<Rightarrow> bool" where
  "fifo_full f = (f_tail f = fifo_next f (f_head f))"

definition fifo_empty :: "fifo \<Rightarrow> bool" where
  "fifo_empty f = (f_head f = f_tail f)"

definition fifo_get :: "fifo \<Rightarrow> (u8 \<times> fifo) option" where
  "fifo_get f = do {
     check (\<not> fifo_empty f);
     byte \<leftarrow> rd (f_buf f) (unat (f_tail f));
     Some (byte, f\<lparr>f_tail := fifo_next f (f_tail f)\<rparr>)
   }"

text \<open>The loop of \<^verbatim>\<open>fifo_put\<close> that makes room; \<open>fifo_put_law\<close> shows that it ends.\<close>

partial_function (option) fifo_drop :: "fifo \<Rightarrow> fifo option" where
  "fifo_drop f =
     (if fifo_full f then Option.bind (fifo_get f) (\<lambda>(_, f'). fifo_drop f') else Some f)"

definition fifo_put :: "fifo \<Rightarrow> u8 \<Rightarrow> fifo option" where
  "fifo_put f byte = do {
     f' \<leftarrow> fifo_drop f;
     b \<leftarrow> wr (f_buf f') (unat (f_head f')) byte;
     Some (f'\<lparr>f_buf := b, f_head := fifo_next f' (f_head f')\<rparr>)
   }"

section \<open>The interface\<close>

text \<open>The newest \<open>n\<close> elements of a list.\<close>

definition newest :: "nat \<Rightarrow> 'a list \<Rightarrow> 'a list" where
  "newest n xs = drop (length xs - n) xs"

lemma newest_le [simp]: "length xs \<le> n \<Longrightarrow> newest n xs = xs"
  by (simp add: newest_def)

lemma newest_newest_append: "newest n (newest n xs @ ys) = newest n (xs @ ys)"
  by (cases "length xs \<le> n") (auto simp: newest_def drop_append add.commute)

locale bounded_queue =
  fixes put :: "'q \<Rightarrow> 'a \<Rightarrow> 'q option"
    and get :: "'q \<Rightarrow> ('a \<times> 'q) option"
    and full :: "'q \<Rightarrow> bool"
    and empty :: "'q \<Rightarrow> bool"
    and abs :: "'q \<Rightarrow> 'a list"
    and cap :: "'q \<Rightarrow> nat"
    and inv :: "'q \<Rightarrow> bool"
  assumes empty_iff: "inv q \<Longrightarrow> empty q \<longleftrightarrow> abs q = []"
    and full_iff: "inv q \<Longrightarrow> full q \<longleftrightarrow> length (abs q) = cap q"
    and bounded: "inv q \<Longrightarrow> length (abs q) \<le> cap q"
    and get_law: "inv q \<Longrightarrow> abs q = x # xs \<Longrightarrow>
      \<exists>q'. get q = Some (x, q') \<and> inv q' \<and> abs q' = xs \<and> cap q' = cap q"
    and put_law: "inv q \<Longrightarrow>
      \<exists>q'. put q x = Some q' \<and> inv q' \<and> abs q' = newest (cap q) (abs q @ [x]) \<and> cap q' = cap q"
begin

lemma fill_law: "inv q \<Longrightarrow>
  \<exists>q'. fill put q xs = Some q' \<and> inv q' \<and> abs q' = newest (cap q) (abs q @ xs) \<and> cap q' = cap q"
proof (induction xs arbitrary: q)
  case Nil
  then show ?case by (simp add: bounded)
next
  case (Cons x xs)
  from put_law[OF Cons.prems, of x] obtain q1 where
    q1: "put q x = Some q1" "inv q1" "abs q1 = newest (cap q) (abs q @ [x])" "cap q1 = cap q"
    by blast
  from Cons.IH[OF q1(2)] q1 show ?case by (auto simp: newest_newest_append)
qed

lemma drain_law: "inv q \<Longrightarrow> n \<le> length (abs q) \<Longrightarrow>
  \<exists>q'. drain get q n = Some (take n (abs q), q') \<and> inv q' \<and> abs q' = drop n (abs q) \<and> cap q' = cap q"
proof (induction n arbitrary: q)
  case 0
  then show ?case by simp
next
  case (Suc n)
  from Suc.prems(2) obtain x xs where xs: "abs q = x # xs" by (cases "abs q") auto
  from get_law[OF Suc.prems(1) xs] obtain q1 where
    q1: "get q = Some (x, q1)" "inv q1" "abs q1 = xs" "cap q1 = cap q" by blast
  from Suc.IH[OF q1(2)] Suc.prems(2) q1 xs show ?case by fastforce
qed

lemma fifo_order:
  assumes "inv q" and "abs q = []" and "length xs \<le> cap q"
  shows "\<exists>q' q''. fill put q xs = Some q' \<and> drain get q' (length xs) = Some (xs, q'') \<and> empty q''"
proof -
  from fill_law[OF assms(1), of xs] assms obtain q' where
    q': "fill put q xs = Some q'" "inv q'" "abs q' = xs" by auto
  from drain_law[OF q'(2), of "length xs"] q' obtain q'' where
    "drain get q' (length xs) = Some (xs, q'')" "inv q''" "abs q'' = []" by auto
  with q' show ?thesis by (auto simp: empty_iff)
qed

end

section \<open>The ring refines a bounded list\<close>

definition fifo_wf :: "fifo \<Rightarrow> bool" where
  "fifo_wf f \<longleftrightarrow> length (f_buf f) = unat (f_length f) \<and> 1 < unat (f_length f)
     \<and> unat (f_head f) < unat (f_length f) \<and> unat (f_tail f) < unat (f_length f)"

definition fifo_size :: "fifo \<Rightarrow> nat" where
  "fifo_size f = (unat (f_head f) + length (f_buf f) - unat (f_tail f)) mod length (f_buf f)"

definition fifo_list :: "fifo \<Rightarrow> u8 list" where
  "fifo_list f = map (\<lambda>i. f_buf f ! ((unat (f_tail f) + i) mod length (f_buf f))) [0..<fifo_size f]"

definition fifo_cap :: "fifo \<Rightarrow> nat" where
  "fifo_cap f = length (f_buf f) - 1"


lemma mod_wrap: "(a :: nat) < 2 * n \<Longrightarrow> a mod n = (if a < n then a else a - n)"
  by (simp add: mod_if)

lemma unat_fifo_next:
  assumes "fifo_wf f" "unat p < unat (f_length f)"
  shows "unat (fifo_next f p) = (if Suc (unat p) = unat (f_length f) then 0 else Suc (unat p))"
proof -
  have "unat (p + 1) = Suc (unat p)"
    using assms(2) unat_u32_lt[of "f_length f"] by (intro unat_Suc_u32[of _ "2 ^ 32 - 1"]) auto
  then have "unat (fifo_next f p) = Suc (unat p) mod unat (f_length f)"
    by (simp add: fifo_next_def unat_mod)
  then show ?thesis using assms by (auto simp: mod_if)
qed

lemma fifo_size_eq:
  "fifo_wf f \<Longrightarrow> fifo_size f =
     (if unat (f_tail f) \<le> unat (f_head f) then unat (f_head f) - unat (f_tail f)
      else unat (f_head f) + length (f_buf f) - unat (f_tail f))"
  unfolding fifo_size_def fifo_wf_def
  by (subst mod_wrap) auto

lemma length_fifo_list [simp]: "length (fifo_list f) = fifo_size f"
  by (simp add: fifo_list_def)

lemma fifo_empty_iff: "fifo_wf f \<Longrightarrow> fifo_empty f \<longleftrightarrow> fifo_size f = 0"
  by (auto simp: fifo_size_eq fifo_empty_def fifo_wf_def word_unat_eq_iff)

lemma fifo_full_iff: "fifo_wf f \<Longrightarrow> fifo_full f \<longleftrightarrow> fifo_size f = fifo_cap f"
proof -
  assume wf: "fifo_wf f"
  then have "unat (f_head f) < unat (f_length f)" by (simp add: fifo_wf_def)
  from unat_fifo_next[OF wf this] wf show ?thesis
    by (auto simp: fifo_full_def fifo_size_eq fifo_wf_def fifo_cap_def word_unat_eq_iff split: if_splits)
qed

lemma fifo_size_le: "fifo_wf f \<Longrightarrow> fifo_size f \<le> fifo_cap f"
  by (auto simp: fifo_size_eq fifo_wf_def fifo_cap_def)

lemma fifo_list_nth: "i < fifo_size f \<Longrightarrow>
    fifo_list f ! i = f_buf f ! ((unat (f_tail f) + i) mod length (f_buf f))"
  by (simp add: fifo_list_def)

lemma fifo_get_law:
  assumes wf: "fifo_wf f" and xs: "fifo_list f = x # xs"
  shows "\<exists>f'. fifo_get f = Some (x, f') \<and> fifo_wf f' \<and> fifo_list f' = xs \<and> fifo_cap f' = fifo_cap f"
proof -
  let ?n = "length (f_buf f)"
  have size: "0 < fifo_size f" using xs length_fifo_list[of f] by simp
  have tl: "unat (f_tail f) < unat (f_length f)" and n: "?n = unat (f_length f)"
    using wf by (auto simp: fifo_wf_def)
  let ?f = "f\<lparr>f_tail := fifo_next f (f_tail f)\<rparr>"
  note nx = unat_fifo_next[OF wf tl]
  have wf': "fifo_wf ?f" using wf nx by (auto simp: fifo_wf_def)
  have x: "x = f_buf f ! unat (f_tail f)"
    using fifo_list_nth[OF size] xs tl n by simp
  have s': "fifo_size f = Suc (fifo_size ?f)"
    using wf wf' size nx by (auto simp: fifo_size_eq fifo_wf_def)
  have "fifo_list ?f = xs"
  proof (rule nth_equalityI)
    show "length (fifo_list ?f) = length xs" using s' xs length_fifo_list[of f] by simp
    fix i assume "i < length (fifo_list ?f)"
    then have i: "i < fifo_size ?f" by simp
    have "fifo_list ?f ! i = f_buf f ! ((unat (fifo_next f (f_tail f)) + i) mod ?n)"
      using fifo_list_nth[OF i] by simp
    also have "\<dots> = f_buf f ! ((unat (f_tail f) + Suc i) mod ?n)"
    proof (cases "Suc (unat (f_tail f)) = ?n")
      case True
      then have "(unat (f_tail f) + Suc i) mod ?n = i mod ?n"
        by (metis add_Suc add_Suc_right mod_add_self1)
      then show ?thesis using nx n True by simp
    qed (use nx n in simp)
    also have "\<dots> = xs ! i" using fifo_list_nth[of "Suc i" f] i s' xs by simp
    finally show "fifo_list ?f ! i = xs ! i" .
  qed
  with x size wf wf' tl n show ?thesis
    by (auto simp: fifo_get_def fifo_empty_iff fifo_cap_def)
qed

lemma fifo_put_room:
  assumes wf: "fifo_wf f" and room: "\<not> fifo_full f"
  shows "\<exists>f'. fifo_put f x = Some f' \<and> fifo_wf f' \<and> fifo_list f' = fifo_list f @ [x] \<and> fifo_cap f' = fifo_cap f"
proof -
  let ?n = "length (f_buf f)"
  have hd: "unat (f_head f) < unat (f_length f)" and n: "?n = unat (f_length f)"
    and tl: "unat (f_tail f) < unat (f_length f)"
    using wf by (auto simp: fifo_wf_def)
  have drop: "fifo_drop f = Some f" using room by (simp add: fifo_drop.simps)
  let ?f = "f\<lparr>f_buf := (f_buf f)[unat (f_head f) := x], f_head := fifo_next f (f_head f)\<rparr>"
  note nx = unat_fifo_next[OF wf hd]
  have wf': "fifo_wf ?f" using wf nx by (auto simp: fifo_wf_def)
  have less: "fifo_size f < fifo_cap f"
    using wf room fifo_size_le[OF wf] by (auto simp: fifo_full_iff)
  have s': "fifo_size ?f = Suc (fifo_size f)"
    using wf wf' less nx by (auto simp: fifo_size_eq fifo_wf_def fifo_cap_def)
  have "fifo_list ?f = fifo_list f @ [x]"
  proof (rule nth_equalityI)
    show "length (fifo_list ?f) = length (fifo_list f @ [x])" using s' by simp
    fix i assume "i < length (fifo_list ?f)"
    then have i: "i < Suc (fifo_size f)" using s' by simp
    let ?p = "(unat (f_tail f) + i) mod ?n"
    have l: "fifo_list ?f ! i = (f_buf f)[unat (f_head f) := x] ! ?p"
      using fifo_list_nth[of i ?f] i s' by simp
    have p: "?p = (if unat (f_tail f) + i < ?n then unat (f_tail f) + i else unat (f_tail f) + i - ?n)"
      using i less tl n by (intro mod_wrap) (auto simp: fifo_cap_def)
    show "fifo_list ?f ! i = (fifo_list f @ [x]) ! i"
    proof (cases "i = fifo_size f")
      case True
      then have "?p = unat (f_head f)"
        using p wf tl n hd by (auto simp: fifo_size_eq)
      then show ?thesis using l True hd n by (simp add: nth_append)
    next
      case False
      with i have i': "i < fifo_size f" by simp
      then have "?p \<noteq> unat (f_head f)"
        using p wf tl n hd less by (auto simp: fifo_size_eq fifo_cap_def split: if_splits)
      then show ?thesis using l i' fifo_list_nth[OF i'] by (simp add: nth_append)
    qed
  qed
  with wf' hd n drop show ?thesis by (auto simp: fifo_put_def fifo_cap_def)
qed

lemma fifo_put_law:
  assumes wf: "fifo_wf f"
  shows "\<exists>f'. fifo_put f x = Some f' \<and> fifo_wf f'
    \<and> fifo_list f' = newest (fifo_cap f) (fifo_list f @ [x]) \<and> fifo_cap f' = fifo_cap f"
proof (cases "fifo_full f")
  case False
  with fifo_put_room[OF wf False, of x] fifo_size_le[OF wf] wf show ?thesis
    by (auto simp: fifo_full_iff)
next
  case True
  then have size: "fifo_size f = fifo_cap f" using wf by (simp add: fifo_full_iff)
  have "0 < fifo_cap f" using wf by (auto simp: fifo_wf_def fifo_cap_def)
  with size obtain y ys where ys: "fifo_list f = y # ys"
    by (metis length_fifo_list length_greater_0_conv list.exhaust)
  from fifo_get_law[OF wf ys] obtain f1 where
    f1: "fifo_get f = Some (y, f1)" "fifo_wf f1" "fifo_list f1 = ys" "fifo_cap f1 = fifo_cap f" by blast
  have ysl: "Suc (length ys) = fifo_cap f" using ys size length_fifo_list[of f] by simp
  then have room: "\<not> fifo_full f1"
    using f1 length_fifo_list[of f1] by (simp add: fifo_full_iff)
  have "fifo_drop f = fifo_drop f1" using True f1 by (simp add: fifo_drop.simps[of f])
  then have "fifo_put f x = fifo_put f1 x" by (simp add: fifo_put_def)
  with fifo_put_room[OF f1(2) room, of x] f1 ys ysl show ?thesis
    by (auto simp: newest_def)
qed

interpretation ring: bounded_queue fifo_put fifo_get fifo_full fifo_empty fifo_list fifo_cap fifo_wf
proof
  fix q :: fifo and x xs
  assume wf: "fifo_wf q"
  show "fifo_empty q \<longleftrightarrow> fifo_list q = []"
    using wf by (metis fifo_empty_iff length_0_conv length_fifo_list)
  show "fifo_full q \<longleftrightarrow> length (fifo_list q) = fifo_cap q"
    using wf by (simp add: fifo_full_iff)
  show "length (fifo_list q) \<le> fifo_cap q" using wf by (simp add: fifo_size_le)
  show "\<exists>q'. fifo_put q x = Some q' \<and> fifo_wf q' \<and> fifo_list q' = newest (fifo_cap q) (fifo_list q @ [x])
      \<and> fifo_cap q' = fifo_cap q"
    by (rule fifo_put_law[OF wf])
  show "fifo_list q = x # xs \<Longrightarrow>
      \<exists>q'. fifo_get q = Some (x, q') \<and> fifo_wf q' \<and> fifo_list q' = xs \<and> fifo_cap q' = fifo_cap q"
    by (rule fifo_get_law[OF wf])
qed

lemma fifo_init_wf:
  assumes "length b = unat len" "1 < unat len"
  shows "fifo_wf (fifo_init b len)" "fifo_list (fifo_init b len) = []"
    "fifo_cap (fifo_init b len) = length b - 1"
  using assms by (auto simp: fifo_wf_def fifo_init_def fifo_list_def fifo_size_def fifo_cap_def)


section \<open>Properties\<close>

text \<open>
  C29: the ring buffer is a queue that keeps the newest bytes. Starting from
  \<^verbatim>\<open>fifo_init\<close> on a buffer of \<open>len\<close> bytes, any sequence of \<^verbatim>\<open>fifo_put\<close> calls returns (the
  loop that makes room ends), and reading the ring empty with \<^verbatim>\<open>fifo_get\<close> then yields, in
  the order they were put, the last \<open>len - 1\<close> of the bytes put and nothing else.
\<close>

theorem fifo_keeps_newest:
  assumes "length b = unat len" and "1 < unat len"
  shows "\<exists>f' f''. fill fifo_put (fifo_init b len) xs = Some f'
    \<and> drain fifo_get f' (min (length xs) (unat len - 1)) = Some (newest (unat len - 1) xs, f'')
    \<and> fifo_empty f''"
proof -
  note init = fifo_init_wf[OF assms]
  from ring.fill_law[OF init(1), of xs] init(2,3) obtain f' where
    f': "fill fifo_put (fifo_init b len) xs = Some f'" "fifo_wf f'"
      "fifo_list f' = newest (unat len - 1) xs" by (auto simp: assms(1))
  have n: "length (newest (unat len - 1) xs) = min (length xs) (unat len - 1)"
    by (auto simp: newest_def)
  from ring.drain_law[OF f'(2), of "length (newest (unat len - 1) xs)", unfolded f'(3)] obtain f'' where
    "drain fifo_get f' (min (length xs) (unat len - 1)) = Some (newest (unat len - 1) xs, f'')"
    "fifo_wf f''" "fifo_list f'' = []" by (auto simp: n simp del: One_nat_def)
  with f'(1) show ?thesis by (auto simp: ring.empty_iff)
qed

lemma fifo_keeps_newest_witness:
  "\<exists>f' f''. fill fifo_put (fifo_init [0, 0, 0, 0] 4) [1, 2, 3, 4, 5] = Some f'
    \<and> drain fifo_get f' (min (length [1::u8, 2, 3, 4, 5]) (unat (4::u32) - 1))
        = Some (newest (unat (4::u32) - 1) [1, 2, 3, 4, 5], f'')
    \<and> fifo_empty f''"
  by (rule fifo_keeps_newest) simp_all

end
