(* ===== verification/Linked_List.thy ===== *)
theory Linked_List
  imports Prelude
begin

text \<open>
  \<^verbatim>\<open>lib/list.c\<close>: the intrusive doubly linked list with two sentinels that every queue of
  the kernel uses. The model keeps the pointers: a heap maps an address to the \<^verbatim>\<open>prev\<close>
  and \<^verbatim>\<open>next\<close> fields stored there, and a \<^verbatim>\<open>list_t\<close> at address \<open>l\<close> has its head sentinel
  at \<open>l\<close> and its tail sentinel 8 bytes further. \<open>dll h l xs\<close> says that the heap holds a
  well-formed list at \<open>l\<close> whose nodes are \<open>xs\<close>; each operation is shown to do on \<open>xs\<close>
  what its name says, and the interface \<open>wait_list\<close> collects what the wait queues of the
  scheduler, the mutex and the buffer cache rely on.
\<close>

section \<open>Heap access\<close>

type_synonym addr = nat

record lheap =
  lh_prev :: "addr \<Rightarrow> addr"
  lh_next :: "addr \<Rightarrow> addr"

abbreviation NULL :: addr where "NULL \<equiv> 0"

definition l_tail :: "addr \<Rightarrow> addr" where
  "l_tail l = l + 8"

definition get_prev :: "addr \<Rightarrow> lheap \<Rightarrow> addr option" where
  "get_prev a h = do { check (a \<noteq> NULL); Some (lh_prev h a) }"

definition get_next :: "addr \<Rightarrow> lheap \<Rightarrow> addr option" where
  "get_next a h = do { check (a \<noteq> NULL); Some (lh_next h a) }"

definition set_prev :: "addr \<Rightarrow> addr \<Rightarrow> lheap \<Rightarrow> lheap option" where
  "set_prev a v h = do { check (a \<noteq> NULL); Some (h\<lparr>lh_prev := (lh_prev h)(a := v)\<rparr>) }"

definition set_next :: "addr \<Rightarrow> addr \<Rightarrow> lheap \<Rightarrow> lheap option" where
  "set_next a v h = do { check (a \<noteq> NULL); Some (h\<lparr>lh_next := (lh_next h)(a := v)\<rparr>) }"

section \<open>The operations\<close>

definition list_init :: "addr \<Rightarrow> lheap \<Rightarrow> lheap option" where
  "list_init l h = do {
     h \<leftarrow> set_prev l NULL h;
     h \<leftarrow> set_next (l_tail l) NULL h;
     h \<leftarrow> set_next l (l_tail l) h;
     set_prev (l_tail l) l h
   }"

definition list_insert_before :: "addr \<Rightarrow> addr \<Rightarrow> lheap \<Rightarrow> lheap option" where
  "list_insert_before anchor node h = do {
     p \<leftarrow> get_prev anchor h;
     h \<leftarrow> set_prev node p h;
     h \<leftarrow> set_next node anchor h;
     p \<leftarrow> get_prev anchor h;
     h \<leftarrow> set_next p node h;
     set_prev anchor node h
   }"

definition list_insert_after :: "addr \<Rightarrow> addr \<Rightarrow> lheap \<Rightarrow> lheap option" where
  "list_insert_after anchor node h = do {
     h \<leftarrow> set_prev node anchor h;
     n \<leftarrow> get_next anchor h;
     h \<leftarrow> set_next node n h;
     n \<leftarrow> get_next anchor h;
     h \<leftarrow> set_prev n node h;
     set_next anchor node h
   }"

text \<open>
  The walks of the source chase \<^verbatim>\<open>next\<close> pointers until they meet the tail sentinel; on a
  heap that holds no list at \<open>l\<close> they may never meet it, which is the result \<open>None\<close>.
\<close>

partial_function (option) search_from :: "addr \<Rightarrow> addr \<Rightarrow> addr \<Rightarrow> lheap \<Rightarrow> bool option" where
  "search_from l node nx h =
     (if nx \<noteq> l_tail l then
        if nx = node then Some True
        else Option.bind (get_next nx h) (\<lambda>nx'. search_from l node nx' h)
      else Some False)"

definition list_search :: "addr \<Rightarrow> addr \<Rightarrow> lheap \<Rightarrow> bool option" where
  "list_search l node h = do { nx \<leftarrow> get_next l h; search_from l node nx h }"

partial_function (option) size_from :: "addr \<Rightarrow> addr \<Rightarrow> u32 \<Rightarrow> lheap \<Rightarrow> u32 option" where
  "size_from l nx sz h =
     (if nx \<noteq> l_tail l then Option.bind (get_next nx h) (\<lambda>nx'. size_from l nx' (sz + 1) h)
      else Some sz)"

definition list_size :: "addr \<Rightarrow> lheap \<Rightarrow> u32 option" where
  "list_size l h = do { nx \<leftarrow> get_next l h; size_from l nx 0 h }"

definition list_empty :: "addr \<Rightarrow> lheap \<Rightarrow> bool option" where
  "list_empty l h = do { nx \<leftarrow> get_next l h; Some (nx = l_tail l) }"

definition list_remove :: "addr \<Rightarrow> lheap \<Rightarrow> lheap option" where
  "list_remove node h = do {
     p \<leftarrow> get_prev node h;
     check (p \<noteq> NULL);
     n \<leftarrow> get_next node h;
     check (n \<noteq> NULL);
     h \<leftarrow> set_next p n h;
     n \<leftarrow> get_next node h;
     p \<leftarrow> get_prev node h;
     h \<leftarrow> set_prev n p h;
     h \<leftarrow> set_prev node NULL h;
     set_next node NULL h
   }"

definition list_push :: "addr \<Rightarrow> addr \<Rightarrow> lheap \<Rightarrow> lheap option" where
  "list_push l node h = do {
     found \<leftarrow> list_search l node h;
     check (\<not> found);
     list_insert_after l node h
   }"

definition list_pop :: "addr \<Rightarrow> lheap \<Rightarrow> (addr \<times> lheap) option" where
  "list_pop l h = do {
     e \<leftarrow> list_empty l h;
     check (\<not> e);
     node \<leftarrow> get_next l h;
     h \<leftarrow> list_remove node h;
     Some (node, h)
   }"

definition list_pushback :: "addr \<Rightarrow> addr \<Rightarrow> lheap \<Rightarrow> lheap option" where
  "list_pushback l node h = do {
     found \<leftarrow> list_search l node h;
     check (\<not> found);
     list_insert_before (l_tail l) node h
   }"

definition list_popback :: "addr \<Rightarrow> lheap \<Rightarrow> (addr \<times> lheap) option" where
  "list_popback l h = do {
     e \<leftarrow> list_empty l h;
     check (\<not> e);
     node \<leftarrow> get_prev (l_tail l) h;
     h \<leftarrow> list_remove node h;
     Some (node, h)
   }"

text \<open>
  \<^verbatim>\<open>element_node_key (node, offset)\<close> reads the \<^verbatim>\<open>int\<close> stored \<open>offset\<close> bytes from the node;
  \<open>mem\<close> is the memory of \<^verbatim>\<open>int\<close>s it reads.
\<close>

definition node_key :: "(addr \<Rightarrow> int) \<Rightarrow> int \<Rightarrow> addr \<Rightarrow> int" where
  "node_key mem offset node = mem (nat (int node + offset))"

partial_function (option) anchor_from :: "(addr \<Rightarrow> int) \<Rightarrow> int \<Rightarrow> int \<Rightarrow> addr \<Rightarrow> addr \<Rightarrow> lheap \<Rightarrow> addr option" where
  "anchor_from mem offset key l ptr h =
     (if ptr \<noteq> l_tail l then
        if node_key mem offset ptr > key then Some ptr
        else Option.bind (get_next ptr h) (\<lambda>nx. anchor_from mem offset key l nx h)
      else Some (l_tail l))"

definition list_insert_sort :: "(addr \<Rightarrow> int) \<Rightarrow> addr \<Rightarrow> addr \<Rightarrow> int \<Rightarrow> lheap \<Rightarrow> lheap option" where
  "list_insert_sort mem l node offset h = do {
     nx \<leftarrow> get_next l h;
     anchor \<leftarrow> anchor_from mem offset (node_key mem offset node) l nx h;
     n \<leftarrow> get_next node h;
     check (n = NULL);
     p \<leftarrow> get_prev node h;
     check (p = NULL);
     list_insert_before anchor node h
   }"

section \<open>Well-formed lists\<close>

fun chain :: "lheap \<Rightarrow> addr list \<Rightarrow> bool" where
  "chain h (a # b # xs) \<longleftrightarrow> lh_next h a = b \<and> lh_prev h b = a \<and> chain h (b # xs)"
| "chain h xs \<longleftrightarrow> True"

definition nodes :: "addr \<Rightarrow> addr list \<Rightarrow> addr list" where
  "nodes l xs = l # xs @ [l_tail l]"

definition dll :: "lheap \<Rightarrow> addr \<Rightarrow> addr list \<Rightarrow> bool" where
  "dll h l xs \<longleftrightarrow> chain h (nodes l xs) \<and> distinct (nodes l xs) \<and> NULL \<notin> set (nodes l xs)
     \<and> lh_prev h l = NULL \<and> lh_next h (l_tail l) = NULL"

lemmas heap_simps = get_prev_def get_next_def set_prev_def set_next_def

lemma chain_split: "chain h (xs @ a # ys) \<longleftrightarrow> chain h (xs @ [a]) \<and> chain h (a # ys)"
proof (induction xs)
  case (Cons x xs)
  then show ?case by (cases xs) auto
qed simp

lemma chain_pair:
  assumes "chain h (xs @ a # b # ys)"
  shows "lh_next h a = b \<and> lh_prev h b = a"
  using assms chain_split[of h xs a "b # ys"] by simp

lemma chain_cong:
  assumes "\<And>x. x \<in> set (butlast xs) \<Longrightarrow> lh_next h' x = lh_next h x"
    and "\<And>x. x \<in> set (tl xs) \<Longrightarrow> lh_prev h' x = lh_prev h x"
  shows "chain h' xs = chain h xs"
  using assms
proof (induction h xs rule: chain.induct)
  case (1 h a b xs)
  then have "chain h' (b # xs) = chain h (b # xs)" by (cases xs) auto
  then show ?case using 1(2,3) by auto
qed auto

lemma tl_memD: "x \<in> set (tl xs) \<Longrightarrow> x \<in> set xs"
  by (cases xs) auto

lemma chain_frame:
  assumes "chain h xs"
    and "\<And>x. x \<in> set (butlast xs) \<Longrightarrow> lh_next h' x = lh_next h x"
    and "\<And>x. x \<in> set (tl xs) \<Longrightarrow> lh_prev h' x = lh_prev h x"
  shows "chain h' xs"
  using assms chain_cong by blast

text \<open>Linking \<open>n\<close> between two neighbours, and unlinking it again.\<close>

definition linked :: "addr \<Rightarrow> addr \<Rightarrow> addr \<Rightarrow> lheap \<Rightarrow> lheap" where
  "linked a n b h = h\<lparr>lh_prev := (lh_prev h)(n := a, b := n), lh_next := (lh_next h)(n := b, a := n)\<rparr>"

definition unlinked :: "addr \<Rightarrow> addr \<Rightarrow> addr \<Rightarrow> lheap \<Rightarrow> lheap" where
  "unlinked a n b h = h\<lparr>lh_prev := (lh_prev h)(b := a, n := NULL), lh_next := (lh_next h)(a := b, n := NULL)\<rparr>"

lemma insert_between:
  assumes "lh_next h a = b" "lh_prev h b = a" "distinct [a, n, b]" "NULL \<notin> {a, n, b}"
  shows "list_insert_before b n h = Some (linked a n b h)"
    "list_insert_after a n h = Some (linked a n b h)"
  using assms
  by (auto simp: list_insert_before_def list_insert_after_def heap_simps linked_def fun_upd_twist)

lemma remove_between:
  assumes "lh_prev h n = a" "lh_next h n = b" "distinct [a, n, b]" "NULL \<notin> {a, n, b}"
  shows "list_remove n h = Some (unlinked a n b h)"
  using assms by (auto simp: list_remove_def heap_simps unlinked_def fun_upd_twist)

lemma chain_linked:
  assumes c: "chain h (us @ a # b # vs)" and d: "distinct (us @ a # n # b # vs)"
  shows "chain (linked a n b h) (us @ a # n # b # vs)"
proof -
  have "chain h (us @ [a])" "chain h (b # vs)"
    using c chain_split[of h us a "b # vs"] by auto
  then have "chain (linked a n b h) (us @ [a])" "chain (linked a n b h) (b # vs)"
    using d by (auto simp: linked_def elim!: chain_frame dest: in_set_butlastD tl_memD)
  then show ?thesis
    using d chain_split[of "linked a n b h" us a "n # b # vs"] by (auto simp: linked_def)
qed

lemma chain_unlinked:
  assumes c: "chain h (us @ a # n # b # vs)" and d: "distinct (us @ a # n # b # vs)"
  shows "chain (unlinked a n b h) (us @ a # b # vs)"
proof -
  have "chain h (us @ [a])" "chain h (b # vs)"
    using c chain_split[of h us a "n # b # vs"] by auto
  then have "chain (unlinked a n b h) (us @ [a])" "chain (unlinked a n b h) (b # vs)"
    using d by (auto simp: unlinked_def elim!: chain_frame dest: in_set_butlastD tl_memD)
  then show ?thesis
    using d chain_split[of "unlinked a n b h" us a "b # vs"] by (auto simp: unlinked_def)
qed


section \<open>What the operations do to a well-formed list\<close>

definition same_outside :: "addr set \<Rightarrow> lheap \<Rightarrow> lheap \<Rightarrow> bool" where
  "same_outside A h h' \<longleftrightarrow>
     (\<forall>x. x \<notin> A \<longrightarrow> lh_prev h' x = lh_prev h x \<and> lh_next h' x = lh_next h x)"

definition detached :: "lheap \<Rightarrow> addr \<Rightarrow> bool" where
  "detached h n \<longleftrightarrow> n \<noteq> NULL \<and> lh_prev h n = NULL \<and> lh_next h n = NULL"

lemma same_outside_refl [simp]: "same_outside A h h"
  by (simp add: same_outside_def)

lemma same_outside_trans:
  "same_outside A h h' \<Longrightarrow> same_outside B h' h'' \<Longrightarrow> same_outside (A \<union> B) h h''"
  by (simp add: same_outside_def)

lemma same_outside_mono: "same_outside A h h' \<Longrightarrow> A \<subseteq> B \<Longrightarrow> same_outside B h h'"
  by (auto simp: same_outside_def)

lemma dll_frame:
  assumes "dll h l xs" "same_outside A h h'" "A \<inter> set (nodes l xs) = {}"
  shows "dll h' l xs"
proof -
  have "chain h' (nodes l xs)"
    by (rule chain_frame[of h]) (use assms in \<open>auto simp: dll_def same_outside_def
      dest!: in_set_butlastD tl_memD\<close>)
  then show ?thesis using assms by (auto simp: dll_def same_outside_def nodes_def)
qed

lemma l_tail_neq [simp]: "l_tail l \<noteq> l" "l \<noteq> l_tail l" "l_tail l \<noteq> 0"
  by (auto simp: l_tail_def)

text \<open>The two neighbours between which position \<open>us | vs\<close> of a list lies.\<close>

definition before :: "addr \<Rightarrow> addr list \<Rightarrow> addr" where
  "before l us = last (l # us)"

definition behind :: "addr \<Rightarrow> addr list \<Rightarrow> addr" where
  "behind l vs = hd (vs @ [l_tail l])"

lemma nodes_split:
  "nodes l (us @ ys @ vs) = butlast (l # us) @ before l us # ys @ behind l vs # tl (vs @ [l_tail l])"
proof -
  have "l # us = butlast (l # us) @ [before l us]"
    unfolding before_def by (rule append_butlast_last_id [symmetric]) simp
  moreover have "vs @ [l_tail l] = behind l vs # tl (vs @ [l_tail l])"
    by (simp add: behind_def)
  ultimately show ?thesis
    unfolding nodes_def by (metis append.assoc append_Cons append_Nil)
qed

lemma before_in: "before l us \<in> insert l (set us)"
  by (simp add: before_def)

lemma behind_in: "behind l vs \<in> insert (l_tail l) (set vs)"
  by (cases vs) (auto simp: behind_def)

lemma dll_neighbours:
  assumes "dll h l (us @ vs)"
  shows "lh_next h (before l us) = behind l vs" "lh_prev h (behind l vs) = before l us"
    "before l us \<noteq> behind l vs" "before l us \<noteq> NULL" "behind l vs \<noteq> NULL"
proof -
  have "chain h (butlast (l # us) @ before l us # behind l vs # tl (vs @ [l_tail l]))"
    and "distinct (butlast (l # us) @ before l us # behind l vs # tl (vs @ [l_tail l]))"
    and "NULL \<notin> set (butlast (l # us) @ before l us # behind l vs # tl (vs @ [l_tail l]))"
    using assms nodes_split[of l us "[]" vs] by (auto simp: dll_def simp del: butlast.simps)
  then show "lh_next h (before l us) = behind l vs" "lh_prev h (behind l vs) = before l us"
    "before l us \<noteq> behind l vs" "before l us \<noteq> NULL" "behind l vs \<noteq> NULL"
    by (auto dest: chain_pair simp del: butlast.simps)
qed

lemma dll_insert:
  assumes d: "dll h l (us @ vs)" and n: "n \<noteq> NULL" "n \<notin> set (nodes l (us @ vs))"
  obtains h' where "list_insert_before (behind l vs) n h = Some h'"
    "list_insert_after (before l us) n h = Some h'"
    "dll h' l (us @ n # vs)" "same_outside (set (nodes l (us @ n # vs))) h h'"
proof -
  let ?a = "before l us" and ?b = "behind l vs"
  note nb = dll_neighbours[OF d]
  have ns: "n \<noteq> ?a" "n \<noteq> ?b" "n \<notin> set (butlast (l # us))" "n \<notin> set (tl (vs @ [l_tail l]))"
    using n nodes_split[of l us "[]" vs] by (auto simp del: butlast.simps)
  let ?h = "linked ?a n ?b h"
  have s: "nodes l (us @ n # vs) = butlast (l # us) @ ?a # n # ?b # tl (vs @ [l_tail l])"
    using nodes_split[of l us "[n]" vs] by simp
  have s0: "nodes l (us @ vs) = butlast (l # us) @ ?a # ?b # tl (vs @ [l_tail l])"
    using nodes_split[of l us "[]" vs] by simp
  have dist: "distinct (nodes l (us @ n # vs))" using d ns n by (auto simp: dll_def nodes_def)
  have "chain ?h (nodes l (us @ n # vs))"
    unfolding s using d dist by (intro chain_linked) (simp_all add: dll_def s s0)
  moreover have "?b \<noteq> l" "?a \<noteq> l_tail l"
    using d behind_in[of l vs] before_in[of l us] by (auto simp: dll_def nodes_def)
  ultimately have "dll ?h l (us @ n # vs)"
    using d dist n by (auto simp: dll_def linked_def nodes_def)
  moreover have "list_insert_before ?b n h = Some ?h" "list_insert_after ?a n h = Some ?h"
    using nb ns n by (auto intro!: insert_between)
  moreover have "same_outside (set (nodes l (us @ n # vs))) h ?h"
    unfolding s by (auto simp: same_outside_def linked_def)
  ultimately show thesis using that by blast
qed

lemma dll_remove:
  assumes d: "dll h l (us @ n # vs)"
  obtains h' where "list_remove n h = Some h'" "dll h' l (us @ vs)" "detached h' n"
    "same_outside (set (nodes l (us @ n # vs))) h h'"
proof -
  let ?a = "before l us" and ?b = "behind l vs"
  let ?h = "unlinked ?a n ?b h"
  have s: "nodes l (us @ n # vs) = butlast (l # us) @ ?a # n # ?b # tl (vs @ [l_tail l])"
    using nodes_split[of l us "[n]" vs] by simp
  have s0: "nodes l (us @ vs) = butlast (l # us) @ ?a # ?b # tl (vs @ [l_tail l])"
    using nodes_split[of l us "[]" vs] by simp
  have dist: "distinct (butlast (l # us) @ ?a # n # ?b # tl (vs @ [l_tail l]))"
    and ch: "chain h (butlast (l # us) @ ?a # n # ?b # tl (vs @ [l_tail l]))"
    and nn: "NULL \<notin> set (butlast (l # us) @ ?a # n # ?b # tl (vs @ [l_tail l]))"
    using d by (simp_all add: dll_def s)
  have nb: "lh_next h ?a = n" "lh_prev h n = ?a" "lh_next h n = ?b" "lh_prev h ?b = n"
    using chain_pair[OF ch] chain_pair[of h "butlast (l # us) @ [?a]" n ?b] ch
    by (simp_all del: butlast.simps)
  have "chain ?h (nodes l (us @ vs))"
    unfolding s0 by (rule chain_unlinked[OF ch dist])
  moreover have "?b \<noteq> l" "?a \<noteq> l_tail l"
    using d behind_in[of l vs] before_in[of l us] by (auto simp: dll_def nodes_def)
  ultimately have "dll ?h l (us @ vs)"
    using d by (auto simp: dll_def unlinked_def nodes_def)
  moreover have "list_remove n h = Some ?h"
    using nb dist nn by (intro remove_between) auto
  moreover have "detached ?h n" using dist nn by (auto simp: detached_def unlinked_def)
  moreover have "same_outside (set (nodes l (us @ n # vs))) h ?h"
    unfolding s by (auto simp: same_outside_def unlinked_def)
  ultimately show thesis using that by blast
qed


lemma dll_get_next:
  assumes "dll h l (us @ n # vs)"
  shows "get_next n h = Some (behind l vs)" "get_prev n h = Some (before l us)"
proof -
  have "chain h (butlast (l # us) @ before l us # n # behind l vs # tl (vs @ [l_tail l]))"
    and "n \<noteq> NULL"
    using assms nodes_split[of l us "[n]" vs] by (auto simp: dll_def nodes_def)
  from this(1) this(2) chain_pair[OF this(1)]
    chain_pair[of h "butlast (l # us) @ [before l us]" n "behind l vs"]
  show "get_next n h = Some (behind l vs)" "get_prev n h = Some (before l us)"
    by (simp_all add: heap_simps del: butlast.simps)
qed

lemma dll_ends:
  assumes "dll h l xs"
  shows "get_next l h = Some (behind l xs)" "get_prev (l_tail l) h = Some (before l xs)"
proof -
  have "l \<noteq> NULL" using assms by (auto simp: dll_def nodes_def)
  then show "get_next l h = Some (behind l xs)" "get_prev (l_tail l) h = Some (before l xs)"
    using dll_neighbours[of h l "[]" xs] dll_neighbours[of h l xs "[]"] assms
    by (auto simp: heap_simps before_def behind_def)
qed

lemma dllD:
  assumes "dll h l xs"
  shows "distinct xs" "l \<notin> set xs" "l_tail l \<notin> set xs" "NULL \<notin> set xs" "l \<noteq> NULL"
  using assms by (auto simp: dll_def nodes_def)

lemma search_from_dll:
  "dll h l (us @ vs) \<Longrightarrow> search_from l n (behind l vs) h = Some (n \<in> set vs)"
proof (induction vs arbitrary: us)
  case Nil
  then show ?case by (subst search_from.simps) (simp add: behind_def)
next
  case (Cons v vs)
  have "v \<noteq> l_tail l" using dllD[OF Cons.prems] by auto
  with Cons.IH[of "us @ [v]"] Cons.prems dll_get_next(1)[OF Cons.prems] show ?case
    by (subst search_from.simps) (simp add: behind_def)
qed

lemma list_search_dll: "dll h l xs \<Longrightarrow> list_search l n h = Some (n \<in> set xs)"
  using search_from_dll[of h l "[]" xs n] dll_ends[of h l xs] by (simp add: list_search_def)

lemma size_from_dll:
  "dll h l (us @ vs) \<Longrightarrow> size_from l (behind l vs) k h = Some (k + of_nat (length vs))"
proof (induction vs arbitrary: us k)
  case Nil
  then show ?case by (subst size_from.simps) (simp add: behind_def)
next
  case (Cons v vs)
  have "v \<noteq> l_tail l" using dllD[OF Cons.prems] by auto
  with Cons.IH[of "us @ [v]"] Cons.prems dll_get_next(1)[OF Cons.prems] show ?case
    by (subst size_from.simps) (simp add: behind_def ac_simps)
qed

lemma list_size_dll: "dll h l xs \<Longrightarrow> list_size l h = Some (of_nat (length xs))"
  using size_from_dll[of h l "[]" xs 0] dll_ends[of h l xs] by (simp add: list_size_def)

lemma list_empty_dll: "dll h l xs \<Longrightarrow> list_empty l h = Some (xs = [])"
  using dll_ends(1)[of h l xs] dllD(3)[of h l xs] by (cases xs) (auto simp: list_empty_def behind_def)

lemma list_init_dll:
  assumes "l \<noteq> NULL"
  shows "\<exists>h'. list_init l h = Some h' \<and> dll h' l [] \<and> same_outside {l, l_tail l} h h'"
  using assms by (auto simp: list_init_def heap_simps dll_def nodes_def same_outside_def)

text \<open>
  The contract of the list operations, one law per operation. \<open>node\<close> may enter a list when
  it is an address other than null and the list's sentinels and is not in the list.
\<close>

definition enters :: "addr \<Rightarrow> addr list \<Rightarrow> addr \<Rightarrow> bool" where
  "enters l xs node \<longleftrightarrow> node \<noteq> NULL \<and> node \<notin> set (nodes l xs)"

lemma list_push_dll:
  assumes "dll h l xs" "enters l xs n"
  obtains h' where "list_push l n h = Some h'" "dll h' l (n # xs)"
    "same_outside (set (nodes l (n # xs))) h h'"
proof -
  from assms(2) have n: "n \<noteq> NULL" "n \<notin> set (nodes l ([] @ xs))" "n \<notin> set xs"
    by (auto simp: enters_def nodes_def)
  from assms(1) have "dll h l ([] @ xs)" by simp
  from dll_insert[OF this n(1,2)] obtain h' where
    "list_insert_after (before l []) n h = Some h'" "dll h' l ([] @ n # xs)"
    "same_outside (set (nodes l ([] @ n # xs))) h h'" by blast
  with n(3) list_search_dll[OF assms(1)] show thesis
    by (intro that[of h']) (simp_all add: list_push_def before_def)
qed

lemma list_pushback_dll:
  assumes "dll h l xs" "enters l xs n"
  obtains h' where "list_pushback l n h = Some h'" "dll h' l (xs @ [n])"
    "same_outside (set (nodes l (xs @ [n]))) h h'"
proof -
  from assms(2) have n: "n \<noteq> NULL" "n \<notin> set (nodes l (xs @ []))" "n \<notin> set xs"
    by (auto simp: enters_def nodes_def)
  from assms(1) have "dll h l (xs @ [])" by simp
  from dll_insert[OF this n(1,2)] obtain h' where
    "list_insert_before (behind l []) n h = Some h'" "dll h' l (xs @ [n])"
    "same_outside (set (nodes l (xs @ [n]))) h h'" by blast
  with n(3) list_search_dll[OF assms(1)] show thesis
    by (intro that[of h']) (simp_all add: list_pushback_def behind_def)
qed

lemma list_pop_dll:
  assumes "dll h l (n # xs)"
  obtains h' where "list_pop l h = Some (n, h')" "dll h' l xs" "detached h' n"
    "same_outside (set (nodes l (n # xs))) h h'"
proof -
  from assms have "dll h l ([] @ n # xs)" by simp
  from dll_remove[OF this] obtain h' where "list_remove n h = Some h'" "dll h' l ([] @ xs)"
    "detached h' n" "same_outside (set (nodes l ([] @ n # xs))) h h'" by blast
  with list_empty_dll[OF assms] dll_ends(1)[OF assms] show thesis
    by (intro that[of h']) (simp_all add: list_pop_def behind_def)
qed

lemma list_popback_dll:
  assumes "dll h l (xs @ [n])"
  obtains h' where "list_popback l h = Some (n, h')" "dll h' l xs" "detached h' n"
    "same_outside (set (nodes l (xs @ [n]))) h h'"
proof -
  from dll_remove[OF assms] obtain h' where "list_remove n h = Some h'" "dll h' l (xs @ [])"
    "detached h' n" "same_outside (set (nodes l (xs @ [n]))) h h'" by blast
  with list_empty_dll[OF assms] dll_ends(2)[OF assms] show thesis
    by (intro that[of h']) (simp_all add: list_popback_def before_def)
qed

lemma anchor_from_dll:
  "dll h l (us @ vs) \<Longrightarrow> anchor_from mem off key l (behind l vs) h =
     Some (behind l (dropWhile (\<lambda>x. node_key mem off x \<le> key) vs))"
proof (induction vs arbitrary: us)
  case Nil
  then show ?case by (subst anchor_from.simps) (simp add: behind_def)
next
  case (Cons v vs)
  have "v \<noteq> l_tail l" using dllD[OF Cons.prems] by auto
  with Cons.IH[of "us @ [v]"] Cons.prems dll_get_next(1)[OF Cons.prems] show ?case
    by (subst anchor_from.simps) (auto simp: behind_def)
qed

text \<open>Where \<^verbatim>\<open>list_insert_sort\<close> puts a node: behind every node whose key is not larger.\<close>

definition sort_insert :: "('a \<Rightarrow> 'k::linorder) \<Rightarrow> 'a \<Rightarrow> 'a list \<Rightarrow> 'a list" where
  "sort_insert key n xs = takeWhile (\<lambda>x. key x \<le> key n) xs @ n # dropWhile (\<lambda>x. key x \<le> key n) xs"

lemma sort_insert_set [simp]: "set (sort_insert key n xs) = insert n (set xs)"
proof -
  have "set xs = set (takeWhile (\<lambda>x. key x \<le> key n) xs) \<union> set (dropWhile (\<lambda>x. key x \<le> key n) xs)"
    by (metis set_append takeWhile_dropWhile_id)
  then show ?thesis by (auto simp: sort_insert_def)
qed

lemma sort_insert_sorted:
  assumes "sorted (map key xs)"
  shows "sorted (map key (sort_insert key n xs))"
  using assms
proof (induction xs)
  case (Cons x xs)
  then show ?case
    by (auto simp: sort_insert_def dest: set_takeWhileD set_dropWhileD
      intro: order_trans less_imp_le)
qed (simp add: sort_insert_def)

lemma list_insert_sort_dll:
  assumes d: "dll h l xs" and n: "enters l xs n" and "detached h n"
  obtains h' where "list_insert_sort mem l n off h = Some h'"
    "dll h' l (sort_insert (node_key mem off) n xs)"
    "same_outside (set (nodes l (n # xs))) h h'"
proof -
  let ?k = "node_key mem off"
  let ?us = "takeWhile (\<lambda>x. ?k x \<le> ?k n) xs" and ?vs = "dropWhile (\<lambda>x. ?k x \<le> ?k n) xs"
  have xs: "xs = ?us @ ?vs" by simp
  then have d': "dll h l (?us @ ?vs)" and n': "n \<noteq> NULL" "n \<notin> set (nodes l (?us @ ?vs))"
    using d n by (auto simp: enters_def)
  from dll_insert[OF d' n'] obtain h' where h': "list_insert_before (behind l ?vs) n h = Some h'"
    "dll h' l (?us @ n # ?vs)" "same_outside (set (nodes l (?us @ n # ?vs))) h h'" by blast
  have "set (nodes l (?us @ n # ?vs)) = set (nodes l (n # xs))"
    using sort_insert_set[of ?k n xs] by (auto simp: nodes_def sort_insert_def)
  moreover have "list_insert_sort mem l n off h = Some h'"
    using dll_ends(1)[OF d] anchor_from_dll[of h l "[]" xs mem off "?k n"] d assms(3) h'
    by (simp add: list_insert_sort_def detached_def heap_simps)
  ultimately show thesis using that h' by (simp add: sort_insert_def)
qed


section \<open>Wait queues\<close>

text \<open>
  The mutex, the block queue of the scheduler, the request queue of a device and the free
  list of the buffer cache all add at one end and take from the other. What they rely on:
\<close>

locale wait_list =
  fixes push :: "'h \<Rightarrow> 'n \<Rightarrow> 'h option"
    and take_out :: "'h \<Rightarrow> ('n \<times> 'h) option"
    and holds :: "'h \<Rightarrow> 'n list \<Rightarrow> bool"
    and ok :: "'n \<Rightarrow> bool"
  assumes push_law: "holds h xs \<Longrightarrow> ok n \<Longrightarrow> n \<notin> set xs \<Longrightarrow>
      \<exists>h'. push h n = Some h' \<and> holds h' (n # xs)"
    and twice_law: "holds h xs \<Longrightarrow> n \<in> set xs \<Longrightarrow> push h n = None"
    and take_law: "holds h (xs @ [n]) \<Longrightarrow> \<exists>h'. take_out h = Some (n, h') \<and> holds h' xs"
    and none_law: "holds h [] \<Longrightarrow> take_out h = None"
begin

lemma fill_holds:
  "holds h xs \<Longrightarrow> \<forall>n \<in> set ns. ok n \<Longrightarrow> distinct ns \<Longrightarrow> set ns \<inter> set xs = {} \<Longrightarrow>
    \<exists>h'. fill push h ns = Some h' \<and> holds h' (rev ns @ xs)"
proof (induction ns arbitrary: h xs)
  case (Cons n ns)
  from push_law[OF Cons.prems(1), of n] Cons.prems obtain h1 where
    h1: "push h n = Some h1" "holds h1 (n # xs)" by auto
  from Cons.IH[OF h1(2)] Cons.prems h1 show ?case by auto
qed simp

lemma drain_holds:
  "holds h (xs @ rev ns) \<Longrightarrow> \<exists>h'. drain take_out h (length ns) = Some (ns, h') \<and> holds h' xs"
proof (induction ns arbitrary: h)
  case (Cons n ns)
  then have "holds h ((xs @ rev ns) @ [n])" by simp
  from take_law[OF this] obtain h1 where
    h1: "take_out h = Some (n, h1)" "holds h1 (xs @ rev ns)" by auto
  from Cons.IH[OF h1(2)] h1 show ?case by auto
qed simp

lemma arrival_order:
  assumes "holds h []" "\<forall>n \<in> set ns. ok n" "distinct ns"
  shows "\<exists>h' h''. fill push h ns = Some h' \<and> holds h' (rev ns)
    \<and> drain take_out h' (length ns) = Some (ns, h'') \<and> holds h'' []"
  using fill_holds[OF assms(1-3)] drain_holds[of _ "[]" ns] by fastforce

end

interpretation dl: wait_list "\<lambda>h n. list_push l n h" "list_popback l" "\<lambda>h xs. dll h l xs"
  "\<lambda>n. n \<noteq> NULL \<and> n \<noteq> l \<and> n \<noteq> l_tail l" for l
proof
  fix h xs n
  assume d: "dll h l xs"
  {
    assume "n \<noteq> NULL \<and> n \<noteq> l \<and> n \<noteq> l_tail l" "n \<notin> set xs"
    then have "enters l xs n" by (auto simp: enters_def nodes_def)
    from list_push_dll[OF d this] show "\<exists>h'. list_push l n h = Some h' \<and> dll h' l (n # xs)"
      by blast
  }
  show "list_push l n h = None" if "n \<in> set xs"
    using list_search_dll[OF d] that by (simp add: list_push_def)
next
  show "\<exists>h'. list_popback l h = Some (n, h') \<and> dll h' l xs" if "dll h l (xs @ [n])" for h xs n
    using list_popback_dll[OF that] by blast
  show "list_popback l h = None" if "dll h l []" for h
    using list_empty_dll[OF that] by (simp add: list_popback_def)
qed

section \<open>Properties\<close>

text \<open>
  C26: a queue kept with \<^verbatim>\<open>list_push\<close> and \<^verbatim>\<open>list_popback\<close> serves its nodes in the order of
  their arrival. On a heap with an empty list at \<open>l\<close>, pushing any distinct nodes never
  trips an assertion, leaves a well-formed list, and popping from the back as often returns
  exactly these nodes, first come first served, and leaves the list empty.
\<close>

theorem wait_queue_arrival_order:
  assumes "dll h l []" and "distinct ns"
    and "\<forall>n \<in> set ns. n \<noteq> NULL \<and> n \<noteq> l \<and> n \<noteq> l_tail l"
  shows "\<exists>h' h''. fill (\<lambda>h n. list_push l n h) h ns = Some h' \<and> dll h' l (rev ns)
    \<and> drain (list_popback l) h' (length ns) = Some (ns, h'') \<and> dll h'' l []"
  using dl.arrival_order[OF assms(1,3,2)] .

definition empty_list_heap :: lheap where
  "empty_list_heap = \<lparr>lh_prev = (\<lambda>_. 0)(108 := 100), lh_next = (\<lambda>_. 0)(100 := 108)\<rparr>"

lemma wait_queue_arrival_order_witness:
  "\<exists>h' h''. fill (\<lambda>h n. list_push 100 n h) empty_list_heap [200, 300] = Some h'
    \<and> dll h' 100 (rev [200, 300])
    \<and> drain (list_popback 100) h' (length [200::nat, 300]) = Some ([200, 300], h'') \<and> dll h'' 100 []"
  by (rule wait_queue_arrival_order)
    (simp_all add: empty_list_heap_def dll_def nodes_def l_tail_def)

text \<open>
  C27: \<^verbatim>\<open>list_insert_sort\<close> keeps a list sorted by the key field and is stable. A detached
  node enters a list sorted by key: the walk ends, no assertion fails, the new list is
  sorted, holds the old nodes and the new one, and the nodes before the new one are exactly
  the initial ones with a key that is not larger. Nothing outside the list is changed.
\<close>

theorem list_insert_sort_sorted:
  assumes "dll h l xs" and "enters l xs n" and "detached h n"
    and "sorted (map (node_key mem off) xs)"
  shows "\<exists>h' us vs. list_insert_sort mem l n off h = Some h'
    \<and> xs = us @ vs \<and> dll h' l (us @ n # vs)
    \<and> sorted (map (node_key mem off) (us @ n # vs))
    \<and> (\<forall>x \<in> set us. node_key mem off x \<le> node_key mem off n)
    \<and> (\<forall>x \<in> set vs. node_key mem off n < node_key mem off x)
    \<and> same_outside (set (nodes l (n # xs))) h h'"
proof -
  let ?k = "node_key mem off"
  let ?us = "takeWhile (\<lambda>x. ?k x \<le> ?k n) xs" and ?vs = "dropWhile (\<lambda>x. ?k x \<le> ?k n) xs"
  from list_insert_sort_dll[OF assms(1-3)] obtain h' where
    h': "list_insert_sort mem l n off h = Some h'" "dll h' l (sort_insert ?k n xs)"
      "same_outside (set (nodes l (n # xs))) h h'" by blast
  have "?k n < ?k x" if "x \<in> set ?vs" for x
  proof -
    from that obtain v vs where v: "?vs = v # vs" by (cases ?vs) auto
    then have "?k n < ?k v" by (metis dropWhile_eq_Cons_conv not_le)
    moreover have "sorted (map ?k (v # vs))"
      using sorted_dropWhile assms(4) v by (metis dropWhile_eq_drop drop_map sorted_wrt_drop)
    ultimately show ?thesis using that v by auto
  qed
  moreover have "?k x \<le> ?k n" if "x \<in> set ?us" for x
    using that by (auto dest: set_takeWhileD)
  ultimately show ?thesis
    using h' sort_insert_sorted[OF assms(4), of n]
    by (intro exI[of _ h'] exI[of _ ?us] exI[of _ ?vs]) (auto simp: sort_insert_def)
qed

definition two_node_heap :: lheap where
  "two_node_heap = \<lparr>lh_prev = (\<lambda>_. 0)(108 := 300, 300 := 200, 200 := 100),
     lh_next = (\<lambda>_. 0)(100 := 200, 200 := 300, 300 := 108)\<rparr>"

lemma list_insert_sort_sorted_witness:
  "\<exists>h' us vs. list_insert_sort int 100 250 4 two_node_heap = Some h'
    \<and> [200, 300] = us @ vs \<and> dll h' 100 (us @ 250 # vs)
    \<and> sorted (map (node_key int 4) (us @ 250 # vs))
    \<and> (\<forall>x \<in> set us. node_key int 4 x \<le> node_key int 4 250)
    \<and> (\<forall>x \<in> set vs. node_key int 4 250 < node_key int 4 x)
    \<and> same_outside (set (nodes 100 (250 # [200, 300]))) two_node_heap h'"
  by (rule list_insert_sort_sorted)
    (simp_all add: two_node_heap_def dll_def nodes_def l_tail_def enters_def detached_def
      node_key_def)

text \<open>
  C28: \<^verbatim>\<open>list_remove\<close> takes a node out of whichever list holds it and touches nothing else.
  The node's list keeps its other nodes in order, the node is detached (so it may enter
  another list), and every other well-formed list of the heap with different nodes is
  still the list it was.
\<close>

theorem list_remove_keeps_other_lists:
  assumes "dll h l (us @ n # vs)" and "dll h l2 ys"
    and "set (nodes l (us @ n # vs)) \<inter> set (nodes l2 ys) = {}"
  shows "\<exists>h'. list_remove n h = Some h' \<and> dll h' l (us @ vs) \<and> detached h' n \<and> dll h' l2 ys"
proof -
  from dll_remove[OF assms(1)] obtain h' where "list_remove n h = Some h'" "dll h' l (us @ vs)"
    "detached h' n" "same_outside (set (nodes l (us @ n # vs))) h h'" by blast
  with dll_frame[OF assms(2) _ assms(3)] show ?thesis by blast
qed

definition two_lists_heap :: lheap where
  "two_lists_heap = \<lparr>lh_prev = (lh_prev two_node_heap)(508 := 500),
     lh_next = (lh_next two_node_heap)(500 := 508)\<rparr>"

lemma list_remove_keeps_other_lists_witness:
  "\<exists>h'. list_remove 300 two_lists_heap = Some h' \<and> dll h' 100 ([200] @ []) \<and> detached h' 300
    \<and> dll h' 500 []"
  by (rule list_remove_keeps_other_lists)
    (simp_all add: two_lists_heap_def two_node_heap_def dll_def nodes_def l_tail_def)

end
