(* ===== verification/CString.thy ===== *)
theory CString
  imports Prelude
begin

text \<open>
  \<^verbatim>\<open>lib/string.c\<close> and \<^verbatim>\<open>lib/stdlib.c\<close>: C strings and memory blocks. The functions work on
  pointers, so the model has the memory: a map from addresses to bytes, with pointers as
  addresses, which keeps overlap and aliasing visible. \<open>cstr m p s\<close> says that the string
  \<open>s\<close> is stored at \<open>p\<close>; a loop that looks for a terminator and never meets one is the result
  \<open>None\<close>. \<^verbatim>\<open>char\<close> is signed, as gcc has it on x86.
\<close>

type_synonym ptr = nat
type_synonym mem = "ptr \<Rightarrow> u8"

abbreviation EOS :: u8 where "EOS \<equiv> 0"

section \<open>Copying\<close>

partial_function (option) strcpy_loop :: "ptr \<Rightarrow> ptr \<Rightarrow> mem \<Rightarrow> mem option" where
  "strcpy_loop ptr src m =
     (let m' = m(ptr := m src) in
      if m' src = EOS then Some m' else strcpy_loop (ptr + 1) (src + 1) m')"

definition strcpy :: "ptr \<Rightarrow> ptr \<Rightarrow> mem \<Rightarrow> (ptr \<times> mem) option" where
  "strcpy dest src m = do { m' \<leftarrow> strcpy_loop dest src m; Some (dest, m') }"

text \<open>\<open>left\<close> is \<^verbatim>\<open>count - nr\<close>; the flag tells whether the terminator was copied.\<close>

fun strncpy_loop :: "nat \<Rightarrow> ptr \<Rightarrow> ptr \<Rightarrow> mem \<Rightarrow> bool \<times> mem" where
  "strncpy_loop 0 ptr src m = (False, m)"
| "strncpy_loop (Suc left) ptr src m =
     (let m' = m(ptr := m src) in
      if m' src = EOS then (True, m') else strncpy_loop left (ptr + 1) (src + 1) m')"

definition strncpy :: "ptr \<Rightarrow> ptr \<Rightarrow> nat \<Rightarrow> mem \<Rightarrow> ptr \<times> mem" where
  "strncpy dest src count m =
     (case strncpy_loop count dest src m of
        (True, m') \<Rightarrow> (dest, m')
      | (False, m') \<Rightarrow> (dest, m'(dest + count - 1 := EOS)))"

partial_function (option) find_eos :: "ptr \<Rightarrow> mem \<Rightarrow> ptr option" where
  "find_eos ptr m = (if m ptr \<noteq> EOS then find_eos (ptr + 1) m else Some ptr)"

definition strcat :: "ptr \<Rightarrow> ptr \<Rightarrow> mem \<Rightarrow> (ptr \<times> mem) option" where
  "strcat dest src m = do {
     ptr \<leftarrow> find_eos dest m;
     m' \<leftarrow> strcpy_loop ptr src m;
     Some (dest, m')
   }"

definition strlen :: "ptr \<Rightarrow> mem \<Rightarrow> nat option" where
  "strlen str m = do { ptr \<leftarrow> find_eos str m; Some (ptr - str) }"

fun strnlen_loop :: "nat \<Rightarrow> ptr \<Rightarrow> mem \<Rightarrow> ptr" where
  "strnlen_loop 0 ptr m = ptr"
| "strnlen_loop (Suc maxlen) ptr m =
     (if m ptr \<noteq> EOS then strnlen_loop maxlen (ptr + 1) m else ptr)"

definition strnlen :: "ptr \<Rightarrow> nat \<Rightarrow> mem \<Rightarrow> nat" where
  "strnlen str maxlen m = strnlen_loop maxlen str m - str"

section \<open>Comparing and searching\<close>

partial_function (option) strcmp :: "ptr \<Rightarrow> ptr \<Rightarrow> mem \<Rightarrow> int option" where
  "strcmp lhs rhs m =
     (if m lhs = m rhs \<and> m lhs \<noteq> EOS \<and> m rhs \<noteq> EOS then strcmp (lhs + 1) (rhs + 1) m
      else Some (if sint (m lhs) < sint (m rhs) then - 1 else if sint (m lhs) > sint (m rhs) then 1 else 0))"

text \<open>
  The four searches differ in what they look for and in whether they keep the first or the
  last match; a \<^verbatim>\<open>NULL\<close> result is \<open>Some None\<close>.
\<close>

partial_function (option) first_match :: "(u8 \<Rightarrow> bool) \<Rightarrow> ptr \<Rightarrow> mem \<Rightarrow> ptr option option" where
  "first_match P ptr m =
     (if P (m ptr) then Some (Some ptr)
      else if m ptr = EOS then Some None else first_match P (ptr + 1) m)"

partial_function (option) last_match :: "(u8 \<Rightarrow> bool) \<Rightarrow> ptr option \<Rightarrow> ptr \<Rightarrow> mem \<Rightarrow> ptr option option" where
  "last_match P found ptr m =
     (let found' = (if P (m ptr) then Some ptr else found) in
      if m ptr = EOS then Some found' else last_match P found' (ptr + 1) m)"

definition strchr :: "ptr \<Rightarrow> int \<Rightarrow> mem \<Rightarrow> ptr option option" where
  "strchr str ch m = first_match (\<lambda>c. sint c = ch) str m"

definition strrchr :: "ptr \<Rightarrow> int \<Rightarrow> mem \<Rightarrow> ptr option option" where
  "strrchr str ch m = last_match (\<lambda>c. sint c = ch) None str m"

definition is_separator :: "u8 \<Rightarrow> bool" where
  "is_separator c \<longleftrightarrow> c = 47 \<or> c = 92"

definition strsep :: "ptr \<Rightarrow> mem \<Rightarrow> ptr option option" where
  "strsep str m = first_match is_separator str m"

definition strrsep :: "ptr \<Rightarrow> mem \<Rightarrow> ptr option option" where
  "strrsep str m = last_match is_separator None str m"

section \<open>Memory blocks\<close>

fun memcmp :: "ptr \<Rightarrow> ptr \<Rightarrow> nat \<Rightarrow> mem \<Rightarrow> int" where
  "memcmp lptr rptr 0 m = 0"
| "memcmp lptr rptr (Suc count) m =
     (if m lptr = m rptr then memcmp (lptr + 1) (rptr + 1) count m
      else if sint (m lptr) < sint (m rptr) then - 1
      else if sint (m lptr) > sint (m rptr) then 1 else 0)"

fun memset :: "ptr \<Rightarrow> int \<Rightarrow> nat \<Rightarrow> mem \<Rightarrow> mem" where
  "memset ptr ch 0 m = m"
| "memset ptr ch (Suc count) m = memset (ptr + 1) ch count (m(ptr := of_int ch))"

fun memcpy :: "ptr \<Rightarrow> ptr \<Rightarrow> nat \<Rightarrow> mem \<Rightarrow> mem" where
  "memcpy ptr src 0 m = m"
| "memcpy ptr src (Suc count) m = memcpy (ptr + 1) (src + 1) count (m(ptr := m src))"

text \<open>
  \<^verbatim>\<open>memchr\<close> falls off its end without a \<^verbatim>\<open>return\<close> when the byte is not found, so that its
  value is then undefined: \<open>None\<close>.
\<close>

fun memchr :: "ptr \<Rightarrow> int \<Rightarrow> nat \<Rightarrow> mem \<Rightarrow> ptr option" where
  "memchr ptr ch 0 m = None"
| "memchr ptr ch (Suc count) m = (if sint (m ptr) = ch then Some ptr else memchr (ptr + 1) ch count m)"

section \<open>Numbers\<close>

definition is_digit :: "u8 \<Rightarrow> bool" where
  "is_digit c \<longleftrightarrow> 48 \<le> c \<and> c \<le> 57"

definition bcd_to_bin :: "u8 \<Rightarrow> u8" where
  "bcd_to_bin v = (v AND 0xF) + drop_bit 4 v * 10"

definition bin_to_bcd :: "u8 \<Rightarrow> u8" where
  "bin_to_bcd v = (v div 10) * 0x10 + v mod 10"

definition div_round_up :: "u32 \<Rightarrow> u32 \<Rightarrow> u32" where
  "div_round_up num sz = (num + sz - 1) div sz"

partial_function (option) skip_atoi_loop :: "u32 \<Rightarrow> ptr \<Rightarrow> mem \<Rightarrow> (u32 \<times> ptr) option" where
  "skip_atoi_loop i s m =
     (if is_digit (m s) then skip_atoi_loop (i * 10 + scast (m s) - 48) (s + 1) m
      else Some (i, s))"

definition skip_atoi :: "ptr \<Rightarrow> mem \<Rightarrow> (u32 \<times> ptr) option" where
  "skip_atoi s m = skip_atoi_loop 0 s m"

partial_function (option) atoi_loop :: "u32 \<Rightarrow> ptr \<Rightarrow> mem \<Rightarrow> u32 option" where
  "atoi_loop result str m =
     (if m str \<noteq> EOS then atoi_loop (result * 10 + (scast (m str) - 48)) (str + 1) m
      else Some result)"

text \<open>\<^verbatim>\<open>atoi\<close> skips a minus sign and records it in a \<^verbatim>\<open>bool\<close> that it never uses.\<close>

definition atoi :: "ptr \<Rightarrow> mem \<Rightarrow> u32 option" where
  "atoi str m =
     (if str = 0 then Some 0
      else if m str = 45 then atoi_loop 0 (str + 1) m
      else atoi_loop 0 str m)"

section \<open>Stored strings\<close>

fun cstr :: "mem \<Rightarrow> ptr \<Rightarrow> u8 list \<Rightarrow> bool" where
  "cstr m p [] \<longleftrightarrow> m p = EOS"
| "cstr m p (c # s) \<longleftrightarrow> m p = c \<and> c \<noteq> EOS \<and> cstr m (p + 1) s"

fun stored :: "mem \<Rightarrow> ptr \<Rightarrow> u8 list \<Rightarrow> bool" where
  "stored m p [] \<longleftrightarrow> True"
| "stored m p (c # s) \<longleftrightarrow> m p = c \<and> stored m (p + 1) s"

text \<open>The memory with the bytes \<open>bs\<close> written from \<open>p\<close> on.\<close>

definition put_bytes :: "mem \<Rightarrow> ptr \<Rightarrow> u8 list \<Rightarrow> mem" where
  "put_bytes m p bs = (\<lambda>a. if p \<le> a \<and> a < p + length bs then bs ! (a - p) else m a)"

lemma put_bytes_Nil [simp]: "put_bytes m p [] = m"
  by (rule ext) (auto simp: put_bytes_def)

lemma put_bytes_Cons: "put_bytes m p (b # bs) = put_bytes (m(p := b)) (p + 1) bs"
  by (rule ext) (auto simp: put_bytes_def nth_Cons' Suc_diff_le split: nat.splits)

lemma put_bytes_other: "a < p \<or> p + length bs \<le> a \<Longrightarrow> put_bytes m p bs a = m a"
  by (auto simp: put_bytes_def)

lemma cstr_cong:
  "cstr m p s \<Longrightarrow> (\<And>a. p \<le> a \<Longrightarrow> a \<le> p + length s \<Longrightarrow> m' a = m a) \<Longrightarrow> cstr m' p s"
  by (induction m p s rule: cstr.induct) auto

lemma cstr_nonzero: "cstr m p s \<Longrightarrow> EOS \<notin> set s"
  by (induction m p s rule: cstr.induct) auto

lemma cstr_put_bytes: "EOS \<notin> set s \<Longrightarrow> cstr (put_bytes m p (s @ [EOS])) p s"
proof (induction s arbitrary: m p)
  case Nil
  then show ?case by (simp add: put_bytes_Cons)
next
  case (Cons c s)
  then show ?case by (simp add: put_bytes_Cons put_bytes_other)
qed

lemma cstr_at: "cstr m p (s @ t) \<Longrightarrow> cstr m (p + length s) t"
proof (induction s arbitrary: p)
  case (Cons c s)
  from Cons.prems Cons.IH[of "p + 1"] show ?case by simp
qed simp

section \<open>Copying writes what it should\<close>

lemma strcpy_loop_cstr:
  assumes "cstr m src s" and "dest \<le> src \<or> src + length s < dest"
  shows "strcpy_loop dest src m = Some (put_bytes m dest (s @ [EOS]))"
  using assms
proof (induction s arbitrary: dest src m)
  case Nil
  then show ?case by (subst strcpy_loop.simps) (auto simp: Let_def put_bytes_Cons)
next
  case (Cons c s)
  let ?m = "m(dest := m src)"
  have c: "m src = c" "c \<noteq> EOS" using Cons.prems(1) by auto
  have "cstr ?m (src + 1) s"
    by (rule cstr_cong[of m]) (use Cons.prems in auto)
  moreover have "dest + 1 \<le> src + 1 \<or> src + 1 + length s < dest + 1"
    using Cons.prems(2) by auto
  ultimately have "strcpy_loop (dest + 1) (src + 1) ?m = Some (put_bytes ?m (dest + 1) (s @ [EOS]))"
    by (rule Cons.IH)
  moreover have "?m src = c" using c by simp
  ultimately have "strcpy_loop dest src m = Some (put_bytes ?m (dest + 1) (s @ [EOS]))"
    using c(2) by (subst strcpy_loop.simps) (simp only: Let_def if_False)
  then show ?case using c by (simp add: put_bytes_Cons)
qed

lemma find_eos_cstr: "cstr m p s \<Longrightarrow> find_eos p m = Some (p + length s)"
proof (induction s arbitrary: p)
  case Nil
  then show ?case by (subst find_eos.simps) simp
next
  case (Cons c s)
  then show ?case by (subst find_eos.simps) simp
qed

lemma strlen_cstr: "cstr m p s \<Longrightarrow> strlen p m = Some (length s)"
  by (simp add: strlen_def find_eos_cstr)

lemma strnlen_loop_cstr: "cstr m p s \<Longrightarrow> strnlen_loop n p m = p + min n (length s)"
  by (induction n p m arbitrary: s rule: strnlen_loop.induct) (case_tac s; auto)+

section \<open>Comparing and searching\<close>

abbreviation signed_less :: "u8 \<Rightarrow> u8 \<Rightarrow> bool" where
  "signed_less a b \<equiv> sint a < sint b"

fun str_less :: "u8 list \<Rightarrow> u8 list \<Rightarrow> bool" where
  "str_less [] [] \<longleftrightarrow> False"
| "str_less [] (b # t) \<longleftrightarrow> signed_less EOS b"
| "str_less (a # s) [] \<longleftrightarrow> signed_less a EOS"
| "str_less (a # s) (b # t) \<longleftrightarrow> signed_less a b \<or> a = b \<and> str_less s t"

lemma strcmp_cstr:
  assumes "cstr m l s" "cstr m r t"
  shows "strcmp l r m = Some (if s = t then 0 else if str_less s t then - 1 else 1)"
  using assms
proof (induction s t arbitrary: l r rule: str_less.induct)
  case 1
  then show ?case by (subst strcmp.simps) simp
next
  case (2 b t)
  moreover have "sint b \<noteq> 0" using 2 by (auto simp: signed_eq_0_iff)
  ultimately show ?case by (subst strcmp.simps) auto
next
  case (3 a s)
  moreover have "sint a \<noteq> 0" using 3 by (auto simp: signed_eq_0_iff)
  ultimately show ?case by (subst strcmp.simps) auto
next
  case (4 a s b t)
  show ?case
  proof (cases "a = b")
    case True
    with 4 show ?thesis by (subst strcmp.simps) auto
  next
    case False
    then have "sint a \<noteq> sint b" using signed_word_eqI by blast
    with 4 False show ?thesis by (subst strcmp.simps) auto
  qed
qed

lemma first_match_cstr:
  assumes "cstr m p s" "\<not> P EOS"
  shows "first_match P p m = Some (if \<exists>c \<in> set s. P c
    then Some (p + length (takeWhile (\<lambda>c. \<not> P c) s)) else None)"
  using assms
proof (induction s arbitrary: p)
  case Nil
  then show ?case by (subst first_match.simps) simp
next
  case (Cons c s)
  then show ?case by (subst first_match.simps) simp
qed

section \<open>Decimal numbers\<close>

fun dec_value :: "u8 list \<Rightarrow> nat \<Rightarrow> nat" where
  "dec_value [] acc = acc"
| "dec_value (c # s) acc = dec_value s (10 * acc + (unat c - 48))"

lemma digit_value:
  assumes "is_digit c"
  shows "scast c = (48 + of_nat (unat c - 48) :: u32)" "48 \<le> unat c" "c \<noteq> EOS"
proof -
  have "48 \<le> unat c" "unat c \<le> 57"
    using assms by (auto simp: is_digit_def word_le_nat_alt)
  moreover have "c = word_of_nat (unat c)" by simp
  ultimately obtain k :: nat where k: "c = word_of_nat k" "48 \<le> k" "k \<le> 57" by blast
  then have "k = 48 \<or> k = 49 \<or> k = 50 \<or> k = 51 \<or> k = 52 \<or> k = 53 \<or> k = 54 \<or> k = 55 \<or> k = 56 \<or> k = 57"
    by arith
  with k(1) have "c = 48 \<or> c = 49 \<or> c = 50 \<or> c = 51 \<or> c = 52 \<or> c = 53 \<or> c = 54 \<or> c = 55 \<or> c = 56 \<or> c = 57"
    by auto
  then show "scast c = (48 + of_nat (unat c - 48) :: u32)" "48 \<le> unat c" "c \<noteq> EOS"
    by (elim disjE; simp)+
qed

lemma skip_atoi_loop_digits:
  assumes "stored m p s" "\<forall>c \<in> set s. is_digit c" "\<not> is_digit (m (p + length s))"
  shows "skip_atoi_loop (of_nat acc) p m = Some (of_nat (dec_value s acc), p + length s)"
  using assms
proof (induction s arbitrary: p acc)
  case Nil
  then show ?case by (subst skip_atoi_loop.simps) simp
next
  case (Cons c s)
  from Cons.prems digit_value[of c] have "(of_nat acc :: u32) * 10 + scast (m p) - 48
      = of_nat (10 * acc + (unat c - 48))"
    by (simp add: mult.commute)
  then show ?case
    using Cons.IH[of "p + 1" "10 * acc + (unat c - 48)"] Cons.prems
    by (subst skip_atoi_loop.simps) (simp del: of_nat_add of_nat_mult)
qed

lemma atoi_loop_digits:
  assumes "cstr m p s" "\<forall>c \<in> set s. is_digit c"
  shows "atoi_loop (of_nat acc) p m = Some (of_nat (dec_value s acc))"
  using assms
proof (induction s arbitrary: p acc)
  case Nil
  then show ?case by (subst atoi_loop.simps) simp
next
  case (Cons c s)
  from Cons.prems digit_value[of c] have "(of_nat acc :: u32) * 10 + (scast (m p) - 48)
      = of_nat (10 * acc + (unat c - 48))"
    by (simp add: mult.commute)
  then show ?case
    using Cons.IH[of "p + 1" "10 * acc + (unat c - 48)"] Cons.prems
    by (subst atoi_loop.simps) (simp del: of_nat_add of_nat_mult)
qed

section \<open>Properties\<close>

text \<open>
  C32: \<^verbatim>\<open>strcpy\<close> and \<^verbatim>\<open>strcmp\<close> agree on what a string is. Copying a string stored at \<open>src\<close>
  to a destination that does not start inside it returns, leaves exactly the string and its
  terminator at \<open>dest\<close> and every other byte of the memory as it was; a string \<open>t\<close> stored
  elsewhere then compares equal with the copy exactly when it is the string copied, and
  otherwise with the sign of their order by signed characters.
\<close>

theorem strcpy_strcmp:
  assumes "cstr m src s" and "dest \<le> src \<or> src + length s < dest"
    and "cstr m q t" and "q + length t < dest \<or> dest + length s < q"
  shows "\<exists>m'. strcpy dest src m = Some (dest, m') \<and> cstr m' dest s
    \<and> (\<forall>a. a < dest \<or> dest + length s < a \<longrightarrow> m' a = m a)
    \<and> strcmp dest q m' = Some (if s = t then 0 else if str_less s t then - 1 else 1)"
proof -
  let ?m = "put_bytes m dest (s @ [EOS])"
  have c: "cstr ?m dest s" using cstr_put_bytes cstr_nonzero[OF assms(1)] by blast
  have "cstr ?m q t"
    by (rule cstr_cong[OF assms(3)]) (use assms(4) in \<open>auto intro!: put_bytes_other\<close>)
  from strcmp_cstr[OF c this] c strcpy_loop_cstr[OF assms(1,2)] show ?thesis
    by (auto simp: strcpy_def intro!: put_bytes_other)
qed

definition sample_mem :: mem where
  "sample_mem = put_bytes (\<lambda>_. 7) 100 [98, 105, 110, 0, 98, 117, 115, 0]"

lemma strcpy_strcmp_witness:
  "\<exists>m'. strcpy 200 100 sample_mem = Some (200, m') \<and> cstr m' 200 [98, 105, 110]
    \<and> (\<forall>a. a < 200 \<or> 200 + length [98::u8, 105, 110] < a \<longrightarrow> m' a = sample_mem a)
    \<and> strcmp 200 104 m' = Some (if [98, 105, 110] = [98::u8, 117, 115] then 0
        else if str_less [98, 105, 110] [98, 117, 115] then - 1 else 1)"
  by (rule strcpy_strcmp) (simp_all add: sample_mem_def put_bytes_def)

text \<open>
  \<^verbatim>\<open>strsep\<close> finds the first separator of a path. On a stored string it returns the
  address of the first \<open>/\<close> or \<open>\\<close>, or \<^verbatim>\<open>NULL\<close> when the string has none.
\<close>

lemma strsep_first_separator:
  assumes "cstr m p s"
  shows "strsep p m = Some (if \<exists>c \<in> set s. is_separator c
    then Some (p + length (takeWhile (\<lambda>c. \<not> is_separator c) s)) else None)"
  unfolding strsep_def by (rule first_match_cstr[OF assms]) (simp add: is_separator_def)

end
