(* ===== verification/Memory_Words.thy ===== *)
theory Memory_Words
  imports CString
begin

text \<open>
  Words in the byte memory of \<open>CString\<close>, low byte first as the processor stores them, and lemmas on
  bytes and strings that lie in it.
\<close>

section \<open>Words in memory\<close>

definition bytes32 :: "u32 \<Rightarrow> u8 list" where
  "bytes32 v = [ucast v, ucast (drop_bit 8 v), ucast (drop_bit 16 v), ucast (drop_bit 24 v)]"

definition load16 :: "mem \<Rightarrow> ptr \<Rightarrow> u16" where
  "load16 m p = ucast (m p) OR push_bit 8 (ucast (m (p + 1)))"

definition load32 :: "mem \<Rightarrow> ptr \<Rightarrow> u32" where
  "load32 m p = ucast (load16 m p) OR push_bit 16 (ucast (load16 m (p + 2)))"

definition store32 :: "ptr \<Rightarrow> u32 \<Rightarrow> mem \<Rightarrow> mem" where
  "store32 p v m = put_bytes m p (bytes32 v)"

section \<open>Words and strings that are stored\<close>

lemma bytes32_length [simp]: "length (bytes32 v) = 4"
  by (simp add: bytes32_def)

lemma stored_append: "stored m p (xs @ ys) \<longleftrightarrow> stored m p xs \<and> stored m (p + length xs) ys"
  by (induction xs arbitrary: p) (auto simp: add.commute add.left_commute)

lemma stored_cong:
  "stored m p xs \<Longrightarrow> (\<And>a. p \<le> a \<Longrightarrow> a < p + length xs \<Longrightarrow> m' a = m a) \<Longrightarrow> stored m' p xs"
  by (induction m p xs rule: stored.induct) auto

lemma stored_nth: "stored m p xs \<longleftrightarrow> (\<forall>i < length xs. m (p + i) = xs ! i)"
  by (induction m p xs rule: stored.induct) (simp_all add: All_less_Suc2)

lemma stored_put_bytes [simp]: "stored (put_bytes m p xs) p xs"
  by (simp add: stored_nth put_bytes_def)

lemma stored_map [simp]: "stored m p (map m [p ..< p + n])"
  by (simp add: stored_nth)

lemma stored_imp_map: "stored m p xs \<Longrightarrow> map m [p ..< p + length xs] = xs"
  by (rule nth_equalityI) (simp_all add: stored_nth)

lemma stored_cstr: "stored m p (s @ [EOS]) \<Longrightarrow> EOS \<notin> set s \<Longrightarrow> cstr m p s"
  by (induction s arbitrary: p) auto

lemma cstr_stored: "cstr m p s \<Longrightarrow> stored m p (s @ [EOS])"
  by (induction m p s rule: cstr.induct) auto

lemma load32_bytes: "stored m p (bytes32 v) \<Longrightarrow> load32 m p = v"
proof -
  assume "stored m p (bytes32 v)"
  then have "m p = ucast v" "m (p + 1) = ucast (drop_bit 8 v)" "m (p + 2) = ucast (drop_bit 16 v)"
    "m (Suc (Suc (Suc p))) = ucast (drop_bit 24 v)" by (simp_all add: bytes32_def)
  then have "load32 m p = (ucast (ucast (ucast v :: u8) OR push_bit 8 (ucast (ucast (drop_bit 8 v) :: u8)) :: u16)
    OR push_bit 16 (ucast (ucast (ucast (drop_bit 16 v) :: u8) OR push_bit 8 (ucast (ucast (drop_bit 24 v) :: u8)) :: u16)) :: u32)"
    by (simp add: load32_def load16_def)
  also have "\<dots> = v"
  proof (rule bit_word_eqI)
    fix n assume "n < LENGTH(32)"
    then consider "n < 8" | "8 \<le> n" "n < 16" | "16 \<le> n" "n < 24" | "24 \<le> n" "n < 32" by fastforce
    then show "bit (ucast (ucast (ucast v :: u8) OR push_bit 8 (ucast (ucast (drop_bit 8 v) :: u8)) :: u16)
      OR push_bit 16 (ucast (ucast (ucast (drop_bit 16 v) :: u8) OR push_bit 8 (ucast (ucast (drop_bit 24 v) :: u8)) :: u16)) :: u32) n = bit v n"
      by cases (auto simp: bit_simps)
  qed
  finally show ?thesis .
qed

lemma memcpy_bytes:
  "d + n \<le> s \<or> s + n \<le> d \<Longrightarrow> memcpy d s n m = put_bytes m d (map m [s ..< s + n])"
proof (induction n arbitrary: d s m)
  case (Suc n)
  have "memcpy (d + 1) (s + 1) n (m(d := m s))
      = put_bytes (m(d := m s)) (d + 1) (map (m(d := m s)) [s + 1 ..< s + 1 + n])"
    by (rule Suc.IH) (use Suc.prems in auto)
  also have "map (m(d := m s)) [s + 1 ..< s + 1 + n] = map m [s + 1 ..< s + 1 + n]"
    using Suc.prems by auto
  finally have "memcpy (d + 1) (s + 1) n (m(d := m s))
      = put_bytes (m(d := m s)) (d + 1) (map m [s + 1 ..< s + 1 + n])" .
  moreover have "map m [s ..< s + Suc n] = m s # map m [s + 1 ..< s + 1 + n]"
    by (simp add: upt_conv_Cons del: upt_Suc)
  ultimately show ?case by (simp only: memcpy.simps put_bytes_Cons)
qed simp

lemma load32_cong:
  "(\<And>a. p \<le> a \<Longrightarrow> a < p + 4 \<Longrightarrow> m' a = m a) \<Longrightarrow> load32 m' p = load32 m p"
  by (simp add: load32_def load16_def)

lemma load32_shift:
  "(\<And>j. j < 4 \<Longrightarrow> m' (q + j) = m (p + j)) \<Longrightarrow> load32 m' q = load32 m p"
proof -
  assume a: "\<And>j. j < 4 \<Longrightarrow> m' (q + j) = m (p + j)"
  show ?thesis using a[of 0] a[of 1] a[of 2] a[of 3] by (simp add: load32_def load16_def eval_nat_numeral)
qed

lemma load32_store32 [simp]: "load32 (store32 p v m) p = v"
  by (rule load32_bytes) (simp add: store32_def)

lemma store32_other: "a < p \<or> p + 4 \<le> a \<Longrightarrow> store32 p v m a = m a"
  by (simp add: store32_def put_bytes_other)

lemma load32_store32_other: "q + 4 \<le> p \<or> p + 4 \<le> q \<Longrightarrow> load32 (store32 p v m) q = load32 m q"
  by (rule load32_cong) (auto intro!: store32_other)

end
