(* ===== verification/Format.thy ===== *)
theory Format
  imports CString
begin

text \<open>
  \<^verbatim>\<open>number\<close> (\<^verbatim>\<open>lib/string.c\<close>) and \<^verbatim>\<open>vsprintf\<close> (\<^verbatim>\<open>lib/vsprintf.c\<close>): the formatting
  behind \<^verbatim>\<open>printk\<close> and \<^verbatim>\<open>printf\<close>. The output goes to the memory of \<open>CString\<close>; the
  arguments are the list of 32-bit stack slots \<^verbatim>\<open>va_arg\<close> reads one after the other, and
  \<^verbatim>\<open>number\<close>'s buffer \<open>tmp\<close> is a list of its 35 bytes, so that an index outside it is \<open>None\<close>.
\<close>

section \<open>Flags\<close>

abbreviation SMALL :: u32 where "SMALL \<equiv> 0x01"
abbreviation ZEROPAD :: u32 where "ZEROPAD \<equiv> 0x02"
abbreviation LEFT :: u32 where "LEFT \<equiv> 0x04"
abbreviation SIGN :: u32 where "SIGN \<equiv> 0x08"
abbreviation PLUS :: u32 where "PLUS \<equiv> 0x10"
abbreviation SPECIAL :: u32 where "SPECIAL \<equiv> 0x20"
abbreviation SPACE :: u32 where "SPACE \<equiv> 0x40"

definition has :: "u32 \<Rightarrow> u32 \<Rightarrow> bool" where
  "has flags f \<longleftrightarrow> flags AND f \<noteq> 0"

section \<open>number\<close>

definition digits_upper :: "u8 list" where
  "digits_upper = map of_nat ([48..<58] @ [65..<91])"

definition digits_lower :: "u8 list" where
  "digits_lower = map of_nat ([48..<58] @ [97..<123])"

partial_function (option) number_digits ::
    "u8 list \<Rightarrow> int \<Rightarrow> u32 \<Rightarrow> int \<Rightarrow> u8 list \<Rightarrow> (int \<times> u8 list) option" where
  "number_digits digits base num index tmp =
     (if num \<noteq> 0 then
        Option.bind (rd digits (unat (num mod of_int base))) (\<lambda>d.
        Option.bind (wri tmp (33 - index) d) (\<lambda>tmp.
        number_digits digits base (num div of_int base) (index + 1) tmp))
      else Some (index, tmp))"

text \<open>The prefix of \<open>#\<close>: \<^verbatim>\<open>0b\<close>, \<^verbatim>\<open>0\<close> or \<^verbatim>\<open>0x\<close>, written in front of the field.\<close>

definition number_special :: "u8 list \<Rightarrow> int \<Rightarrow> int \<Rightarrow> u8 list \<Rightarrow> (int \<times> u8 list) option" where
  "number_special digits base sz tmp =
     (if base = 2 then do {
        d \<leftarrow> rd digits 11;
        tmp \<leftarrow> wri tmp (33 - sz) d;
        tmp \<leftarrow> wri tmp (33 - (sz + 1)) 48;
        Some (sz + 2, tmp) }
      else if base = 8 then do {
        tmp \<leftarrow> wri tmp (33 - sz) 48;
        Some (sz + 1, tmp) }
      else if base = 16 then do {
        d \<leftarrow> rd digits 33;
        tmp \<leftarrow> wri tmp (33 - sz) d;
        tmp \<leftarrow> wri tmp (33 - (sz + 1)) 48;
        Some (sz + 2, tmp) }
      else Some (sz, tmp))"

definition char_of_int :: "int \<Rightarrow> int" where
  "char_of_int i = sint (word_of_int i :: 8 word)"

text \<open>
  The last loop copies \<open>left\<close> bytes from \<open>tmp[34 - left]\<close> on. The result \<open>Some None\<close> is
  the null pointer of an unsupported base.
\<close>

definition number :: "ptr \<Rightarrow> u32 \<Rightarrow> int \<Rightarrow> int \<Rightarrow> int \<Rightarrow> u32 \<Rightarrow> mem \<Rightarrow> (ptr \<times> mem) option option" where
  "number str num base sz precision flags m =
     (if base < 2 \<or> base > 36 then Some None
      else do {
        let pad = (if has flags ZEROPAD then 48 else 32);
        let digits = (if has flags SMALL then digits_lower else digits_upper);
        let (str, m, num) =
          (if has flags SIGN \<and> num < 0 then (str + 1, m(str := 45), - num)
           else if has flags PLUS then (str + 1, m(str := 43), num)
           else (str, m, num));
        let tmp = replicate 35 pad;
        (index, tmp) \<leftarrow>
          (if num = 0 then do { d \<leftarrow> rd digits 0; tmp \<leftarrow> wri tmp 33 d; Some (1, tmp) }
           else number_digits digits base num 0 tmp);
        let sz = (if sz > 0 then sz else index);
        let index = (if precision < index \<and> \<not> precision < 0 then precision else index);
        check (0 \<le> 34 - index \<and> 34 - index \<le> 35);
        let tmp = replicate (nat (34 - index)) pad @ drop (nat (34 - index)) tmp;
        (sz, tmp) \<leftarrow> (if has flags SPECIAL then number_special digits base sz tmp else Some (sz, tmp));
        let left = char_of_int (if index < sz then if has flags LEFT then index else sz else sz);
        tmp \<leftarrow> wri tmp 34 0;
        check (left \<le> 34);
        let out = take (nat left) (drop (nat (34 - left)) tmp);
        Some (Some (str + length out, put_bytes m str out))
      })"

section \<open>vsprintf\<close>

partial_function (option) format_flags :: "ptr \<Rightarrow> u32 \<Rightarrow> mem \<Rightarrow> (ptr \<times> u32) option" where
  "format_flags fmt flags m =
     (let fmt' = fmt + 1; c = m fmt' in
      if c = 45 then format_flags fmt' (flags OR LEFT) m
      else if c = 43 then format_flags fmt' (flags OR PLUS) m
      else if c = 32 then format_flags fmt' (flags OR SPACE) m
      else if c = 35 then format_flags fmt' (flags OR SPECIAL) m
      else if c = 48 then format_flags fmt' (flags OR ZEROPAD) m
      else Some (fmt', flags))"

fun va_arg :: "u32 list \<Rightarrow> (u32 \<times> u32 list) option" where
  "va_arg [] = None"
| "va_arg (a # args) = Some (a, args)"

definition format_width :: "ptr \<Rightarrow> u32 \<Rightarrow> u32 list \<Rightarrow> mem \<Rightarrow> (ptr \<times> int \<times> u32 \<times> u32 list) option" where
  "format_width fmt flags args m =
     (if is_digit (m fmt) then do {
        (i, fmt) \<leftarrow> skip_atoi fmt m;
        Some (fmt, sint i, flags, args) }
      else if m fmt = 42 then do {
        (a, args) \<leftarrow> va_arg args;
        if sint a < 0 then Some (fmt + 1, - sint a, flags OR LEFT, args)
        else Some (fmt + 1, sint a, flags, args) }
      else Some (fmt, - 1, flags, args))"

definition format_precision :: "ptr \<Rightarrow> u32 list \<Rightarrow> mem \<Rightarrow> (ptr \<times> int \<times> u32 list) option" where
  "format_precision fmt args m =
     (if m fmt = 46 then do {
        let fmt = fmt + 1;
        (fmt, precision, args) \<leftarrow>
          (if is_digit (m fmt) then do { (i, fmt) \<leftarrow> skip_atoi fmt m; Some (fmt, sint i, args) }
           else if m fmt = 42 then do { (a, args) \<leftarrow> va_arg args; Some (fmt, sint a, args) }
           else Some (fmt, - 1, args));
        Some (fmt, if precision < 0 then 0 else precision, args) }
      else Some (fmt, - 1, args))"

function pad_spaces :: "int \<Rightarrow> ptr \<Rightarrow> mem \<Rightarrow> int \<times> ptr \<times> mem" where
  "pad_spaces width str m =
     (let width' = width - 1 in
      if width' > 0 then pad_spaces width' (str + 1) (m(str := 32)) else (width', str, m))"
  by pat_completeness auto
termination by (relation "measure (\<lambda>(width, _). nat width)") auto

definition format_char :: "u32 \<Rightarrow> int \<Rightarrow> ptr \<Rightarrow> u32 list \<Rightarrow> mem \<Rightarrow> (ptr \<times> u32 list \<times> mem) option" where
  "format_char flags width str args m = do {
     let (width, str, m) = (if \<not> has flags LEFT then pad_spaces width str m else (width, str, m));
     (a, args) \<leftarrow> va_arg args;
     let (width, str, m) = pad_spaces width (str + 1) (m(str := ucast a));
     Some (str, args, m)
   }"

definition format_string ::
    "u32 \<Rightarrow> int \<Rightarrow> int \<Rightarrow> ptr \<Rightarrow> u32 list \<Rightarrow> mem \<Rightarrow> (ptr \<times> u32 list \<times> mem) option" where
  "format_string flags width precision str args m = do {
     (a, args) \<leftarrow> va_arg args;
     n \<leftarrow> strlen (unat a) m;
     let len = (if 0 \<le> precision \<and> int n > precision then nat precision else n);
     let (width, str, m) = (if \<not> has flags LEFT then pad_spaces width str m else (width, str, m));
     let m = memcpy str (unat a) len m;
     let (width, str, m) = pad_spaces width (str + len) m;
     Some (str, args, m)
   }"

definition format_number ::
    "u32 \<Rightarrow> int \<Rightarrow> int \<Rightarrow> int \<Rightarrow> ptr \<Rightarrow> u32 list \<Rightarrow> mem \<Rightarrow> (ptr \<times> u32 list \<times> mem) option" where
  "format_number flags base width precision str args m = do {
     (a, args) \<leftarrow> va_arg args;
     (str, m) \<leftarrow> Option.bind (number str a base width precision flags m) id;
     Some (str, args, m)
   }"

text \<open>One directive, from behind the \<open>%\<close>; the new \<open>fmt\<close> is what \<^verbatim>\<open>++fmt\<close> then starts from.\<close>

definition format_directive ::
    "ptr \<Rightarrow> ptr \<Rightarrow> ptr \<Rightarrow> u32 list \<Rightarrow> mem \<Rightarrow> (ptr \<times> ptr \<times> u32 list \<times> mem) option" where
  "format_directive buf fmt str args m = do {
     (fmt, flags) \<leftarrow> format_flags fmt 0 m;
     (fmt, width, flags, args) \<leftarrow> format_width fmt flags args m;
     (fmt, precision, args) \<leftarrow> format_precision fmt args m;
     let fmt = (if m fmt = 104 \<or> m fmt = 108 \<or> m fmt = 76 then fmt + 1 else fmt);
     let c = m fmt;
     if c = 99 then do {
       (str, args, m) \<leftarrow> format_char flags width str args m; Some (fmt, str, args, m) }
     else if c = 115 then do {
       (str, args, m) \<leftarrow> format_string flags width precision str args m; Some (fmt, str, args, m) }
     else if c = 111 then do {
       (str, args, m) \<leftarrow> format_number flags 8 width precision str args m; Some (fmt, str, args, m) }
     else if c = 112 then do {
       let (width, flags) = (if width = - 1 then (8, flags OR ZEROPAD) else (width, flags));
       (str, args, m) \<leftarrow> format_number flags 16 width precision str args m; Some (fmt, str, args, m) }
     else if c = 120 \<or> c = 88 then do {
       let flags = (if c = 120 then flags OR SMALL else flags);
       (str, args, m) \<leftarrow> format_number flags 16 width precision str args m; Some (fmt, str, args, m) }
     else if c = 100 \<or> c = 105 \<or> c = 117 then do {
       let flags = (if c = 117 then flags else flags OR SIGN);
       (str, args, m) \<leftarrow> format_number flags 10 width precision str args m; Some (fmt, str, args, m) }
     else if c = 110 then do {
       (a, args) \<leftarrow> va_arg args;
       let n = (of_nat (str - buf) :: u32);
       let m = put_bytes m (unat a) [ucast n, ucast (drop_bit 8 n), ucast (drop_bit 16 n), ucast (drop_bit 24 n)];
       Some (fmt, str, args, m) }
     else do {
       let (str, m) = (if c \<noteq> 37 then (str + 1, m(str := 37)) else (str, m));
       if m fmt \<noteq> EOS then Some (fmt, str + 1, args, m(str := m fmt)) else Some (fmt - 1, str, args, m)
     }
   }"

partial_function (option) vsprintf_loop ::
    "ptr \<Rightarrow> ptr \<Rightarrow> ptr \<Rightarrow> u32 list \<Rightarrow> mem \<Rightarrow> (ptr \<times> mem) option" where
  "vsprintf_loop buf fmt str args m =
     (if m fmt = EOS then Some (str, m)
      else if m fmt \<noteq> 37 then vsprintf_loop buf (fmt + 1) (str + 1) args (m(str := m fmt))
      else Option.bind (format_directive buf fmt str args m) (\<lambda>(fmt, str, args, m).
        vsprintf_loop buf (fmt + 1) str args m))"

definition vsprintf :: "ptr \<Rightarrow> ptr \<Rightarrow> u32 list \<Rightarrow> mem \<Rightarrow> (nat \<times> mem) option" where
  "vsprintf buf fmt args m = do {
     (str, m) \<leftarrow> vsprintf_loop buf fmt buf args m;
     let m = m(str := EOS);
     let i = str - buf;
     check (i < 1024);
     Some (i, m)
   }"


section \<open>The digits of a number\<close>

fun digs :: "nat \<Rightarrow> nat \<Rightarrow> nat list" where
  "digs b n = (if n = 0 \<or> b < 2 then [] else digs b (n div b) @ [n mod b])"

declare digs.simps [simp del]

lemma digs_0 [simp]: "digs b 0 = []"
  by (simp add: digs.simps)

lemma digs_pos: "0 < n \<Longrightarrow> 2 \<le> b \<Longrightarrow> digs b n = digs b (n div b) @ [n mod b]"
  by (subst digs.simps) simp

lemma length_digs: "2 \<le> b \<Longrightarrow> n < 2 ^ k \<Longrightarrow> length (digs b n) \<le> k"
proof (induction k arbitrary: n)
  case (Suc k)
  show ?case
  proof (cases "n = 0")
    case False
    have "n div b \<le> n div 2" using Suc.prems(1) by (rule div_le_mono2[rotated]) simp
    also have "\<dots> < 2 ^ k" using Suc.prems(2) by simp
    finally have "length (digs b (n div b)) \<le> k" using Suc by simp
    with False Suc.prems(1) show ?thesis by (simp add: digs_pos)
  qed simp
qed simp

lemma digs_less: "2 \<le> b \<Longrightarrow> d \<in> set (digs b n) \<Longrightarrow> d < b"
proof (induction n rule: less_induct)
  case (less n)
  then show ?case
    using less.IH[of "n div b"] by (cases "n = 0") (auto simp: digs_pos)
qed

lemma foldl_digs: "2 \<le> b \<Longrightarrow> foldl (\<lambda>v d. b * v + d) 0 (digs b n) = n"
proof (induction n rule: less_induct)
  case (less n)
  then show ?case by (cases "n = 0") (auto simp: digs_pos)
qed

lemma number_digits_eq:
  assumes b: "2 \<le> b" "b \<le> 36" and D: "length D = 36"
  shows "length tmp = 35 \<Longrightarrow> k + length (digs (nat b) (unat num)) \<le> 34 \<Longrightarrow>
    number_digits D b num (int k) tmp =
      Some (int (k + length (digs (nat b) (unat num))),
        take (34 - k - length (digs (nat b) (unat num))) tmp
        @ map ((!) D) (digs (nat b) (unat num)) @ drop (34 - k) tmp)"
proof (induction "unat num" arbitrary: num k tmp rule: less_induct)
  case less
  show ?case
  proof (cases "num = 0")
    case True
    then show ?thesis by (subst number_digits.simps) simp
  next
    case False
    then have pos: "0 < unat num" by (simp add: unat_gt_0)
    have ub: "unat (of_int b :: u32) = nat b" using b by (simp add: unsigned_of_int take_bit_int_eq_self)
    have q: "unat (num div of_int b) = unat num div nat b" by (simp add: unat_div ub)
    have r: "unat (num mod of_int b) = unat num mod nat b" by (simp add: unat_mod ub)
    have b2: "2 \<le> nat b" using b by simp
    let ?ds = "digs (nat b) (unat num div nat b)"
    let ?tmp = "tmp[33 - k := D ! (unat num mod nat b)]"
    note ds = digs_pos[OF pos b2]
    have k: "k \<le> 33" "Suc k + length ?ds \<le> 34" using less.prems(2) by (simp_all add: ds)
    have rb: "unat num mod nat b < 36" using b by (simp add: nat_less_iff order_less_le_trans[OF mod_less_divisor])
    have i: "nat (33 - int k) = 33 - k" "0 \<le> 33 - int k" using k by auto
    have "number_digits D b (num div of_int b) (int (Suc k)) ?tmp =
      Some (int (Suc k + length ?ds), take (34 - Suc k - length ?ds) ?tmp
        @ map ((!) D) ?ds @ drop (34 - Suc k) ?tmp)"
      using less.hyps[of "num div of_int b" ?tmp "Suc k"] less.prems(1) k b2 pos by (simp add: q)
    moreover have "drop (34 - Suc k) ?tmp = D ! (unat num mod nat b) # drop (34 - k) tmp"
    proof -
      have "34 - Suc k = 33 - k" "34 - k = Suc (33 - k)" using k by auto
      then show ?thesis using less.prems(1)
        by (simp flip: Cons_nth_drop_Suc)
    qed
    moreover have "number_digits D b num (int k) tmp =
        number_digits D b (num div of_int b) (int (Suc k)) ?tmp"
      using False rb k less.prems(1) D i
      by (subst number_digits.simps) (simp add: r wri_def ac_simps)
    ultimately show ?thesis using k less.prems(1) by (simp add: ds)
  qed
qed


text \<open>What \<^verbatim>\<open>number\<close> prints without a field width: the digits, at least one.\<close>

definition printed_digits :: "u32 \<Rightarrow> int \<Rightarrow> u32 \<Rightarrow> u8 list" where
  "printed_digits flags b num =
     map ((!) (if has flags SMALL then digits_lower else digits_upper))
       (if num = 0 then [0] else digs (nat b) (unat num))"

lemma length_digits [simp]: "length digits_lower = 36" "length digits_upper = 36"
  by (simp_all add: digits_lower_def digits_upper_def)

lemma digit_10 [simp]:
  "d < 10 \<Longrightarrow> digits_lower ! d = 48 + of_nat d" "d < 10 \<Longrightarrow> digits_upper ! d = 48 + of_nat d"
  by (simp_all add: digits_lower_def digits_upper_def nth_append del: upt_rec_numeral)

lemma number_index_tmp:
  fixes num :: u32
  assumes b: "2 \<le> b" "b \<le> 36" and D: "length D = 36" and t: "length tmp = 35"
  defines "ds \<equiv> (if num = 0 then [0] else digs (nat b) (unat num))"
  shows "(if num = 0 then do { d \<leftarrow> rd D 0; tmp \<leftarrow> wri tmp 33 d; Some (1, tmp) }
      else number_digits D b num 0 tmp)
    = Some (int (length ds), take (34 - length ds) tmp @ map ((!) D) ds @ drop 34 tmp)"
    and "0 < length ds" "length ds \<le> 32"
proof -
  have l: "length (digs (nat b) (unat num)) \<le> 32"
    using b unat_u32_lt[of num] by (intro length_digs) auto
  show "length ds \<le> 32" "0 < length ds"
    using l b by (auto simp: ds_def digs_pos unat_gt_0)
  show "(if num = 0 then do { d \<leftarrow> rd D 0; tmp \<leftarrow> wri tmp 33 d; Some (1, tmp) }
      else number_digits D b num 0 tmp)
    = Some (int (length ds), take (34 - length ds) tmp @ map ((!) D) ds @ drop 34 tmp)"
  proof (cases "num = 0")
    case True
    then show ?thesis using D t by (simp add: ds_def wri_def upd_conv_take_nth_drop)
  next
    case False
    then show ?thesis using number_digits_eq[OF b D t, of 0 num] l by (simp add: ds_def)
  qed
qed

lemma char_of_int_small: "0 \<le> i \<Longrightarrow> i < 128 \<Longrightarrow> char_of_int i = i"
  by (simp add: char_of_int_def signed_of_int signed_take_bit_int_eq_self)

lemma number_field:
  assumes "length xs = n" "0 < n" "n \<le> 32" "length tmp = 35"
  shows "do {
      tmp \<leftarrow> wri (replicate (34 - n) p @ drop (34 - n) (take (34 - n) tmp @ xs @ drop 34 tmp)) 34 0;
      check (int n \<le> 34);
      let out = take n (drop (34 - n) tmp);
      Some (Some (str + length out, put_bytes m str out)) } = Some (Some (str + n, put_bytes m str xs))"
  using assms by (simp add: wri_def list_update_append)

lemma number_plain:
  assumes b: "2 \<le> b" "b \<le> 36" and f: "\<not> has flags PLUS" "\<not> has flags SPECIAL"
    and sz: "sz \<le> 0" "precision < 0"
  shows "number str num b sz precision flags m =
    Some (Some (str + length (printed_digits flags b num), put_bytes m str (printed_digits flags b num)))"
proof -
  let ?D = "if has flags SMALL then digits_lower else digits_upper"
  let ?pad = "if has flags ZEROPAD then 48 else 32 :: u8"
  let ?ds = "if num = 0 then [0] else digs (nat b) (unat num)"
  have D: "length ?D = 36" and t: "length (replicate 35 ?pad) = 35" by simp_all
  note nt = number_index_tmp[OF b D t, where num = num]
  define n where "n = length ?ds"
  have n: "0 < n" "n \<le> 32" using nt(2,3) by (simp_all add: n_def)
  have idx: "nat (34 - int n) = 34 - n" using n by auto
  have "number str num b sz precision flags m = do {
      tmp \<leftarrow> wri (replicate (34 - n) ?pad @ drop (34 - n)
        (take (34 - n) (replicate 35 ?pad) @ map ((!) ?D) ?ds @ drop 34 (replicate 35 ?pad))) 34 0;
      check (int n \<le> 34);
      let out = take n (drop (34 - n) tmp);
      Some (Some (str + length out, put_bytes m str out)) }"
    unfolding number_def Let_def
    using b f sz n nt(1)
    by (simp add: n_def[symmetric] idx char_of_int_small split del: if_split cong: if_cong)
  also have "\<dots> = Some (Some (str + n, put_bytes m str (map ((!) ?D) ?ds)))"
    by (rule number_field) (use n in \<open>simp_all add: n_def\<close>)
  finally show ?thesis by (simp add: printed_digits_def n_def)
qed


lemma digs_hd: "2 \<le> b \<Longrightarrow> 0 < n \<Longrightarrow> digs b n \<noteq> [] \<and> hd (digs b n) \<noteq> 0"
proof (induction n rule: less_induct)
  case (less n)
  show ?case
  proof (cases "n < b")
    case True
    with less.prems show ?thesis by (simp add: digs_pos)
  next
    case False
    with less.prems have "n div b < n" "0 < n div b" by (simp_all add: div_greater_zero_iff)
    with less.IH[of "n div b"] less.prems digs_pos[of n b] show ?thesis by simp
  qed
qed

lemma dec_value_digits:
  assumes "\<forall>d \<in> set ds. d < 10"
  shows "dec_value (map (\<lambda>d. 48 + of_nat d) ds) acc = foldl (\<lambda>v d. 10 * v + d) acc ds"
  using assms
proof (induction ds arbitrary: acc)
  case (Cons d ds)
  have "unat (48 + of_nat d :: u8) = 48 + d"
    using Cons.prems by (simp add: unat_word_ariths unat_of_nat take_bit_nat_eq_self)
  with Cons show ?case by simp
qed simp

lemma is_digit_digit: "d < 10 \<Longrightarrow> is_digit (48 + of_nat d)"
proof -
  assume "d < 10"
  then have "unat (48 + of_nat d :: u8) = 48 + d"
    by (simp add: unat_word_ariths unat_of_nat take_bit_nat_eq_self)
  with \<open>d < 10\<close> show ?thesis by (simp add: is_digit_def word_le_nat_alt)
qed

section \<open>Properties\<close>

text \<open>
  What \<^verbatim>\<open>number\<close> prints for any width, precision and flags, in terms of the \<open>n\<close> digits of the
  number: \<open>number_shown\<close> of them are kept in the buffer, the field is \<open>number_width\<close> wide, the
  prefix of \<open>#\<close> is laid over the bytes in front of the field, and the last \<open>number_left\<close> of the 34
  bytes \<open>number_field\<close> are copied.
\<close>

definition number_shown :: "int \<Rightarrow> nat \<Rightarrow> nat" where
  "number_shown precision n = (if 0 \<le> precision \<and> precision < int n then nat precision else n)"

definition number_width :: "int \<Rightarrow> nat \<Rightarrow> int" where
  "number_width sz n = (if 0 < sz then sz else int n)"

definition number_prefix :: "u32 \<Rightarrow> int \<Rightarrow> u8 list" where
  "number_prefix flags b = (if \<not> has flags SPECIAL then [] else if b = 8 then [48]
     else if b = 2 then [48, if has flags SMALL then 98 else 66]
     else if b = 16 then [48, if has flags SMALL then 120 else 88] else [])"

definition number_left :: "u32 \<Rightarrow> int \<Rightarrow> int \<Rightarrow> int \<Rightarrow> nat \<Rightarrow> int" where
  "number_left flags b sz precision n =
     (let w = number_width sz n + int (length (number_prefix flags b)); i = int (number_shown precision n)
      in char_of_int (if i < w \<and> has flags LEFT then i else w))"

definition number_bytes :: "u32 \<Rightarrow> int \<Rightarrow> u32 \<Rightarrow> int \<Rightarrow> u8 list" where
  "number_bytes flags b num precision =
     (let ds = printed_digits flags b num; i = number_shown precision (length ds)
      in replicate (34 - i) (if has flags ZEROPAD then 48 else 32) @ drop (length ds - i) ds)"

definition number_field :: "u32 \<Rightarrow> int \<Rightarrow> u32 \<Rightarrow> int \<Rightarrow> int \<Rightarrow> u8 list" where
  "number_field flags b num sz precision =
     (let bs = number_bytes flags b num precision; pre = number_prefix flags b;
          w = nat (number_width sz (length (printed_digits flags b num)))
      in if pre = [] then bs else take (34 - w - length pre) bs @ pre @ drop (34 - w) bs)"

definition number_text :: "u32 \<Rightarrow> int \<Rightarrow> u32 \<Rightarrow> int \<Rightarrow> int \<Rightarrow> u8 list" where
  "number_text flags b num sz precision = (if has flags PLUS then [43] else [])
     @ drop (34 - nat (number_left flags b sz precision (length (printed_digits flags b num))))
         (number_field flags b num sz precision)"

lemma put_bytes_sign: "put_bytes (m(p := c)) (Suc p) xs = put_bytes m p (c # xs)"
  by (rule ext) (auto simp: put_bytes_def nth_Cons')

lemma special_digits [simp]:
  "digits_lower ! 11 = 98" "digits_upper ! 11 = 66" "digits_lower ! 33 = 120" "digits_upper ! 33 = 88"
  by (simp_all add: digits_lower_def digits_upper_def)

lemma overlay_two:
  "Suc (Suc k) < length xs \<Longrightarrow> xs[Suc k := c, k := d] = take k xs @ [d, c] @ drop (Suc (Suc k)) xs"
  by (rule nth_equalityI) (auto simp: nth_append nth_list_update nth_Cons' min_def intro!: arg_cong[where f = "(!) xs"])

lemma number_special_eq:
  assumes t: "length tmp = 35" and w: "0 < w" and s: "has flags SPECIAL"
    and D: "D = (if has flags SMALL then digits_lower else digits_upper)"
  shows "number_special D b w tmp = (let pre = number_prefix flags b in
    if pre = [] then Some (w, tmp)
    else if w + int (length pre) \<le> 34
    then Some (w + int (length pre), take (34 - nat w - length pre) tmp @ pre @ drop (34 - nat w) tmp)
    else None)"
proof -
  have l: "length D = 36" by (simp add: D)
  have two: "Option.bind (wri tmp (33 - w) d) (\<lambda>tmp. Option.bind (wri tmp (33 - (w + 1)) 48) (\<lambda>tmp. Some (w + 2, tmp)))
      = (if w + 2 \<le> 34 then Some (w + 2, take (34 - nat w - 2) tmp @ [48, d] @ drop (34 - nat w) tmp) else None)" for d
  proof (cases "w + 2 \<le> 34")
    case True
    define k where "k = 32 - nat w"
    have k: "nat (33 - w) = Suc k" "nat (33 - (w + 1)) = k" "34 - nat w - 2 = k" "34 - nat w = Suc (Suc k)"
      "k < 33"
      using True w by (auto simp: k_def)
    then show ?thesis
      using True w t overlay_two[of k tmp d 48] by (simp add: wri_def wr_def)
  next
    case False
    then show ?thesis using w t by (simp add: wri_def wr_def)
  qed
  have one: "Option.bind (wri tmp (33 - w) 48) (\<lambda>tmp. Some (w + 1, tmp))
      = (if w + 1 \<le> 34 then Some (w + 1, take (34 - nat w - 1) tmp @ [48] @ drop (34 - nat w) tmp) else None)"
  proof (cases "w + 1 \<le> 34")
    case True
    define k where "k = 33 - nat w"
    have k: "nat (33 - w) = k" "34 - nat w - 1 = k" "34 - nat w = Suc k" "k < 33"
      using True w by (auto simp: k_def)
    then show ?thesis using True w t by (simp add: wri_def wr_def upd_conv_take_nth_drop)
  next
    case False
    then show ?thesis using w t by (simp add: wri_def wr_def)
  qed
  consider "b = 2" | "b = 8" | "b = 16" | "b \<noteq> 2" "b \<noteq> 8" "b \<noteq> 16" by blast
  then show ?thesis
    by cases (use s l two one in \<open>simp_all add: number_special_def number_prefix_def D rd_def Let_def\<close>)
qed

lemma number_width_pos: "0 < n \<Longrightarrow> 0 < number_width sz n"
  by (simp add: number_width_def)

lemma printed_digits_length: "2 \<le> b \<Longrightarrow> b \<le> 36 \<Longrightarrow> 0 < length (printed_digits flags b num) \<and> length (printed_digits flags b num) \<le> 32"
  using number_index_tmp(2,3)[of b "digits_lower" "replicate 35 0" num] by (simp add: printed_digits_def)

lemma number_bytes_length: "2 \<le> b \<Longrightarrow> b \<le> 36 \<Longrightarrow> length (number_bytes flags b num precision) = 34"
  using printed_digits_length[of b flags num] by (auto simp: number_bytes_def Let_def number_shown_def)

lemma number_field_length:
  assumes "2 \<le> b" "b \<le> 36"
    and "number_prefix flags b = [] \<or> number_width sz (length (printed_digits flags b num)) + int (length (number_prefix flags b)) \<le> 34"
  shows "length (number_field flags b num sz precision) = 34"
proof -
  have "0 < number_width sz (length (printed_digits flags b num))"
    using number_width_pos printed_digits_length[OF assms(1,2)] by blast
  with assms(3) number_bytes_length[OF assms(1,2)] show ?thesis by (auto simp: number_field_def Let_def)
qed

lemma number_tmp:
  fixes flags num :: u32 and precision :: int
  assumes b: "2 \<le> b" "b \<le> 36"
  defines "pad \<equiv> (if has flags ZEROPAD then 48 else 32 :: u8)"
    and "n \<equiv> length (printed_digits flags b num)"
  shows "replicate (34 - number_shown precision n) pad
      @ drop (34 - number_shown precision n) (take (34 - n) (replicate 35 pad) @ printed_digits flags b num @ drop 34 (replicate 35 pad))
    = number_bytes flags b num precision @ [pad]"
proof -
  have n: "0 < n" "n \<le> 32" using printed_digits_length[OF b] by (simp_all add: n_def)
  have i: "number_shown precision n \<le> n" by (auto simp: number_shown_def)
  then have "34 - number_shown precision n - (34 - n) = n - number_shown precision n" using n by auto
  then show ?thesis
    using n i by (simp add: number_bytes_def Let_def n_def[symmetric] pad_def[symmetric])
qed

lemma number_tmp_special:
  fixes flags num :: u32 and precision sz :: int
  assumes b: "2 \<le> b" "b \<le> 36"
  defines "D \<equiv> (if has flags SMALL then digits_lower else digits_upper)"
    and "w \<equiv> number_width sz (length (printed_digits flags b num))" and "pre \<equiv> number_prefix flags b"
  shows "(if has flags SPECIAL then number_special D b w (number_bytes flags b num precision @ [pad])
      else Some (w, number_bytes flags b num precision @ [pad]))
    = (if pre = [] \<or> w + int (length pre) \<le> 34
       then Some (w + int (length pre), number_field flags b num sz precision @ [pad]) else None)"
proof -
  have w: "0 < w" using number_width_pos printed_digits_length[OF b] by (auto simp: w_def)
  note l = number_bytes_length[OF b, of flags num precision]
  show ?thesis
  proof (cases "has flags SPECIAL")
    case True
    have "length (number_bytes flags b num precision @ [pad]) = 35" using l by simp
    note s = number_special_eq[OF this w True meta_eq_to_obj_eq[OF D_def], of b, folded pre_def]
    have "34 - nat w - length pre - 34 = 0" "34 - nat w - 34 = 0" by simp_all
    then show ?thesis
      using True l unfolding s by (simp add: number_field_def Let_def pre_def[symmetric] w_def[symmetric])
  next
    case False
    then have "pre = []" by (simp add: pre_def number_prefix_def)
    with False show ?thesis by (simp add: number_field_def Let_def pre_def[symmetric])
  qed
qed

lemma number_copy:
  assumes "length bs = 34"
  shows "do {
      tmp \<leftarrow> wri (bs @ [pad]) 34 0;
      check (left \<le> 34);
      let out = take (nat left) (drop (nat (34 - left)) tmp);
      Some (Some (str + length out, put_bytes m str out)) }
    = (if left \<le> 34 then Some (Some (str + length (drop (34 - nat left) bs), put_bytes m str (drop (34 - nat left) bs))) else None)"
proof -
  have "take (nat left) (drop (nat (34 - left)) (bs @ [0])) = drop (34 - nat left) bs" if "left \<le> 34"
  proof (cases "0 \<le> left")
    case True
    then have "nat (34 - left) = 34 - nat left" "nat left \<le> 34" using that by auto
    then show ?thesis using assms by simp
  qed (use assms in simp)
  then show ?thesis using assms by (simp add: wri_def wr_def list_update_append Let_def)
qed

lemma number_eq:
  fixes num :: u32
  assumes b: "2 \<le> b" "b \<le> 36"
  shows "number str num b sz precision flags m =
    (let n = length (printed_digits flags b num); pre = number_prefix flags b;
         txt = number_text flags b num sz precision
     in if (pre = [] \<or> number_width sz n + int (length pre) \<le> 34) \<and> number_left flags b sz precision n \<le> 34
        then Some (Some (str + length txt, put_bytes m str txt)) else None)"
proof -
  let ?D = "if has flags SMALL then digits_lower else digits_upper"
  let ?pad = "if has flags ZEROPAD then 48 else 32 :: u8"
  define n where "n = length (printed_digits flags b num)"
  define w where "w = number_width sz n"
  define pre where "pre = number_prefix flags b"
  define left where "left = number_left flags b sz precision n"
  define str' where "str' = (if has flags PLUS then str + 1 else str)"
  define m' where "m' = (if has flags PLUS then m(str := 43) else m)"
  define T where "T = take (34 - n) (replicate 35 ?pad) @ printed_digits flags b num @ drop 34 (replicate 35 ?pad)"
  have l: "length ?D = 36" "length (replicate 35 ?pad) = 35" by simp_all
  have index: "(if num = 0 then do { d \<leftarrow> rd ?D 0; tmp \<leftarrow> wri (replicate 35 ?pad) 33 d; Some (1, tmp) }
      else number_digits ?D b num 0 (replicate 35 ?pad))
    = Some (int n, T)"
    using number_index_tmp(1)[OF b l, of num] by (simp add: T_def printed_digits_def n_def)
  have n: "0 < n" "n \<le> 32" using printed_digits_length[OF b] by (simp_all add: n_def)
  have idx: "(if precision < int n \<and> \<not> precision < 0 then precision else int n) = int (number_shown precision n)"
    by (auto simp: number_shown_def)
  have i: "nat (34 - int (number_shown precision n)) = 34 - number_shown precision n"
    "0 \<le> 34 - int (number_shown precision n)" "34 - int (number_shown precision n) \<le> 35" "number_shown precision n \<le> 34"
    using n by (auto simp: number_shown_def)
  have sz: "(if 0 < sz then sz else int n) = w" by (simp add: w_def number_width_def)
  note tmp = number_tmp[OF b, where flags = flags and num = num and precision = precision,
      folded n_def, folded T_def]
  note special = number_tmp_special[OF b, where flags = flags and num = num and precision = precision and sz = sz,
      folded n_def, folded w_def, folded pre_def]
  have lf: "char_of_int (if int (number_shown precision n) < w + int (length pre) then if has flags LEFT then int (number_shown precision n)
      else w + int (length pre) else w + int (length pre)) = left"
    by (auto simp: left_def number_left_def Let_def w_def pre_def)
  have "number str num b sz precision flags m = do {
        (sz, tmp) \<leftarrow> (if pre = [] \<or> w + int (length pre) \<le> 34
         then Some (w + int (length pre), number_field flags b num sz precision @ [?pad]) else None);
        let left = char_of_int (if int (number_shown precision n) < sz then if has flags LEFT then int (number_shown precision n) else sz else sz);
        tmp \<leftarrow> wri tmp 34 0;
        check (left \<le> 34);
        let out = take (nat left) (drop (nat (34 - left)) tmp);
        Some (Some (str' + length out, put_bytes m' str' out)) }"
  proof (cases "has flags PLUS")
    case True
    then show ?thesis
      unfolding number_def Let_def
      using b by (simp add: index idx i sz tmp special str'_def m'_def split del: if_split cong: if_cong)
  next
    case False
    then show ?thesis
      unfolding number_def Let_def
      using b by (simp add: index idx i sz tmp special str'_def m'_def split del: if_split cong: if_cong)
  qed
  also have "\<dots> = (if pre = [] \<or> w + int (length pre) \<le> 34 then do {
      tmp \<leftarrow> wri (number_field flags b num sz precision @ [?pad]) 34 0;
      check (left \<le> 34);
      let out = take (nat left) (drop (nat (34 - left)) tmp);
      Some (Some (str' + length out, put_bytes m' str' out)) } else None)"
    by (cases "pre = [] \<or> w + int (length pre) \<le> 34") (simp_all add: lf Let_def split del: if_split cong: if_cong)
  also have "\<dots> = (if (pre = [] \<or> w + int (length pre) \<le> 34) \<and> left \<le> 34
      then Some (Some (str' + length (drop (34 - nat left) (number_field flags b num sz precision)),
        put_bytes m' str' (drop (34 - nat left) (number_field flags b num sz precision)))) else None)"
  proof (cases "pre = [] \<or> w + int (length pre) \<le> 34")
    case True
    then have "length (number_field flags b num sz precision) = 34"
      by (intro number_field_length[OF b]) (simp add: w_def n_def pre_def)
    from number_copy[OF this, of ?pad left str' m'] True show ?thesis
      by (simp only: if_True simp_thms)
  next
    case False
    then show ?thesis by (simp only: if_False simp_thms)
  qed
  finally show ?thesis
    by (auto simp: Let_def n_def w_def pre_def left_def str'_def m'_def number_text_def put_bytes_sign)
qed

lemma number_prefix_length: "length (number_prefix flags b) \<le> 2"
  by (simp add: number_prefix_def)

lemma number_plain_text:
  assumes b: "2 \<le> b" "b \<le> 36" and n: "n = length (printed_digits flags b num)"
    and f: "\<not> has flags PLUS" "\<not> has flags SPECIAL" "precision < 0" "number_width sz n \<le> int n"
  shows "number_text flags b num sz precision = drop (n - nat (number_width sz n)) (printed_digits flags b num)"
    and "number_left flags b sz precision n = number_width sz n"
proof -
  have l: "0 < n" "n \<le> 32" using printed_digits_length[OF b] n by simp_all
  have i: "number_shown precision n = n" using f(3) by (simp add: number_shown_def)
  have pre: "number_prefix flags b = []" using f(2) by (simp add: number_prefix_def)
  have w: "0 < number_width sz n" using number_width_pos[OF l(1)] .
  show left: "number_left flags b sz precision n = number_width sz n"
    using w f(4) l by (simp add: number_left_def Let_def i pre char_of_int_small)
  have "number_field flags b num sz precision = replicate (34 - n) (if has flags ZEROPAD then 48 else 32) @ printed_digits flags b num"
    using n by (simp add: number_field_def number_bytes_def Let_def i[unfolded n] pre)
  moreover have "34 - nat (number_width sz n) - (34 - n) = n - nat (number_width sz n)" "34 - n \<le> 34 - nat (number_width sz n)"
    "34 \<le> n + (34 - nat (number_width sz n))"
    using l w f(4) by auto
  ultimately show "number_text flags b num sz precision = drop (n - nat (number_width sz n)) (printed_digits flags b num)"
    using f(1) n left by (simp add: number_text_def)
qed

lemma printed_digits_value:
  assumes "2 \<le> b" "b \<le> 36"
  shows "\<exists>ds. printed_digits flags b num = map ((!) (if has flags SMALL then digits_lower else digits_upper)) ds
      \<and> 0 < length ds \<and> length ds \<le> 32 \<and> (\<forall>d \<in> set ds. d < nat b) \<and> (num \<noteq> 0 \<longrightarrow> hd ds \<noteq> 0)
      \<and> foldl (\<lambda>v d. nat b * v + d) 0 ds = unat num"
proof -
  let ?ds = "if num = 0 then [0] else digs (nat b) (unat num)"
  have b2: "2 \<le> nat b" using assms by simp
  have "length ?ds \<le> 32" using length_digs[OF b2, of "unat num" 32] unat_u32_lt[of num] by simp
  moreover have "0 < length ?ds \<and> (num \<noteq> 0 \<longrightarrow> hd ?ds \<noteq> 0)"
    using digs_hd[OF b2, of "unat num"] by (simp add: unat_gt_0)
  ultimately show ?thesis
    using b2 digs_less[OF b2] foldl_digs[OF b2] by (intro exI[of _ ?ds]) (auto simp: printed_digits_def)
qed

text \<open>
  C31: what \<^verbatim>\<open>number\<close> prints in any base from 2 to 36, and when it stays inside its 35-byte
  buffer. For every 32-bit value, field width, precision and flags it returns exactly when the
  prefix of \<open>#\<close> still fits in front of the field (\<open>number_width\<close> and the prefix are at most 34
  bytes) and at most 34 bytes are to be copied (\<open>number_left\<close>, which is a \<^verbatim>\<open>char\<close>); it then writes
  \<open>number_text\<close> at \<open>str\<close> and returns the address behind it. So every width up to 32 is safe, and a
  width from 35 to 127 without the flag \<open>-\<close> makes the code leave the front of the buffer. Without a
  precision, a plus sign or a prefix, and with no width or one not above the number of digits, it
  writes just the digits, all of them when there is no width and only the last ones otherwise.
  The digits are between 1 and 32, each smaller than the base, without a leading zero, and their
  value is the number.
\<close>

theorem number_stays_in_buffer:
  fixes num :: u32
  assumes b: "2 \<le> b" "b \<le> 36"
  shows "(let n = length (printed_digits flags b num); pre = number_prefix flags b;
        txt = number_text flags b num sz precision; ds = printed_digits flags b num in
      number str num b sz precision flags m =
        (if (pre = [] \<or> number_width sz n + int (length pre) \<le> 34) \<and> number_left flags b sz precision n \<le> 34
         then Some (Some (str + length txt, put_bytes m str txt)) else None)
      \<and> (sz \<le> 32 \<longrightarrow> number str num b sz precision flags m \<noteq> None)
      \<and> (35 \<le> sz \<and> sz \<le> 127 \<and> \<not> has flags LEFT \<longrightarrow> number str num b sz precision flags m = None)
      \<and> (\<not> has flags PLUS \<and> \<not> has flags SPECIAL \<and> precision < 0 \<and> number_width sz n \<le> int n \<longrightarrow>
           number str num b sz precision flags m = Some (Some (str + nat (number_width sz n),
             put_bytes m str (drop (n - nat (number_width sz n)) ds)))))
    \<and> (\<exists>ds. printed_digits flags b num = map ((!) (if has flags SMALL then digits_lower else digits_upper)) ds
      \<and> 0 < length ds \<and> length ds \<le> 32 \<and> (\<forall>d \<in> set ds. d < nat b) \<and> (num \<noteq> 0 \<longrightarrow> hd ds \<noteq> 0)
      \<and> foldl (\<lambda>v d. nat b * v + d) 0 ds = unat num)"
proof -
  define n where "n = length (printed_digits flags b num)"
  define pre where "pre = number_prefix flags b"
  define i where "i = number_shown precision n"
  note eq = number_eq[OF b, of str num sz precision flags m, unfolded Let_def, folded n_def, folded pre_def]
  have n: "0 < n" "n \<le> 32" "length pre \<le> 2"
    using printed_digits_length[OF b] number_prefix_length by (simp_all add: n_def pre_def)
  have w: "0 < number_width sz n" "i \<le> n" using number_width_pos[OF n(1)] by (auto simp: i_def number_shown_def)
  have left: "number_left flags b sz precision n = char_of_int (if int i < number_width sz n + int (length pre) \<and> has flags LEFT
      then int i else number_width sz n + int (length pre))"
    by (simp only: number_left_def Let_def i_def pre_def)
  have fits: "number str num b sz precision flags m \<noteq> None" if "sz \<le> 32"
  proof -
    have "number_width sz n \<le> 32" using that n by (simp add: number_width_def)
    then show ?thesis using eq left n w by (simp add: char_of_int_small)
  qed
  have leaves: "number str num b sz precision flags m = None" if "35 \<le> sz" "sz \<le> 127" "\<not> has flags LEFT"
  proof -
    have "number_width sz n = sz" using that by (simp add: number_width_def)
    then show ?thesis using eq left that by (cases "pre = []") (simp_all add: char_of_int_small)
  qed
  have plain: "number str num b sz precision flags m = Some (Some (str + nat (number_width sz n),
      put_bytes m str (drop (n - nat (number_width sz n)) (printed_digits flags b num))))"
    if "\<not> has flags PLUS" "\<not> has flags SPECIAL" "precision < 0" "number_width sz n \<le> int n"
  proof -
    have "pre = []" using that(2) by (simp add: pre_def number_prefix_def)
    moreover have "length (drop (n - nat (number_width sz n)) (printed_digits flags b num)) = nat (number_width sz n)"
      using w that(4) by (simp add: n_def[symmetric])
    ultimately show ?thesis
      using eq number_plain_text[OF b n_def that] that(4) n by simp
  qed
  show ?thesis
    unfolding Let_def n_def[symmetric] pre_def[symmetric]
    using eq fits leaves plain printed_digits_value[OF b] by blast
qed

lemma number_stays_in_buffer_witness:
  "number 0 48879 16 8 (- 1) ZEROPAD (\<lambda>_. 0) \<noteq> None
    \<and> number 0 48879 16 35 (- 1) ZEROPAD (\<lambda>_. 0) = None"
proof -
  have b: "2 \<le> (16 :: int)" "(16 :: int) \<le> 36" by simp_all
  have "(8 :: int) \<le> 32 \<longrightarrow> number 0 48879 16 8 (- 1) ZEROPAD (\<lambda>_. 0) \<noteq> None"
    using number_stays_in_buffer[OF b, of ZEROPAD 48879 8 "- 1" 0 "\<lambda>_. 0"] unfolding Let_def by blast
  moreover have "35 \<le> (35 :: int) \<and> 35 \<le> (127 :: int) \<and> \<not> has ZEROPAD LEFT \<longrightarrow> number 0 48879 16 35 (- 1) ZEROPAD (\<lambda>_. 0) = None"
    using number_stays_in_buffer[OF b, of ZEROPAD 48879 35 "- 1" 0 "\<lambda>_. 0"] unfolding Let_def by blast
  ultimately show ?thesis by (simp add: has_def)
qed

text \<open>
  C30: printing and parsing a decimal number are inverse. Whatever 32-bit number \<^verbatim>\<open>number\<close>
  prints in base 10 (no width, no precision, no sign flag), \<^verbatim>\<open>atoi\<close> of the terminated text
  returns the same 32-bit pattern.
\<close>

theorem number_atoi_roundtrip:
  assumes "0 < str"
  shows "\<exists>e m'. number str num 10 (- 1) (- 1) 0 m = Some (Some (e, m'))
    \<and> atoi str (m'(e := EOS)) = Some num"
proof -
  let ?ds = "if num = 0 then [0] else digs 10 (unat num)"
  let ?s = "map (\<lambda>d. 48 + of_nat d :: u8) ?ds"
  have lt: "\<forall>d \<in> set ?ds. d < 10" using digs_less[of 10] by auto
  have s: "printed_digits 0 10 num = ?s"
    unfolding printed_digits_def using lt by (auto simp: has_def)
  have dig: "\<forall>c \<in> set ?s. is_digit c" using lt is_digit_digit by (auto simp del: of_nat_add)
  have z: "EOS \<notin> set ?s" using dig digit_value(3) by blast
  let ?m = "put_bytes m str (?s @ [EOS])"
  have m: "(put_bytes m str ?s)(str + length ?s := EOS) = ?m"
    by (rule ext) (auto simp: put_bytes_def nth_append)
  have c: "cstr ?m str ?s" using cstr_put_bytes[OF z] .
  have ne: "?s \<noteq> []" using digs_hd[of 10 "unat num"] by (simp add: unat_gt_0)
  then have "is_digit (?m str)" using c dig by (cases ?s) auto
  then have "?m str \<noteq> 45" by (auto simp: is_digit_def)
  moreover have "dec_value ?s 0 = unat num"
    using dec_value_digits[OF lt, of 0] foldl_digs[of 10 "unat num"] by auto
  ultimately have "atoi str ?m = Some num"
    using atoi_loop_digits[OF c dig, of 0] assms by (simp add: atoi_def)
  then show ?thesis
    using number_plain[of 10 0 "- 1" "- 1" str num m] m s by (simp add: has_def)
qed

lemma number_atoi_roundtrip_witness:
  "\<exists>e m'. number 1 4096 10 (- 1) (- 1) 0 (\<lambda>_. 7) = Some (Some (e, m'))
    \<and> atoi 1 (m'(e := EOS)) = Some 4096"
  by (rule number_atoi_roundtrip) simp

end
