(* ===== verification/Calendar.thy ===== *)
theory Calendar
  imports CString "HOL-Library.Signed_Division"
begin

text \<open>
  \<^verbatim>\<open>kernel/time.c\<close> and the alarm of \<^verbatim>\<open>kernel/rtc.c\<close>: conversion between broken-down time
  and seconds since 1970. A C \<^verbatim>\<open>int\<close> is an \<^verbatim>\<open>int\<close> of HOL with truncating division
  (the values stay far from its bounds), \<^verbatim>\<open>time_t\<close> is a 32-bit word that wraps. The CMOS
  registers are a parameter: what the \<open>n\<close>-th read of a register returns.
\<close>

section \<open>Broken-down time\<close>

record tm =
  tm_sec :: int
  tm_min :: int
  tm_hour :: int
  tm_mday :: int
  tm_mon :: int
  tm_year :: int
  tm_wday :: int
  tm_yday :: int
  tm_isdst :: int

definition MINUTE :: int where "MINUTE = 60"
definition HOUR :: int where "HOUR = 60 * MINUTE"
definition DAY :: int where "DAY = 24 * HOUR"
definition YEAR :: int where "YEAR = 365 * DAY"

definition month_days :: "int list" where
  "month_days = [
    0,
    0,
    31,
    31 + 29,
    31 + 29 + 31,
    31 + 29 + 31 + 30,
    31 + 29 + 31 + 30 + 31,
    31 + 29 + 31 + 30 + 31 + 30,
    31 + 29 + 31 + 30 + 31 + 30 + 31,
    31 + 29 + 31 + 30 + 31 + 30 + 31 + 31,
    31 + 29 + 31 + 30 + 31 + 30 + 31 + 31 + 30,
    31 + 29 + 31 + 30 + 31 + 30 + 31 + 31 + 30 + 31,
    31 + 29 + 31 + 30 + 31 + 30 + 31 + 31 + 30 + 31 + 30]"

definition elapsed_leap_years :: "int \<Rightarrow> int" where
  "elapsed_leap_years year =
     (year - 1) sdiv 4 - (year - 1) sdiv 100 + (year + 299) sdiv 400 - (1970 - 1900) sdiv 4"

definition is_leap_year :: "int \<Rightarrow> bool" where
  "is_leap_year year \<longleftrightarrow>
     year smod 4 = 0 \<and> year smod 100 \<noteq> 0 \<or> (year + 1900) smod 400 = 0"

text \<open>The loop over the months: the first \<open>mon\<close> from \<open>mon\<close> on that starts after the day, or 13.\<close>

function month_of :: "int \<Rightarrow> int \<Rightarrow> int \<Rightarrow> int option" where
  "month_of offset yday mon =
     (if mon < 13 then do {
        d \<leftarrow> rdi month_days mon;
        if d - offset > yday then Some mon else month_of offset yday (mon + 1) }
      else Some mon)"
  by pat_completeness auto
termination by (relation "measure (\<lambda>(_, _, mon). nat (13 - mon))") auto

declare month_of.simps [simp del]

definition localtime :: "u32 \<Rightarrow> tm option" where
  "localtime stamp = do {
     let sec = uint (stamp mod 60);
     let remain = stamp div 60;
     let min = uint (remain mod 60);
     let remain = remain div 60;
     let hour = uint (remain mod 24);
     let days = remain div 24;
     let wday = uint ((days + 4) mod 7);
     let years = uint (days div 365 + 70);
     let offset = (if is_leap_year years then 0 else 1);
     let days = days - of_int (elapsed_leap_years years);
     let yday = uint (days mod of_int (366 - offset));
     mon \<leftarrow> month_of offset yday 1;
     d \<leftarrow> rdi month_days (mon - 1);
     Some \<lparr>tm_sec = sec, tm_min = min, tm_hour = hour, tm_mday = yday - d + offset + 1,
       tm_mon = mon - 1, tm_year = years, tm_wday = wday, tm_yday = yday, tm_isdst = 0\<rparr>
   }"

definition years_since_1970 :: "tm \<Rightarrow> int" where
  "years_since_1970 t = (if tm_year t \<ge> 70 then tm_year t - 70 else tm_year t - 70 + 100)"

definition mktime :: "tm \<Rightarrow> u32 option" where
  "mktime t = do {
     let year = years_since_1970 t;
     let res = (of_int (YEAR * year) :: u32);
     let res = res + of_int (DAY * ((year + 1) sdiv 4));
     d \<leftarrow> rdi month_days (tm_mon t);
     let res = res + of_int (d * DAY);
     let res = (if tm_mon t > 2 \<and> (year + 2) smod 4 \<noteq> 0 then res - of_int DAY else res);
     let res = res + of_int (DAY * (tm_mday t - 1));
     let res = res + of_int (HOUR * tm_hour t);
     let res = res + of_int (MINUTE * tm_min t);
     Some (res + of_int (tm_sec t))
   }"

definition get_yday :: "tm \<Rightarrow> int option" where
  "get_yday t = do {
     d \<leftarrow> rdi month_days (tm_mon t);
     let res = d + tm_mday t;
     let year = years_since_1970 t;
     Some (if (year + 2) smod 4 \<noteq> 0 \<and> tm_mon t > 2 then res - 1 else res)
   }"

section \<open>The real-time clock\<close>

text \<open>
  \<open>cmos n r\<close> is what the \<open>n\<close>-th access finds in register \<open>r\<close>. \<^verbatim>\<open>time_read_bcd\<close> reads all
  registers again until the second has not changed meanwhile; the result holds the time,
  the century and the number of accesses made.
\<close>

type_synonym cmos = "nat \<Rightarrow> u8 \<Rightarrow> u8"

partial_function (option) time_read_bcd :: "cmos \<Rightarrow> nat \<Rightarrow> tm \<Rightarrow> (tm \<times> int \<times> nat) option" where
  "time_read_bcd cmos n t =
     (let t' = t\<lparr>tm_sec := uint (cmos n 0x00), tm_min := uint (cmos (n + 1) 0x02),
        tm_hour := uint (cmos (n + 2) 0x04), tm_wday := uint (cmos (n + 3) 0x06),
        tm_mday := uint (cmos (n + 4) 0x07), tm_mon := uint (cmos (n + 5) 0x08),
        tm_year := uint (cmos (n + 6) 0x09)\<rparr>;
        century = uint (cmos (n + 7) 0x32) in
      if tm_sec t' \<noteq> uint (cmos (n + 8) 0x00) then time_read_bcd cmos (n + 9) t'
      else Some (t', century, n + 9))"

definition bcd :: "int \<Rightarrow> int" where
  "bcd v = uint (bcd_to_bin (of_int v))"

definition time_read :: "cmos \<Rightarrow> nat \<Rightarrow> tm \<Rightarrow> (tm \<times> int \<times> nat) option" where
  "time_read cmos n t = do {
     (t, century, n) \<leftarrow> time_read_bcd cmos n t;
     let t = t\<lparr>tm_sec := bcd (tm_sec t)\<rparr>;
     let t = t\<lparr>tm_min := bcd (tm_min t)\<rparr>;
     let t = t\<lparr>tm_hour := bcd (tm_hour t)\<rparr>;
     let t = t\<lparr>tm_wday := bcd (tm_wday t)\<rparr>;
     let t = t\<lparr>tm_mday := bcd (tm_mday t)\<rparr>;
     let t = t\<lparr>tm_mon := bcd (tm_mon t)\<rparr>;
     let t = t\<lparr>tm_year := bcd (tm_year t)\<rparr>;
     yday \<leftarrow> get_yday t;
     Some (t\<lparr>tm_yday := yday, tm_isdst := - 1\<rparr>, bcd century, n)
   }"

text \<open>
  \<^verbatim>\<open>set_alarm\<close> from the time it has read on: the bytes it writes to the hour, minute and
  second registers.
\<close>

definition alarm_sec :: "int \<Rightarrow> tm \<Rightarrow> tm" where
  "alarm_sec sec t =
     (let t = t\<lparr>tm_sec := tm_sec t + sec\<rparr> in
      if tm_sec t \<ge> 60 then t\<lparr>tm_sec := tm_sec t smod 60, tm_min := tm_min t + 1\<rparr> else t)"

definition alarm_min :: "int \<Rightarrow> tm \<Rightarrow> tm" where
  "alarm_min mins t =
     (let t = t\<lparr>tm_min := tm_min t + mins\<rparr> in
      if tm_min t \<ge> 60 then t\<lparr>tm_min := tm_min t smod 60, tm_hour := tm_hour t + 1\<rparr> else t)"

definition alarm_hour :: "u32 \<Rightarrow> tm \<Rightarrow> tm" where
  "alarm_hour hour t =
     (let t = t\<lparr>tm_hour := sint (of_int (tm_hour t) + hour)\<rparr> in
      if tm_hour t \<ge> 24 then t\<lparr>tm_hour := tm_hour t smod 24\<rparr> else t)"

definition set_alarm :: "u32 \<Rightarrow> tm \<Rightarrow> u8 \<times> u8 \<times> u8" where
  "set_alarm secs t =
     (let sec = secs mod 60;
          secs = secs div 60;
          mins = secs mod 60;
          secs = secs div 60;
          t = alarm_hour secs (alarm_min (uint mins) (alarm_sec (uint sec) t))
      in (bin_to_bcd (of_int (tm_hour t)), bin_to_bcd (of_int (tm_min t)),
          bin_to_bcd (of_int (tm_sec t))))"

section \<open>The Gregorian calendar\<close>

definition leap :: "int \<Rightarrow> bool" where
  "leap y \<longleftrightarrow> 4 dvd y \<and> \<not> 100 dvd y \<or> 400 dvd y"

fun days_to_year :: "nat \<Rightarrow> int" where
  "days_to_year 0 = 0"
| "days_to_year (Suc k) = days_to_year k + (if leap (1970 + int k) then 366 else 365)"

definition month_length :: "int \<Rightarrow> nat \<Rightarrow> int" where
  "month_length y mon = (if mon = 2 then if leap y then 29 else 28
     else if mon \<in> {4, 6, 9, 11} then 30 else 31)"

fun days_to_month :: "int \<Rightarrow> nat \<Rightarrow> int" where
  "days_to_month y 0 = 0"
| "days_to_month y (Suc m) = days_to_month y m + (if m = 0 then 0 else month_length y m)"

lemma leap_window: "1970 \<le> y \<Longrightarrow> y < 2100 \<Longrightarrow> leap y \<longleftrightarrow> 4 dvd y"
proof -
  assume y: "1970 \<le> y" "y < 2100"
  have "y = 2000" if "100 dvd y"
  proof -
    from that obtain q where "y = 100 * q" by (auto elim: dvdE)
    with y show ?thesis by auto
  qed
  moreover have "4 dvd y" if "400 dvd y"
    using that by (rule dvd_trans[rotated]) simp
  ultimately show ?thesis unfolding leap_def by auto
qed

lemma days_to_year_eq: "k \<le> 130 \<Longrightarrow> days_to_year k = 365 * int k + (int k + 1) div 4"
proof (induction k)
  case (Suc k)
  then have "leap (1970 + int k) \<longleftrightarrow> 4 dvd (1970 + int k)" by (intro leap_window) auto
  moreover have "(int (Suc k) + 1) div 4 = (int k + 1) div 4 + (if 4 dvd (1970 + int k) then 1 else 0)"
    by presburger
  ultimately show ?case using Suc by simp
qed simp

lemma sdiv_smod_nonneg:
  "0 \<le> (a :: int) \<Longrightarrow> 0 < b \<Longrightarrow> a sdiv b = a div b"
  "0 \<le> (a :: int) \<Longrightarrow> 0 < b \<Longrightarrow> a smod b = a mod b"
  by (auto simp: signed_divide_int_def signed_modulo_int_def sgn_if minus_div_mult_eq_mod)

lemma length_month_days [simp]: "length month_days = 13"
  by (simp add: month_days_def)

lemma rdi_month [simp]: "i < 13 \<Longrightarrow> rdi month_days (int i) = Some (month_days ! i)"
  by (simp add: rdi_def)

lemma month_table:
  assumes "1 \<le> mon" "mon \<le> 12"
  shows "month_days ! mon - (if 2 < mon \<and> \<not> leap y then 1 else 0) = days_to_month y mon"
proof -
  from assms have "mon = 1 \<or> mon = 2 \<or> mon = 3 \<or> mon = 4 \<or> mon = 5 \<or> mon = 6 \<or> mon = 7
      \<or> mon = 8 \<or> mon = 9 \<or> mon = 10 \<or> mon = 11 \<or> mon = 12" by arith
  then show ?thesis
    by (elim disjE) (simp_all add: month_days_def eval_nat_numeral month_length_def)
qed

definition epoch_seconds :: "nat \<Rightarrow> nat \<Rightarrow> tm \<Rightarrow> int" where
  "epoch_seconds k mon t =
     86400 * (days_to_year k + days_to_month (1970 + int k) mon + (tm_mday t - 1))
     + 3600 * tm_hour t + 60 * tm_min t + tm_sec t"

lemma leap_test: "k \<le> 68 \<Longrightarrow> (int k + 2) smod 4 \<noteq> 0 \<longleftrightarrow> \<not> leap (1970 + int k)"
proof -
  assume "k \<le> 68"
  then have "leap (1970 + int k) \<longleftrightarrow> 4 dvd (1970 + int k)" by (intro leap_window) auto
  moreover have "(int k + 2) smod 4 = (int k + 2) mod 4" by (simp add: sdiv_smod_nonneg)
  moreover have "(int k + 2) mod 4 = 0 \<longleftrightarrow> 4 dvd (1970 + int k)" by presburger
  ultimately show ?thesis by simp
qed

lemma days_to_month_bounds:
  assumes "1 \<le> mon" "mon \<le> 12"
  shows "0 \<le> days_to_month y mon" "days_to_month y mon \<le> 335"
proof -
  from assms have "mon = 1 \<or> mon = 2 \<or> mon = 3 \<or> mon = 4 \<or> mon = 5 \<or> mon = 6 \<or> mon = 7
      \<or> mon = 8 \<or> mon = 9 \<or> mon = 10 \<or> mon = 11 \<or> mon = 12" by arith
  then have "0 \<le> month_days ! mon \<and> month_days ! mon \<le> 335 \<and> (2 < mon \<longrightarrow> 1 \<le> month_days ! mon)"
    by (elim disjE) (simp_all add: month_days_def)
  with month_table[OF assms, of y] show "0 \<le> days_to_month y mon" "days_to_month y mon \<le> 335"
    by (simp_all split: if_splits)
qed

lemma mktime_eq:
  assumes k: "years_since_1970 t = int k" "k \<le> 68" and mon: "tm_mon t = int mon" "1 \<le> mon" "mon \<le> 12"
  shows "mktime t = Some (of_int (epoch_seconds k mon t))"
proof -
  have d: "(int k + 1) sdiv 4 = (int k + 1) div 4" by (simp add: sdiv_smod_nonneg)
  have "epoch_seconds k mon t = YEAR * int k + DAY * ((int k + 1) div 4) + month_days ! mon * DAY
      - (if 2 < mon \<and> \<not> leap (1970 + int k) then DAY else 0) + DAY * (tm_mday t - 1)
      + HOUR * tm_hour t + MINUTE * tm_min t + tm_sec t"
    using days_to_year_eq[of k] k(2) month_table[OF mon(2,3), of "1970 + int k"]
    by (simp add: epoch_seconds_def YEAR_def DAY_def HOUR_def MINUTE_def split: if_splits)
  moreover have "tm_mon t > 2 \<and> (int k + 2) smod 4 \<noteq> 0 \<longleftrightarrow> 2 < mon \<and> \<not> leap (1970 + int k)"
    using leap_test[OF k(2)] mon(1) by simp
  ultimately show ?thesis
    using mon by (simp add: mktime_def k(1) d Let_def)
qed

lemma month_of_range:
  "1 \<le> mon \<Longrightarrow> mon \<le> 13 \<Longrightarrow> \<exists>r. month_of off yday mon = Some r \<and> 1 \<le> r \<and> r \<le> 13"
proof (induction off yday mon rule: month_of.induct)
  case (1 off yday mon)
  show ?case
  proof (cases "mon < 13")
    case True
    have "rdi month_days mon = Some (month_days ! nat mon)" using 1(2) True by (simp add: rdi_def)
    with 1 True show ?thesis by (subst month_of.simps) auto
  next
    case False
    with 1 show ?thesis by (subst month_of.simps) simp
  qed
qed

lemma seconds_of_day:
  "3600 * (x div 60 div 60 mod 24) + 60 * (x div 60 mod 60) + x mod 60 = x mod (86400 :: int)"
proof -
  have "x mod (60 * (60 * 24)) = 60 * (x div 60 mod (60 * 24)) + x mod 60"
    by (rule zmod_zmult2_eq) simp
  moreover have "x div 60 mod (60 * 24) = 60 * (x div 60 div 60 mod 24) + x div 60 mod 60"
    by (rule zmod_zmult2_eq) simp
  ultimately show ?thesis by simp
qed

lemma bcd_nibbles:
  "unat (w AND 0xF :: u8) = unat w mod 16" "unat (drop_bit 4 w :: u8) = unat w div 16"
proof -
  have "w AND 0xF = take_bit 4 w" by (simp add: take_bit_eq_mask mask_eq_exp_minus_1)
  moreover have "unat (take_bit 4 w) = unat w mod 16"
    by (simp add: unsigned_take_bit_eq take_bit_eq_mod [of 4 "unat w"] del: take_bit_eq_mod)
  ultimately show "unat (w AND 0xF) = unat w mod 16" by simp
  show "unat (drop_bit 4 w) = unat w div 16" by (simp add: unsigned_drop_bit_eq drop_bit_eq_div unat_div)
qed

lemma bcd_roundtrip:
  assumes "unat v < 100"
  shows "bcd_to_bin (bin_to_bcd v) = v"
proof -
  let ?n = "unat v"
  have bound: "?n div 10 * 16 + ?n mod 10 < 256" using assms by simp
  have "unat ((v div 10) * 0x10) = ?n div 10 * 16"
    using bound by (subst unat_word_ariths) (simp add: unat_div)
  then have enc: "unat (bin_to_bcd v) = ?n div 10 * 16 + ?n mod 10"
    unfolding bin_to_bcd_def using bound by (subst unat_word_ariths) (simp add: unat_mod)
  have ten: "?n div 10 < 10" "?n mod 10 < 10" using assms by simp_all
  then have lo: "(?n div 10 * 16 + ?n mod 10) mod 16 = ?n mod 10"
    and hi: "(?n div 10 * 16 + ?n mod 10) div 16 = ?n div 10" by simp_all
  have "unat (drop_bit 4 (bin_to_bcd v) * 10) = ?n div 10 * 10"
    using ten by (subst unat_word_ariths) (simp add: bcd_nibbles enc hi)
  then have "unat (bcd_to_bin (bin_to_bcd v)) = ?n mod 10 + ?n div 10 * 10"
    unfolding bcd_to_bin_def using assms
    by (subst unat_word_ariths) (simp add: bcd_nibbles enc lo)
  then have "unat (bcd_to_bin (bin_to_bcd v)) = unat v" by simp
  then show ?thesis by (simp add: word_unat_eq_iff)
qed

lemma div_int_nonneg: "0 \<le> (a :: int) \<Longrightarrow> 0 \<le> b \<Longrightarrow> 0 \<le> a div b"
  by (cases "b = 0") (simp_all add: pos_imp_zdiv_nonneg_iff)

lemma mod_once:
  fixes a n :: int
  assumes "0 \<le> a" "a < 2 * n"
  shows "a mod n = (if n \<le> a then a - n else a)"
proof (cases "n \<le> a")
  case True
  have "a mod n = (a - n) mod n" by simp
  also have "\<dots> = a - n" by (rule mod_pos_pos_trivial) (use assms True in auto)
  finally show ?thesis using True by simp
qed (use assms in \<open>simp add: mod_pos_pos_trivial\<close>)

lemma alarm_carry:
  fixes h m s :: int
  assumes S: "S = s + x mod 60" and M: "M = m + x div 60 mod 60 + (if 60 \<le> S then 1 else 0)"
    and H: "H = h + x div 60 div 60 + (if 60 \<le> M then 1 else 0)"
    and b: "0 \<le> s" "s < 60" "0 \<le> m" "m < 60"
  shows "3600 * (H mod 24) + 60 * (M mod 60) + S mod 60 = (3600 * h + 60 * m + s + x) mod 86400"
proof -
  have x: "x = 3600 * (x div 60 div 60) + 60 * (x div 60 mod 60) + x mod 60"
    using mult_div_mod_eq[of 60 x] mult_div_mod_eq[of 60 "x div 60"] by linarith
  have xs: "0 \<le> x mod 60" "x mod 60 < 60" "0 \<le> x div 60 mod 60" "x div 60 mod 60 < 60" by simp_all
  have S': "S mod 60 = S - (if 60 \<le> S then 60 else 0)"
    using xs b S by (subst mod_once) auto
  have M': "M mod 60 = M - (if 60 \<le> M then 60 else 0)"
    using xs b M by (subst mod_once) auto
  have H': "H = 24 * (H div 24) + H mod 24" by simp
  have "3600 * h + 60 * m + s + x = 3600 * H + 60 * (M mod 60) + S mod 60"
    using x unfolding S' M' by (simp add: S M H)
  also have "\<dots> = (3600 * (H mod 24) + 60 * (M mod 60) + S mod 60) + 86400 * (H div 24)"
    using H' by linarith
  finally have "(3600 * h + 60 * m + s + x) mod 86400
      = (3600 * (H mod 24) + 60 * (M mod 60) + S mod 60) mod 86400" by simp
  also have "\<dots> = 3600 * (H mod 24) + 60 * (M mod 60) + S mod 60"
  proof (rule mod_pos_pos_trivial)
    have "H mod 24 < 24" "M mod 60 < 60" "S mod 60 < 60" by simp_all
    then show "3600 * (H mod 24) + 60 * (M mod 60) + S mod 60 < 86400" by linarith
  qed simp
  finally show ?thesis by simp
qed

lemma set_alarm_eq:
  assumes "0 \<le> tm_sec t" "tm_sec t < 60" "0 \<le> tm_min t" "tm_min t < 60" "0 \<le> tm_hour t" "tm_hour t < 24"
  shows "set_alarm secs t =
    (let S = tm_sec t + uint secs mod 60;
         M = tm_min t + uint secs div 60 mod 60 + (if 60 \<le> S then 1 else 0);
         H = tm_hour t + uint secs div 60 div 60 + (if 60 \<le> M then 1 else 0)
     in (bin_to_bcd (of_int (H mod 24)), bin_to_bcd (of_int (M mod 60)), bin_to_bcd (of_int (S mod 60))))"
proof -
  define S where "S = tm_sec t + uint secs mod 60"
  define M where "M = tm_min t + uint secs div 60 mod 60 + (if 60 \<le> S then 1 else 0)"
  define H where "H = tm_hour t + uint secs div 60 div 60 + (if 60 \<le> M then 1 else 0)"
  have n: "0 \<le> uint secs div 60 div 60" by (intro div_int_nonneg) simp_all
  have u: "uint (secs div 60 div 60) = uint secs div 60 div 60"
    "uint (secs mod 60) = uint secs mod 60" "uint (secs div 60 mod 60) = uint secs div 60 mod 60"
    by (simp_all add: uint_mod uint_div)
  have "0 \<le> S" "0 \<le> M" "0 \<le> H" using assms n by (simp_all add: S_def M_def H_def)
  have "uint secs div 60 div 60 < 2 ^ 30" using uint_bounded[of secs] by simp
  then have H31: "H < 2 ^ 31" using assms(6) by (simp add: H_def)
  let ?t1 = "t\<lparr>tm_sec := S mod 60, tm_min := tm_min t + (if 60 \<le> S then 1 else 0)\<rparr>"
  let ?t2 = "?t1\<lparr>tm_min := M mod 60, tm_hour := tm_hour t + (if 60 \<le> M then 1 else 0)\<rparr>"
  have 1: "alarm_sec (uint (secs mod 60)) t = ?t1"
    unfolding alarm_sec_def u S_def[symmetric] Let_def
    using \<open>0 \<le> S\<close> by (simp add: sdiv_smod_nonneg S_def[symmetric])
  have m: "tm_min ?t1 + uint secs div 60 mod 60 = M" by (simp add: M_def)
  have 2: "alarm_min (uint (secs div 60 mod 60)) ?t1 = ?t2"
    unfolding alarm_min_def u m Let_def
    using \<open>0 \<le> M\<close> by (simp add: sdiv_smod_nonneg)
  have "uint (of_int (tm_hour ?t2) + secs div 60 div 60) = H"
  proof -
    have "of_int (tm_hour ?t2) + secs div 60 div 60 = (of_int H :: u32)"
      by (simp add: H_def u flip: u(1))
    with H31 \<open>0 \<le> H\<close> show ?thesis by (simp add: unsigned_of_int take_bit_int_eq_self)
  qed
  then have h: "sint (of_int (tm_hour ?t2) + secs div 60 div 60) = H"
    using H31 \<open>0 \<le> H\<close> by (simp only: sint_uint) (simp add: signed_take_bit_int_eq_self)
  have 3: "alarm_hour (secs div 60 div 60) ?t2 = ?t2\<lparr>tm_hour := H mod 24\<rparr>"
    unfolding alarm_hour_def h Let_def
    using \<open>0 \<le> H\<close> by (simp add: sdiv_smod_nonneg)
  show ?thesis
    unfolding set_alarm_def Let_def 1 2 3 by (simp add: S_def M_def H_def)
qed





section \<open>Properties\<close>

text \<open>
  C35: \<^verbatim>\<open>mktime\<close> counts the seconds since 1970. For every date of the years 1970 to 2038,
  given with the full year since 1900 or with the two digits of the CMOS clock, and for
  every valid time of the day, the result is 86400 times the days of the Gregorian calendar
  that have passed, plus the seconds of the day, without overflow of the 32-bit result. The
  months count from 1, as \<^verbatim>\<open>month\<close> and the clock have them (the comment in \<^verbatim>\<open>time.h\<close> gives 0 to 11).
\<close>

theorem mktime_counts_seconds:
  assumes "years_since_1970 t = int k" "k \<le> 68" "tm_mon t = int mon" "1 \<le> mon" "mon \<le> 12"
    and "1 \<le> tm_mday t" "tm_mday t \<le> 31" "0 \<le> tm_hour t" "tm_hour t < 24"
    and "0 \<le> tm_min t" "tm_min t < 60" "0 \<le> tm_sec t" "tm_sec t < 60"
  shows "\<exists>r. mktime t = Some r \<and> uint r = epoch_seconds k mon t"
proof -
  have "0 \<le> days_to_year k" "days_to_year k \<le> 365 * 68 + 18"
    using days_to_year_eq[of k] assms(2) by auto
  then have "0 \<le> epoch_seconds k mon t" "epoch_seconds k mon t < 2 ^ 32"
    using days_to_month_bounds[OF assms(4,5), of "1970 + int k"] assms
    unfolding epoch_seconds_def by auto
  then have "uint (of_int (epoch_seconds k mon t) :: u32) = epoch_seconds k mon t"
    by (simp add: unsigned_of_int take_bit_int_eq_self)
  with mktime_eq[OF assms(1-5)] show ?thesis by blast
qed

definition sample_tm :: tm where
  "sample_tm = \<lparr>tm_sec = 58, tm_min = 59, tm_hour = 23, tm_mday = 29, tm_mon = 2, tm_year = 24,
     tm_wday = 5, tm_yday = 60, tm_isdst = - 1\<rparr>"

lemma mktime_counts_seconds_witness:
  "\<exists>r. mktime sample_tm = Some r \<and> uint r = epoch_seconds 54 2 sample_tm"
  by (rule mktime_counts_seconds) (simp_all add: sample_tm_def years_since_1970_def)

text \<open>
  C36: \<^verbatim>\<open>localtime\<close> is total and gets the time of the day and the weekday right. For every
  32-bit stamp it returns (the month loop ends and its table is never read out of range),
  the hour, minute and second are in range and make up the seconds of the day, and the
  weekday counts on from Thursday, 1 January 1970.
\<close>

theorem localtime_time_of_day:
  "\<exists>t. localtime stamp = Some t
    \<and> 3600 * tm_hour t + 60 * tm_min t + tm_sec t = uint stamp mod 86400
    \<and> 0 \<le> tm_sec t \<and> tm_sec t < 60 \<and> 0 \<le> tm_min t \<and> tm_min t < 60 \<and> 0 \<le> tm_hour t \<and> tm_hour t < 24
    \<and> tm_wday t = (uint stamp div 86400 + 4) mod 7"
proof -
  define days where "days = stamp div 60 div 60 div 24"
  have u: "uint days = uint stamp div 60 div 60 div 24"
    by (simp only: days_def uint_div) simp
  then have u': "uint days = uint stamp div 86400" by (simp add: zdiv_zmult2_eq[symmetric])
  have "uint days + uint (4 :: u32) < 2 ^ 32" using u' uint_bounded[of stamp] by simp
  then have "uint (days + 4) = uint days + uint (4 :: u32)" using uint_add_lem[of days 4] by simp
  then have "uint (days + 4) = uint stamp div 86400 + 4" unfolding u' by simp
  then have w: "uint ((days + 4) mod 7) = (uint stamp div 86400 + 4) mod 7"
    by (simp only: uint_mod) simp
  define off :: int where "off = (if is_leap_year (uint (days div 365 + 70)) then 0 else 1)"
  define yday where "yday = uint ((days - of_int (elapsed_leap_years (uint (days div 365 + 70)))) mod of_int (366 - off))"
  obtain mon where mon: "month_of off yday 1 = Some mon" "1 \<le> mon" "mon \<le> 13"
    using month_of_range[of 1 off yday] by auto
  have d: "rdi month_days (mon - 1) = Some (month_days ! nat (mon - 1))"
    using mon by (simp add: rdi_def)
  define t where "t = \<lparr>tm_sec = uint (stamp mod 60), tm_min = uint (stamp div 60 mod 60),
    tm_hour = uint (stamp div 60 div 60 mod 24), tm_mday = yday - month_days ! nat (mon - 1) + off + 1,
    tm_mon = mon - 1, tm_year = uint (days div 365 + 70), tm_wday = uint ((days + 4) mod 7),
    tm_yday = yday, tm_isdst = 0\<rparr>"
  have "localtime stamp = Some t"
    unfolding localtime_def Let_def days_def[symmetric] off_def[symmetric] yday_def[symmetric]
    by (simp add: mon(1) d t_def)
  moreover have "tm_sec t = uint stamp mod 60" "tm_min t = uint stamp div 60 mod 60"
    "tm_hour t = uint stamp div 60 div 60 mod 24"
    by (simp_all add: t_def uint_div uint_mod)
  moreover have "tm_wday t = (uint stamp div 86400 + 4) mod 7" by (simp only: t_def tm.simps w)
  ultimately show ?thesis using seconds_of_day[of "uint stamp"] by (intro exI[of _ t]) simp
qed

text \<open>
  \<^verbatim>\<open>set_alarm\<close> programs the clock to go off after the given number of seconds. When the
  time read is valid, the three registers hold, in binary-coded decimal, the time of day
  that many seconds later, past midnight if need be.
\<close>

lemma set_alarm_after:
  assumes "0 \<le> tm_sec t" "tm_sec t < 60" "0 \<le> tm_min t" "tm_min t < 60" "0 \<le> tm_hour t" "tm_hour t < 24"
  shows "\<exists>h m s. set_alarm secs t = (h, m, s)
    \<and> 3600 * uint (bcd_to_bin h) + 60 * uint (bcd_to_bin m) + uint (bcd_to_bin s)
      = (3600 * tm_hour t + 60 * tm_min t + tm_sec t + uint secs) mod 86400"
proof -
  define S where "S = tm_sec t + uint secs mod 60"
  define M where "M = tm_min t + uint secs div 60 mod 60 + (if 60 \<le> S then 1 else 0)"
  define H where "H = tm_hour t + uint secs div 60 div 60 + (if 60 \<le> M then 1 else 0)"
  have b: "uint (bcd_to_bin (bin_to_bcd (of_int (x mod n)))) = x mod n" if "0 < n" "n \<le> 60" for x n :: int
  proof -
    have "0 \<le> x mod n" "x mod n < n" using that by simp_all
    then have "0 \<le> x mod n" "x mod n < 256" using that by linarith+
    then have u: "uint (of_int (x mod n) :: u8) = x mod n"
      using that by (simp add: unsigned_of_int take_bit_int_eq_self_iff)
    then have "unat (of_int (x mod n) :: u8) < 100"
      using \<open>x mod n < n\<close> that by (simp only: unat_eq_nat_uint)
    with u show ?thesis by (simp add: bcd_roundtrip)
  qed
  have "3600 * (H mod 24) + 60 * (M mod 60) + S mod 60
      = (3600 * tm_hour t + 60 * tm_min t + tm_sec t + uint secs) mod 86400"
    by (rule alarm_carry) (use assms in \<open>simp_all add: S_def M_def H_def\<close>)
  moreover have "set_alarm secs t = (bin_to_bcd (of_int (H mod 24)), bin_to_bcd (of_int (M mod 60)),
      bin_to_bcd (of_int (S mod 60)))"
    unfolding set_alarm_eq[OF assms, of secs] Let_def S_def M_def H_def by (rule refl)
  ultimately show ?thesis by (simp add: b)
qed



end
