(* ===== verification/Frames.thy ===== *)
theory Frames
  imports Bitmap CString
begin

text \<open>
  The page frame allocator and the kernel page allocator of \<^verbatim>\<open>kernel/memory.c\<close>.
  \<open>memory_map\<close> counts the references to each physical frame (one byte per frame, frames below
  \<open>start_page\<close> belong to the kernel), \<open>kernel_map\<close> marks the pages of the kernel's own 16 MB.
\<close>

section \<open>State\<close>

record frames =
  total_pages :: u32
  free_pages :: u32
  memory_base :: u32
  memory_size :: u32
  start_page :: u32
  memory_map_pages :: u32
  memory_map :: "u8 list"
  kernel_map :: bitmap

abbreviation MEMORY_PAGE_SIZE :: u32 where "MEMORY_PAGE_SIZE \<equiv> 0x1000"
abbreviation MEMORY_BASE :: u32 where "MEMORY_BASE \<equiv> 0x100000"
abbreviation KERNEL_MEMORY_SIZE :: u32 where "KERNEL_MEMORY_SIZE \<equiv> 0x1000000"

definition IDX :: "u32 \<Rightarrow> u32" where
  "IDX addr = drop_bit 12 addr"

definition PAGE :: "u32 \<Rightarrow> u32" where
  "PAGE idx = push_bit 12 idx"

definition page_aligned :: "u32 \<Rightarrow> bool" where
  "page_aligned addr \<longleftrightarrow> addr AND 0xFFF = 0"

section \<open>Initialisation\<close>

text \<open>
  The memory areas the boot loader reports: base, size and type. \<^verbatim>\<open>memory_init\<close> takes the
  largest valid one; the two boot protocols differ only in where the list is read from.
\<close>

datatype boot_magic = ONIXS_MAGIC | MULTIBOOT2_MAGIC | OTHER_MAGIC u32

type_synonym area = "64 word \<times> 64 word \<times> u32"

definition pick_area :: "area \<Rightarrow> frames \<Rightarrow> frames" where
  "pick_area a f =
     (case a of (base, sz, type) \<Rightarrow>
        if type = 1 \<and> sz > ucast (memory_size f)
        then f\<lparr>memory_base := ucast base, memory_size := ucast sz\<rparr> else f)"

definition memory_init :: "boot_magic \<Rightarrow> area list \<Rightarrow> frames \<Rightarrow> frames option" where
  "memory_init magic areas f =
     (case magic of OTHER_MAGIC _ \<Rightarrow> None
      | _ \<Rightarrow> do {
          let f = fold pick_area areas f;
          check (memory_base f = MEMORY_BASE);
          check (memory_size f AND 0xFFF = 0);
          let f = f\<lparr>total_pages := IDX (memory_size f) + IDX MEMORY_BASE,
                    free_pages := IDX (memory_size f)\<rparr>;
          check (\<not> memory_size f < KERNEL_MEMORY_SIZE);
          Some f })"

fun mark_used :: "nat \<Rightarrow> nat \<Rightarrow> u8 list \<Rightarrow> u8 list option" where
  "mark_used i 0 mp = Some mp"
| "mark_used i (Suc left) mp = do { mp \<leftarrow> wr mp i 1; mark_used (i + 1) left mp }"

text \<open>
  \<^verbatim>\<open>memory_map_init\<close> puts the frame map at the start of the memory area and its own pages
  into \<open>kernel_map\<close>. \<open>kbits\<close> is the page at \<^verbatim>\<open>KERNEL_MAP_BITS\<close>.
\<close>

definition memory_map_init :: "u8 list \<Rightarrow> frames \<Rightarrow> frames option" where
  "memory_map_init kbits f = do {
     let pages = div_round_up (total_pages f) MEMORY_PAGE_SIZE;
     let f = f\<lparr>memory_map_pages := pages, free_pages := free_pages f - pages,
               memory_map := replicate (unat (pages * MEMORY_PAGE_SIZE)) 0\<rparr>;
     let f = f\<lparr>start_page := IDX MEMORY_BASE + pages\<rparr>;
     mp \<leftarrow> mark_used 0 (unat (start_page f)) (memory_map f);
     let f = f\<lparr>memory_map := mp\<rparr>;
     let len = (IDX KERNEL_MEMORY_SIZE - IDX MEMORY_BASE) div 8;
     km \<leftarrow> bitmap_init kbits len (IDX MEMORY_BASE);
     (_, km) \<leftarrow> bitmap_scan km pages;
     Some (f\<lparr>kernel_map := km\<rparr>)
   }"

section \<open>Frames\<close>

text \<open>The scan of \<^verbatim>\<open>get_page\<close>; running past the last frame is the panic "Out of memory".\<close>

function get_page_scan :: "('a frames_scheme) \<Rightarrow> u32 \<Rightarrow> u32 option" where
  "get_page_scan f i =
     (if i < total_pages f then do {
        r \<leftarrow> rd (memory_map f) (unat i);
        if r = 0 then Some i else get_page_scan f (i + 1) }
      else None)"
  by pat_completeness auto
termination
proof (relation "measure (\<lambda>(f, i). unat (total_pages f) - unat i)")
  fix f :: "'a frames_scheme" and i :: u32 and r :: u8
  assume "i < total_pages f"
  then have "unat i < unat (total_pages f)" by (simp add: word_less_nat_alt)
  moreover from this have "unat (i + 1) = Suc (unat i)"
    using unat_u32_lt[of "total_pages f"] by (intro unat_Suc_u32)
  ultimately show "((f, i + 1), (f, i)) \<in> measure (\<lambda>(f, i). unat (total_pages f) - unat i)"
    by simp
qed simp

declare get_page_scan.simps [simp del]

definition get_page :: "'a frames_scheme \<Rightarrow> (u32 \<times> 'a frames_scheme) option" where
  "get_page f = do {
     i \<leftarrow> get_page_scan f (start_page f);
     mp \<leftarrow> wr (memory_map f) (unat i) 1;
     check (free_pages f \<ge> 0);
     Some (push_bit 12 i, f\<lparr>memory_map := mp, free_pages := free_pages f - 1\<rparr>)
   }"

definition put_page :: "u32 \<Rightarrow> 'a frames_scheme \<Rightarrow> 'a frames_scheme option" where
  "put_page addr f = do {
     check (page_aligned addr);
     let idx = IDX addr;
     check (idx \<ge> start_page f \<and> idx < total_pages f);
     r \<leftarrow> rd (memory_map f) (unat idx);
     check (r \<ge> 1);
     mp \<leftarrow> wr (memory_map f) (unat idx) (r - 1);
     let f = f\<lparr>memory_map := mp\<rparr>;
     let f = (if r - 1 = 0 then f\<lparr>free_pages := free_pages f + 1\<rparr> else f);
     check (free_pages f > 0 \<and> free_pages f < total_pages f);
     Some f
   }"

section \<open>Kernel pages\<close>

definition scan_page :: "bitmap \<Rightarrow> u32 \<Rightarrow> (u32 \<times> bitmap) option" where
  "scan_page mp count = do {
     check (count > 0);
     (index, mp) \<leftarrow> bitmap_scan mp count;
     check (index \<noteq> EOF);
     Some (PAGE index, mp)
   }"

fun reset_loop :: "bitmap \<Rightarrow> u32 \<Rightarrow> nat \<Rightarrow> bitmap option" where
  "reset_loop mp index 0 = Some mp"
| "reset_loop mp index (Suc left) = do {
     used \<leftarrow> bitmap_test mp index;
     check used;
     mp \<leftarrow> bitmap_set mp index False;
     reset_loop mp (index + 1) left
   }"

definition reset_page :: "bitmap \<Rightarrow> u32 \<Rightarrow> u32 \<Rightarrow> bitmap option" where
  "reset_page mp addr count = do {
     check (page_aligned addr);
     check (count > 0);
     reset_loop mp (IDX addr) (unat count)
   }"

definition alloc_kpage :: "u32 \<Rightarrow> 'a frames_scheme \<Rightarrow> (u32 \<times> 'a frames_scheme) option" where
  "alloc_kpage count f = do {
     check (count > 0);
     (vaddr, mp) \<leftarrow> scan_page (kernel_map f) count;
     Some (vaddr, f\<lparr>kernel_map := mp\<rparr>)
   }"

definition free_kpage :: "u32 \<Rightarrow> u32 \<Rightarrow> 'a frames_scheme \<Rightarrow> 'a frames_scheme option" where
  "free_kpage vaddr count f = do {
     check (page_aligned vaddr);
     check (count > 0);
     mp \<leftarrow> reset_page (kernel_map f) vaddr count;
     Some (f\<lparr>kernel_map := mp\<rparr>)
   }"


section \<open>Addresses and indices\<close>

lemma IDX_PAGE:
  assumes "unat i < 2 ^ 20"
  shows "IDX (PAGE i) = i"
  unfolding IDX_def PAGE_def using no_high_bit[OF assms]
  by (intro bit_eqI) (auto simp: bit_simps not_le[symmetric])

lemma low_mask: "(0xFFF :: u32) = mask 12"
  by (simp add: mask_eq_exp_minus_1)

lemma page_aligned_PAGE [simp]: "page_aligned (PAGE i)"
  unfolding page_aligned_def PAGE_def low_mask by (rule bit_eqI) (auto simp: bit_simps)

lemma PAGE_IDX: "page_aligned a \<Longrightarrow> PAGE (IDX a) = a"
proof -
  assume "page_aligned a"
  then have h: "a AND mask 12 = 0" unfolding page_aligned_def low_mask .
  have "\<not> bit a n" if "n < 12" for n
  proof -
    have "bit (a AND mask 12) n = bit a n" using that by (simp add: bit_and_iff bit_mask_iff)
    then show ?thesis unfolding h by simp
  qed
  note low = this
  show ?thesis unfolding IDX_def PAGE_def
  proof (rule bit_eqI)
    fix n
    assume "possible_bit TYPE(32 word) n"
    then show "bit (push_bit 12 (drop_bit 12 a)) n = bit a n"
      using low[of n] by (cases "n < 12") (auto simp: bit_simps)
  qed
qed

section \<open>Reference counting\<close>

definition refs :: "'a frames_scheme \<Rightarrow> nat \<Rightarrow> nat" where
  "refs f i = unat (memory_map f ! i)"

definition frames_wf :: "'a frames_scheme \<Rightarrow> bool" where
  "frames_wf f \<longleftrightarrow> unat (total_pages f) \<le> length (memory_map f)
     \<and> unat (start_page f) \<le> unat (total_pages f) \<and> unat (total_pages f) \<le> 2 ^ 20"

definition free_frames :: "'a frames_scheme \<Rightarrow> nat set" where
  "free_frames f = {i. unat (start_page f) \<le> i \<and> i < unat (total_pages f) \<and> refs f i = 0}"

lemma finite_free_frames [simp]: "finite (free_frames f)"
  by (rule finite_subset[of _ "{..<unat (total_pages f)}"]) (auto simp: free_frames_def)

text \<open>
  \<open>free_pages\<close> counts the free frames up to a constant: \<^verbatim>\<open>mapping_init\<close> marks the frames of
  the kernel's 16 MB used without counting them.
\<close>

definition counted :: "nat \<Rightarrow> 'a frames_scheme \<Rightarrow> bool" where
  "counted slack f \<longleftrightarrow> frames_wf f \<and> unat (free_pages f) = card (free_frames f) + slack"

lemma get_page_scan_some:
  assumes "frames_wf f" "k \<in> free_frames f" "unat i \<le> k"
  shows "\<exists>j. get_page_scan f i = Some j \<and> unat i \<le> unat j \<and> unat j < unat (total_pages f)
    \<and> refs f (unat j) = 0 \<and> (\<forall>n. unat i \<le> n \<and> n < unat j \<longrightarrow> refs f n \<noteq> 0)"
  using assms
proof (induction f i rule: get_page_scan.induct)
  case (1 f i)
  from 1(3,4) have lt: "unat i < unat (total_pages f)" by (simp add: free_frames_def)
  then have i: "i < total_pages f" by (simp add: word_less_nat_alt)
  have len: "unat i < length (memory_map f)" using lt 1(2) by (simp add: frames_wf_def)
  have suc: "unat (i + 1) = Suc (unat i)"
    using lt unat_u32_lt[of "total_pages f"] by (intro unat_Suc_u32)
  show ?case
  proof (cases "memory_map f ! unat i = 0")
    case True
    with i len lt show ?thesis by (subst get_page_scan.simps) (auto simp: refs_def)
  next
    case False
    then have "unat (i + 1) \<le> k"
      using 1(3,4) suc by (auto simp: free_frames_def refs_def le_eq_less_or_eq unat_eq_0)
    from 1(1)[OF i _ False 1(2,3) this] len obtain j where
      j: "get_page_scan f (i + 1) = Some j" "unat (i + 1) \<le> unat j" "unat j < unat (total_pages f)"
        "refs f (unat j) = 0" "\<forall>n. unat (i + 1) \<le> n \<and> n < unat j \<longrightarrow> refs f n \<noteq> 0"
      by auto
    have "\<forall>n. unat i \<le> n \<and> n < unat j \<longrightarrow> refs f n \<noteq> 0"
      using j(5) False suc by (metis Suc_leI le_neq_implies_less refs_def unat_eq_0)
    with j i len False suc show ?thesis by (subst get_page_scan.simps) auto
  qed
qed


lemma get_page_spec:
  assumes c: "counted slack f" and free: "free_frames f \<noteq> {}"
  obtains i f' where "get_page f = Some (PAGE i, f')" "unat i \<in> free_frames f"
    "\<forall>n < unat i. n \<notin> free_frames f" "counted slack f'"
    "memory_map f' = (memory_map f)[unat i := 1]" "f' = f\<lparr>memory_map := (memory_map f)[unat i := 1], free_pages := free_pages f - 1\<rparr>"
proof -
  have wf: "frames_wf f" using c by (simp add: counted_def)
  from free obtain k where k: "k \<in> free_frames f" by blast
  then have "unat (start_page f) \<le> k" by (simp add: free_frames_def)
  from get_page_scan_some[OF wf k this] obtain i where
    i: "get_page_scan f (start_page f) = Some i" "unat (start_page f) \<le> unat i"
      "unat i < unat (total_pages f)" "refs f (unat i) = 0"
      "\<forall>n. unat (start_page f) \<le> n \<and> n < unat i \<longrightarrow> refs f n \<noteq> 0" by blast
  have len: "unat i < length (memory_map f)" using i(3) wf by (simp add: frames_wf_def)
  let ?f = "f\<lparr>memory_map := (memory_map f)[unat i := 1], free_pages := free_pages f - 1\<rparr>"
  have ff: "free_frames ?f = free_frames f - {unat i}"
    using len by (auto simp: free_frames_def refs_def nth_list_update)
  have mem: "unat i \<in> free_frames f" using i by (simp add: free_frames_def)
  then have pos: "0 < card (free_frames f)" using free by (simp add: card_gt_0_iff)
  have fp: "unat (free_pages f) = card (free_frames f) + slack" using c by (simp add: counted_def)
  have "unat (free_pages f - 1) = unat (free_pages f) - unat (1 :: u32)"
    by (rule unat_sub) (use pos fp in \<open>simp add: word_le_nat_alt\<close>)
  then have "unat (free_pages ?f) = card (free_frames ?f) + slack"
    unfolding ff using fp pos mem by (simp add: card_Diff_singleton)
  moreover have "frames_wf ?f" using wf by (simp add: frames_wf_def)
  ultimately have "counted slack ?f" by (simp add: counted_def)
  moreover have "\<forall>n < unat i. n \<notin> free_frames f" using i(5) by (auto simp: free_frames_def)
  moreover have "get_page f = Some (PAGE i, ?f)"
    using i(1) len by (simp add: get_page_def PAGE_def)
  ultimately show thesis using that[of i ?f] mem by simp
qed

lemma frame_index_small: "frames_wf f \<Longrightarrow> unat i < unat (total_pages f) \<Longrightarrow> IDX (PAGE i) = i"
  by (rule IDX_PAGE) (simp add: frames_wf_def)

lemma put_page_spec:
  assumes c: "counted slack f" and i: "unat (start_page f) \<le> unat i" "unat i < unat (total_pages f)"
    and r: "0 < refs f (unat i)" and room: "card (free_frames f) + slack + 1 < unat (total_pages f)"
    and pos: "0 < unat (free_pages f) \<or> refs f (unat i) = 1"
  obtains f' where "put_page (PAGE i) f = Some f'" "counted slack f'"
    "memory_map f' = (memory_map f)[unat i := memory_map f ! unat i - 1]"
    "free_frames f' = (if refs f (unat i) = 1 then insert (unat i) (free_frames f) else free_frames f)"
    "f' = f\<lparr>memory_map := (memory_map f)[unat i := memory_map f ! unat i - 1],
            free_pages := (if refs f (unat i) = 1 then free_pages f + 1 else free_pages f)\<rparr>"
proof -
  have wf: "frames_wf f" using c by (simp add: counted_def)
  have len: "unat i < length (memory_map f)" using i wf by (simp add: frames_wf_def)
  let ?r = "memory_map f ! unat i"
  let ?f = "f\<lparr>memory_map := (memory_map f)[unat i := ?r - 1],
              free_pages := (if refs f (unat i) = 1 then free_pages f + 1 else free_pages f)\<rparr>"
  have r1: "?r \<ge> 1" using r by (simp add: refs_def word_le_nat_alt)
  then have r': "unat (?r - 1) = refs f (unat i) - 1"
    by (simp add: refs_def unat_sub)
  then have z: "?r - 1 = 0 \<longleftrightarrow> refs f (unat i) = 1"
    unfolding unat_eq_0[symmetric] r' using r by auto
  have idx: "IDX (PAGE i) = i" using frame_index_small[OF wf i(2)] .
  have ff: "free_frames ?f = (if refs f (unat i) = 1 then insert (unat i) (free_frames f) else free_frames f)"
    using len i r r' by (auto simp: free_frames_def refs_def nth_list_update split: if_splits)
  have small: "unat (total_pages f) \<le> 2 ^ 20" using wf by (simp add: frames_wf_def)
  have fp: "unat (free_pages f) = card (free_frames f) + slack" using c by (simp add: counted_def)
  then have fp1: "unat (free_pages f + 1) = card (free_frames f) + slack + 1"
    using room small by (simp add: unat_add_u32)
  have nin: "unat i \<notin> free_frames f" using r by (simp add: free_frames_def)
  have "unat (free_pages ?f) = card (free_frames ?f) + slack"
    unfolding ff using fp fp1 nin by (simp add: card_insert_if)
  moreover have "frames_wf ?f" using wf by (simp add: frames_wf_def)
  ultimately have ct: "counted slack ?f" by (simp add: counted_def)
  have "0 < unat (free_pages ?f)" "unat (free_pages ?f) < unat (total_pages f)"
    using fp fp1 room pos by auto
  then have b: "free_pages ?f > 0" "free_pages ?f < total_pages f"
    by (simp_all only: word_less_nat_alt) simp
  have ib: "i \<ge> start_page f" "i < total_pages f"
    using i by (simp_all add: word_le_nat_alt word_less_nat_alt)
  have "put_page (PAGE i) f = Some ?f"
    using b r1 z len ib by (cases "refs f (unat i) = 1") (simp_all add: put_page_def idx Let_def)
  then show thesis using that[of ?f] ff ct by simp
qed


section \<open>The interface of an allocator\<close>

fun alloc_seq :: "('c \<Rightarrow> 's \<Rightarrow> ('p \<times> 's) option) \<Rightarrow> 'c list \<Rightarrow> 's \<Rightarrow> (('p \<times> 'c) list \<times> 's) option" where
  "alloc_seq alloc [] s = Some ([], s)"
| "alloc_seq alloc (c # cs) s = do {
     (p, s) \<leftarrow> alloc c s;
     (ps, s) \<leftarrow> alloc_seq alloc cs s;
     Some ((p, c) # ps, s)
   }"

fun free_seq :: "('p \<Rightarrow> 'c \<Rightarrow> 's \<Rightarrow> 's option) \<Rightarrow> ('p \<times> 'c) list \<Rightarrow> 's \<Rightarrow> 's option" where
  "free_seq free [] s = Some s"
| "free_seq free ((p, c) # ps) s = do { s \<leftarrow> free p c s; free_seq free ps s }"

definition regions :: "('p \<Rightarrow> 'c \<Rightarrow> nat set) \<Rightarrow> ('p \<times> 'c) list \<Rightarrow> nat set" where
  "regions region ps = (\<Union>(p, c) \<in> set ps. region p c)"

lemma regions_simps [simp]:
  "regions region [] = {}" "regions region ((p, c) # ps) = region p c \<union> regions region ps"
  by (simp_all add: regions_def)

fun separate :: "('p \<Rightarrow> 'c \<Rightarrow> nat set) \<Rightarrow> ('p \<times> 'c) list \<Rightarrow> bool" where
  "separate region [] \<longleftrightarrow> True"
| "separate region ((p, c) # ps) \<longleftrightarrow> region p c \<inter> regions region ps = {} \<and> separate region ps"

text \<open>
  What clients of an allocator rely on: what it hands out is in nobody's use and stays in
  use until it is given back, and giving back what was handed out succeeds.
\<close>

locale region_allocator =
  fixes alloc :: "'c \<Rightarrow> 's \<Rightarrow> ('p \<times> 's) option"
    and free :: "'p \<Rightarrow> 'c \<Rightarrow> 's \<Rightarrow> 's option"
    and region :: "'p \<Rightarrow> 'c \<Rightarrow> nat set"
    and valid :: "'p \<Rightarrow> 'c \<Rightarrow> bool"
    and used :: "'s \<Rightarrow> nat set"
    and inv :: "'s \<Rightarrow> bool"
  assumes alloc_law: "inv s \<Longrightarrow> alloc c s = Some (p, s') \<Longrightarrow>
      inv s' \<and> valid p c \<and> region p c \<inter> used s = {} \<and> used s' = used s \<union> region p c"
    and free_law: "inv s \<Longrightarrow> valid p c \<Longrightarrow> region p c \<subseteq> used s \<Longrightarrow>
      \<exists>s'. free p c s = Some s' \<and> inv s' \<and> used s' = used s - region p c"
begin

lemma alloc_seq_law:
  "inv s \<Longrightarrow> alloc_seq alloc cs s = Some (ps, s') \<Longrightarrow>
    inv s' \<and> map snd ps = cs \<and> (\<forall>(p, c) \<in> set ps. valid p c) \<and> separate region ps
    \<and> regions region ps \<inter> used s = {} \<and> used s' = used s \<union> regions region ps"
proof (induction cs arbitrary: s ps)
  case (Cons c cs)
  from Cons.prems(2) obtain p s1 ps' where
    1: "alloc c s = Some (p, s1)" "alloc_seq alloc cs s1 = Some (ps', s')" "ps = (p, c) # ps'"
    by (auto simp: bind_Some)
  from alloc_law[OF Cons.prems(1) 1(1)] Cons.IH[OF _ 1(2)] 1(3) show ?case by auto
qed simp

lemma free_seq_law:
  "inv s \<Longrightarrow> (\<forall>(p, c) \<in> set ps. valid p c) \<Longrightarrow> separate region ps \<Longrightarrow> regions region ps \<subseteq> used s \<Longrightarrow>
    \<exists>s'. free_seq free ps s = Some s' \<and> inv s' \<and> used s' = used s - regions region ps"
proof (induction ps arbitrary: s)
  case (Cons pc ps)
  obtain p c where pc: "pc = (p, c)" by (cases pc)
  from free_law[OF Cons.prems(1), of p c] Cons.prems(2,4) pc obtain s1 where
    s1: "free p c s = Some s1" "inv s1" "used s1 = used s - region p c" by auto
  have "regions region ps \<subseteq> used s1" using Cons.prems(3,4) pc s1(3) by auto
  with Cons.IH[OF s1(2)] Cons.prems(2,3) pc obtain s' where
    "free_seq free ps s1 = Some s'" "inv s'" "used s' = used s1 - regions region ps" by auto
  with s1 pc show ?case by auto
qed simp

lemma alloc_free_all:
  assumes "inv s" "alloc_seq alloc cs s = Some (ps, s')"
  shows "\<exists>s''. free_seq free ps s' = Some s'' \<and> inv s'' \<and> used s'' = used s"
proof -
  note a = alloc_seq_law[OF assms]
  then obtain s'' where "free_seq free ps s' = Some s''" "inv s''"
    "used s'' = used s' - regions region ps" using free_seq_law[of s' ps] by auto
  with a show ?thesis by (auto intro!: exI[of _ s''])
qed

end

definition kpages :: "'a frames_scheme \<Rightarrow> nat set" where
  "kpages f = bm_set (kernel_map f)"

definition kpages_wf :: "'a frames_scheme \<Rightarrow> bool" where
  "kpages_wf f \<longleftrightarrow> bm_wf (kernel_map f)
     \<and> unat (bm_offset (kernel_map f)) + 8 * length (bm_bits (kernel_map f)) \<le> 2 ^ 20"

definition kregion :: "u32 \<Rightarrow> u32 \<Rightarrow> nat set" where
  "kregion vaddr count = {unat (IDX vaddr) ..< unat (IDX vaddr) + unat count}"

lemma alloc_kpage_law:
  assumes wf: "kpages_wf f" and a: "alloc_kpage count f = Some (v, f')"
  shows "kpages_wf f' \<and> (page_aligned v \<and> 0 < count) \<and> kregion v count \<inter> kpages f = {}
    \<and> kpages f' = kpages f \<union> kregion v count"
proof -
  have bw: "bm_wf (kernel_map f)" using wf by (simp add: kpages_wf_def)
  from a have c: "0 < count" by (auto simp: alloc_kpage_def scan_page_def halt_simps split: if_splits)
  then have c': "0 < unat count" by (simp add: unat_gt_0)
  from bw c' show ?thesis
  proof (cases rule: bitmap_scan_cases)
    case full
    with a show ?thesis by (simp add: alloc_kpage_def scan_page_def split: if_splits)
  next
    case (found s m')
    with a c have v: "v = PAGE s" and f': "f' = f\<lparr>kernel_map := m'\<rparr>"
      by (simp_all add: alloc_kpage_def scan_page_def)
    have "unat s \<in> bm_dom (kernel_map f)"
      using found(2) c' unfolding free_run_def by (metis DiffE atLeastLessThan_iff less_add_same_cancel1 order_refl subsetD)
    then have "unat s < 2 ^ 20" using wf by (simp add: bm_dom_def kpages_wf_def)
    then have i: "IDX v = s" unfolding v by (rule IDX_PAGE)
    have "kpages_wf f'" using wf found f' by (simp add: kpages_wf_def)
    moreover have "page_aligned v" by (simp add: v)
    moreover have "kregion v count \<inter> kpages f = {}"
      using found(2) by (auto simp: kregion_def kpages_def i free_run_def)
    ultimately show ?thesis using found(6) c f' by (simp add: kpages_def kregion_def i)
  qed
qed

lemma reset_loop_spec:
  assumes "bm_wf m" "{unat i ..< unat i + n} \<subseteq> bm_set m"
  shows "\<exists>m'. reset_loop m i n = Some m' \<and> bm_wf m' \<and> bm_set m' = bm_set m - {unat i ..< unat i + n}
    \<and> bm_offset m' = bm_offset m \<and> length (bm_bits m') = length (bm_bits m)"
  using assms
proof (induction n arbitrary: m i)
  case (Suc n)
  from Suc.prems(2) have i: "unat i \<in> bm_set m" by auto
  then have d: "unat i \<in> bm_dom m" by (simp add: bm_set_def)
  obtain m1 where m1: "bitmap_set m i False = Some m1" "bm_wf m1" "bm_set m1 = bm_set m - {unat i}"
      "bm_offset m1 = bm_offset m" "length (bm_bits m1) = length (bm_bits m)"
    by (rule bitmap_set_eq[OF Suc.prems(1) d, of False]) (simp add: that)
  have "unat i < 2 ^ 32 - 1" using d Suc.prems(1) by (simp add: bm_dom_def bm_wf_def)
  then have s: "unat (i + 1) = Suc (unat i)" by (intro unat_Suc_u32[of _ "2 ^ 32 - 1"]) auto
  define R where "R = {unat (i + 1) ..< unat (i + 1) + n}"
  have R: "{unat i ..< unat i + Suc n} = insert (unat i) R" "unat i \<notin> R"
    unfolding R_def s by auto
  have "R \<subseteq> bm_set m1" using Suc.prems(2) unfolding R(1) m1(3) using R(2) by blast
  then have "{unat (i + 1) ..< unat (i + 1) + n} \<subseteq> bm_set m1" unfolding R_def .
  from Suc.IH[OF m1(2) this] obtain m' where
    m': "reset_loop m1 (i + 1) n = Some m'" "bm_wf m'"
      "bm_set m' = bm_set m1 - {unat (i + 1) ..< unat (i + 1) + n}"
      "bm_offset m' = bm_offset m1" "length (bm_bits m') = length (bm_bits m1)" by blast
  have "bitmap_test m i = Some True" using bitmap_test_eq[OF Suc.prems(1) d] i by simp
  then have "reset_loop m i (Suc n) = Some m'" using m1(1) m'(1) by simp
  moreover have "bm_set m' = bm_set m - {unat i ..< unat i + Suc n}"
    unfolding R(1) m'(3) m1(3) R_def by blast
  ultimately show ?case using m1(4,5) m'(2,4,5) by simp
qed simp

lemma free_kpage_law:
  assumes wf: "kpages_wf f" and v: "page_aligned v \<and> 0 < count" and u: "kregion v count \<subseteq> kpages f"
  shows "\<exists>f'. free_kpage v count f = Some f' \<and> kpages_wf f' \<and> kpages f' = kpages f - kregion v count"
proof -
  have "bm_wf (kernel_map f)" using wf by (simp only: kpages_wf_def)
  moreover have "{unat (IDX v) ..< unat (IDX v) + unat count} \<subseteq> bm_set (kernel_map f)"
    using u by (simp only: kregion_def kpages_def)
  ultimately have "\<exists>m'. reset_loop (kernel_map f) (IDX v) (unat count) = Some m' \<and> bm_wf m'
    \<and> bm_set m' = bm_set (kernel_map f) - {unat (IDX v) ..< unat (IDX v) + unat count}
    \<and> bm_offset m' = bm_offset (kernel_map f)
    \<and> length (bm_bits m') = length (bm_bits (kernel_map f))"
    by (rule reset_loop_spec)
  then obtain m' where m': "reset_loop (kernel_map f) (IDX v) (unat count) = Some m'" "bm_wf m'"
    "bm_set m' = bm_set (kernel_map f) - {unat (IDX v) ..< unat (IDX v) + unat count}"
    "bm_offset m' = bm_offset (kernel_map f)"
    "length (bm_bits m') = length (bm_bits (kernel_map f))" by auto
  have "free_kpage v count f = Some (f\<lparr>kernel_map := m'\<rparr>)"
    using v m'(1) by (simp add: free_kpage_def reset_page_def)
  moreover have "kpages_wf (f\<lparr>kernel_map := m'\<rparr>)" using wf m' by (simp add: kpages_wf_def)
  moreover have "kpages (f\<lparr>kernel_map := m'\<rparr>) = kpages f - kregion v count"
    using m'(3) by (simp add: kpages_def kregion_def)
  ultimately show ?thesis by blast
qed

interpretation kp: region_allocator alloc_kpage free_kpage kregion
  "\<lambda>v count. page_aligned v \<and> 0 < count" kpages kpages_wf
proof
  show "kpages_wf s' \<and> (page_aligned p \<and> 0 < c) \<and> kregion p c \<inter> kpages s = {}
      \<and> kpages s' = kpages s \<union> kregion p c"
    if "kpages_wf s" "alloc_kpage c s = Some (p, s')" for s s' :: "'a frames_scheme" and p c
    by (rule alloc_kpage_law[OF that])
  show "\<exists>s'. free_kpage p c s = Some s' \<and> kpages_wf s' \<and> kpages s' = kpages s - kregion p c"
    if "kpages_wf s" "page_aligned p \<and> 0 < c" "kregion p c \<subseteq> kpages s" for s :: "'a frames_scheme" and p c
    by (rule free_kpage_law[OF that])
qed


section \<open>Properties\<close>

text \<open>
  C20: kernel pages are never handed out twice. Whatever runs of pages a sequence of
  \<^verbatim>\<open>alloc_kpage\<close> calls returns, the runs are pairwise disjoint, none contains a page that was
  in use before, and giving them all back with \<^verbatim>\<open>free_kpage\<close> trips no assertion and leaves
  exactly the pages in use that were in use before.
\<close>

theorem kernel_pages_disjoint:
  assumes "kpages_wf f" and "alloc_seq alloc_kpage counts f = Some (ps, f')"
  shows "map snd ps = counts \<and> separate kregion ps \<and> regions kregion ps \<inter> kpages f = {}
    \<and> kpages f' = kpages f \<union> regions kregion ps
    \<and> (\<exists>f''. free_seq free_kpage ps f' = Some f'' \<and> kpages f'' = kpages f)"
  using kp.alloc_seq_law[OF assms] kp.alloc_free_all[OF assms] by blast

definition sample_frames :: frames where
  "sample_frames = \<lparr>total_pages = 5, free_pages = 2, memory_base = MEMORY_BASE, memory_size = 0,
     start_page = 2, memory_map_pages = 1, memory_map = [1, 1, 3, 0, 0],
     kernel_map = bitmap_make [0x9] 1 256\<rparr>"

lemma kernel_pages_disjoint_witness:
  "\<exists>ps f'. alloc_seq alloc_kpage [3, 2] sample_frames = Some (ps, f') \<and> map snd ps = [3, 2]
    \<and> separate kregion ps \<and> kpages f' = kpages sample_frames \<union> regions kregion ps
    \<and> (\<exists>f''. free_seq free_kpage ps f' = Some f'' \<and> kpages f'' = kpages sample_frames)"
proof -
  have "alloc_seq alloc_kpage [3, 2] sample_frames \<noteq> None" by code_simp
  then obtain ps f' where a: "alloc_seq alloc_kpage [3, 2] sample_frames = Some (ps, f')" by auto
  have "kpages_wf sample_frames"
    by (simp add: kpages_wf_def sample_frames_def bm_wf_def bitmap_make_def)
  from kernel_pages_disjoint[OF this a] a show ?thesis by auto
qed

text \<open>
  C21: \<^verbatim>\<open>get_page\<close> hands out the lowest free frame and \<^verbatim>\<open>put_page\<close> undoes it. When the
  frame map is well-formed and a frame is free, \<^verbatim>\<open>get_page\<close> returns the address of the lowest
  frame without a reference, its reference count becomes 1, no other count changes, the
  count of free frames stays in step; and \<^verbatim>\<open>put_page\<close> of that address passes all its
  assertions and gives back the state before, provided the count leaves room for one more.
\<close>

theorem get_page_put_page:
  assumes "counted slack f" and "free_frames f \<noteq> {}"
    and "card (free_frames f) + slack < unat (total_pages f)"
  shows "\<exists>i f'. get_page f = Some (PAGE i, f') \<and> unat i \<in> free_frames f
    \<and> (\<forall>n < unat i. n \<notin> free_frames f) \<and> counted slack f' \<and> refs f' (unat i) = 1
    \<and> (\<forall>n. n \<noteq> unat i \<longrightarrow> refs f' n = refs f n) \<and> put_page (PAGE i) f' = Some f"
proof -
  from get_page_spec[OF assms(1,2)] obtain i f' where
    g: "get_page f = Some (PAGE i, f')" "unat i \<in> free_frames f" "\<forall>n < unat i. n \<notin> free_frames f"
      "counted slack f'"
    and f': "f' = f\<lparr>memory_map := (memory_map f)[unat i := 1], free_pages := free_pages f - 1\<rparr>"
    by blast
  have wf: "frames_wf f" using assms(1) by (simp only: counted_def)
  have b: "unat (start_page f) \<le> unat i" "unat i < unat (total_pages f)" "refs f (unat i) = 0"
    using g(2) by (simp_all add: free_frames_def)
  have len: "unat i < length (memory_map f)" using b(2) wf by (simp add: frames_wf_def)
  then have r: "refs f' (unat i) = 1" by (simp add: refs_def f')
  have ff: "free_frames f' = free_frames f - {unat i}"
    using len by (auto simp: free_frames_def refs_def f' nth_list_update)
  then have room: "card (free_frames f') + slack + 1 < unat (total_pages f')"
    using g(2) assms(3) card_Suc_Diff1[OF finite_free_frames g(2)] by (simp add: f')
  have b': "unat (start_page f') \<le> unat i" "unat i < unat (total_pages f')" using b by (simp_all add: f')
  have "0 < refs f' (unat i)" using r by simp
  from put_page_spec[OF g(4) b' this room disjI2, OF r] obtain f'' where
    "put_page (PAGE i) f' = Some f''"
    and f'': "f'' = f'\<lparr>memory_map := (memory_map f')[unat i := memory_map f' ! unat i - 1],
            free_pages := (if refs f' (unat i) = 1 then free_pages f' + 1 else free_pages f')\<rparr>"
    by blast
  moreover have "memory_map f ! unat i = 0" using b(3) by (simp add: refs_def unat_eq_0)
  then have "(memory_map f)[unat i := 0] = memory_map f" by (metis list_update_id)
  then have "f'' = f" using len r unfolding f'' f' by simp
  ultimately show ?thesis using g r by (auto simp: f' refs_def)
qed

lemma free_frames_filter:
  "free_frames f = set (filter (\<lambda>i. refs f i = 0) [unat (start_page f) ..< unat (total_pages f)])"
  by (auto simp: free_frames_def)

lemma sample_frames_free: "free_frames sample_frames = {3, 4}"
  unfolding free_frames_filter by (simp add: refs_def sample_frames_def upt_rec)

lemma get_page_put_page_witness:
  "\<exists>i f'. get_page sample_frames = Some (PAGE i, f') \<and> unat i \<in> free_frames sample_frames
    \<and> (\<forall>n < unat i. n \<notin> free_frames sample_frames) \<and> counted 0 f' \<and> refs f' (unat i) = 1
    \<and> (\<forall>n. n \<noteq> unat i \<longrightarrow> refs f' n = refs sample_frames n)
    \<and> put_page (PAGE i) f' = Some sample_frames"
proof (rule get_page_put_page)
  have "frames_wf sample_frames" by (simp add: frames_wf_def sample_frames_def)
  then show "counted 0 sample_frames"
    by (simp only: counted_def sample_frames_free) (simp add: sample_frames_def)
  show "free_frames sample_frames \<noteq> {}" by (simp add: sample_frames_free)
  show "card (free_frames sample_frames) + 0 < unat (total_pages sample_frames)"
    by (simp only: sample_frames_free) (simp add: sample_frames_def)
qed

end
