(* ===== verification/Paging.thy ===== *)
theory Paging
  imports Frames
begin

text \<open>
  Virtual memory in \<^verbatim>\<open>kernel/memory.c\<close>: the page tables, reached through the recursive
  entry 1023 of the page directory, demand and copy-on-write paging, \<^verbatim>\<open>brk\<close> and \<^verbatim>\<open>mmap\<close>.
  Physical memory is read in words: \<open>phys f w\<close> is word \<open>w\<close> of frame \<open>f\<close>. A virtual access
  goes through \<open>translate\<close>, the two-level walk of the processor; an access to an unmapped
  page by the paging code itself is \<open>None\<close>. The translation cache is not modelled, every
  access sees the tables as they are.
\<close>

section \<open>State\<close>

record vm = frames +
  cr3 :: u32
  phys :: "nat \<Rightarrow> nat \<Rightarrow> u32"

text \<open>The fields of the running task the paging code uses.\<close>

record proc_mem =
  t_pde :: u32
  t_uid :: u32
  t_end :: u32
  t_brk :: u32
  t_vmap :: bitmap

abbreviation PDE_MASK :: u32 where "PDE_MASK \<equiv> 0xFFC00000"
abbreviation USER_MMAP_ADDR :: u32 where "USER_MMAP_ADDR \<equiv> 0x8000000"
abbreviation USER_STACK_TOP :: u32 where "USER_STACK_TOP \<equiv> 0x10000000"
abbreviation USER_STACK_BOTTOM :: u32 where "USER_STACK_BOTTOM \<equiv> 0xFE00000"

definition DIDX :: "u32 \<Rightarrow> u32" where
  "DIDX addr = drop_bit 22 addr AND 0x3FF"

definition TIDX :: "u32 \<Rightarrow> u32" where
  "TIDX addr = drop_bit 12 addr AND 0x3FF"

section \<open>Page table entries\<close>

text \<open>The bit fields of \<^verbatim>\<open>page_entry_t\<close>, by their position in the word.\<close>

abbreviation e_present :: "u32 \<Rightarrow> bool" where "e_present e \<equiv> bit e 0"
abbreviation e_write :: "u32 \<Rightarrow> bool" where "e_write e \<equiv> bit e 1"
abbreviation e_user :: "u32 \<Rightarrow> bool" where "e_user e \<equiv> bit e 2"
abbreviation e_shared :: "u32 \<Rightarrow> bool" where "e_shared e \<equiv> bit e 9"
abbreviation e_readonly :: "u32 \<Rightarrow> bool" where "e_readonly e \<equiv> bit e 11"

definition e_index :: "u32 \<Rightarrow> u32" where
  "e_index e = drop_bit 12 e"

definition set_field :: "nat \<Rightarrow> bool \<Rightarrow> u32 \<Rightarrow> u32" where
  "set_field n v e = (if v then set_bit n e else unset_bit n e)"

definition set_index :: "u32 \<Rightarrow> u32 \<Rightarrow> u32" where
  "set_index i e = take_bit 12 e OR push_bit 12 i"

definition entry_init :: "u32 \<Rightarrow> u32" where
  "entry_init index =
     set_index index (set_field 2 True (set_field 1 True (set_field 0 True 0)))"

section \<open>Virtual accesses\<close>

definition translate :: "u32 \<Rightarrow> 'a vm_scheme \<Rightarrow> (nat \<times> nat) option" where
  "translate a s = do {
     let e = phys s (unat (IDX (cr3 s))) (unat (DIDX a));
     check (e_present e);
     let e2 = phys s (unat (e_index e)) (unat (TIDX a));
     check (e_present e2);
     Some (unat (e_index e2), unat (a AND 0xFFF) div 4)
   }"

definition vread :: "u32 \<Rightarrow> 'a vm_scheme \<Rightarrow> u32 option" where
  "vread a s = do { (f, w) \<leftarrow> translate a s; Some (phys s f w) }"

definition poke :: "nat \<Rightarrow> nat \<Rightarrow> u32 \<Rightarrow> 'a vm_scheme \<Rightarrow> 'a vm_scheme" where
  "poke f w v s = s\<lparr>phys := (phys s)(f := (phys s f)(w := v))\<rparr>"

definition vwrite :: "u32 \<Rightarrow> u32 \<Rightarrow> 'a vm_scheme \<Rightarrow> 'a vm_scheme option" where
  "vwrite a v s = do { (f, w) \<leftarrow> translate a s; Some (poke f w v s) }"

text \<open>\<^verbatim>\<open>memset\<close> to zero and \<^verbatim>\<open>memcpy\<close> of one whole page.\<close>

definition zero_page :: "u32 \<Rightarrow> 'a vm_scheme \<Rightarrow> 'a vm_scheme option" where
  "zero_page a s = do {
     (f, _) \<leftarrow> translate a s;
     Some (s\<lparr>phys := (phys s)(f := (\<lambda>_. 0))\<rparr>)
   }"

definition copy_words :: "u32 \<Rightarrow> u32 \<Rightarrow> 'a vm_scheme \<Rightarrow> 'a vm_scheme option" where
  "copy_words dst src s = do {
     (f, _) \<leftarrow> translate dst s;
     (g, _) \<leftarrow> translate src s;
     Some (s\<lparr>phys := (phys s)(f := phys s g)\<rparr>)
   }"

section \<open>The kernel mapping\<close>

text \<open>
  \<^verbatim>\<open>mapping_init\<close>: four page tables in the frames 2 to 5 map the first 16 MB onto
  themselves, page 0 excepted; entry 1023 of the directory (frame 1) maps the directory.
\<close>

fun map_table :: "nat \<Rightarrow> nat \<Rightarrow> nat \<Rightarrow> u32 \<Rightarrow> 'a vm_scheme \<Rightarrow> (u32 \<times> 'a vm_scheme) option" where
  "map_table frame tidx 0 index s = Some (index, s)"
| "map_table frame tidx (Suc left) index s =
     (if index = 0 then map_table frame (tidx + 1) left (index + 1) s
      else do {
        let s = poke frame tidx (entry_init index) s;
        mp \<leftarrow> wr (memory_map s) (unat index) 1;
        map_table frame (tidx + 1) left (index + 1) (s\<lparr>memory_map := mp\<rparr>) })"

fun map_tables :: "nat \<Rightarrow> u32 list \<Rightarrow> u32 \<Rightarrow> 'a vm_scheme \<Rightarrow> 'a vm_scheme option" where
  "map_tables didx [] index s = Some s"
| "map_tables didx (pte # ptes) index s = do {
     let s = s\<lparr>phys := (phys s)(unat (IDX pte) := (\<lambda>_. 0))\<rparr>;
     let s = poke 1 didx (entry_init (IDX pte)) s;
     (index, s) \<leftarrow> map_table (unat (IDX pte)) 0 1024 index s;
     map_tables (didx + 1) ptes index s
   }"

definition mapping_init :: "'a vm_scheme \<Rightarrow> 'a vm_scheme option" where
  "mapping_init s = do {
     let s = s\<lparr>phys := (phys s)(1 := (\<lambda>_. 0))\<rparr>;
     s \<leftarrow> map_tables 0 [0x2000, 0x3000, 0x4000, 0x5000] 0 s;
     let s = poke 1 1023 (entry_init (IDX 0x1000)) s;
     Some (s\<lparr>cr3 := 0x1000\<rparr>)
   }"

section \<open>Page tables\<close>

definition pde_entry :: "u32 \<Rightarrow> u32" where
  "pde_entry idx = 0xFFFFF000 + 4 * idx"

definition get_pte :: "u32 \<Rightarrow> bool \<Rightarrow> 'a vm_scheme \<Rightarrow> (u32 \<times> 'a vm_scheme) option" where
  "get_pte vaddr create s = do {
     let idx = DIDX vaddr;
     let entry = pde_entry idx;
     e \<leftarrow> vread entry s;
     check (create \<or> (\<not> create \<and> e_present e));
     let table = PDE_MASK OR push_bit 12 idx;
     if \<not> e_present e then do {
       (page, s) \<leftarrow> get_page s;
       s \<leftarrow> vwrite entry (entry_init (IDX page)) s;
       s \<leftarrow> zero_page table s;
       Some (table, s)
     } else Some (table, s)
   }"

definition get_entry :: "u32 \<Rightarrow> bool \<Rightarrow> 'a vm_scheme \<Rightarrow> (u32 \<times> 'a vm_scheme) option" where
  "get_entry vaddr create s = do {
     (pte, s) \<leftarrow> get_pte vaddr create s;
     Some (pte + 4 * TIDX vaddr, s)
   }"

definition link_page :: "u32 \<Rightarrow> 'a vm_scheme \<Rightarrow> 'a vm_scheme option" where
  "link_page vaddr s = do {
     check (page_aligned vaddr);
     (entry, s) \<leftarrow> get_entry vaddr True s;
     e \<leftarrow> vread entry s;
     if e_present e then Some s
     else do {
       (paddr, s) \<leftarrow> get_page s;
       vwrite entry (entry_init (IDX paddr)) s
     }
   }"

definition unlink_page :: "u32 \<Rightarrow> 'a vm_scheme \<Rightarrow> 'a vm_scheme option" where
  "unlink_page vaddr s = do {
     check (page_aligned vaddr);
     d \<leftarrow> vread (pde_entry (DIDX vaddr)) s;
     if \<not> e_present d then Some s
     else do {
       (entry, s) \<leftarrow> get_entry vaddr False s;
       e \<leftarrow> vread entry s;
       if \<not> e_present e then Some s
       else do {
         s \<leftarrow> vwrite entry (set_field 0 False e) s;
         put_page (PAGE (e_index e)) s
       }
     }
   }"

text \<open>\<^verbatim>\<open>copy_page\<close> maps the new frame at address 0 for the time of the copy.\<close>

definition copy_page :: "u32 \<Rightarrow> 'a vm_scheme \<Rightarrow> (u32 \<times> 'a vm_scheme) option" where
  "copy_page page s = do {
     (paddr, s) \<leftarrow> get_page s;
     (entry, s) \<leftarrow> get_pte 0 False s;
     s \<leftarrow> vwrite entry (entry_init (IDX paddr)) s;
     s \<leftarrow> copy_words 0 page s;
     e \<leftarrow> vread entry s;
     s \<leftarrow> vwrite entry (set_field 0 False e) s;
     Some (paddr, s)
   }"


section \<open>Address spaces\<close>

text \<open>
  The inner loop of \<^verbatim>\<open>copy_pde\<close> shares the pages of one table: a page that is not a shared
  mapping becomes read-only, and every page gets one more reference.
\<close>

fun share_entries :: "u32 \<Rightarrow> u32 \<Rightarrow> nat \<Rightarrow> 'a vm_scheme \<Rightarrow> 'a vm_scheme option" where
  "share_entries pte tidx 0 s = Some s"
| "share_entries pte tidx (Suc left) s = do {
     let entry = pte + 4 * tidx;
     e \<leftarrow> vread entry s;
     if \<not> e_present e then share_entries pte (tidx + 1) left s
     else do {
       r \<leftarrow> rd (memory_map s) (unat (e_index e));
       check (r > 0);
       s \<leftarrow> (if \<not> e_shared e then vwrite entry (set_field 1 False e) s else Some s);
       mp \<leftarrow> wr (memory_map s) (unat (e_index e)) (r + 1);
       check (r + 1 < 255);
       share_entries pte (tidx + 1) left (s\<lparr>memory_map := mp\<rparr>)
     }
   }"

fun share_tables :: "u32 \<Rightarrow> u32 \<Rightarrow> nat \<Rightarrow> 'a vm_scheme \<Rightarrow> 'a vm_scheme option" where
  "share_tables pde didx 0 s = Some s"
| "share_tables pde didx (Suc left) s = do {
     let dentry = pde + 4 * didx;
     d \<leftarrow> vread dentry s;
     if \<not> e_present d then share_tables pde (didx + 1) left s
     else do {
       let pte = PDE_MASK OR push_bit 12 didx;
       s \<leftarrow> share_entries pte 0 1024 s;
       (paddr, s) \<leftarrow> copy_page pte s;
       d \<leftarrow> vread dentry s;
       s \<leftarrow> vwrite dentry (set_index (IDX paddr) d) s;
       share_tables pde (didx + 1) left s
     }
   }"

definition set_cr3 :: "u32 \<Rightarrow> 'a vm_scheme \<Rightarrow> 'a vm_scheme option" where
  "set_cr3 pde s = do { check (page_aligned pde); Some (s\<lparr>cr3 := pde\<rparr>) }"

definition copy_pde :: "proc_mem \<Rightarrow> 'a vm_scheme \<Rightarrow> (u32 \<times> 'a vm_scheme) option" where
  "copy_pde task s = do {
     (pde, s) \<leftarrow> alloc_kpage 1 s;
     s \<leftarrow> copy_words pde (t_pde task) s;
     s \<leftarrow> vwrite (pde + 4 * 1023) (entry_init (IDX pde)) s;
     s \<leftarrow> share_tables pde 4 1019 s;
     s \<leftarrow> set_cr3 (t_pde task) s;
     Some (pde, s)
   }"

fun release_entries :: "u32 \<Rightarrow> u32 \<Rightarrow> nat \<Rightarrow> 'a vm_scheme \<Rightarrow> 'a vm_scheme option" where
  "release_entries pte tidx 0 s = Some s"
| "release_entries pte tidx (Suc left) s = do {
     e \<leftarrow> vread (pte + 4 * tidx) s;
     if \<not> e_present e then release_entries pte (tidx + 1) left s
     else do {
       r \<leftarrow> rd (memory_map s) (unat (e_index e));
       check (r > 0);
       s \<leftarrow> put_page (PAGE (e_index e)) s;
       release_entries pte (tidx + 1) left s
     }
   }"

fun release_tables :: "u32 \<Rightarrow> nat \<Rightarrow> 'a vm_scheme \<Rightarrow> 'a vm_scheme option" where
  "release_tables didx 0 s = Some s"
| "release_tables didx (Suc left) s = do {
     d \<leftarrow> vread (pde_entry didx) s;
     if \<not> e_present d then release_tables (didx + 1) left s
     else do {
       s \<leftarrow> release_entries (PDE_MASK OR push_bit 12 didx) 0 1024 s;
       d \<leftarrow> vread (pde_entry didx) s;
       s \<leftarrow> put_page (PAGE (e_index d)) s;
       release_tables (didx + 1) left s
     }
   }"

definition free_pde :: "proc_mem \<Rightarrow> 'a vm_scheme \<Rightarrow> 'a vm_scheme option" where
  "free_pde task s = do {
     check (t_uid task \<noteq> 0);
     s \<leftarrow> release_tables 4 1019 s;
     free_kpage (t_pde task) 1 s
   }"

section \<open>Page faults\<close>

text \<open>
  \<open>vaddr\<close> is the faulting address (\<^verbatim>\<open>cr2\<close>) and \<open>error\<close> the error code of the processor (bit 0:
  the page is present, bit 1: a write). The two assertions at the head of the handler are
  always true as written (\<^verbatim>\<open>vector = 0xe\<close> assigns, and the chained comparison compares a
  truth value with \<^verbatim>\<open>USER_STACK_TOP\<close>).
\<close>

definition page_fault :: "u32 \<Rightarrow> u32 \<Rightarrow> proc_mem \<Rightarrow> 'a vm_scheme \<Rightarrow> 'a vm_scheme option" where
  "page_fault vaddr error task s =
     (if bit error 0 then do {
        check (bit error 1);
        (entry, s) \<leftarrow> get_entry vaddr False s;
        e \<leftarrow> vread entry s;
        check (e_present e);
        check (\<not> e_shared e);
        check (\<not> e_readonly e);
        r \<leftarrow> rd (memory_map s) (unat (e_index e));
        check (r > 0);
        if r = 1 then vwrite entry (set_field 1 True e) s
        else do {
          let page = PAGE (IDX vaddr);
          (paddr, s) \<leftarrow> copy_page page s;
          e \<leftarrow> vread entry s;
          r \<leftarrow> rd (memory_map s) (unat (e_index e));
          mp \<leftarrow> wr (memory_map s) (unat (e_index e)) (r - 1);
          vwrite entry (entry_init (IDX paddr)) (s\<lparr>memory_map := mp\<rparr>)
        }
      }
      else if vaddr \<ge> USER_STACK_BOTTOM \<or> vaddr < t_brk task then link_page (PAGE (IDX vaddr)) s
      else None)"

section \<open>brk and mmap\<close>

partial_function (option) unlink_range :: "u32 \<Rightarrow> u32 \<Rightarrow> 'a vm_scheme \<Rightarrow> 'a vm_scheme option" where
  "unlink_range page old_brk s =
     (if page < old_brk then
        Option.bind (unlink_page page s) (\<lambda>s. unlink_range (page + MEMORY_PAGE_SIZE) old_brk s)
      else Some s)"

definition sys_brk :: "u32 \<Rightarrow> proc_mem \<Rightarrow> 'a vm_scheme \<Rightarrow> (u32 \<times> proc_mem \<times> 'a vm_scheme) option" where
  "sys_brk brk task s = do {
     check (page_aligned brk);
     check (t_uid task \<noteq> 0);
     check (t_end task \<le> brk \<and> brk \<le> USER_MMAP_ADDR);
     let old_brk = t_brk task;
     if old_brk > brk then do {
       s \<leftarrow> unlink_range brk old_brk s;
       Some (0, task\<lparr>t_brk := brk\<rparr>, s) }
     else if IDX (brk - old_brk) > free_pages s then Some (- 1, task, s)
     else Some (0, task\<lparr>t_brk := brk\<rparr>, s)
   }"

definition mmap_entry :: "u32 \<Rightarrow> u32 \<Rightarrow> u32 \<Rightarrow> u32" where
  "mmap_entry prot flags e =
     (let e = set_field 11 True (set_field 1 False (set_field 2 True e));
          e = (if prot AND 2 \<noteq> 0 then set_field 1 True (set_field 11 False e) else e);
          e = (if flags AND 1 \<noteq> 0 then set_field 9 True e else e)
      in if flags AND 2 \<noteq> 0 then set_field 10 True e else e)"

fun mmap_loop :: "u32 \<Rightarrow> u32 \<Rightarrow> u32 \<Rightarrow> u32 \<Rightarrow> nat \<Rightarrow> bitmap \<Rightarrow> 'a vm_scheme \<Rightarrow> (bitmap \<times> 'a vm_scheme) option" where
  "mmap_loop prot flags vaddr i 0 vmap s = Some (vmap, s)"
| "mmap_loop prot flags vaddr i (Suc left) vmap s = do {
     let page = vaddr + MEMORY_PAGE_SIZE * i;
     s \<leftarrow> link_page page s;
     vmap \<leftarrow> bitmap_set vmap (IDX page) True;
     (entry, s) \<leftarrow> get_entry page False s;
     e \<leftarrow> vread entry s;
     s \<leftarrow> vwrite entry (mmap_entry prot flags e) s;
     mmap_loop prot flags vaddr (i + 1) left vmap s
   }"

text \<open>
  \<^verbatim>\<open>sys_mmap\<close> up to the mapping; for a file the source then reads it into the mapped pages
  with \<^verbatim>\<open>lseek\<close> and \<^verbatim>\<open>read\<close>.
\<close>

definition sys_mmap :: "u32 \<Rightarrow> u32 \<Rightarrow> u32 \<Rightarrow> u32 \<Rightarrow> proc_mem \<Rightarrow> 'a vm_scheme \<Rightarrow> (u32 \<times> proc_mem \<times> 'a vm_scheme) option" where
  "sys_mmap addr len prot flags task s = do {
     check (page_aligned addr);
     let count = div_round_up len MEMORY_PAGE_SIZE;
     (vaddr, vmap) \<leftarrow> (if addr = 0 then scan_page (t_vmap task) count else Some (addr, t_vmap task));
     check (vaddr \<ge> USER_MMAP_ADDR \<and> vaddr < USER_STACK_BOTTOM);
     (vmap, s) \<leftarrow> mmap_loop prot flags vaddr 0 (unat count) vmap s;
     Some (vaddr, task\<lparr>t_vmap := vmap\<rparr>, s)
   }"

fun munmap_loop :: "u32 \<Rightarrow> u32 \<Rightarrow> nat \<Rightarrow> bitmap \<Rightarrow> 'a vm_scheme \<Rightarrow> (bitmap \<times> 'a vm_scheme) option" where
  "munmap_loop vaddr i 0 vmap s = Some (vmap, s)"
| "munmap_loop vaddr i (Suc left) vmap s = do {
     let page = vaddr + MEMORY_PAGE_SIZE * i;
     s \<leftarrow> unlink_page page s;
     used \<leftarrow> bitmap_test vmap (IDX page);
     check used;
     vmap \<leftarrow> bitmap_set vmap (IDX page) False;
     munmap_loop vaddr (i + 1) left vmap s
   }"

definition sys_munmap :: "u32 \<Rightarrow> u32 \<Rightarrow> proc_mem \<Rightarrow> 'a vm_scheme \<Rightarrow> (proc_mem \<times> 'a vm_scheme) option" where
  "sys_munmap vaddr len task s = do {
     check (vaddr \<ge> USER_MMAP_ADDR \<and> vaddr < USER_STACK_BOTTOM);
     check (PAGE vaddr \<noteq> 0);
     (vmap, s) \<leftarrow> munmap_loop vaddr 0 (unat (div_round_up len MEMORY_PAGE_SIZE)) (t_vmap task) s;
     Some (task\<lparr>t_vmap := vmap\<rparr>, s)
   }"

section \<open>Fields of an address\<close>

lemma unat_drop_bit: "unat (drop_bit n (a :: u32)) = unat a div 2 ^ n"
proof -
  have "unat (drop_bit n a) = drop_bit n (unat a)"
    by (rule bit_eqI) (auto simp: bit_unsigned_iff bit_drop_bit_eq dest: bit_imp_le_length)
  then show ?thesis by (simp only: drop_bit_eq_div)
qed

lemma unat_mask: "unat (a AND mask n :: u32) = unat a mod 2 ^ n"
proof -
  have "unat (a AND mask n) = take_bit n (unat a)"
    by (rule bit_eqI)
      (auto simp: bit_unsigned_iff bit_and_iff bit_mask_iff bit_take_bit_iff dest: bit_imp_le_length)
  then show ?thesis by (simp only: take_bit_eq_mod)
qed

lemma masks: "(0x3FF :: u32) = mask 10" "(0xFFF :: u32) = mask 12"
  by (simp_all add: mask_eq_exp_minus_1)

lemma unat_DIDX: "unat (DIDX a) = unat a div 2 ^ 22"
proof -
  have "unat a div 2 ^ 22 < 1024" using unat_u32_lt[of a] by simp
  then show ?thesis unfolding DIDX_def masks(1) unat_mask unat_drop_bit by simp
qed

lemma unat_TIDX: "unat (TIDX a) = unat a div 2 ^ 12 mod 2 ^ 10"
  unfolding TIDX_def masks(1) unat_mask unat_drop_bit ..

lemma unat_offset: "unat (a AND 0xFFF :: u32) = unat a mod 2 ^ 12"
  unfolding masks(2) unat_mask ..

lemma unat_IDX: "unat (IDX a) = unat a div 2 ^ 12"
  unfolding IDX_def unat_drop_bit ..

lemma aligned_nat: "page_aligned a \<Longrightarrow> unat a = 4096 * unat (IDX a)" "unat (IDX a) < 2 ^ 20"
proof -
  show "page_aligned a \<Longrightarrow> unat a = 4096 * unat (IDX a)"
  proof -
    assume "page_aligned a"
    then have "a AND mask 12 = 0" by (simp add: page_aligned_def low_mask)
    then have "unat a mod 4096 = 0" using unat_mask[of a 12] by simp
    moreover have "unat (IDX a) = unat a div 4096" by (simp add: unat_IDX)
    ultimately show ?thesis using mult_div_mod_eq[of 4096 "unat a"] by simp
  qed
  have "unat a < 2 ^ LENGTH(32)" by (rule unsigned_less)
  then show "unat (IDX a) < 2 ^ 20" by (simp add: unat_IDX)
qed

lemma kregion_addresses:
  assumes "kregion v c \<inter> kregion w d = {}" "0 < unat c" "0 < unat d"
    "unat v = 4096 * unat (IDX v)" "unat w = 4096 * unat (IDX w)"
  shows "unat v + 4096 * unat c \<le> unat w \<or> unat w + 4096 * unat d \<le> unat v"
proof (rule ccontr)
  assume n: "\<not> ?thesis"
  let ?x = "max (unat (IDX v)) (unat (IDX w))"
  have "?x \<in> kregion v c \<inter> kregion w d" using n assms(2-5) by (auto simp: kregion_def max_def)
  then show False using assms(1) by blast
qed

lemma digits: "l < k \<Longrightarrow> (x * k + l) div k = x" "l < k \<Longrightarrow> (x * k + l) mod k = l" for x :: nat
  by simp_all

lemma addr_fields:
  assumes "unat a = (d * 1024 + t) * 4096 + l" "t < 1024" "l < 4096"
  shows "unat (DIDX a) = d" "unat (TIDX a) = t" "unat a mod 4096 = l" "unat (IDX a) = d * 1024 + t"
proof -
  have i: "unat a div 4096 = d * 1024 + t" "unat a mod 4096 = l"
    unfolding assms(1) using assms(3) by (simp_all only: digits)
  show "unat (DIDX a) = d"
    using i(1) digits(1)[OF assms(2), of d] div_mult2_eq[of "unat a" 4096 1024] by (simp add: unat_DIDX)
  show "unat (TIDX a) = t" using i(1) digits(2)[OF assms(2), of d] by (simp add: unat_TIDX)
  show "unat a mod 4096 = l" "unat (IDX a) = d * 1024 + t" using i by (simp_all add: unat_IDX)
qed

lemma addr_split: "unat a = (unat (DIDX a) * 1024 + unat (TIDX a)) * 4096 + unat a mod 4096"
proof -
  let ?p = "unat a div 4096"
  have "unat a = ?p * 4096 + unat a mod 4096" by simp
  moreover have "?p = ?p div 1024 * 1024 + ?p mod 1024" by simp
  moreover have "?p div 1024 = unat (DIDX a)"
    using div_mult2_eq[of "unat a" 4096 1024] by (simp add: unat_DIDX)
  ultimately show ?thesis by (simp add: unat_TIDX)
qed

lemma unat_pde_entry: "unat i < 1024 \<Longrightarrow> unat (pde_entry i) = 0xFFFFF000 + 4 * unat i"
  unfolding pde_entry_def by (subst unat_add_u32) (simp_all add: unat_word_ariths)

definition table_addr :: "u32 \<Rightarrow> u32" where
  "table_addr i = PDE_MASK OR push_bit 12 i"

lemma unat_table_addr: "unat i < 1024 \<Longrightarrow> unat (table_addr i) = 0xFFC00000 + 4096 * unat i"
proof -
  assume i: "unat i < 1024"
  have hi: "PDE_MASK = NOT (mask 22)" by (simp add: mask_eq_exp_minus_1)
  have "table_addr i = PDE_MASK + push_bit 12 i"
    unfolding table_addr_def
  proof (rule disjunctive_add[symmetric])
    fix n
    show "\<not> bit PDE_MASK n \<or> \<not> bit (push_bit 12 i) n"
      unfolding hi using no_high_bit[of i 10 "n - 12"] i
      by (cases "n < 22") (auto simp: bit_simps)
  qed
  moreover have "unat (push_bit 12 i) = 4096 * unat i"
    using i by (simp add: push_bit_eq_mult unat_word_ariths)
  ultimately show ?thesis using i by (simp add: unat_add_u32)
qed

lemma unat_table_entry:
  "unat i < 1024 \<Longrightarrow> unat t < 1024 \<Longrightarrow>
    unat (table_addr i + 4 * t) = 0xFFC00000 + 4096 * unat i + 4 * unat t"
  by (subst unat_add_u32) (simp_all add: unat_table_addr unat_word_ariths)

section \<open>Page table entries\<close>

lemma e_index_entry [simp]: "unat i < 2 ^ 20 \<Longrightarrow> e_index (entry_init i) = i"
  unfolding e_index_def entry_init_def set_index_def set_field_def
  using no_high_bit[of i 20]
  by (intro bit_eqI) (auto simp: bit_simps not_le[symmetric])

lemma entry_init_bits [simp]: "e_present (entry_init i)" "e_write (entry_init i)" "e_user (entry_init i)"
  by (simp_all add: entry_init_def set_index_def set_field_def bit_simps)

lemma set_field_bit [simp]: "n < 12 \<Longrightarrow> bit (set_field n v e) k = (if k = n then v else bit e k)"
  by (auto simp: set_field_def bit_simps)

lemma e_index_set_field [simp]: "n < 12 \<Longrightarrow> e_index (set_field n v e) = e_index e"
  unfolding e_index_def by (intro bit_eqI) (auto simp: bit_simps)

lemma e_index_bound: "unat (e_index e) < 2 ^ 20"
  unfolding e_index_def unat_drop_bit using unat_u32_lt[of e] by simp


section \<open>The self-mapped directory\<close>

definition pd :: "'a vm_scheme \<Rightarrow> nat" where
  "pd s = unat (IDX (cr3 s))"

definition self_mapped :: "'a vm_scheme \<Rightarrow> bool" where
  "self_mapped s \<longleftrightarrow> e_present (phys s (pd s) 1023) \<and> unat (e_index (phys s (pd s) 1023)) = pd s"

lemma translate_cong: "cr3 s' = cr3 s \<Longrightarrow> phys s' = phys s \<Longrightarrow> translate a s' = translate a s"
  by (simp add: translate_def)

lemma translate_unfold:
  "translate a s =
     (if e_present (phys s (pd s) (unat (DIDX a)))
       \<and> e_present (phys s (unat (e_index (phys s (pd s) (unat (DIDX a))))) (unat (TIDX a)))
      then Some (unat (e_index (phys s (unat (e_index (phys s (pd s) (unat (DIDX a))))) (unat (TIDX a)))),
        unat a mod 4096 div 4) else None)"
  by (simp add: translate_def pd_def Let_def unat_offset)

lemma translate_pde:
  assumes "self_mapped s" "unat i < 1024"
  shows "translate (pde_entry i) s = Some (pd s, unat i)"
proof -
  have a: "unat (pde_entry i) = 0xFFFFF000 + 4 * unat i" using assms(2) by (rule unat_pde_entry)
  then have "unat (pde_entry i) = (1023 * 1024 + 1023) * 4096 + 4 * unat i" by simp
  from addr_fields[OF this] assms(2)
  have "unat (DIDX (pde_entry i)) = 1023" "unat (TIDX (pde_entry i)) = 1023"
    "unat (pde_entry i) mod 4096 div 4 = unat i" by simp_all
  then show ?thesis using assms(1) by (simp add: translate_unfold self_mapped_def)
qed

lemma translate_table:
  assumes "self_mapped s" "unat i < 1024" "unat t < 1024"
  shows "translate (table_addr i + 4 * t) s =
    (if e_present (phys s (pd s) (unat i)) then Some (unat (e_index (phys s (pd s) (unat i))), unat t)
     else None)"
proof -
  let ?a = "table_addr i + 4 * t"
  have a: "unat ?a = 0xFFC00000 + 4096 * unat i + 4 * unat t"
    using assms(2,3) by (rule unat_table_entry)
  then have "unat ?a = (1023 * 1024 + unat i) * 4096 + 4 * unat t" by simp
  from addr_fields[OF this] assms(2,3)
  have "unat (DIDX ?a) = 1023" "unat (TIDX ?a) = unat i" "unat ?a mod 4096 div 4 = unat t" by simp_all
  then show ?thesis using assms(1) by (simp add: translate_unfold self_mapped_def)
qed

lemma DIDX_less: "unat (DIDX a) < 1024"
  unfolding unat_DIDX using unat_u32_lt[of a] by simp

lemma TIDX_less: "unat (TIDX a) < 1024"
  unfolding unat_TIDX by simp

lemma IDX_eq_iff: "IDX a = IDX b \<longleftrightarrow> DIDX a = DIDX b \<and> TIDX a = TIDX b"
proof -
  have i: "unat (IDX x) = unat (DIDX x) * 1024 + unat (TIDX x)" for x :: u32
    using addr_fields(4)[OF addr_split TIDX_less, of x] by simp
  show ?thesis
  proof
    assume "IDX a = IDX b"
    then have e: "unat (DIDX a) * 1024 + unat (TIDX a) = unat (DIDX b) * 1024 + unat (TIDX b)"
      by (simp flip: i)
    from digits(1)[OF TIDX_less, of "unat (DIDX a)" a] digits(1)[OF TIDX_less, of "unat (DIDX b)" b]
      digits(2)[OF TIDX_less, of "unat (DIDX a)" a] digits(2)[OF TIDX_less, of "unat (DIDX b)" b] e
    show "DIDX a = DIDX b \<and> TIDX a = TIDX b" by (simp add: word_unat_eq_iff)
  qed (simp add: word_unat_eq_iff i)
qed

section \<open>Well-formed address spaces\<close>

text \<open>
  The directory maps itself, no table it refers to is a free frame, and no frame serves as
  two tables.
\<close>

definition vm_inv :: "'a vm_scheme \<Rightarrow> bool" where
  "vm_inv s \<longleftrightarrow> self_mapped s \<and> pd s \<notin> free_frames s
     \<and> (\<forall>i < 1024. e_present (phys s (pd s) i) \<longrightarrow> unat (e_index (phys s (pd s) i)) \<notin> free_frames s)
     \<and> (\<forall>i < 1024. \<forall>j < 1024. e_present (phys s (pd s) i) \<longrightarrow> e_present (phys s (pd s) j) \<longrightarrow>
          e_index (phys s (pd s) i) = e_index (phys s (pd s) j) \<longrightarrow> i = j)"

lemma get_page_vm:
  assumes "counted slack s" "free_frames s \<noteq> {}"
  obtains i s' where "get_page s = Some (PAGE i, s')" "unat (i :: u32) \<in> free_frames s" "unat i < 2 ^ 20"
    "free_frames s' = free_frames s - {unat i}" "counted slack s'"
    "phys s' = phys s" "cr3 s' = cr3 s" "memory_map s' = (memory_map s)[unat i := 1]"
    "total_pages s' = total_pages s" "start_page s' = start_page s"
proof -
  obtain i s' where g: "get_page s = Some (PAGE i, s')" "unat i \<in> free_frames s" "counted slack s'"
    and s': "s' = s\<lparr>memory_map := (memory_map s)[unat i := 1], free_pages := free_pages s - 1\<rparr>"
    by (rule get_page_spec[OF assms]) (simp add: that)
  have "unat i < unat (total_pages s)" "frames_wf s"
    using g(2) assms(1) by (simp_all add: free_frames_def counted_def)
  then have "unat i < 2 ^ 20" "unat i < length (memory_map s)" by (simp_all add: frames_wf_def)
  moreover from this have "free_frames s' = free_frames s - {unat i}"
    by (auto simp: free_frames_def refs_def s' nth_list_update)
  ultimately show thesis using that[of i s'] g s' by simp
qed

lemma poke_simps [simp]:
  "cr3 (poke f w v s) = cr3 s" "pd (poke f w v s) = pd s"
  "phys (poke f w v s) g = (if g = f then (phys s f)(w := v) else phys s g)"
  "memory_map (poke f w v s) = memory_map s" "start_page (poke f w v s) = start_page s"
  "total_pages (poke f w v s) = total_pages s" "free_pages (poke f w v s) = free_pages s"
  by (simp_all add: poke_def pd_def)

lemma free_frames_cong:
  "memory_map s' = memory_map s \<Longrightarrow> start_page s' = start_page s \<Longrightarrow> total_pages s' = total_pages s \<Longrightarrow>
    free_frames s' = free_frames s"
  by (simp add: free_frames_def refs_def)

lemma free_frames_poke [simp]: "free_frames (poke f w v s) = free_frames s"
  by (rule free_frames_cong) simp_all

lemma counted_cong:
  "memory_map s' = memory_map s \<Longrightarrow> start_page s' = start_page s \<Longrightarrow> total_pages s' = total_pages s \<Longrightarrow>
    free_pages s' = free_pages s \<Longrightarrow> counted slack s' = counted slack s"
  using free_frames_cong[of s' s] by (simp add: counted_def frames_wf_def)

lemma counted_poke [simp]: "counted slack (poke f w v s) = counted slack s"
  by (rule counted_cong) simp_all


definition pt :: "'a vm_scheme \<Rightarrow> u32 \<Rightarrow> nat" where
  "pt s v = unat (e_index (phys s (pd s) (unat (DIDX v))))"

definition pte_addr :: "u32 \<Rightarrow> u32" where
  "pte_addr v = table_addr (DIDX v) + 4 * TIDX v"

lemma pde_access:
  assumes "self_mapped s"
  shows "vread (pde_entry (DIDX v)) s = Some (phys s (pd s) (unat (DIDX v)))"
    "vwrite (pde_entry (DIDX v)) w s = Some (poke (pd s) (unat (DIDX v)) w s)"
  using translate_pde[OF assms DIDX_less] by (simp_all add: vread_def vwrite_def)

lemma pte_access:
  assumes "self_mapped s" "e_present (phys s (pd s) (unat (DIDX v)))"
  shows "vread (pte_addr v) s = Some (phys s (pt s v) (unat (TIDX v)))"
    "vwrite (pte_addr v) w s = Some (poke (pt s v) (unat (TIDX v)) w s)"
  using translate_table[OF assms(1) DIDX_less TIDX_less] assms(2)
  by (simp_all add: vread_def vwrite_def pte_addr_def pt_def)

lemma get_entry_present:
  assumes "self_mapped s" "e_present (phys s (pd s) (unat (DIDX v)))"
  shows "get_entry v create s = Some (pte_addr v, s)"
  using pde_access(1)[OF assms(1), of v] assms(2)
  by (simp add: get_entry_def get_pte_def Let_def pte_addr_def table_addr_def)

lemma translate_pt:
  "translate a s =
     (if e_present (phys s (pd s) (unat (DIDX a))) \<and> e_present (phys s (pt s a) (unat (TIDX a)))
      then Some (unat (e_index (phys s (pt s a) (unat (TIDX a)))), unat a mod 4096 div 4) else None)"
  unfolding translate_unfold pt_def ..

lemma vm_invD:
  assumes "vm_inv s"
  shows "self_mapped s" "pd s \<notin> free_frames s"
    "e_present (phys s (pd s) 1023)" "unat (e_index (phys s (pd s) 1023)) = pd s"
    "i < 1024 \<Longrightarrow> e_present (phys s (pd s) i) \<Longrightarrow> unat (e_index (phys s (pd s) i)) \<notin> free_frames s"
    "i < 1024 \<Longrightarrow> j < 1024 \<Longrightarrow> e_present (phys s (pd s) i) \<Longrightarrow> e_present (phys s (pd s) j) \<Longrightarrow>
      e_index (phys s (pd s) i) = e_index (phys s (pd s) j) \<Longrightarrow> i = j"
  using assms by (simp_all add: vm_inv_def self_mapped_def)

lemma pt_not_pd:
  assumes inv: "vm_inv s" and d: "e_present (phys s (pd s) (unat (DIDX v)))"
    and v: "unat (DIDX v) \<noteq> 1023"
  shows "pt s v \<noteq> pd s"
proof
  assume "pt s v = pd s"
  then have "e_index (phys s (pd s) (unat (DIDX v))) = e_index (phys s (pd s) 1023)"
    using vm_invD(4)[OF inv] by (simp add: pt_def word_unat_eq_iff)
  from vm_invD(6)[OF inv DIDX_less _ d vm_invD(3)[OF inv] this] v show False by simp
qed

text \<open>Writing an entry of the table of \<open>v\<close> changes the translation of the page of \<open>v\<close> only.\<close>

lemma translate_poke_pte:
  assumes inv: "vm_inv s" and d: "e_present (phys s (pd s) (unat (DIDX v)))"
    and v: "unat (DIDX v) \<noteq> 1023" and a: "unat (DIDX a) \<noteq> 1023"
  shows "translate a (poke (pt s v) (unat (TIDX v)) w s) =
    (if IDX a = IDX v
     then if e_present w then Some (unat (e_index w), unat a mod 4096 div 4) else None
     else translate a s)"
proof -
  let ?s = "poke (pt s v) (unat (TIDX v)) w s"
  note npd = pt_not_pd[OF inv d v]
  then have pt': "pt ?s x = pt s x" for x by (simp add: pt_def)
  have t: "unat (TIDX a) = unat (TIDX v) \<longleftrightarrow> TIDX a = TIDX v" by (simp add: word_unat_eq_iff)
  show ?thesis
  proof (cases "DIDX a = DIDX v")
    case True
    then have "pt s a = pt s v" by (simp add: pt_def)
    with True npd d show ?thesis by (simp add: translate_pt pt' IDX_eq_iff t)
  next
    case False
    have "pt s a \<noteq> pt s v" if "e_present (phys s (pd s) (unat (DIDX a)))"
      using vm_invD(6)[OF inv DIDX_less DIDX_less that d] False
      by (auto simp: pt_def word_unat_eq_iff)
    with False npd show ?thesis by (auto simp: translate_pt pt' IDX_eq_iff)
  qed
qed

lemma vm_inv_poke_pte:
  assumes inv: "vm_inv s" and d: "e_present (phys s (pd s) (unat (DIDX v)))"
    and v: "unat (DIDX v) \<noteq> 1023"
  shows "vm_inv (poke (pt s v) t w s)"
  using inv pt_not_pd[OF inv d v] by (simp add: vm_inv_def self_mapped_def)

lemma vm_inv_frames:
  assumes "vm_inv s" "phys s' = phys s" "cr3 s' = cr3 s" "free_frames s' \<subseteq> free_frames s"
  shows "vm_inv s'"
  using assms by (auto simp: vm_inv_def self_mapped_def pd_def)

text \<open>A fresh, zeroed table for the 4 MB of \<open>v\<close>: nothing that was mapped moves.\<close>

lemma get_pte_fresh:
  assumes inv: "vm_inv s" and d: "\<not> e_present (phys s (pd s) (unat (DIDX v)))"
    and v: "unat (DIDX v) \<noteq> 1023" and c: "counted slack s" "free_frames s \<noteq> {}"
  obtains i s' where "get_entry v True s = Some (pte_addr v, s')" "vm_inv s'" "counted slack s'"
    "unat (i :: u32) \<in> free_frames s" "free_frames s' = free_frames s - {unat i}"
    "e_present (phys s' (pd s') (unat (DIDX v)))" "pt s' v = unat i" "phys s' (unat i) = (\<lambda>_. 0)"
    "\<And>a. unat (DIDX a) \<noteq> 1023 \<Longrightarrow> translate a s' = translate a s"
    "\<And>n. n \<noteq> unat i \<Longrightarrow> refs s' n = refs s n"
    "refs s' (unat i) = 1"
proof -
  obtain i s1 where g: "get_page s = Some (PAGE i, s1)" "unat i \<in> free_frames s" "unat i < 2 ^ 20"
    "free_frames s1 = free_frames s - {unat i}" "counted slack s1" "phys s1 = phys s" "cr3 s1 = cr3 s"
    "memory_map s1 = (memory_map s)[unat i := 1]"
    "total_pages s1 = total_pages s" "start_page s1 = start_page s"
    by (rule get_page_vm[OF c]) (simp add: that)
  have pd1: "pd s1 = pd s" using g by (simp add: pd_def)
  have inv1: "vm_inv s1" by (rule vm_inv_frames[OF inv g(6,7)]) (simp add: g(4))
  let ?s2 = "poke (pd s1) (unat (DIDX v)) (entry_init i) s1"
  have ni: "unat i \<noteq> pd s" using g(2) vm_invD(2)[OF inv] by auto
  have other: "e_index (phys s (pd s) j) \<noteq> i" if "j < 1024" "e_present (phys s (pd s) j)" for j
    using vm_invD(5)[OF inv that] g(2) by auto
  have sm2: "self_mapped ?s2"
    using vm_invD(3,4)[OF inv] v by (simp add: self_mapped_def pd1 g(6))
  let ?s3 = "?s2\<lparr>phys := (phys ?s2)(unat i := (\<lambda>_. 0))\<rparr>"
  have pd3: "pd ?s3 = pd s" using g by (simp add: pd_def)
  have "translate (table_addr (DIDX v) + 4 * 0) ?s2 = Some (unat i, 0)"
    using translate_table[OF sm2 DIDX_less, of 0 v] g(3) by (simp add: pd1)
  then have z: "zero_page (table_addr (DIDX v)) ?s2 = Some ?s3" by (simp add: zero_page_def)
  have "get_entry v True s = Some (pte_addr v, ?s3)"
    using pde_access(1)[OF vm_invD(1)[OF inv], of v] pde_access(2)[OF vm_invD(1)[OF inv1], of v]
      d g(1) z IDX_PAGE[OF g(3)]
    by (simp add: get_entry_def get_pte_def Let_def pte_addr_def table_addr_def)
  moreover have "phys ?s3 (pd s) = (phys s (pd s))(unat (DIDX v) := entry_init i)"
    using ni by (simp add: pd1 g(6))
  note pd_row = this
  have ff3: "free_frames ?s3 = free_frames s - {unat i}"
    using g(4) free_frames_cong[of ?s3 s1] by simp
  have "vm_inv ?s3"
    unfolding vm_inv_def self_mapped_def pd3 pd_row ff3
    using inv v other g(3) g(2)
    by (auto simp: vm_inv_def self_mapped_def)
  moreover have "counted slack ?s3" using g(5) counted_cong[of ?s3 s1] by simp
  moreover have "e_present (phys ?s3 (pd ?s3) (unat (DIDX v)))" by (simp only: pd3 pd_row) simp
  moreover have "pt ?s3 v = unat i" unfolding pt_def pd3 pd_row using g(3) by simp
  moreover have "translate a ?s3 = translate a s" if "unat (DIDX a) \<noteq> 1023" for a
  proof (cases "DIDX a = DIDX v")
    case True
    then have "translate a s = None" using d by (simp add: translate_pt)
    moreover have "pt ?s3 a = unat i" using True \<open>pt ?s3 v = unat i\<close> by (simp add: pt_def)
    ultimately show ?thesis by (simp add: translate_pt)
  next
    case False
    then have f: "unat (DIDX a) \<noteq> unat (DIDX v)" by (simp add: word_unat_eq_iff)
    then have r: "phys ?s3 (pd ?s3) (unat (DIDX a)) = phys s (pd s) (unat (DIDX a))"
      by (simp only: pd3 pd_row) simp
    show ?thesis
    proof (cases "e_present (phys s (pd s) (unat (DIDX a)))")
      case True
      from vm_invD(6)[OF inv DIDX_less _ True vm_invD(3)[OF inv]] that
      have "pt s a \<noteq> pd s" using vm_invD(4)[OF inv] by (auto simp: pt_def word_unat_eq_iff)
      moreover have "pt s a \<noteq> unat i" using other[OF DIDX_less True] by (simp add: pt_def word_unat_eq_iff)
      moreover have "pt ?s3 a = pt s a" unfolding pt_def r ..
      ultimately have "phys ?s3 (pt ?s3 a) = phys s (pt s a)" by (simp add: pd1 g(6))
      with r \<open>pt ?s3 a = pt s a\<close> show ?thesis by (simp only: translate_pt)
    next
      case False
      then show ?thesis unfolding translate_pt r by (simp only: simp_thms if_False)
    qed
  qed
  moreover have len: "unat i < length (memory_map s)"
    using g(2) c(1) by (auto simp: free_frames_def counted_def frames_wf_def)
  moreover have "refs ?s3 n = refs s n" if "n \<noteq> unat i" for n
    using that by (simp add: refs_def g(8))
  moreover have "refs ?s3 (unat i) = 1" using len by (simp add: refs_def g(8))
  ultimately show thesis using that[of ?s3 i] g(2) ff3 by simp
qed


lemma link_present:
  assumes inv: "vm_inv s" and c: "counted slack s" "free_frames s \<noteq> {}"
    and v: "unat (DIDX v) \<noteq> 1023" and d: "e_present (phys s (pd s) (unat (DIDX v)))"
    and e: "\<not> e_present (phys s (pt s v) (unat (TIDX v)))"
  shows "\<exists>(i :: u32) s'. (do { e \<leftarrow> vread (pte_addr v) s;
       if e_present e then Some s
       else do { (paddr, s) \<leftarrow> get_page s; vwrite (pte_addr v) (entry_init (IDX paddr)) s } }) = Some s'
    \<and> vm_inv s' \<and> counted slack s' \<and> unat i \<in> free_frames s \<and> free_frames s' = free_frames s - {unat i}
    \<and> translate v s' = Some (unat i, unat v mod 4096 div 4) \<and> refs s' (unat i) = 1
    \<and> (\<forall>n. n \<noteq> unat i \<longrightarrow> refs s' n = refs s n)
    \<and> (\<forall>a. unat (DIDX a) \<noteq> 1023 \<longrightarrow> IDX a \<noteq> IDX v \<longrightarrow> translate a s' = translate a s)"
proof -
  obtain i s1 where g: "get_page s = Some (PAGE i, s1)" "unat i \<in> free_frames s" "unat i < 2 ^ 20"
    "free_frames s1 = free_frames s - {unat i}" "counted slack s1" "phys s1 = phys s" "cr3 s1 = cr3 s"
    "memory_map s1 = (memory_map s)[unat i := 1]"
    "total_pages s1 = total_pages s" "start_page s1 = start_page s"
    by (rule get_page_vm[OF c]) (simp add: that)
  have pd1: "pd s1 = pd s" using g by (simp add: pd_def)
  have pt1: "pt s1 x = pt s x" for x by (simp add: pt_def pd1 g(6))
  have inv1: "vm_inv s1" by (rule vm_inv_frames[OF inv g(6,7)]) (simp add: g(4))
  have d1: "e_present (phys s1 (pd s1) (unat (DIDX v)))" using d by (simp add: pd1 g(6))
  let ?s = "poke (pt s1 v) (unat (TIDX v)) (entry_init i) s1"
  note acc = pte_access(1)[OF vm_invD(1)[OF inv] d] pte_access(2)[OF vm_invD(1)[OF inv1] d1]
  have len: "unat i < length (memory_map s)"
    using g(2) c(1) by (auto simp: free_frames_def counted_def frames_wf_def)
  have tr: "translate a s1 = translate a s" for a by (rule translate_cong[OF g(7,6)])
  note tp = translate_poke_pte[OF inv1 d1 v, of _ "entry_init i"]
  show ?thesis
  proof (intro exI[of _ i] exI[of _ ?s] conjI allI impI)
    show "(do { e \<leftarrow> vread (pte_addr v) s;
       if e_present e then Some s
       else do { (paddr, s) \<leftarrow> get_page s; vwrite (pte_addr v) (entry_init (IDX paddr)) s } }) = Some ?s"
      using acc e g(1) IDX_PAGE[OF g(3)] by simp
    show "vm_inv ?s" by (rule vm_inv_poke_pte[OF inv1 d1 v])
    show "counted slack ?s" using g(5) by simp
    show "unat i \<in> free_frames s" by (rule g(2))
    show "free_frames ?s = free_frames s - {unat i}" using g(4) by simp
    show "translate v ?s = Some (unat i, unat v mod 4096 div 4)" using tp[OF v] g(3) by simp
    show "refs ?s (unat i) = 1" using len by (simp add: refs_def g(8))
    show "refs ?s n = refs s n" if "n \<noteq> unat i" for n using that by (simp add: refs_def g(8))
    show "translate a ?s = translate a s" if "unat (DIDX a) \<noteq> 1023" "IDX a \<noteq> IDX v" for a
      using tp[OF that(1)] that(2) tr by simp
  qed
qed

lemma link_page_present:
  assumes "vm_inv s" "page_aligned v" "translate v s \<noteq> None"
  shows "link_page v s = Some s"
proof -
  have d: "e_present (phys s (pd s) (unat (DIDX v)))" "e_present (phys s (pt s v) (unat (TIDX v)))"
    using assms(3) by (simp_all add: translate_pt split: if_splits)
  show ?thesis
    using get_entry_present[OF vm_invD(1)[OF assms(1)] d(1)] pte_access(1)[OF vm_invD(1)[OF assms(1)] d(1)]
      d(2) assms(2) by (simp add: link_page_def)
qed

section \<open>Copying a page\<close>

text \<open>A frame that is neither the directory nor one of its tables.\<close>

definition data_frame :: "'a vm_scheme \<Rightarrow> nat \<Rightarrow> bool" where
  "data_frame s f \<longleftrightarrow> f \<noteq> pd s
     \<and> (\<forall>j < 1024. e_present (phys s (pd s) j) \<longrightarrow> unat (e_index (phys s (pd s) j)) \<noteq> f)"

lemma free_data_frame: "vm_inv s \<Longrightarrow> f \<in> free_frames s \<Longrightarrow> data_frame s f"
  by (auto simp: data_frame_def dest: vm_invD(2,5))

lemma data_frame_pt: "data_frame s f \<Longrightarrow> e_present (phys s (pd s) (unat (DIDX a))) \<Longrightarrow> pt s a \<noteq> f"
  using DIDX_less[of a] by (simp add: data_frame_def pt_def)

lemma set_data_frame:
  fixes w :: "nat \<Rightarrow> u32"
  assumes inv: "vm_inv s" and f: "data_frame s f"
  defines "s' \<equiv> s\<lparr>phys := (phys s)(f := w)\<rparr>"
  shows "vm_inv s'" "pd s' = pd s" "pt s' a = pt s a" "free_frames s' = free_frames s"
    "phys s' (pd s') j = phys s (pd s) j" "translate a s' = translate a s"
proof -
  have pd': "pd s' = pd s" by (simp add: s'_def pd_def)
  have row: "phys s' (pd s') = phys s (pd s)" 
    unfolding pd' using f by (simp add: s'_def data_frame_def)
  show "free_frames s' = free_frames s" by (rule free_frames_cong) (simp_all add: s'_def)
  then show "vm_inv s'"
    using inv row pd' unfolding vm_inv_def self_mapped_def by simp
  show "pd s' = pd s" by (rule pd')
  show pt': "pt s' a = pt s a" for a by (simp add: pt_def row)
  show "phys s' (pd s') j = phys s (pd s) j" by (simp add: row)
  have "phys s' (pt s a) = phys s (pt s a)" if "e_present (phys s (pd s) (unat (DIDX a)))"
    using data_frame_pt[OF f that] by (simp add: s'_def)
  then show "translate a s' = translate a s"
    by (cases "e_present (phys s (pd s) (unat (DIDX a)))") (simp_all add: translate_pt row pt')
qed

lemma zero_fields: "DIDX 0 = 0" "TIDX 0 = 0" "IDX 0 = 0" "table_addr (DIDX 0) = pte_addr 0"
  by (simp_all add: DIDX_def TIDX_def IDX_def pte_addr_def)

lemma copy_page_spec:
  assumes inv: "vm_inv s" and c: "counted slack s" "free_frames s \<noteq> {}"
    and k: "e_present (phys s (pd s) 0)" and page: "unat (DIDX page) \<noteq> 1023" "IDX page \<noteq> 0"
    and src: "translate page s = Some (f, n)" and f: "data_frame s f" "f \<notin> free_frames s"
  obtains i s' where "copy_page page s = Some (PAGE i, s')" "unat (i :: u32) \<in> free_frames s"
    "unat i < 2 ^ 20" "vm_inv s'" "counted slack s'" "free_frames s' = free_frames s - {unat i}"
    "memory_map s' = (memory_map s)[unat i := 1]" "cr3 s' = cr3 s"
    "total_pages s' = total_pages s" "start_page s' = start_page s"
    "phys s' (unat i) = phys s f"
    "\<And>g. g \<noteq> unat i \<Longrightarrow> g \<noteq> pt s 0 \<Longrightarrow> phys s' g = phys s g"
    "\<And>a. unat (DIDX a) \<noteq> 1023 \<Longrightarrow> IDX a \<noteq> 0 \<Longrightarrow> translate a s' = translate a s"
proof -
  obtain i s1 where g: "get_page s = Some (PAGE i, s1)" "unat (i :: u32) \<in> free_frames s" "unat i < 2 ^ 20"
    "free_frames s1 = free_frames s - {unat i}" "counted slack s1" "phys s1 = phys s" "cr3 s1 = cr3 s"
    "memory_map s1 = (memory_map s)[unat i := 1]"
    "total_pages s1 = total_pages s" "start_page s1 = start_page s"
    by (rule get_page_vm[OF c]) (simp add: that)
  have pd1: "pd s1 = pd s" using g by (simp add: pd_def)
  have pt1: "pt s1 x = pt s x" for x by (simp add: pt_def pd1 g(6))
  have inv1: "vm_inv s1" by (rule vm_inv_frames[OF inv g(6,7)]) (simp add: g(4))
  have z: "unat (DIDX 0) \<noteq> 1023" by (simp add: zero_fields)
  have k0: "e_present (phys s (pd s) (unat (DIDX 0)))" using k by (simp add: zero_fields)
  have k1: "e_present (phys s1 (pd s1) (unat (DIDX 0)))" using k0 by (simp add: pd1 g(6))
  have ifree: "data_frame s (unat i)" by (rule free_data_frame[OF inv g(2)])
  have npd: "pt s 0 \<noteq> pd s" by (rule pt_not_pd[OF inv k0 z])
  have ni: "pt s 0 \<noteq> unat i" by (rule data_frame_pt[OF ifree k0])
  have nf: "pt s 0 \<noteq> f" by (rule data_frame_pt[OF f(1) k0])
  \<comment> \<open>the scratch mapping\<close>
  define s2 where "s2 = poke (pt s1 0) (unat (TIDX 0)) (entry_init i) s1"
  have inv2: "vm_inv s2" unfolding s2_def by (rule vm_inv_poke_pte[OF inv1 k1 z])
  have pd2: "pd s2 = pd s" by (simp add: s2_def pd1)
  have row2: "phys s2 (pd s2) = phys s (pd s)" using npd by (simp add: s2_def pd1 pt1 g(6))
  have pt2: "pt s2 x = pt s x" for x unfolding pt_def row2 ..
  have tr2: "translate a s2 = (if IDX a = 0 then Some (unat i, unat a mod 4096 div 4) else translate a s)"
    if "unat (DIDX a) \<noteq> 1023" for a
    using translate_poke_pte[OF inv1 k1 z that, of "entry_init i"] g(3) translate_cong[OF g(7,6), of a]
    by (simp add: s2_def zero_fields)
  have i2: "data_frame s2 (unat i)" using ifree unfolding data_frame_def row2 unfolding pd2 .
  \<comment> \<open>the copy\<close>
  define s3 where "s3 = s2\<lparr>phys := (phys s2)(unat i := phys s2 f)\<rparr>"
  note S3 = set_data_frame[OF inv2 i2, where w = "phys s2 f", folded s3_def]
  have k3: "e_present (phys s3 (pd s3) (unat (DIDX 0)))" unfolding S3(5) row2 by (rule k0)
  have sc3: "phys s3 (pt s 0) = (phys s (pt s 0))(0 := entry_init i)"
    using ni by (simp add: s3_def s2_def pt1 g(6) zero_fields)
  define s4 where "s4 = poke (pt s3 0) (unat (TIDX 0)) (set_field 0 False (entry_init i)) s3"
  have inv4: "vm_inv s4" unfolding s4_def by (rule vm_inv_poke_pte[OF S3(1) k3 z])
  have cw: "copy_words 0 page s2 = Some s3"
    using tr2[OF z] tr2[OF page(1)] page(2) src by (simp add: copy_words_def zero_fields s3_def)
  have "copy_page page s = Some (PAGE i, s4)"
    using g(1) pde_access(1)[OF vm_invD(1)[OF inv1], of 0] k1
      pte_access(2)[OF vm_invD(1)[OF inv1] k1, of "entry_init i", folded s2_def]
      pte_access[OF vm_invD(1)[OF S3(1)] k3] cw IDX_PAGE[OF g(3)] sc3 S3(3)[where a = 0] pt2[of 0]
      zero_fields(4)
    by (simp add: copy_page_def get_pte_def Let_def zero_fields(1) table_addr_def[symmetric] s4_def
        zero_fields(2))
  moreover have "counted slack s4"
    using g(5) counted_cong[of s3 s1 slack] by (simp add: s4_def s3_def s2_def)
  moreover have "free_frames s4 = free_frames s - {unat i}"
    using g(4) S3(4) by (simp add: s4_def s2_def)
  moreover have "memory_map s4 = (memory_map s)[unat i := 1]" "cr3 s4 = cr3 s"
    "total_pages s4 = total_pages s" "start_page s4 = start_page s"
    by (simp_all add: s4_def s3_def s2_def g(7-10))
  moreover have p4: "phys s4 x = phys s3 x" if "x \<noteq> pt s 0" for x
    unfolding s4_def S3(3) pt2 using that by simp
  have p3: "phys s3 x = (if x = unat i then phys s f else phys s x)" if "x \<noteq> pt s 0" for x
    using that nf by (simp add: s3_def s2_def pt1 g(6))
  have "phys s4 (unat i) = phys s f" using p4 p3 ni by simp
  moreover have "phys s4 x = phys s x" if "x \<noteq> unat i" "x \<noteq> pt s 0" for x
    using that p4 p3 by simp
  moreover have "translate a s4 = translate a s" if a: "unat (DIDX a) \<noteq> 1023" "IDX a \<noteq> 0" for a
    using translate_poke_pte[OF S3(1) k3 z a(1)] a(2) tr2[OF a(1)]
    by (simp add: s4_def zero_fields S3(6))
  ultimately show thesis using that[of i s4] g(2,3) inv4 by simp
qed

section \<open>Properties\<close>

text \<open>A small machine to apply the properties to: one user page, shared by two processes.\<close>

definition sample_vm :: vm where
  "sample_vm = \<lparr>total_pages = 16, free_pages = 6, memory_base = MEMORY_BASE, memory_size = 0,
     start_page = 8, memory_map_pages = 1,
     memory_map = [1, 1, 1, 1, 1, 1, 1, 1, 1, 2, 0, 0, 0, 0, 0, 0],
     kernel_map = bitmap_make [0] 1 256, cr3 = 0x1000,
     phys = (\<lambda>_ _. 0)(
       1 := (\<lambda>_. 0)(0 := entry_init 2, 4 := entry_init 8, 1023 := entry_init 1),
       8 := (\<lambda>_. 0)(0 := set_field 1 False (entry_init 9)),
       9 := (\<lambda>_. 7))\<rparr>"

definition sample_task :: proc_mem where
  "sample_task = \<lparr>t_pde = 0x1000, t_uid = 1000, t_end = 0x1001000, t_brk = 0x1002000,
     t_vmap = bitmap_make [0] 1 0x8000\<rparr>"

lemma sample_vm_row: "pd sample_vm = 1"
  "phys sample_vm 1 = (\<lambda>_. 0)(0 := entry_init 2, 4 := entry_init 8, 1023 := entry_init 1)"
  "phys sample_vm 8 = (\<lambda>_. 0)(0 := set_field 1 False (entry_init 9))"
  by (simp_all add: sample_vm_def pd_def IDX_def)

lemma sample_vm_free: "free_frames sample_vm = {10, 11, 12, 13, 14, 15}"
  unfolding free_frames_filter by (simp add: refs_def sample_vm_def upt_rec)

lemma sample_vm_counted: "counted 0 sample_vm"
  unfolding counted_def sample_vm_free by (simp add: frames_wf_def sample_vm_def)

lemma sample_vm_inv: "vm_inv sample_vm"
  unfolding vm_inv_def self_mapped_def sample_vm_row sample_vm_free
  by (auto split: if_splits dest: arg_cong[of _ _ e_index])

text \<open>
  C5: \<^verbatim>\<open>link_page\<close> maps one page and nothing else. In a well-formed address space with at
  least two free frames, linking an unmapped page returns; the page is then mapped to a
  frame that was free and now has exactly one reference, every other user page is mapped as
  it was (also when a new page table had to be created for it), the address space stays
  well-formed and the frame accounting exact.
\<close>

theorem link_page_maps:
  assumes "vm_inv s" "counted slack s" "2 \<le> card (free_frames s)" "page_aligned v"
    and "unat (DIDX v) \<noteq> 1023" "translate v s = None"
  shows "\<exists>s' i. link_page v s = Some s' \<and> vm_inv s' \<and> counted slack s' \<and> i \<in> free_frames s
    \<and> translate v s' = Some (i, unat v mod 4096 div 4) \<and> refs s' i = 1
    \<and> (\<forall>a. unat (DIDX a) \<noteq> 1023 \<longrightarrow> IDX a \<noteq> IDX v \<longrightarrow> translate a s' = translate a s)"
proof (cases "e_present (phys s (pd s) (unat (DIDX v)))")
  case True
  then have e: "\<not> e_present (phys s (pt s v) (unat (TIDX v)))"
    using assms(6) by (simp add: translate_pt split: if_splits)
  have "free_frames s \<noteq> {}" using assms(3) by auto
  from link_present[OF assms(1,2) this assms(5) True e] get_entry_present[OF vm_invD(1)[OF assms(1)] True]
  show ?thesis using assms(4) by (auto simp: link_page_def)
next
  case False
  have ne: "free_frames s \<noteq> {}" using assms(3) by auto
  obtain i s1 where s1: "get_entry v True s = Some (pte_addr v, s1)" "vm_inv s1" "counted slack s1"
    "unat (i :: u32) \<in> free_frames s" "free_frames s1 = free_frames s - {unat i}"
    "e_present (phys s1 (pd s1) (unat (DIDX v)))" "pt s1 v = unat i" "phys s1 (unat i) = (\<lambda>_. 0)"
    "\<And>a. unat (DIDX a) \<noteq> 1023 \<Longrightarrow> translate a s1 = translate a s"
    by (rule get_pte_fresh[OF assms(1) False assms(5,2) ne]) (simp add: that)
  have "card (free_frames s1) = card (free_frames s) - 1"
    using s1(4,5) by (simp add: card_Diff_singleton)
  then have "free_frames s1 \<noteq> {}" using assms(3) by auto
  moreover have "\<not> e_present (phys s1 (pt s1 v) (unat (TIDX v)))" using s1(7,8) by simp
  ultimately show ?thesis
    using link_present[OF s1(2,3) _ assms(5) s1(6)] s1(1,4,5,9) assms(4)
    by (fastforce simp: link_page_def)
qed


lemma link_page_maps_witness:
  "\<exists>s' i. link_page 0x1001000 sample_vm = Some s' \<and> vm_inv s' \<and> counted 0 s' \<and> i \<in> free_frames sample_vm
    \<and> translate 0x1001000 s' = Some (i, unat (0x1001000 :: u32) mod 4096 div 4) \<and> refs s' i = 1
    \<and> (\<forall>a. unat (DIDX a) \<noteq> 1023 \<longrightarrow> IDX a \<noteq> IDX 0x1001000 \<longrightarrow> translate a s' = translate a sample_vm)"
proof (rule link_page_maps[OF sample_vm_inv sample_vm_counted])
  show "2 \<le> card (free_frames sample_vm)" by (simp add: sample_vm_free)
  show "page_aligned 0x1001000" by (simp add: page_aligned_def)
  show "unat (DIDX 0x1001000) \<noteq> 1023" by (simp add: DIDX_def)
  have di: "DIDX 0x1001000 = 4" "TIDX 0x1001000 = 1" by (simp_all add: DIDX_def TIDX_def)
  have pt: "pt sample_vm 0x1001000 = 8" by (simp add: pt_def di sample_vm_row del: One_nat_def)
  show "translate 0x1001000 sample_vm = None"
    unfolding translate_pt pt di sample_vm_row by simp
qed

text \<open>
  C4: a write to a page shared since \<^verbatim>\<open>fork\<close> gives the writer a private copy. When the
  faulting page is present, not a shared mapping and not read-only, and its frame has more
  than one reference, \<^verbatim>\<open>page_fault\<close> returns with the page mapped, writable, to a frame that
  was free; that frame holds the words of the old one, the old frame is unchanged and has
  one reference less, and apart from page 0, which serves as a window for the copy, every
  other user page is mapped as it was.
\<close>

theorem page_fault_copies_on_write:
  assumes inv: "vm_inv s" and c: "counted slack s" "free_frames s \<noteq> {}"
    and k: "e_present (phys s (pd s) 0)"
    and v: "unat (DIDX v) \<noteq> 1023" "DIDX v \<noteq> 0"
    and d: "e_present (phys s (pd s) (unat (DIDX v)))"
    and e: "e = phys s (pt s v) (unat (TIDX v))" "e_present e" "\<not> e_shared e" "\<not> e_readonly e"
    and f: "f = unat (e_index e)" "data_frame s f" "f < length (memory_map s)" "1 < refs s f"
    and err: "bit err 0" "bit err 1"
  shows "\<exists>s' i. page_fault v err task s = Some s' \<and> i \<in> free_frames s \<and> vm_inv s' \<and> counted slack s'
    \<and> translate v s' = Some (i, unat v mod 4096 div 4) \<and> e_write (phys s' (pt s' v) (unat (TIDX v)))
    \<and> phys s' i = phys s f \<and> phys s' f = phys s f \<and> refs s' f = refs s f - 1 \<and> refs s' i = 1
    \<and> (\<forall>a. unat (DIDX a) \<noteq> 1023 \<longrightarrow> IDX a \<noteq> 0 \<longrightarrow> IDX a \<noteq> IDX v \<longrightarrow> translate a s' = translate a s)"
proof -
  have z: "unat (DIDX 0) \<noteq> 1023" and k0: "e_present (phys s (pd s) (unat (DIDX 0)))"
    using k by (simp_all add: zero_fields)
  let ?p = "PAGE (IDX v)"
  have ip: "IDX ?p = IDX v" using unat_u32_lt[of v] by (intro IDX_PAGE) (simp add: unat_IDX)
  then have dp: "DIDX ?p = DIDX v" "TIDX ?p = TIDX v" by (simp_all only: IDX_eq_iff)
  have v0: "IDX v \<noteq> 0" using v(2) IDX_eq_iff[of v 0] by (auto simp: zero_fields)
  have nfree: "f \<notin> free_frames s" using f(4) by (simp add: free_frames_def)
  have "pt s ?p = pt s v" by (simp add: pt_def dp)
  then have src: "translate ?p s = Some (f, unat ?p mod 4096 div 4)"
    using d e f(1) by (simp add: translate_pt dp)
  have p1023: "unat (DIDX ?p) \<noteq> 1023" and p0: "IDX ?p \<noteq> 0" using v(1) v0 by (simp_all add: dp ip)
  obtain i s4 where C: "copy_page ?p s = Some (PAGE i, s4)" "unat (i :: u32) \<in> free_frames s"
    "unat i < 2 ^ 20" "vm_inv s4" "counted slack s4" "free_frames s4 = free_frames s - {unat i}"
    "memory_map s4 = (memory_map s)[unat i := 1]" "cr3 s4 = cr3 s"
    "total_pages s4 = total_pages s" "start_page s4 = start_page s"
    "phys s4 (unat i) = phys s f"
    "\<And>g. g \<noteq> unat i \<Longrightarrow> g \<noteq> pt s 0 \<Longrightarrow> phys s4 g = phys s g"
    "\<And>a. unat (DIDX a) \<noteq> 1023 \<Longrightarrow> IDX a \<noteq> 0 \<Longrightarrow> translate a s4 = translate a s"
    by (rule copy_page_spec[OF inv c k p1023 p0 src f(2) nfree]) (simp add: that)
  have idata: "data_frame s (unat i)" by (rule free_data_frame[OF inv C(2)])
  have fi: "f \<noteq> unat i" using C(2) nfree by auto
  have pd4: "pd s4 = pd s" by (simp add: pd_def C(8))
  have row: "phys s4 (pd s4) = phys s (pd s)"
    unfolding pd4 using C(12)[of "pd s"] idata pt_not_pd[OF inv k0 z] by (simp add: data_frame_def)
  have pt4: "pt s4 a = pt s a" for a unfolding pt_def row ..
  have "pt s v \<noteq> pt s 0"
    using vm_invD(6)[OF inv DIDX_less DIDX_less d k0] v(2)
    by (auto simp: pt_def word_unat_eq_iff zero_fields)
  then have tab: "phys s4 (pt s v) = phys s (pt s v)"
    using C(12)[of "pt s v"] data_frame_pt[OF idata d] by simp
  have d4: "e_present (phys s4 (pd s4) (unat (DIDX v)))" unfolding row by (rule d)
  have len: "unat i < length (memory_map s)"
    using C(2) c(1) by (auto simp: free_frames_def counted_def frames_wf_def)
  let ?r = "memory_map s ! f"
  have m4: "f < length (memory_map s4)" "memory_map s4 ! f = ?r" using f(3) fi by (simp_all add: C(7))
  define s5 where "s5 = s4\<lparr>memory_map := (memory_map s4)[f := ?r - 1]\<rparr>"
  have r: "1 < unat ?r" using f(4) by (simp add: refs_def)
  then have r1: "unat (?r - 1) = unat ?r - 1" by (subst unat_sub) (simp_all add: word_le_nat_alt)
  have rs: "?r > 0" "?r \<noteq> 1" using r by (auto simp: word_less_nat_alt)
  have ff5: "free_frames s5 = free_frames s4"
    using m4 r r1 by (auto simp: free_frames_def refs_def s5_def nth_list_update)
  have "counted slack s5"
    using C(5) unfolding counted_def ff5 by (simp add: frames_wf_def s5_def)
  have inv5: "vm_inv s5" by (rule vm_inv_frames[OF C(4)]) (simp_all add: s5_def[symmetric] ff5, simp_all add: s5_def)
  have pd5: "pd s5 = pd s4" and ph5: "phys s5 = phys s4" by (simp_all add: s5_def pd_def)
  have pt5: "pt s5 a = pt s a" for a using pt4[of a] by (simp add: pt_def pd5 ph5)
  have d5: "e_present (phys s5 (pd s5) (unat (DIDX v)))" using d4 by (simp add: pd5 ph5)
  let ?s = "poke (pt s5 v) (unat (TIDX v)) (entry_init i) s5"
  have rd: "vread (pte_addr v) s = Some e" "vread (pte_addr v) s4 = Some e" "unat (e_index e) = f"
    using pte_access(1)[OF vm_invD(1)[OF inv] d] pte_access(1)[OF vm_invD(1)[OF C(4)] d4] pt4[of v] tab
      e(1) f(1) by simp_all
  have pf: "page_fault v err task s = Some ?s"
    using err get_entry_present[OF vm_invD(1)[OF inv] d] rd e(2-4) f(3) rs C(1) m4
      pte_access(2)[OF vm_invD(1)[OF inv5] d5, of "entry_init i"] IDX_PAGE[OF C(3)]
    by (simp add: page_fault_def s5_def[symmetric])
  have tp: "translate a ?s = (if IDX a = IDX v
     then Some (unat i, unat a mod 4096 div 4) else translate a s4)" if "unat (DIDX a) \<noteq> 1023" for a
    using translate_poke_pte[OF inv5 d5 v(1) that, of "entry_init i"] C(3)
      translate_cong[of s5 s4 a] by (simp add: s5_def)
  have nt: "unat i \<noteq> pt s v" "f \<noteq> pt s v"
    using data_frame_pt[OF idata d] data_frame_pt[OF f(2) d] by simp_all
  have "phys s4 f = phys s f" using C(12)[OF fi] data_frame_pt[OF f(2) k0] by simp
  moreover have "pt ?s v = pt s v"
    using pt_not_pd[OF inv5 d5 v(1)] pt5[of v] by (simp add: pt_def)
  moreover have "refs ?s f = refs s f - 1" using m4 r1 by (simp add: refs_def s5_def)
  moreover have "refs ?s (unat i) = 1" using len fi by (simp add: refs_def s5_def C(7))
  ultimately show ?thesis
    using pf C(2) vm_inv_poke_pte[OF inv5 d5 v(1)] \<open>counted slack s5\<close> tp v(1) C(11,13) nt entry_init_bits(2)[of i]
    by (intro exI[of _ ?s] exI[of _ "unat i"]) (simp add: pt5 ph5)
qed

lemma page_fault_copies_on_write_witness:
  "\<exists>s' i. page_fault 0x1000004 3 sample_task sample_vm = Some s' \<and> i \<in> free_frames sample_vm \<and> vm_inv s' \<and> counted 0 s'
    \<and> translate 0x1000004 s' = Some (i, unat (0x1000004 :: u32) mod 4096 div 4)
    \<and> e_write (phys s' (pt s' 0x1000004) (unat (TIDX 0x1000004)))
    \<and> phys s' i = phys sample_vm 9 \<and> phys s' 9 = phys sample_vm 9 \<and> refs s' 9 = refs sample_vm 9 - 1 \<and> refs s' i = 1
    \<and> (\<forall>a. unat (DIDX a) \<noteq> 1023 \<longrightarrow> IDX a \<noteq> 0 \<longrightarrow> IDX a \<noteq> IDX 0x1000004 \<longrightarrow> translate a s' = translate a sample_vm)"
proof (rule page_fault_copies_on_write[OF sample_vm_inv sample_vm_counted])
  have di: "DIDX 0x1000004 = 4" "TIDX 0x1000004 = 0" by (simp_all add: DIDX_def TIDX_def)
  then show "unat (DIDX 0x1000004) \<noteq> 1023" "DIDX 0x1000004 \<noteq> 0" by simp_all
  have pt: "pt sample_vm 0x1000004 = 8" by (simp add: pt_def di sample_vm_row del: One_nat_def)
  show "e_present (phys sample_vm (pd sample_vm) 0)" unfolding sample_vm_row by simp
  show "e_present (phys sample_vm (pd sample_vm) (unat (DIDX 0x1000004)))"
    unfolding sample_vm_row di by simp
  show "set_field 1 False (entry_init 9) = phys sample_vm (pt sample_vm 0x1000004) (unat (TIDX 0x1000004))"
    unfolding pt di sample_vm_row by simp
  show "e_present (set_field 1 False (entry_init 9))" by simp
  show "\<not> e_shared (set_field 1 False (entry_init 9))" "\<not> e_readonly (set_field 1 False (entry_init 9))"
    by (simp_all add: entry_init_def set_index_def set_field_def bit_simps)
  show "9 = unat (e_index (set_field 1 False (entry_init 9)))" by simp
  show "data_frame sample_vm 9" unfolding data_frame_def sample_vm_row by auto
  show "9 < length (memory_map sample_vm)" "1 < refs sample_vm 9"
    by (simp_all add: sample_vm_def refs_def)
  show "free_frames sample_vm \<noteq> {}" by (simp add: sample_vm_free)
  show "bit (3 :: u32) 0" "bit (3 :: u32) 1" by (simp_all add: bit_numeral_rec)
qed

end
