(* ===== verification/Device.thy ===== *)
theory Device
  imports Linked_List CString
begin

text \<open>
  \<^verbatim>\<open>kernel/device.c\<close>, the device table and the request queue of block devices, and the
  driver of \<^verbatim>\<open>kernel/ramdisk.c\<close>. The function pointers of a device are functions on a
  state \<open>'w\<close> of the hardware; \<^verbatim>\<open>NULL\<close> is \<open>None\<close>. Lists of the kernel are lists of HOL,
  as \<open>Linked_List\<close> justifies.
\<close>

section \<open>Devices\<close>

abbreviation (input) DEVICE_NR :: u32 where "DEVICE_NR \<equiv> 64"
abbreviation (input) DEV_NULL :: int where "DEV_NULL \<equiv> 0"
abbreviation (input) DEV_CHAR :: int where "DEV_CHAR \<equiv> 1"
abbreviation (input) DEV_BLOCK :: int where "DEV_BLOCK \<equiv> 2"
abbreviation (input) DEV_RAMDISK :: int where "DEV_RAMDISK \<equiv> 6"
abbreviation (input) DEV_CMD_SECTOR_START :: int where "DEV_CMD_SECTOR_START \<equiv> 1"
abbreviation (input) DEV_CMD_SECTOR_COUNT :: int where "DEV_CMD_SECTOR_COUNT \<equiv> 2"
abbreviation (input) REQ_READ :: u32 where "REQ_READ \<equiv> 0"
abbreviation (input) REQ_WRITE :: u32 where "REQ_WRITE \<equiv> 1"

record request =
  rq_node :: addr
  rq_dev :: u32
  rq_type :: u32
  rq_idx :: u32
  rq_count :: u32
  rq_flags :: int
  rq_buf :: "u8 list"
  rq_task :: "addr option"

datatype direct = DIRECT_UP | DIRECT_DOWN

type_synonym 'w ioctl_fn = "int \<Rightarrow> 'w \<Rightarrow> u32 option"
type_synonym 'w read_fn = "u32 \<Rightarrow> u32 \<Rightarrow> int \<Rightarrow> 'w \<Rightarrow> (u32 \<times> u8 list \<times> 'w) option"
type_synonym 'w write_fn = "u8 list \<Rightarrow> u32 \<Rightarrow> u32 \<Rightarrow> int \<Rightarrow> 'w \<Rightarrow> (u32 \<times> 'w) option"

record 'w device =
  dv_name :: string
  dv_type :: int
  dv_subtype :: int
  dv_dev :: u32
  dv_parent :: u32
  dv_requests :: "request list"
  dv_direct :: direct
  dv_ioctl :: "'w ioctl_fn option"
  dv_read :: "'w read_fn option"
  dv_write :: "'w write_fn option"

record 'w dstate =
  devices :: "'w device list"
  world :: 'w

text \<open>\<^verbatim>\<open>get_null_device\<close>: the first free entry from 1 on; none left is a panic.\<close>

fun find_index :: "('a \<Rightarrow> bool) \<Rightarrow> nat \<Rightarrow> 'a list \<Rightarrow> nat option" where
  "find_index P i [] = None"
| "find_index P i (x # xs) = (if P x then Some i else find_index P (i + 1) xs)"

definition get_null_device :: "'w dstate \<Rightarrow> nat option" where
  "get_null_device D = find_index (\<lambda>d. dv_type d = DEV_NULL) 1 (drop 1 (devices D))"

definition device_get :: "u32 \<Rightarrow> 'w dstate \<Rightarrow> 'w device option" where
  "device_get dev D = do {
     check (dev < DEVICE_NR);
     d \<leftarrow> rd (devices D) (unat dev);
     check (dv_type d \<noteq> DEV_NULL);
     Some d
   }"

definition device_ioctl :: "u32 \<Rightarrow> int \<Rightarrow> 'w dstate \<Rightarrow> u32 option" where
  "device_ioctl dev cmd D = do {
     d \<leftarrow> device_get dev D;
     case dv_ioctl d of Some f \<Rightarrow> f cmd (world D) | None \<Rightarrow> Some EOF
   }"

text \<open>\<^verbatim>\<open>device_read\<close>: what is stored in the caller's buffer; \<open>None\<close>, it is left unchanged.\<close>

definition device_read :: "u32 \<Rightarrow> u32 \<Rightarrow> u32 \<Rightarrow> int \<Rightarrow> 'w dstate \<Rightarrow> (u32 \<times> u8 list option \<times> 'w dstate) option" where
  "device_read dev count idx flags D = do {
     d \<leftarrow> device_get dev D;
     case dv_read d of
       Some f \<Rightarrow> do { (n, buf, w) \<leftarrow> f count idx flags (world D); Some (n, Some buf, D\<lparr>world := w\<rparr>) }
     | None \<Rightarrow> Some (EOF, None, D)
   }"

definition device_write :: "u32 \<Rightarrow> u8 list \<Rightarrow> u32 \<Rightarrow> u32 \<Rightarrow> int \<Rightarrow> 'w dstate \<Rightarrow> (u32 \<times> 'w dstate) option" where
  "device_write dev buf count idx flags D = do {
     d \<leftarrow> device_get dev D;
     case dv_write d of
       Some f \<Rightarrow> do { (n, w) \<leftarrow> f buf count idx flags (world D); Some (n, D\<lparr>world := w\<rparr>) }
     | None \<Rightarrow> Some (EOF, D)
   }"

definition null_device :: "u32 \<Rightarrow> 'w device" where
  "null_device i = \<lparr>dv_name = ''null'', dv_type = DEV_NULL, dv_subtype = DEV_NULL, dv_dev = i,
     dv_parent = 0, dv_requests = [], dv_direct = DIRECT_UP,
     dv_ioctl = None, dv_read = None, dv_write = None\<rparr>"

definition device_init :: "'w \<Rightarrow> 'w dstate" where
  "device_init w = \<lparr>devices = map (\<lambda>i. null_device (of_nat i)) [0..<unat DEVICE_NR], world = w\<rparr>"

definition device_install ::
    "int \<Rightarrow> int \<Rightarrow> string \<Rightarrow> u32 \<Rightarrow> 'w ioctl_fn option \<Rightarrow> 'w read_fn option \<Rightarrow> 'w write_fn option
     \<Rightarrow> 'w dstate \<Rightarrow> (u32 \<times> 'w dstate) option" where
  "device_install type subtype name parent ioctl read write D = do {
     i \<leftarrow> get_null_device D;
     d \<leftarrow> rd (devices D) i;
     let d = d\<lparr>dv_parent := parent, dv_type := type, dv_subtype := subtype, dv_name := name,
               dv_ioctl := ioctl, dv_read := read, dv_write := write, dv_requests := []\<rparr>;
     Some (dv_dev d, D\<lparr>devices := (devices D)[i := d]\<rparr>)
   }"

text \<open>\<^verbatim>\<open>device_find\<close>: the \<open>idx\<close>-th device of a subtype.\<close>

fun device_find_from :: "int \<Rightarrow> u32 \<Rightarrow> u32 \<Rightarrow> 'w device list \<Rightarrow> 'w device option" where
  "device_find_from subtype idx nr [] = None"
| "device_find_from subtype idx nr (d # ds) =
     (if dv_subtype d \<noteq> subtype then device_find_from subtype idx nr ds
      else if nr = idx then Some d else device_find_from subtype idx (nr + 1) ds)"

definition device_find :: "int \<Rightarrow> u32 \<Rightarrow> 'w dstate \<Rightarrow> 'w device option" where
  "device_find subtype idx D = device_find_from subtype idx 0 (devices D)"

section \<open>The request queue\<close>

text \<open>\<^verbatim>\<open>do_request\<close>: what the buffer of the request holds behind it.\<close>

definition do_request :: "request \<Rightarrow> 'w dstate \<Rightarrow> (u8 list \<times> 'w dstate) option" where
  "do_request req D =
     (if rq_type req = REQ_READ then do {
        (_, buf, D) \<leftarrow> device_read (rq_dev req) (rq_count req) (rq_idx req) (rq_flags req) D;
        Some (case buf of Some data \<Rightarrow> data | None \<Rightarrow> rq_buf req, D) }
      else if rq_type req = REQ_WRITE then do {
        (_, D) \<leftarrow> device_write (rq_dev req) (rq_buf req) (rq_count req) (rq_idx req) (rq_flags req) D;
        Some (rq_buf req, D) }
      else None)"

fun successor :: "'a \<Rightarrow> 'a list \<Rightarrow> 'a option" where
  "successor x (y # z # xs) = (if x = y then Some z else successor x (z # xs))"
| "successor x xs = None"

definition predecessor :: "'a \<Rightarrow> 'a list \<Rightarrow> 'a option" where
  "predecessor x xs = successor x (rev xs)"

text \<open>\<open>None\<close> in \<open>successor\<close> is the tail sentinel, in \<open>predecessor\<close> the head sentinel.\<close>

definition request_nextreq :: "direct \<Rightarrow> 'r list \<Rightarrow> 'r \<Rightarrow> direct \<times> 'r option" where
  "request_nextreq dir reqs req =
     (let dir = (if dir = DIRECT_UP \<and> successor req reqs = None then DIRECT_DOWN
                 else if dir = DIRECT_DOWN \<and> predecessor req reqs = None then DIRECT_UP
                 else dir)
      in (dir, if dir = DIRECT_UP then successor req reqs else predecessor req reqs))"

definition update_device :: "'w device \<Rightarrow> 'w dstate \<Rightarrow> 'w dstate option" where
  "update_device d D = do {
     ds \<leftarrow> wr (devices D) (unat (dv_dev d)) d;
     Some (D\<lparr>devices := ds\<rparr>)
   }"

text \<open>
  \<^verbatim>\<open>device_request\<close> up to the point where it may block, and from there on. \<open>node\<close> is the
  address \<^verbatim>\<open>kmalloc\<close> returns for the request, \<open>current\<close> the running task; the flag of the
  first part tells whether the task blocks, the task of the second is the one to unblock.
\<close>

definition request_submit ::
    "addr \<Rightarrow> addr \<Rightarrow> u32 \<Rightarrow> u8 list \<Rightarrow> u8 \<Rightarrow> u32 \<Rightarrow> int \<Rightarrow> u32 \<Rightarrow> 'w dstate
     \<Rightarrow> (request \<times> bool \<times> 'w dstate) option" where
  "request_submit node current dev buf count idx flags type D = do {
     d \<leftarrow> device_get dev D;
     D \<leftarrow> update_device (d\<lparr>dv_type := DEV_BLOCK\<rparr>) D;
     start \<leftarrow> device_ioctl (dv_dev d) DEV_CMD_SECTOR_START D;
     let offset = idx + start;
     d \<leftarrow> (if dv_parent d \<noteq> 0 then device_get (dv_parent d) D else device_get dev D);
     let req = \<lparr>rq_node = node, rq_dev = dv_dev d, rq_type = type, rq_idx = offset, rq_count = ucast count,
                rq_flags = flags, rq_buf = buf, rq_task = None\<rparr>;
     let idle = (dv_requests d = []);
     let req = (if \<not> idle then req\<lparr>rq_task := Some current\<rparr> else req);
     D \<leftarrow> update_device (d\<lparr>dv_requests := sort_insert (\<lambda>r. sint (rq_idx r)) req (dv_requests d)\<rparr>) D;
     Some (req, \<not> idle, D)
   }"

definition request_finish :: "request \<Rightarrow> 'w dstate \<Rightarrow> (u8 list \<times> addr option \<times> 'w dstate) option" where
  "request_finish req D = do {
     (buf, D) \<leftarrow> do_request req D;
     d \<leftarrow> device_get (rq_dev req) D;
     let (dir, nx) = request_nextreq (dv_direct d) (dv_requests d) req;
     D \<leftarrow> update_device (d\<lparr>dv_direct := dir, dv_requests := removeAll req (dv_requests d)\<rparr>) D;
     case nx of None \<Rightarrow> Some (buf, None, D)
     | Some r \<Rightarrow> do { t \<leftarrow> rq_task r; Some (buf, Some t, D) }
   }"

definition device_request ::
    "addr \<Rightarrow> addr \<Rightarrow> u32 \<Rightarrow> u8 list \<Rightarrow> u8 \<Rightarrow> u32 \<Rightarrow> int \<Rightarrow> u32 \<Rightarrow> 'w dstate \<Rightarrow> (u8 list \<times> 'w dstate) option" where
  "device_request node current dev buf count idx flags type D = do {
     (req, blocks, D) \<leftarrow> request_submit node current dev buf count idx flags type D;
     check (\<not> blocks);
     (buf, _, D) \<leftarrow> request_finish req D;
     Some (buf, D)
   }"

section \<open>The memory disk\<close>

text \<open>The 4 MB from \<^verbatim>\<open>KERNEL_RAMDISK_MEM\<close> hold four disks; their memory is \<open>mem\<close>.\<close>

record ramdisk =
  rm_start :: u32
  rm_size :: u32

abbreviation (input) RAMDISK_END :: u32 where "RAMDISK_END \<equiv> 0xC00000 + 0x400000"

definition ramdisk_ioctl :: "ramdisk \<Rightarrow> mem ioctl_fn" where
  "ramdisk_ioctl disk cmd w =
     (if cmd = DEV_CMD_SECTOR_START then Some 0
      else if cmd = DEV_CMD_SECTOR_COUNT then Some (rm_size disk div 512)
      else None)"

definition ramdisk_read :: "ramdisk \<Rightarrow> mem read_fn" where
  "ramdisk_read disk count lba flags w = do {
     let addr = rm_start disk + lba * 512;
     let len = take_bit 8 count * 512;
     check (addr + len < RAMDISK_END);
     Some (take_bit 8 count, map (\<lambda>i. w (unat addr + i)) [0..<unat len], w)
   }"

definition ramdisk_write :: "ramdisk \<Rightarrow> mem write_fn" where
  "ramdisk_write disk buf count lba flags w = do {
     let addr = rm_start disk + lba * 512;
     let len = take_bit 8 count * 512;
     check (addr + len < RAMDISK_END);
     check (unat len \<le> length buf);
     Some (take_bit 8 count, put_bytes w (unat addr) (take (unat len) buf))
   }"


section \<open>Serving a queue\<close>

lemma successor_split:
  "r \<notin> set us \<Longrightarrow> successor r (us @ r # vs) = (case vs of [] \<Rightarrow> None | v # _ \<Rightarrow> Some v)"
proof (induction us)
  case Nil
  then show ?case by (cases vs) auto
next
  case (Cons u us)
  then show ?case by (cases us) auto
qed

lemma predecessor_split:
  "r \<notin> set vs \<Longrightarrow> predecessor r (us @ r # vs) = (if us = [] then None else Some (last us))"
  using successor_split[of r "rev vs" "rev us"]
  by (cases us rule: rev_cases) (simp_all add: predecessor_def)

text \<open>
  What follows when the request \<open>r\<close> is carried out and no other arrives: \<open>request_finish\<close>
  unblocks a task, whose own call of \<^verbatim>\<open>device_request\<close> then goes on behind \<^verbatim>\<open>task_block\<close>, that is
  with \<open>request_finish\<close> of the request that it queued; and so on until no task is unblocked.
  The result lists the requests in the order in which they are carried out.
\<close>

fun serve :: "nat \<Rightarrow> request \<Rightarrow> 'w dstate \<Rightarrow> (request list \<times> 'w dstate) option" where
  "serve 0 r D = None"
| "serve (Suc n) r D = do {
     (_, woken, D) \<leftarrow> request_finish r D;
     case woken of None \<Rightarrow> Some ([r], D)
     | Some t \<Rightarrow> do {
         d \<leftarrow> device_get (rq_dev r) D;
         r' \<leftarrow> List.find (\<lambda>q. rq_task q = Some t) (dv_requests d);
         (rs, D) \<leftarrow> serve n r' D;
         Some (r # rs, D) }
   }"

lemma nextreq_split:
  assumes "distinct (us @ r # vs)"
  shows "request_nextreq DIRECT_UP (us @ r # vs) r =
      (case vs of v # _ \<Rightarrow> (DIRECT_UP, Some v)
       | [] \<Rightarrow> (DIRECT_DOWN, if us = [] then None else Some (last us)))"
    "request_nextreq DIRECT_DOWN (us @ r # vs) r =
      (if us = [] then (DIRECT_UP, case vs of [] \<Rightarrow> None | v # _ \<Rightarrow> Some v)
       else (DIRECT_DOWN, Some (last us)))"
  using assms successor_split[of r us vs] predecessor_split[of r vs us]
  by (auto simp: request_nextreq_def Let_def split: list.splits)

text \<open>The driver can carry out the request: it knows its type, and its functions return.\<close>

definition drivable :: "'w device \<Rightarrow> request \<Rightarrow> bool" where
  "drivable d q \<longleftrightarrow>
     rq_type q = REQ_READ \<and> (\<forall>f w. dv_read d = Some f \<longrightarrow> f (rq_count q) (rq_idx q) (rq_flags q) w \<noteq> None)
   \<or> rq_type q = REQ_WRITE \<and> (\<forall>f w. dv_write d = Some f \<longrightarrow> f (rq_buf q) (rq_count q) (rq_idx q) (rq_flags q) w \<noteq> None)"

text \<open>A device with the requests \<open>reqs\<close> in its queue, of which all but \<open>r\<close> have a task that waits.\<close>

definition queue_of :: "u32 \<Rightarrow> 'w device \<Rightarrow> request list \<Rightarrow> request \<Rightarrow> 'w dstate \<Rightarrow> bool" where
  "queue_of dev d reqs r D \<longleftrightarrow> device_get dev D = Some d \<and> dv_dev d = dev \<and> dv_requests d = reqs
     \<and> distinct reqs \<and> r \<in> set reqs \<and> (\<forall>q \<in> set reqs. rq_dev q = dev \<and> drivable d q)
     \<and> (\<forall>q \<in> set reqs. q \<noteq> r \<longrightarrow> rq_task q \<noteq> None)
     \<and> (\<forall>p \<in> set reqs. \<forall>q \<in> set reqs. p \<noteq> r \<longrightarrow> q \<noteq> r \<longrightarrow> rq_task p = rq_task q \<longrightarrow> p = q)"

lemma do_request_world:
  assumes "device_get (rq_dev r) D = Some d" and "drivable d r"
  obtains buf w where "do_request r D = Some (buf, D\<lparr>world := w\<rparr>)"
proof -
  have same: "D = D\<lparr>world := world D\<rparr>" by simp
  consider "rq_type r = REQ_READ" "dv_read d = None" | "rq_type r = REQ_WRITE" "dv_write d = None"
    | f n buf w where "rq_type r = REQ_READ" "dv_read d = Some f" "f (rq_count r) (rq_idx r) (rq_flags r) (world D) = Some (n, buf, w)"
    | f n w where "rq_type r = REQ_WRITE" "dv_write d = Some f"
      "f (rq_buf r) (rq_count r) (rq_idx r) (rq_flags r) (world D) = Some (n, w)"
    using assms(2) unfolding drivable_def by (metis option.exhaust prod_cases3 surj_pair)
  then show thesis
  proof cases
    case 1
    then show thesis using assms(1) same by (intro that[of "rq_buf r" "world D"]) (simp add: do_request_def device_read_def)
  next
    case 2
    then show thesis using assms(1) same by (intro that[of "rq_buf r" "world D"]) (simp add: do_request_def device_write_def)
  next
    case 3
    then show thesis using assms(1) by (intro that[of buf w]) (simp add: do_request_def device_read_def)
  next
    case 4
    then show thesis using assms(1) by (intro that[of "rq_buf r" w]) (simp add: do_request_def device_write_def)
  qed
qed

lemma request_finish_step:
  assumes q: "queue_of dev d (us @ r # vs) r D"
    and nx: "request_nextreq (dv_direct d) (us @ r # vs) r = (dir, nx)" "\<forall>x. nx = Some x \<longrightarrow> x \<in> set us \<union> set vs"
  obtains buf D' where "request_finish r D = Some (buf, Option.bind nx rq_task, D')"
    "device_get dev D' = Some (d\<lparr>dv_direct := dir, dv_requests := us @ vs\<rparr>)"
proof -
  have d: "device_get dev D = Some d" "dv_dev d = dev" "dv_requests d = us @ r # vs" "rq_dev r = dev"
    "distinct (us @ r # vs)" "drivable d r" using q by (simp_all add: queue_of_def)
  have t: "\<exists>t. rq_task x = Some t" if "nx = Some x" for x
  proof -
    have "x \<in> set (us @ r # vs)" "x \<noteq> r" using that nx(2) d(5) by auto
    with q show ?thesis unfolding queue_of_def by blast
  qed
  obtain buf w where w: "do_request r D = Some (buf, D\<lparr>world := w\<rparr>)"
    using do_request_world[of r D d] d(1,4,6) by metis
  have l: "dev < DEVICE_NR" "unat dev < length (devices D)" "dv_type d \<noteq> DEV_NULL" "devices D ! unat dev = d"
    using d(1) by (auto simp: device_get_def rd_def split: if_splits)
  let ?d = "d\<lparr>dv_direct := dir, dv_requests := us @ vs\<rparr>"
  have e: "request_finish r D = Some (buf, Option.bind nx rq_task, D\<lparr>world := w, devices := (devices D)[unat dev := ?d]\<rparr>)"
  proof -
    have rem: "removeAll r us = us" "removeAll r vs = vs" using d(5) by simp_all
    have g: "device_get dev (D\<lparr>world := w\<rparr>) = Some d" using d(1) by (simp add: device_get_def)
    have u: "update_device ?d (D\<lparr>world := w\<rparr>) = Some (D\<lparr>world := w, devices := (devices D)[unat dev := ?d]\<rparr>)"
      using l d(2) by (simp add: update_device_def wr_def)
    show ?thesis
    proof (cases nx)
      case None
      then show ?thesis using w g u by (simp add: request_finish_def d(3,4) nx(1) rem)
    next
      case (Some x)
      then obtain t where "rq_task x = Some t" using t by blast
      with Some show ?thesis using w g u by (simp add: request_finish_def d(3,4) nx(1) rem)
    qed
  qed
  show thesis by (rule that[OF e]) (use l in \<open>simp add: device_get_def rd_def\<close>)
qed

text \<open>The queue that is left when \<open>r\<close> is done and \<open>x\<close> is the request whose task goes on.\<close>

lemma queue_of_next:
  assumes q: "queue_of dev d (us @ r # vs) r D" and x: "x \<in> set us \<union> set vs"
    and D': "device_get dev D' = Some (d\<lparr>dv_direct := dir, dv_requests := us @ vs\<rparr>)" (is "_ = Some ?d")
  shows "queue_of dev ?d (us @ vs) x D'"
    and "Option.bind (rq_task x) (\<lambda>t. List.find (\<lambda>q. rq_task q = Some t) (us @ vs)) = Some x"
proof -
  have d: "dv_dev d = dev" "distinct (us @ r # vs)" "\<And>p. p \<in> set (us @ r # vs) \<Longrightarrow> rq_dev p = dev \<and> drivable d p"
    "\<And>p. p \<in> set (us @ r # vs) \<Longrightarrow> p \<noteq> r \<Longrightarrow> rq_task p \<noteq> None"
    "\<And>p q. p \<in> set (us @ r # vs) \<Longrightarrow> q \<in> set (us @ r # vs) \<Longrightarrow> p \<noteq> r \<Longrightarrow> q \<noteq> r \<Longrightarrow> rq_task p = rq_task q \<Longrightarrow> p = q"
    using q unfolding queue_of_def by blast+
  have in_q: "p \<in> set (us @ r # vs) \<and> p \<noteq> r" if "p \<in> set (us @ vs)" for p
    using that d(2) by auto
  have inj: "p = q" if "p \<in> set (us @ vs)" "q \<in> set (us @ vs)" "rq_task p = rq_task q" for p q
    using d(5) in_q that by blast
  have t: "rq_task p \<noteq> None" if "p \<in> set (us @ vs)" for p
    using d(4) in_q[OF that] by blast
  have same: "drivable ?d p = drivable d p" for p by (simp add: drivable_def)
  have f: "rq_dev p = dev \<and> drivable ?d p" if "p \<in> set (us @ vs)" for p
    using d(3) in_q[OF that] unfolding same by blast
  have s: "distinct (us @ vs)" "dv_dev ?d = dev" "dv_requests ?d = us @ vs" "x \<in> set (us @ vs)"
    using d(1,2) x by simp_all
  show "queue_of dev ?d (us @ vs) x D'"
    unfolding queue_of_def using D' s inj t f by blast
  obtain t where x_t: "rq_task x = Some t" using t[of x] x by auto
  have "List.find (\<lambda>q. rq_task q = Some t) (us @ vs) = Some x"
  proof (cases "List.find (\<lambda>q. rq_task q = Some t) (us @ vs)")
    case None
    then show ?thesis using x x_t by (auto simp: find_None_iff)
  next
    case (Some y)
    then have "y \<in> set (us @ vs)" "rq_task y = Some t"
      unfolding find_Some_iff in_set_conv_nth by blast+
    then have "y = x" using inj[of y x] x x_t by simp
    with Some show ?thesis by simp
  qed
  with x_t show "Option.bind (rq_task x) (\<lambda>t. List.find (\<lambda>q. rq_task q = Some t) (us @ vs)) = Some x" by simp
qed

lemma serve_next:
  assumes q: "queue_of dev d (us @ r # vs) r D" and x: "x \<in> set us \<union> set vs"
    and nx: "request_nextreq (dv_direct d) (us @ r # vs) r = (dir, Some x)"
  obtains D' where "queue_of dev (d\<lparr>dv_direct := dir, dv_requests := us @ vs\<rparr>) (us @ vs) x D'"
    "serve (Suc n) r D = map_option (apfst ((#) r)) (serve n x D')"
proof -
  have dev: "rq_dev r = dev" using q by (simp add: queue_of_def)
  obtain buf D' where f: "request_finish r D = Some (buf, rq_task x, D')"
    and D': "device_get dev D' = Some (d\<lparr>dv_direct := dir, dv_requests := us @ vs\<rparr>)"
    using request_finish_step[OF q nx] x by auto
  note next' = queue_of_next[OF q x D']
  then obtain t where t: "rq_task x = Some t" "List.find (\<lambda>q. rq_task q = Some t) (us @ vs) = Some x"
    by (auto simp: bind_Some)
  have "serve (Suc n) r D = map_option (apfst ((#) r)) (serve n x D')"
    using f D' t dev by (cases "serve n x D'") (auto simp: apfst_def)
  with next'(1) show thesis by (rule that)
qed

lemma serve_last:
  assumes q: "queue_of dev d [r] r D"
  shows "\<exists>D' d'. serve (Suc n) r D = Some ([r], D') \<and> device_get dev D' = Some d' \<and> dv_requests d' = []"
proof -
  obtain dir where nx: "request_nextreq (dv_direct d) ([] @ r # []) r = (dir, None)"
    using nextreq_split[of "[]" r "[]"] by (cases "dv_direct d") auto
  obtain buf D' where "request_finish r D = Some (buf, Option.bind None rq_task, D')"
    "device_get dev D' = Some (d\<lparr>dv_direct := dir, dv_requests := [] @ []\<rparr>)"
    using request_finish_step[of dev d "[]" r "[]" D, OF _ nx] q by auto
  then show ?thesis by auto
qed

lemma serve_split:
  "queue_of dev d (us @ r # vs) r D \<Longrightarrow> length us + length vs < n \<Longrightarrow>
    \<exists>D' d'. serve n r D = Some (case dv_direct d of DIRECT_UP \<Rightarrow> r # vs @ rev us | DIRECT_DOWN \<Rightarrow> r # rev us @ vs, D')
      \<and> device_get dev D' = Some d' \<and> dv_requests d' = []"
proof (induction n arbitrary: us r vs d D)
  case (Suc n)
  have dist: "distinct (us @ r # vs)" using Suc.prems(1) by (simp add: queue_of_def)
  have down: ?case
    if "us \<noteq> []" and nx: "request_nextreq (dv_direct d) (us @ r # vs) r = (DIRECT_DOWN, Some (last us))"
      and o: "(case dv_direct d of DIRECT_UP \<Rightarrow> r # vs @ rev us | DIRECT_DOWN \<Rightarrow> r # rev us @ vs) = r # rev us @ vs"
  proof -
    obtain us' u where u: "us = us' @ [u]" using \<open>us \<noteq> []\<close> by (meson rev_exhaust)
    obtain D' where D': "queue_of dev (d\<lparr>dv_direct := DIRECT_DOWN, dv_requests := us @ vs\<rparr>) (us' @ u # vs) u D'"
      "serve (Suc n) r D = map_option (apfst ((#) r)) (serve n u D')"
      using serve_next[OF Suc.prems(1), of "last us" DIRECT_DOWN n] nx u by auto
    show ?thesis using Suc.IH[OF D'(1)] Suc.prems(2) by (auto simp del: serve.simps simp: D'(2) o u)
  qed
  have up: ?case
    if v: "vs = v # vs'" and nx: "request_nextreq (dv_direct d) (us @ r # vs) r = (DIRECT_UP, Some v)"
      and o: "(case dv_direct d of DIRECT_UP \<Rightarrow> r # vs @ rev us | DIRECT_DOWN \<Rightarrow> r # rev us @ vs) = r # vs @ rev us"
    for v vs'
  proof -
    obtain D' where D': "queue_of dev (d\<lparr>dv_direct := DIRECT_UP, dv_requests := us @ vs\<rparr>) (us @ v # vs') v D'"
      "serve (Suc n) r D = map_option (apfst ((#) r)) (serve n v D')"
      using serve_next[OF Suc.prems(1), of v DIRECT_UP n] nx v by auto
    show ?thesis using Suc.IH[OF D'(1)] Suc.prems(2) by (auto simp del: serve.simps simp: D'(2) o v)
  qed
  show ?case
  proof (cases "us = [] \<and> vs = []")
    case True
    with Suc.prems(1) serve_last[of dev d r D n] show ?thesis by (cases "dv_direct d") auto
  next
    case False
    with nextreq_split[OF dist] up down show ?thesis
      by (cases "dv_direct d"; cases vs; cases "us = []") auto
  qed
qed simp

section \<open>Properties\<close>

text \<open>
  C24: the request queue of a block device is served like an elevator and starves nobody.
  Take a device whose queue holds the requests below \<open>r\<close>, \<open>r\<close> and the requests above it, by
  sector, each of the others with a task of its own that waits. When \<open>r\<close> is carried out and
  nothing more arrives, each \<^verbatim>\<open>device_request\<close> that finishes unblocks the task of the next one
  until the queue is empty: upwards from \<open>r\<close> to the end and then back down through the requests
  below \<open>r\<close>, or the other way round, by the direction of the device; every request is carried
  out exactly once. (The comment at the wake-up of the next request says first come, first served.)
\<close>

theorem elevator_order:
  assumes "device_get dev D = Some d" "dv_dev d = dev" "dv_requests d = us @ r # vs" "distinct (us @ r # vs)"
    and "\<forall>q \<in> set (us @ r # vs). rq_dev q = dev \<and> drivable d q"
    and "\<forall>q \<in> set (us @ vs). rq_task q \<noteq> None" "distinct (map rq_task (us @ vs))"
  shows "\<exists>D' d'. serve (length (us @ r # vs)) r D
      = Some (case dv_direct d of DIRECT_UP \<Rightarrow> r # vs @ rev us | DIRECT_DOWN \<Rightarrow> r # rev us @ vs, D')
    \<and> device_get dev D' = Some d' \<and> dv_requests d' = []"
proof -
  have "p = q" if "p \<in> set (us @ vs)" "q \<in> set (us @ vs)" "rq_task p = rq_task q" for p q
    using inj_onD[OF _ that(3,1,2)] assms(7) by (simp only: distinct_map)
  then have "queue_of dev d (us @ r # vs) r D" using assms(1-6) by (auto simp: queue_of_def)
  then show ?thesis using serve_split[of dev d us r vs D "length (us @ r # vs)"] by simp
qed

definition sample_request :: "nat \<Rightarrow> u32 \<Rightarrow> request" where
  "sample_request t sector = \<lparr>rq_node = t, rq_dev = 1, rq_type = REQ_READ, rq_idx = sector, rq_count = 2, rq_flags = 0,
     rq_buf = replicate 1024 0, rq_task = Some t\<rparr>"

definition sample_disk :: ramdisk where
  "sample_disk = \<lparr>rm_start = 0xC00000, rm_size = 0x100000\<rparr>"

definition sample_queue :: "mem dstate" where
  "sample_queue = \<lparr>devices = [null_device 0, (null_device 1)\<lparr>dv_type := DEV_BLOCK, dv_read := Some (ramdisk_read sample_disk),
       dv_requests := [sample_request 1 2, sample_request 2 4, sample_request 3 6, sample_request 4 8]\<rparr>], world = (\<lambda>_. 0)\<rparr>"

lemma elevator_order_witness:
  "\<exists>D' d'. serve 4 (sample_request 3 6) sample_queue
      = Some ([sample_request 3 6, sample_request 4 8, sample_request 2 4, sample_request 1 2], D')
    \<and> device_get 1 D' = Some d' \<and> dv_requests d' = []"
proof -
  let ?d = "devices sample_queue ! 1"
  have d: "dv_direct ?d = DIRECT_UP" "dv_dev ?d = 1" "dv_read ?d = Some (ramdisk_read sample_disk)"
    "dv_requests ?d = [sample_request 1 2, sample_request 2 4] @ sample_request 3 6 # [sample_request 4 8]"
    by (simp_all add: sample_queue_def null_device_def)
  have a: "device_get 1 sample_queue = Some ?d"
    by (simp add: device_get_def sample_queue_def null_device_def rd_def)
  have q: "drivable ?d (sample_request i s)" if "s = 2 \<or> s = 4 \<or> s = 6 \<or> s = 8" for i s
    using that d(3) by (auto simp: drivable_def sample_request_def ramdisk_read_def sample_disk_def Let_def
        take_bit_eq_mask mask_eq_exp_minus_1)
  have "sample_request i s \<noteq> sample_request j s'" if "i \<noteq> j" for i j s s' using that by (simp add: sample_request_def)
  then have "distinct ([sample_request 1 2, sample_request 2 4] @ sample_request 3 6 # [sample_request 4 8])" by simp
  moreover have "\<forall>p \<in> set ([sample_request 1 2, sample_request 2 4] @ sample_request 3 6 # [sample_request 4 8]).
      rq_dev p = 1 \<and> drivable ?d p" using q by (simp add: sample_request_def)
  moreover have "\<forall>p \<in> set ([sample_request 1 2, sample_request 2 4] @ [sample_request 4 8]). rq_task p \<noteq> None"
    "distinct (map rq_task ([sample_request 1 2, sample_request 2 4] @ [sample_request 4 8]))"
    by (simp_all add: sample_request_def)
  moreover have "length ([sample_request 1 2, sample_request 2 4] @ sample_request 3 6 # [sample_request 4 8]) = 4" by simp
  ultimately show ?thesis
    using elevator_order[OF a d(2,4)] by (simp only: d(1) direct.case append.simps rev.simps)
qed

text \<open>
  C25: the memory disk keeps what is written to it. Writing \<open>count\<close> sectors inside the disk
  area returns \<open>count\<close>; reading any sectors then returns the new bytes where they overlap
  the written ones and the old bytes elsewhere, in particular the written buffer itself.
\<close>

theorem ramdisk_read_after_write:
  assumes "ramdisk_write disk buf count lba flags w = Some (n, w')"
    and "ramdisk_read disk count' lba' flags' w' = Some (n', buf', w'')"
    and "ramdisk_read disk count' lba' flags' w = Some (m, old, u)"
    and "k < length buf'"
  shows "w'' = w' \<and> length buf' = length old
    \<and> (let a = unat (rm_start disk + lba' * 512) + k; b = unat (rm_start disk + lba * 512) in
       buf' ! k = (if b \<le> a \<and> a < b + unat (take_bit 8 count * 512) then buf ! (a - b) else old ! k))"
  using assms
  by (auto simp: ramdisk_write_def ramdisk_read_def Let_def put_bytes_def split: if_splits)

lemma ramdisk_read_after_write_witness:
  "\<exists>n w' n' buf' w'' m old u.
    ramdisk_write sample_disk (replicate 512 7) 1 3 0 (\<lambda>_. 0) = Some (n, w')
    \<and> ramdisk_read sample_disk 1 3 0 w' = Some (n', buf', w'')
    \<and> ramdisk_read sample_disk 1 3 0 (\<lambda>_. 0) = Some (m, old, u)
    \<and> 5 < length buf' \<and> buf' ! 5 = 7"
proof -
  obtain n w' where w: "ramdisk_write sample_disk (replicate 512 7) 1 3 0 (\<lambda>_. 0) = Some (n, w')"
    by (simp add: ramdisk_write_def sample_disk_def take_bit_eq_mask mask_eq_exp_minus_1)
  obtain n' buf' w'' where r: "ramdisk_read sample_disk 1 3 0 w' = Some (n', buf', w'')" "length buf' = 512"
    by (simp add: ramdisk_read_def sample_disk_def take_bit_eq_mask mask_eq_exp_minus_1)
  obtain m old u where o: "ramdisk_read sample_disk 1 3 0 (\<lambda>_. 0) = Some (m, old, u)"
    by (simp add: ramdisk_read_def sample_disk_def take_bit_eq_mask mask_eq_exp_minus_1)
  have "buf' ! 5 = 7"
    using ramdisk_read_after_write[OF w r(1) o, of 5] r(2)
    by (simp add: Let_def take_bit_eq_mask mask_eq_exp_minus_1)
  with w r o show ?thesis by fastforce
qed

end
