(* ===== verification/Buffer.thy ===== *)
theory Buffer
  imports Device
begin

text \<open>
  \<^verbatim>\<open>kernel/buffer.c\<close>: the cache of disk blocks between the file system and the devices.
  A buffer is known by its number, in the order in which \<^verbatim>\<open>get_new_buffer\<close> carves them from
  the 4 MB of cache memory. The hash chains and the free list hold these numbers, newest
  first (\<^verbatim>\<open>list_push\<close>), and are walked as \<open>Linked_List\<close> shows. The cache is modelled for one
  task at a time: where \<^verbatim>\<open>get_free_buffer\<close> would sleep until another task releases a buffer
  the result is \<open>None\<close>, and the lock taken around the read is free.
\<close>

section \<open>State\<close>

abbreviation HASH_COUNT :: nat where "HASH_COUNT \<equiv> 203"
abbreviation BLOCK_SIZE :: nat where "BLOCK_SIZE \<equiv> 1024"
abbreviation BLOCK_SECS :: u32 where "BLOCK_SECS \<equiv> 2"
abbreviation KERNEL_BUFFER_MEM :: u32 where "KERNEL_BUFFER_MEM \<equiv> 0x800000"
abbreviation KERNEL_BUFFER_SIZE :: u32 where "KERNEL_BUFFER_SIZE \<equiv> 0x400000"

record buffer =
  b_data :: "u8 list"
  b_dev :: u32
  b_block :: u32
  b_count :: int
  b_dirty :: bool
  b_valid :: bool

record 'w cache =
  buffers :: "buffer list"
  buffer_count :: u32
  buffer_ptr :: u32
  buffer_data :: u32
  hash_table :: "nat \<Rightarrow> nat list"
  free_list :: "nat list"
  disk :: "'w dstate"

definition hash :: "u32 \<Rightarrow> u32 \<Rightarrow> nat" where
  "hash dev block = unat ((dev XOR block) mod 203)"

definition buffer_init :: "'w dstate \<Rightarrow> 'w cache" where
  "buffer_init D = \<lparr>buffers = [], buffer_count = 0, buffer_ptr = KERNEL_BUFFER_MEM,
     buffer_data = KERNEL_BUFFER_MEM + KERNEL_BUFFER_SIZE - of_nat BLOCK_SIZE,
     hash_table = (\<lambda>_. []), free_list = [], disk = D\<rparr>"

section \<open>The operations\<close>

definition upd_buffer :: "nat \<Rightarrow> (buffer \<Rightarrow> buffer) \<Rightarrow> ('w, 'z) cache_scheme \<Rightarrow> ('w, 'z) cache_scheme option" where
  "upd_buffer b f c = do {
     bf \<leftarrow> rd (buffers c) b;
     Some (c\<lparr>buffers := (buffers c)[b := f bf]\<rparr>)
   }"

fun find_chain :: "buffer list \<Rightarrow> u32 \<Rightarrow> u32 \<Rightarrow> nat list \<Rightarrow> nat option option" where
  "find_chain bs dev block [] = Some None"
| "find_chain bs dev block (b # bl) = do {
     bf \<leftarrow> rd bs b;
     if b_dev bf = dev \<and> b_block bf = block then Some (Some b) else find_chain bs dev block bl
   }"

definition get_from_hash_table :: "u32 \<Rightarrow> u32 \<Rightarrow> ('w, 'z) cache_scheme \<Rightarrow> (nat option \<times> ('w, 'z) cache_scheme) option" where
  "get_from_hash_table dev block c = do {
     found \<leftarrow> find_chain (buffers c) dev block (hash_table c (hash dev block));
     case found of
       None \<Rightarrow> Some (None, c)
     | Some b \<Rightarrow> Some (Some b,
         if b \<in> set (free_list c) then c\<lparr>free_list := removeAll b (free_list c)\<rparr> else c)
   }"

definition hash_locate :: "nat \<Rightarrow> ('w, 'z) cache_scheme \<Rightarrow> ('w, 'z) cache_scheme option" where
  "hash_locate b c = do {
     bf \<leftarrow> rd (buffers c) b;
     let idx = hash (b_dev bf) (b_block bf);
     check (b \<notin> set (hash_table c idx));
     Some (c\<lparr>hash_table := (hash_table c)(idx := b # hash_table c idx)\<rparr>)
   }"

definition hash_remove :: "nat \<Rightarrow> ('w, 'z) cache_scheme \<Rightarrow> ('w, 'z) cache_scheme option" where
  "hash_remove b c = do {
     bf \<leftarrow> rd (buffers c) b;
     let idx = hash (b_dev bf) (b_block bf);
     check (b \<in> set (hash_table c idx));
     Some (c\<lparr>hash_table := (hash_table c)(idx := removeAll b (hash_table c idx))\<rparr>)
   }"

text \<open>
  The headers (64 bytes each) grow upwards from \<^verbatim>\<open>KERNEL_BUFFER_MEM\<close>, the data blocks
  downwards from its end; there is has_room while they do not meet.
\<close>

definition get_new_buffer :: "('w, 'z) cache_scheme \<Rightarrow> nat option \<times> ('w, 'z) cache_scheme" where
  "get_new_buffer c =
     (if buffer_ptr c + 64 < buffer_data c
      then (Some (length (buffers c)),
        c\<lparr>buffers := buffers c @ [\<lparr>b_data = replicate BLOCK_SIZE 0, b_dev = EOF, b_block = 0, b_count = 0,
             b_dirty = False, b_valid = False\<rparr>],
          buffer_count := buffer_count c + 1, buffer_ptr := buffer_ptr c + 64,
          buffer_data := buffer_data c - of_nat BLOCK_SIZE\<rparr>)
      else (None, c))"

definition get_free_buffer :: "('w, 'z) cache_scheme \<Rightarrow> (nat \<times> ('w, 'z) cache_scheme) option" where
  "get_free_buffer c =
     (case get_new_buffer c of
        (Some b, c) \<Rightarrow> Some (b, c)
      | (None, c) \<Rightarrow> do {
          check (free_list c \<noteq> []);
          let b = last (free_list c);
          let c = c\<lparr>free_list := butlast (free_list c)\<rparr>;
          c \<leftarrow> hash_remove b c;
          c \<leftarrow> upd_buffer b (\<lambda>bf. bf\<lparr>b_valid := False\<rparr>) c;
          Some (b, c) })"

definition getblk :: "u32 \<Rightarrow> u32 \<Rightarrow> ('w, 'z) cache_scheme \<Rightarrow> (nat \<times> ('w, 'z) cache_scheme) option" where
  "getblk dev block c = do {
     (found, c) \<leftarrow> get_from_hash_table dev block c;
     case found of
       Some b \<Rightarrow> do { c \<leftarrow> upd_buffer b (\<lambda>bf. bf\<lparr>b_count := b_count bf + 1\<rparr>) c; Some (b, c) }
     | None \<Rightarrow> do {
         (b, c) \<leftarrow> get_free_buffer c;
         bf \<leftarrow> rd (buffers c) b;
         check (b_count bf = 0);
         check (\<not> b_dirty bf);
         c \<leftarrow> upd_buffer b (\<lambda>bf. bf\<lparr>b_count := 1, b_dev := dev, b_block := block\<rparr>) c;
         c \<leftarrow> hash_locate b c;
         Some (b, c) }
   }"

text \<open>
  The request node is the kernel memory \<^verbatim>\<open>kmalloc\<close> returns and the running task is not
  looked at on an idle queue: both are fixed addresses here.
\<close>

definition block_request :: "u32 \<Rightarrow> u8 list \<Rightarrow> u32 \<Rightarrow> u32 \<Rightarrow> 'w dstate \<Rightarrow> (u8 list \<times> 'w dstate) option" where
  "block_request dev buf block type D =
     device_request 1 1 dev buf (ucast BLOCK_SECS) (block * BLOCK_SECS) 0 type D"

definition bread :: "u32 \<Rightarrow> u32 \<Rightarrow> ('w, 'z) cache_scheme \<Rightarrow> (nat \<times> ('w, 'z) cache_scheme) option" where
  "bread dev block c = do {
     (b, c) \<leftarrow> getblk dev block c;
     bf \<leftarrow> rd (buffers c) b;
     if b_valid bf then Some (b, c)
     else do {
       (data, D) \<leftarrow> block_request (b_dev bf) (b_data bf) (b_block bf) REQ_READ (disk c);
       c \<leftarrow> upd_buffer b (\<lambda>bf. bf\<lparr>b_data := data, b_dirty := False, b_valid := True\<rparr>) (c\<lparr>disk := D\<rparr>);
       Some (b, c)
     }
   }"

definition bwrite :: "nat \<Rightarrow> ('w, 'z) cache_scheme \<Rightarrow> ('w, 'z) cache_scheme option" where
  "bwrite b c = do {
     bf \<leftarrow> rd (buffers c) b;
     if \<not> b_dirty bf then Some c
     else do {
       (_, D) \<leftarrow> block_request (b_dev bf) (b_data bf) (b_block bf) REQ_WRITE (disk c);
       upd_buffer b (\<lambda>bf. bf\<lparr>b_dirty := False, b_valid := True\<rparr>) (c\<lparr>disk := D\<rparr>)
     }
   }"

definition brelse :: "nat option \<Rightarrow> ('w, 'z) cache_scheme \<Rightarrow> ('w, 'z) cache_scheme option" where
  "brelse buf c =
     (case buf of None \<Rightarrow> Some c
      | Some b \<Rightarrow> do {
          bf \<leftarrow> rd (buffers c) b;
          c \<leftarrow> (if b_dirty bf then bwrite b c else Some c);
          c \<leftarrow> upd_buffer b (\<lambda>bf. bf\<lparr>b_count := b_count bf - 1\<rparr>) c;
          bf \<leftarrow> rd (buffers c) b;
          check (b_count bf \<ge> 0);
          if b_count bf \<noteq> 0 then Some c
          else do {
            check (b \<notin> set (free_list c));
            Some (c\<lparr>free_list := b # free_list c\<rparr>) } })"

text \<open>What the file system does with a buffer it holds: change its bytes and mark it dirty.\<close>

definition modify_buffer :: "nat \<Rightarrow> (u8 list \<Rightarrow> u8 list) \<Rightarrow> ('w, 'z) cache_scheme \<Rightarrow> ('w, 'z) cache_scheme option" where
  "modify_buffer b f c = upd_buffer b (\<lambda>bf. bf\<lparr>b_data := f (b_data bf), b_dirty := True\<rparr>) c"


section \<open>What the cache keeps\<close>

abbreviation nbuf :: "('w, 'z) cache_scheme \<Rightarrow> nat \<Rightarrow> buffer" where
  "nbuf c b \<equiv> buffers c ! b"

definition block_of :: "('w, 'z) cache_scheme \<Rightarrow> nat \<Rightarrow> u32 \<times> u32" where
  "block_of c b = (b_dev (nbuf c b), b_block (nbuf c b))"

text \<open>
  \<open>content\<close> is what a disk holds, \<open>in_range\<close> the blocks it has. Every buffer is in the chain of
  its hash and no two buffers hold the same block; the free list has the buffers nobody
  uses, and none of them is dirty; a valid buffer that is not dirty agrees with the disk.
\<close>

definition hash_key :: "u32 \<times> u32 \<Rightarrow> nat" where
  "hash_key k = hash (fst k) (snd k)"

lemma hash_key_pair [simp]: "hash_key (dev, block) = hash dev block"
  by (simp add: hash_key_def)

definition cache_inv ::
    "('w dstate \<Rightarrow> u32 \<times> u32 \<Rightarrow> u8 list) \<Rightarrow> (u32 \<times> u32 \<Rightarrow> bool) \<Rightarrow> ('w dstate \<Rightarrow> bool) \<Rightarrow> ('w, 'z) cache_scheme \<Rightarrow> bool" where
  "cache_inv content in_range ok c \<longleftrightarrow>
     (\<forall>h. distinct (hash_table c h)
        \<and> set (hash_table c h) = {b. b < length (buffers c) \<and> hash_key (block_of c b) = h})
     \<and> inj_on (block_of c) {b. b < length (buffers c)}
     \<and> distinct (free_list c) \<and> set (free_list c) = {b. b < length (buffers c) \<and> b_count (nbuf c b) = 0}
     \<and> (\<forall>b < length (buffers c). 0 \<le> b_count (nbuf c b)
          \<and> (b_dirty (nbuf c b) \<longrightarrow> b_valid (nbuf c b) \<and> 0 < b_count (nbuf c b))
          \<and> (b_valid (nbuf c b) \<longrightarrow> length (b_data (nbuf c b)) = BLOCK_SIZE \<and> in_range (block_of c b))
          \<and> (b_valid (nbuf c b) \<longrightarrow> \<not> b_dirty (nbuf c b) \<longrightarrow> b_data (nbuf c b) = content (disk c) (block_of c b)))
     \<and> ok (disk c)"

text \<open>What a reader of the cache sees: the valid buffer of the block, or else the disk.\<close>

definition block_view :: "('w dstate \<Rightarrow> u32 \<times> u32 \<Rightarrow> u8 list) \<Rightarrow> ('w, 'z) cache_scheme \<Rightarrow> u32 \<times> u32 \<Rightarrow> u8 list" where
  "block_view content c k =
     (case filter (\<lambda>b. block_of c b = k \<and> b_valid (nbuf c b)) [0..<length (buffers c)] of
        b # _ \<Rightarrow> b_data (nbuf c b) | [] \<Rightarrow> content (disk c) k)"

lemma filter_upt_eq: "b < n \<Longrightarrow> filter (\<lambda>a. a = b) [0..<n] = [b]"
  by (induction n) (auto simp: less_Suc_eq)

text \<open>A buffer can be had: there is memory for a new one, or one is free.\<close>

definition has_room :: "('w, 'z) cache_scheme \<Rightarrow> bool" where
  "has_room c \<longleftrightarrow> buffer_ptr c + 64 < buffer_data c \<or> free_list c \<noteq> []"

text \<open>What the cache relies on: a block device reads back what was written to it.\<close>

locale block_disk =
  fixes content :: "'w dstate \<Rightarrow> u32 \<times> u32 \<Rightarrow> u8 list"
    and in_range :: "u32 \<times> u32 \<Rightarrow> bool"
    and ok :: "'w dstate \<Rightarrow> bool"
  assumes read_law: "ok D \<Longrightarrow> in_range (dev, block) \<Longrightarrow>
      \<exists>D'. block_request dev bs block REQ_READ D = Some (content D (dev, block), D') \<and> ok D'
        \<and> content D' = content D"
    and write_law: "ok D \<Longrightarrow> in_range (dev, block) \<Longrightarrow> length bs = BLOCK_SIZE \<Longrightarrow>
      \<exists>bs' D'. block_request dev bs block REQ_WRITE D = Some (bs', D') \<and> ok D'
        \<and> content D' = (content D)((dev, block) := bs)"
    and content_length: "ok D \<Longrightarrow> in_range k \<Longrightarrow> length (content D k) = BLOCK_SIZE"
begin

abbreviation cinv :: "('w, 'z) cache_scheme \<Rightarrow> bool" where "cinv \<equiv> cache_inv content in_range ok"
abbreviation seen :: "('w, 'z) cache_scheme \<Rightarrow> u32 \<times> u32 \<Rightarrow> u8 list" where "seen \<equiv> block_view content"

lemma cinvD:
  assumes "cinv c"
  shows "distinct (hash_table c h)"
    "set (hash_table c h) = {b. b < length (buffers c) \<and> hash_key (block_of c b) = h}"
    "inj_on (block_of c) {b. b < length (buffers c)}"
    "distinct (free_list c)" "set (free_list c) = {b. b < length (buffers c) \<and> b_count (nbuf c b) = 0}"
    "ok (disk c)"
    "b < length (buffers c) \<Longrightarrow> 0 \<le> b_count (nbuf c b)"
    "b < length (buffers c) \<Longrightarrow> b_dirty (nbuf c b) \<Longrightarrow> b_valid (nbuf c b) \<and> 0 < b_count (nbuf c b)"
    "b < length (buffers c) \<Longrightarrow> b_valid (nbuf c b) \<Longrightarrow> length (b_data (nbuf c b)) = BLOCK_SIZE \<and> in_range (block_of c b)"
    "b < length (buffers c) \<Longrightarrow> b_valid (nbuf c b) \<Longrightarrow> \<not> b_dirty (nbuf c b) \<Longrightarrow>
      b_data (nbuf c b) = content (disk c) (block_of c b)"
  using assms unfolding cache_inv_def by blast+

lemma same_key:
  "cinv c \<Longrightarrow> a < length (buffers c) \<Longrightarrow> b < length (buffers c) \<Longrightarrow> block_of c a = block_of c b \<Longrightarrow> a = b"
  by (drule cinvD(3)) (simp add: inj_on_def)

lemma seen_cached:
  assumes "cinv c" "b < length (buffers c)" "b_valid (nbuf c b)"
  shows "seen c (block_of c b) = b_data (nbuf c b)"
proof -
  have "filter (\<lambda>a. block_of c a = block_of c b \<and> b_valid (nbuf c a)) [0..<length (buffers c)]
      = filter (\<lambda>a. a = b) [0..<length (buffers c)]"
    using same_key[OF assms(1) _ assms(2)] assms(3) by (intro filter_cong) auto
  also have "\<dots> = [b]" using assms(2) by (rule filter_upt_eq)
  finally show ?thesis by (simp add: block_view_def)
qed

lemma seen_disk:
  assumes "\<And>b. b < length (buffers c) \<Longrightarrow> block_of c b = k \<Longrightarrow> \<not> b_valid (nbuf c b)"
  shows "seen c k = content (disk c) k"
proof -
  have "filter (\<lambda>b. block_of c b = k \<and> b_valid (nbuf c b)) [0..<length (buffers c)] = []"
    using assms by (auto simp: filter_empty_conv)
  then show ?thesis by (simp only: block_view_def) simp
qed

lemma seen_clean:
  assumes "cinv c" "\<And>b. b < length (buffers c) \<Longrightarrow> block_of c b = k \<Longrightarrow> \<not> b_dirty (nbuf c b)"
  shows "seen c k = content (disk c) k"
proof (cases "\<exists>b < length (buffers c). block_of c b = k \<and> b_valid (nbuf c b)")
  case True
  then obtain b where b: "b < length (buffers c)" "block_of c b = k" "b_valid (nbuf c b)" by blast
  with seen_cached[OF assms(1) b(1,3)] cinvD(10)[OF assms(1) b(1,3)] assms(2)[OF b(1,2)] show ?thesis
    by simp
next
  case False
  then show ?thesis by (intro seen_disk) blast
qed

lemma upd_law:
  assumes I: "cinv c" and b: "b < length (buffers c)"
    and k: "b_dev bf = b_dev (nbuf c b)" "b_block bf = b_block (nbuf c b)"
    and n: "0 \<le> b_count bf" "b_dirty bf \<Longrightarrow> b_valid bf \<and> 0 < b_count bf"
    and v: "b_valid bf \<Longrightarrow> length (b_data bf) = BLOCK_SIZE \<and> in_range (block_of c b)"
      "b_valid bf \<Longrightarrow> \<not> b_dirty bf \<Longrightarrow> b_data bf = content D (block_of c b)"
    and D: "ok D" "\<And>k. k \<noteq> block_of c b \<Longrightarrow> content D k = content (disk c) k"
    and fl: "distinct fl" "set fl = (if b_count bf = 0 then insert b (set (free_list c)) else set (free_list c) - {b})"
  defines "c' \<equiv> c\<lparr>buffers := (buffers c)[b := bf], free_list := fl, disk := D\<rparr>"
  shows "cinv c'" "seen c' k' = (if k' = block_of c b then if b_valid bf then b_data bf else content D k' else seen c k')"
proof -
  have len: "length (buffers c') = length (buffers c)" by (simp add: c'_def)
  have at: "nbuf c' a = (if a = b then bf else nbuf c a)" if "a < length (buffers c)" for a
    using that b by (simp add: c'_def nth_list_update)
  have block_of': "block_of c' a = block_of c a" if "a < length (buffers c)" for a
    using at[OF that] k by (simp add: block_of_def)
  have kb: "block_of c a \<noteq> block_of c b" if "a < length (buffers c)" "a \<noteq> b" for a
    using same_key[OF I that(1) b] that(2) by blast
  have chains: "hash_table c' h = hash_table c h" and dk: "disk c' = D" and fr: "free_list c' = fl" for h
    by (simp_all add: c'_def)
  have 1: "{a. a < length (buffers c') \<and> hash_key (block_of c' a) = h} = set (hash_table c h)" for h
    using cinvD(2)[OF I] block_of' by (auto simp: len)
  have 2: "inj_on (block_of c') {a. a < length (buffers c')}"
    using cinvD(3)[OF I] block_of' by (simp add: len inj_on_def)
  have 3: "set fl = {a. a < length (buffers c') \<and> b_count (nbuf c' a) = 0}"
  proof (rule set_eqI)
    fix a
    show "a \<in> set fl \<longleftrightarrow> a \<in> {a. a < length (buffers c') \<and> b_count (nbuf c' a) = 0}"
      using at[of a] b unfolding fl(2) cinvD(5)[OF I] len
      by (cases "a = b"; cases "a < length (buffers c)") simp_all
  qed
  have 4: "0 \<le> b_count (nbuf c' a) \<and> (b_dirty (nbuf c' a) \<longrightarrow> b_valid (nbuf c' a) \<and> 0 < b_count (nbuf c' a))
      \<and> (b_valid (nbuf c' a) \<longrightarrow> length (b_data (nbuf c' a)) = BLOCK_SIZE \<and> in_range (block_of c' a))
      \<and> (b_valid (nbuf c' a) \<longrightarrow> \<not> b_dirty (nbuf c' a) \<longrightarrow> b_data (nbuf c' a) = content D (block_of c' a))"
    if "a < length (buffers c')" for a
  proof (cases "a = b")
    case True
    then show ?thesis using n v block_of'[of a] at[of a] b by simp
  next
    case False
    have a: "a < length (buffers c)" using that len by simp
    show ?thesis
      using cinvD(7-10)[OF I a] block_of'[OF a] at[OF a] False D(2)[OF kb[OF a False]] by simp
  qed
  show I': "cinv c'"
    unfolding cache_inv_def chains dk fr using cinvD(1)[OF I] 1 2 3 4 fl(1) D(1) by simp
  show "seen c' k' = (if k' = block_of c b then if b_valid bf then b_data bf else content D k' else seen c k')"
  proof (cases "k' = block_of c b")
    case True
    have b': "b < length (buffers c')" using b len by simp
    show ?thesis
    proof (cases "b_valid bf")
      case v: True
      with seen_cached[OF I' b'] at[OF b] block_of'[OF b] True show ?thesis by simp
    next
      case v: False
      have "\<not> b_valid (nbuf c' a)" if "a < length (buffers c')" "block_of c' a = k'" for a
        using same_key[OF I' that(1) b'] that(2) block_of'[OF b] True at[OF b] v by auto
      with seen_disk[of c' k'] True v show ?thesis by (simp add: dk)
    qed
  next
    case False
    show ?thesis
    proof (cases "\<exists>a < length (buffers c). block_of c a = k' \<and> b_valid (nbuf c a)")
      case True
      then obtain a where a: "a < length (buffers c)" "block_of c a = k'" "b_valid (nbuf c a)" by blast
      then have "a \<noteq> b" using False by blast
      with a seen_cached[OF I a(1,3)] seen_cached[OF I', of a] block_of'[OF a(1)] at[OF a(1)] False show ?thesis
        by (simp add: len)
    next
      case nc: False
      have "\<not> b_valid (nbuf c' a)" if a: "a < length (buffers c')" "block_of c' a = k'" for a
        using nc a block_of'[of a] at[of a] False by (auto simp: len)
      with seen_disk[of c' k'] seen_disk[of c k'] nc False D(2)[of k'] show ?thesis
        by (auto simp: dk)
    qed
  qed
qed

lemma find_chain_eq:
  "\<forall>b \<in> set ch. b < length (buffers c) \<Longrightarrow>
    find_chain (buffers c) dev block ch = Some (List.find (\<lambda>b. block_of c b = (dev, block)) ch)"
  by (induction ch) (auto simp: block_of_def)

lemma get_from_hash_law:
  assumes "cinv c"
  shows "(\<exists>b < length (buffers c). block_of c b = (dev, block)
      \<and> get_from_hash_table dev block c = Some (Some b, c\<lparr>free_list := removeAll b (free_list c)\<rparr>))
    \<or> (\<forall>b < length (buffers c). block_of c b \<noteq> (dev, block)) \<and> get_from_hash_table dev block c = Some (None, c)"
proof -
  let ?ch = "hash_table c (hash dev block)"
  have ch: "set ?ch = {b. b < length (buffers c) \<and> hash_key (block_of c b) = hash dev block}"
    by (rule cinvD(2)[OF assms])
  then have f: "find_chain (buffers c) dev block ?ch = Some (List.find (\<lambda>b. block_of c b = (dev, block)) ?ch)"
    by (intro find_chain_eq) auto
  show ?thesis
  proof (cases "List.find (\<lambda>b. block_of c b = (dev, block)) ?ch")
    case None
    then have "block_of c b \<noteq> (dev, block)" if "b < length (buffers c)" for b
      using that ch by (auto simp: find_None_iff)
    with None f show ?thesis by (simp add: get_from_hash_table_def)
  next
    case (Some b)
    then have b: "b \<in> set ?ch" "block_of c b = (dev, block)" by (auto simp: find_Some_iff)
    have "get_from_hash_table dev block c = Some (Some b, c\<lparr>free_list := removeAll b (free_list c)\<rparr>)"
      using f Some by (simp add: get_from_hash_table_def removeAll_id)
    with b ch show ?thesis by blast
  qed
qed


text \<open>A buffer that enters the cache under a block that was not in it.\<close>

lemma insert_law:
  fixes n p q :: u32
  assumes I: "cinv c" and new: "\<forall>b < length (buffers c). block_of c b \<noteq> (dev, block)"
    and bf: "b_dev bf = dev" "b_block bf = block" "b_count bf = 1" "\<not> b_dirty bf" "\<not> b_valid bf"
  defines "c' \<equiv> c\<lparr>buffers := buffers c @ [bf], buffer_count := n, buffer_ptr := p, buffer_data := q,
     hash_table := (hash_table c)(hash dev block := length (buffers c) # hash_table c (hash dev block))\<rparr>"
  shows "cinv c'" "seen c' = seen c"
proof -
  let ?b = "length (buffers c)"
  have at: "nbuf c' a = (if a = ?b then bf else nbuf c a)" if "a < Suc ?b" for a
    using that by (simp add: c'_def nth_append)
  have ky: "block_of c' a = (if a = ?b then (dev, block) else block_of c a)" if "a < Suc ?b" for a
    using at[OF that] bf by (simp add: block_of_def)
  have len: "length (buffers c') = Suc ?b" by (simp add: c'_def)
  have fl: "free_list c' = free_list c" "disk c' = disk c" by (simp_all add: c'_def)
  have ht: "hash_table c' h = (if h = hash dev block then ?b # hash_table c h else hash_table c h)" for h
    by (simp add: c'_def)
  have 1: "distinct (hash_table c' h)
      \<and> set (hash_table c' h) = {a. a < length (buffers c') \<and> hash_key (block_of c' a) = h}" for h
  proof -
    have "{a. a < Suc ?b \<and> hash_key (block_of c' a) = h}
        = {a. a < ?b \<and> hash_key (block_of c a) = h} \<union> (if h = hash dev block then {?b} else {})"
      using ky by (auto simp: less_Suc_eq)
    moreover have "?b \<notin> set (hash_table c h)" unfolding cinvD(2)[OF I] by simp
    ultimately show ?thesis
      unfolding len ht using cinvD(1,2)[OF I, of h] by (cases "h = hash dev block") simp_all
  qed
  have 2: "inj_on (block_of c') {a. a < length (buffers c')}"
  proof (rule inj_onI)
    fix a a' assume a: "a \<in> {a. a < length (buffers c')}" "a' \<in> {a. a < length (buffers c')}" "block_of c' a = block_of c' a'"
    then show "a = a'"
      using ky[of a] ky[of a'] new same_key[OF I, of a a'] by (auto simp: len less_Suc_eq split: if_splits)
  qed
  have 3: "set (free_list c') = {a. a < length (buffers c') \<and> b_count (nbuf c' a) = 0}"
    unfolding fl len cinvD(5)[OF I] using at bf(3) by (auto simp: less_Suc_eq)
  have 4: "0 \<le> b_count (nbuf c' a) \<and> (b_dirty (nbuf c' a) \<longrightarrow> b_valid (nbuf c' a) \<and> 0 < b_count (nbuf c' a))
      \<and> (b_valid (nbuf c' a) \<longrightarrow> length (b_data (nbuf c' a)) = BLOCK_SIZE \<and> in_range (block_of c' a))
      \<and> (b_valid (nbuf c' a) \<longrightarrow> \<not> b_dirty (nbuf c' a) \<longrightarrow> b_data (nbuf c' a) = content (disk c') (block_of c' a))"
    if "a < length (buffers c')" for a
  proof (cases "a = ?b")
    case True
    then show ?thesis using at[of a] bf by simp
  next
    case False
    then have a: "a < ?b" using that len by simp
    then show ?thesis using at[of a] ky[of a] cinvD(7-10)[OF I a] fl by simp
  qed
  show I': "cinv c'"
    unfolding cache_inv_def using 1 2 3 4 cinvD(4,6)[OF I] fl by simp
  show "seen c' = seen c"
  proof
    fix k
    show "seen c' k = seen c k"
    proof (cases "\<exists>a < ?b. block_of c a = k \<and> b_valid (nbuf c a)")
      case True
      then obtain a where a: "a < ?b" "block_of c a = k" "b_valid (nbuf c a)" by blast
      with seen_cached[OF I a(1,3)] seen_cached[OF I', of a] ky[of a] at[of a] len show ?thesis by simp
    next
      case False
      then have "\<not> b_valid (nbuf c' a)" if "a < length (buffers c')" "block_of c' a = k" for a
        using that ky[of a] at[of a] bf(5) len by (auto simp: less_Suc_eq split: if_splits)
      then have "seen c' k = content (disk c') k" by (rule seen_disk)
      moreover have "seen c k = content (disk c) k" using False by (intro seen_disk) blast
      ultimately show ?thesis by (simp add: fl)
    qed
  qed
qed

text \<open>A clean buffer that is given to another block.\<close>

lemma evict_law:
  assumes I: "cinv c" and new: "\<forall>b < length (buffers c). block_of c b \<noteq> (dev, block)"
    and fl: "free_list c = fl @ [b]"
    and bf: "b_dev bf = dev" "b_block bf = block" "b_count bf = 1" "\<not> b_dirty bf" "\<not> b_valid bf"
  defines "ht \<equiv> (hash_table c)(hash_key (block_of c b) := removeAll b (hash_table c (hash_key (block_of c b))))"
  defines "c' \<equiv> c\<lparr>buffers := (buffers c)[b := bf], free_list := fl,
     hash_table := ht(hash dev block := b # ht (hash dev block))\<rparr>"
  shows "cinv c'" "seen c' = seen c"
proof -
  have b: "b < length (buffers c)" "b_count (nbuf c b) = 0" using cinvD(5)[OF I] fl by auto
  then have clean: "\<not> b_dirty (nbuf c b)" using cinvD(8)[OF I b(1)] by auto
  have at: "nbuf c' a = (if a = b then bf else nbuf c a)" if "a < length (buffers c)" for a
    using that b by (simp add: c'_def nth_list_update)
  have ky: "block_of c' a = (if a = b then (dev, block) else block_of c a)" if "a < length (buffers c)" for a
    using at[OF that] bf by (simp add: block_of_def)
  have len: "length (buffers c') = length (buffers c)" by (simp add: c'_def)
  have fl': "free_list c' = fl" "disk c' = disk c" by (simp_all add: c'_def)
  have hc: "hash_table c' h = (if h = hash dev block then b # ht h else ht h)" for h by (simp add: c'_def)
  have ht: "set (ht h) = {a. a < length (buffers c) \<and> a \<noteq> b \<and> hash_key (block_of c a) = h} \<and> distinct (ht h)" for h
  proof (cases "h = hash_key (block_of c b)")
    case True
    then have "set (ht h) = set (hash_table c h) - {b}" "distinct (ht h)"
      using cinvD(1)[OF I, of h] by (simp_all add: ht_def distinct_removeAll)
    then show ?thesis unfolding cinvD(2)[OF I] by blast
  next
    case False
    then have "ht h = hash_table c h" by (simp add: ht_def)
    with cinvD(1,2)[OF I, of h] False show ?thesis by auto
  qed
  have 1: "distinct (hash_table c' h)
      \<and> set (hash_table c' h) = {a. a < length (buffers c') \<and> hash_key (block_of c' a) = h}" for h
  proof -
    have "{a. a < length (buffers c) \<and> hash_key (block_of c' a) = h}
        = {a. a < length (buffers c) \<and> a \<noteq> b \<and> hash_key (block_of c a) = h}
          \<union> (if h = hash dev block then {b} else {})"
      using ky b(1) by auto
    then show ?thesis unfolding len hc using ht[of h] by (cases "h = hash dev block") simp_all
  qed
  have 2: "inj_on (block_of c') {a. a < length (buffers c')}"
  proof (rule inj_onI)
    fix a a' assume a: "a \<in> {a. a < length (buffers c')}" "a' \<in> {a. a < length (buffers c')}" "block_of c' a = block_of c' a'"
    then show "a = a'"
      using ky[of a] ky[of a'] new same_key[OF I, of a a'] by (auto simp: len split: if_splits)
  qed
  have d: "distinct fl" "b \<notin> set fl" using cinvD(4)[OF I] fl by auto
  have "set (free_list c) = insert b (set fl)" using fl by auto
  then have "set fl = {a. a < length (buffers c) \<and> b_count (nbuf c a) = 0} - {b}"
    using cinvD(5)[OF I] d(2) by auto
  then have 3: "set (free_list c') = {a. a < length (buffers c') \<and> b_count (nbuf c' a) = 0}"
    unfolding fl' len using at bf(3) by (auto split: if_splits)
  have 4: "0 \<le> b_count (nbuf c' a) \<and> (b_dirty (nbuf c' a) \<longrightarrow> b_valid (nbuf c' a) \<and> 0 < b_count (nbuf c' a))
      \<and> (b_valid (nbuf c' a) \<longrightarrow> length (b_data (nbuf c' a)) = BLOCK_SIZE \<and> in_range (block_of c' a))
      \<and> (b_valid (nbuf c' a) \<longrightarrow> \<not> b_dirty (nbuf c' a) \<longrightarrow> b_data (nbuf c' a) = content (disk c') (block_of c' a))"
    if "a < length (buffers c')" for a
  proof (cases "a = b")
    case True
    then show ?thesis using at[of a] bf b(1) by simp
  next
    case False
    then have a: "a < length (buffers c)" using that len by simp
    then show ?thesis using False at[of a] ky[of a] cinvD(7-10)[OF I a] fl' by simp
  qed
  show I': "cinv c'"
    unfolding cache_inv_def using 1 2 3 4 d(1) cinvD(6)[OF I] fl' by simp
  show "seen c' = seen c"
  proof
    fix k
    show "seen c' k = seen c k"
    proof (cases "\<exists>a < length (buffers c). a \<noteq> b \<and> block_of c a = k \<and> b_valid (nbuf c a)")
      case True
      then obtain a where a: "a < length (buffers c)" "a \<noteq> b" "block_of c a = k" "b_valid (nbuf c a)" by blast
      with seen_cached[OF I a(1,4)] seen_cached[OF I', of a] ky[of a] at[of a] len show ?thesis by simp
    next
      case False
      then have "\<not> b_valid (nbuf c' a)" if "a < length (buffers c')" "block_of c' a = k" for a
        using that ky[of a] at[of a] bf(5) len by (auto split: if_splits)
      then have "seen c' k = content (disk c) k" using seen_disk[of c' k] by (simp add: fl')
      moreover have "seen c k = content (disk c) k"
      proof (cases "block_of c b = k")
        case True
        then show ?thesis using seen_clean[OF I, of k] same_key[OF I _ b(1)] clean by blast
      next
        case k: False
        then show ?thesis using False by (intro seen_disk) blast
      qed
      ultimately show ?thesis by simp
    qed
  qed
qed

lemma getblk_law:
  assumes I: "cinv c" and has_room: "has_room c"
  obtains b c' where "getblk dev block c = Some (b, c')" "cinv c'" "seen c' = seen c"
    "b < length (buffers c')" "block_of c' b = (dev, block)" "0 < b_count (nbuf c' b)" "disk c' = disk c"
    "b_valid (nbuf c' b) \<or> \<not> b_dirty (nbuf c' b)"
proof -
  from get_from_hash_law[OF I, of dev block] consider
    (hit) b where "b < length (buffers c)" "block_of c b = (dev, block)"
      "get_from_hash_table dev block c = Some (Some b, c\<lparr>free_list := removeAll b (free_list c)\<rparr>)"
  | (miss) "\<forall>b < length (buffers c). block_of c b \<noteq> (dev, block)" "get_from_hash_table dev block c = Some (None, c)"
    by blast
  then show thesis
  proof cases
    case hit
    let ?bf = "(nbuf c b)\<lparr>b_count := b_count (nbuf c b) + 1\<rparr>"
    let ?c = "c\<lparr>buffers := (buffers c)[b := ?bf], free_list := removeAll b (free_list c), disk := disk c\<rparr>"
    have ge: "0 \<le> b_count (nbuf c b)" by (rule cinvD(7)[OF I hit(1)])
    have 1: "cinv ?c" "seen ?c k = (if k = block_of c b then if b_valid ?bf then b_data ?bf else content (disk c) k else seen c k)" for k
      by (rule upd_law[OF I hit(1)]; use cinvD(4,6)[OF I] cinvD(8-10)[OF I hit(1)] ge in \<open>auto simp: distinct_removeAll\<close>)+
    have "seen ?c = seen c"
    proof
      fix k show "seen ?c k = seen c k"
      proof (cases "k = block_of c b \<and> \<not> b_valid (nbuf c b)")
        case True
        then have "\<not> b_valid (nbuf c a)" if "a < length (buffers c)" "block_of c a = k" for a
          using that same_key[OF I that(1) hit(1)] by blast
        with True show ?thesis unfolding 1(2) by (simp add: seen_disk)
      next
        case False
        then show ?thesis unfolding 1(2) using seen_cached[OF I hit(1)] by auto
      qed
    qed
    moreover have "getblk dev block c = Some (b, ?c)"
      using hit by (simp add: getblk_def upd_buffer_def)
    moreover have "b_valid ?bf \<or> \<not> b_dirty ?bf" using cinvD(8)[OF I hit(1)] by auto
    ultimately show thesis using that[of b ?c] 1(1) hit(1,2) ge by (simp add: block_of_def)
  next
    case miss
    let ?bf = "\<lparr>b_data = replicate BLOCK_SIZE 0, b_dev = dev, b_block = block, b_count = 1,
             b_dirty = False, b_valid = False\<rparr>"
    show thesis
    proof (cases "buffer_ptr c + 64 < buffer_data c")
      case True
      let ?b = "length (buffers c)"
      let ?c = "c\<lparr>buffers := buffers c @ [?bf], buffer_count := buffer_count c + 1,
        buffer_ptr := buffer_ptr c + 64, buffer_data := buffer_data c - of_nat BLOCK_SIZE,
        hash_table := (hash_table c)(hash dev block := ?b # hash_table c (hash dev block))\<rparr>"
      have "?b \<notin> set (hash_table c (hash dev block))" using cinvD(2)[OF I] by auto
      then have "getblk dev block c = Some (?b, ?c)"
        using miss(2) True
        by (simp add: getblk_def get_free_buffer_def get_new_buffer_def upd_buffer_def hash_locate_def Let_def)
      moreover have "cinv ?c" "seen ?c = seen c"
        by (rule insert_law[OF I miss(1)]; simp)+
      ultimately show thesis using that[of ?b ?c] by (simp add: block_of_def)
    next
      case False
      with has_room obtain fl b where fl: "free_list c = fl @ [b]"
        by (cases "free_list c" rule: rev_cases) (auto simp: has_room_def)
      have b: "b < length (buffers c)" "b_count (nbuf c b) = 0" using cinvD(5)[OF I] fl by auto
      have clean: "\<not> b_dirty (nbuf c b)" using cinvD(8)[OF I b(1)] b(2) by auto
      let ?bf = "(nbuf c b)\<lparr>b_valid := False, b_count := 1, b_dev := dev, b_block := block\<rparr>"
      let ?ht = "(hash_table c)(hash_key (block_of c b) := removeAll b (hash_table c (hash_key (block_of c b))))"
      let ?c = "c\<lparr>buffers := (buffers c)[b := ?bf], free_list := fl,
        hash_table := ?ht(hash dev block := b # ?ht (hash dev block))\<rparr>"
      have h: "hash (b_dev (nbuf c b)) (b_block (nbuf c b)) = hash_key (block_of c b)" by (simp add: block_of_def)
      have inch: "b \<in> set (hash_table c (hash_key (block_of c b)))" using cinvD(2)[OF I] b(1) by auto
      have out: "b \<notin> set (?ht (hash dev block))"
        using cinvD(2)[OF I, of "hash dev block"] by (auto simp: block_of_def)
      have "b \<notin> set (hash_table c (hash dev block))" if "hash dev block \<noteq> hash_key (block_of c b)"
        using that unfolding cinvD(2)[OF I] by simp
      then have "getblk dev block c = Some (b, ?c)"
        using miss(2) False fl b clean inch out h
        by (simp add: getblk_def get_free_buffer_def get_new_buffer_def hash_remove_def upd_buffer_def
            hash_locate_def Let_def)
      moreover have "cinv ?c" "seen ?c = seen c"
        by (rule evict_law[OF I miss(1) fl]; use clean in simp)+
      ultimately show thesis using that[of b ?c] b clean by (simp add: block_of_def)
    qed
  qed
qed


text \<open>\<^verbatim>\<open>bread\<close>: the buffer of the block, valid, with the bytes everybody sees there.\<close>

lemma bread_law:
  assumes I: "cinv c" and has_room: "has_room c" and r: "in_range (dev, block)"
  obtains b c' where "bread dev block c = Some (b, c')" "cinv c'" "seen c' = seen c"
    "b < length (buffers c')" "block_of c' b = (dev, block)" "0 < b_count (nbuf c' b)" "b_valid (nbuf c' b)"
    "b_data (nbuf c' b) = seen c (dev, block)"
proof -
  obtain b c1 where g: "getblk dev block c = Some (b, c1)" "cinv c1" "seen c1 = seen c"
    and b: "b < length (buffers c1)" "block_of c1 b = (dev, block)" "0 < b_count (nbuf c1 b)"
      "b_valid (nbuf c1 b) \<or> \<not> b_dirty (nbuf c1 b)"
    by (rule getblk_law[OF I has_room, of dev block]) simp
  show thesis
  proof (cases "b_valid (nbuf c1 b)")
    case True
    have "b_data (nbuf c1 b) = seen c (dev, block)"
      using seen_cached[OF g(2) b(1) True] b(2) g(3) by simp
    moreover have "bread dev block c = Some (b, c1)" using g(1) b(1) True by (simp add: bread_def)
    ultimately show thesis using that[of b c1] g(2,3) b True by simp
  next
    case False
    have dv: "b_dev (nbuf c1 b) = dev" "b_block (nbuf c1 b) = block" using b(2) by (simp_all add: block_of_def)
    obtain D where D: "block_request dev (b_data (nbuf c1 b)) block REQ_READ (disk c1)
        = Some (content (disk c1) (dev, block), D)" "ok D" "content D = content (disk c1)"
      using read_law[OF cinvD(6)[OF g(2)] r] by blast
    let ?bf = "(nbuf c1 b)\<lparr>b_data := content (disk c1) (dev, block), b_dirty := False, b_valid := True\<rparr>"
    let ?c = "c1\<lparr>buffers := (buffers c1)[b := ?bf], free_list := free_list c1, disk := D\<rparr>"
    have fl: "distinct (free_list c1)" "set (free_list c1) = (if b_count ?bf = 0 then insert b (set (free_list c1)) else set (free_list c1) - {b})"
      using cinvD(4,5)[OF g(2)] b(1,3) by auto
    have len: "length (content (disk c1) (dev, block)) = BLOCK_SIZE"
      by (rule content_length[OF cinvD(6)[OF g(2)] r])
    have 1: "cinv ?c" "\<And>k. seen ?c k = (if k = block_of c1 b then if b_valid ?bf then b_data ?bf else content D k else seen c1 k)"
      by (rule upd_law[OF g(2) b(1), where bf = ?bf and D = D and fl = "free_list c1"];
          (use fl in simp; fail)?; use b len r D in simp)+
    have "seen c1 (dev, block) = content (disk c1) (dev, block)"
      using same_key[OF g(2) _ b(1)] b(2) False by (intro seen_disk) metis
    then have "seen ?c = seen c" "b_data ?bf = seen c (dev, block)"
      using 1(2) b(2) g(3) by (auto simp: fun_eq_iff)
    moreover have "bread dev block c = Some (b, ?c)"
      using g(1) b(1) False D(1) dv by (simp add: bread_def upd_buffer_def)
    ultimately show thesis using that[of b ?c] 1(1) b by (simp add: block_of_def)
  qed
qed

text \<open>Changing the bytes of a buffer in use: the block is seen changed, nothing else is.\<close>

lemma modify_law:
  assumes I: "cinv c" and b: "b < length (buffers c)" "b_valid (nbuf c b)" "0 < b_count (nbuf c b)"
    and f: "length (f (b_data (nbuf c b))) = BLOCK_SIZE"
  obtains c' where "modify_buffer b f c = Some c'" "cinv c'"
    "seen c' = (seen c)(block_of c b := f (seen c (block_of c b)))" "length (buffers c') = length (buffers c)"
    "nbuf c' b = (nbuf c b)\<lparr>b_data := f (b_data (nbuf c b)), b_dirty := True\<rparr>" "block_of c' b = block_of c b"
    "free_list c' = free_list c"
proof -
  let ?bf = "(nbuf c b)\<lparr>b_data := f (b_data (nbuf c b)), b_dirty := True\<rparr>"
  let ?c = "c\<lparr>buffers := (buffers c)[b := ?bf], free_list := free_list c, disk := disk c\<rparr>"
  have fl: "distinct (free_list c)" "set (free_list c) = (if b_count ?bf = 0 then insert b (set (free_list c)) else set (free_list c) - {b})"
    using cinvD(4,5)[OF I] b by auto
  have 1: "cinv ?c" "\<And>k. seen ?c k = (if k = block_of c b then if b_valid ?bf then b_data ?bf else content (disk c) k else seen c k)"
    by (rule upd_law[OF I b(1), where bf = ?bf and D = "disk c" and fl = "free_list c"];
        (use fl in simp; fail)?; use b f cinvD(6)[OF I] cinvD(9)[OF I b(1,2)] in simp)+
  have "seen ?c = (seen c)(block_of c b := f (seen c (block_of c b)))"
    using 1(2) b(2) seen_cached[OF I b(1,2)] by (auto simp: fun_eq_iff)
  moreover have "modify_buffer b f c = Some ?c" using b(1) by (simp add: modify_buffer_def upd_buffer_def)
  ultimately show thesis using that[of ?c] 1(1) b(1) by (simp add: block_of_def)
qed

text \<open>\<^verbatim>\<open>bwrite\<close> brings the disk up to date; readers see no difference.\<close>

lemma bwrite_law:
  assumes I: "cinv c" and b: "b < length (buffers c)"
  obtains c' where "bwrite b c = Some c'" "cinv c'" "seen c' = seen c" "length (buffers c') = length (buffers c)"
    "nbuf c' b = (nbuf c b)\<lparr>b_dirty := False\<rparr>" "block_of c' b = block_of c b" "free_list c' = free_list c"
    "b_valid (nbuf c b) \<Longrightarrow> content (disk c') (block_of c b) = seen c (block_of c b)"
proof (cases "b_dirty (nbuf c b)")
  case False
  have "b_valid (nbuf c b) \<Longrightarrow> content (disk c) (block_of c b) = seen c (block_of c b)"
    using seen_cached[OF I b] cinvD(10)[OF I b] False by simp
  moreover have "bwrite b c = Some c" using b False by (simp add: bwrite_def)
  ultimately show ?thesis using that[of c] I False by simp
next
  case True
  then have v: "b_valid (nbuf c b)" "0 < b_count (nbuf c b)" using cinvD(8)[OF I b] by auto
  then have l: "length (b_data (nbuf c b)) = BLOCK_SIZE" "in_range (block_of c b)" using cinvD(9)[OF I b] by auto
  obtain bs D where D: "block_request (b_dev (nbuf c b)) (b_data (nbuf c b)) (b_block (nbuf c b)) REQ_WRITE (disk c)
      = Some (bs, D)" "ok D" "content D = (content (disk c))(block_of c b := b_data (nbuf c b))"
    using write_law[OF cinvD(6)[OF I] l(2)[unfolded block_of_def] l(1)] unfolding block_of_def by blast
  let ?bf = "(nbuf c b)\<lparr>b_dirty := False, b_valid := True\<rparr>"
  let ?c = "c\<lparr>buffers := (buffers c)[b := ?bf], free_list := free_list c, disk := D\<rparr>"
  have fl: "distinct (free_list c)" "set (free_list c) = (if b_count ?bf = 0 then insert b (set (free_list c)) else set (free_list c) - {b})"
    using cinvD(4,5)[OF I] b v by auto
  have 1: "cinv ?c" "\<And>k. seen ?c k = (if k = block_of c b then if b_valid ?bf then b_data ?bf else content D k else seen c k)"
    by (rule upd_law[OF I b, where bf = ?bf and D = D and fl = "free_list c"];
        (use fl in simp; fail)?; use l D v in simp)+
  have "seen ?c = seen c" using 1(2) seen_cached[OF I b v(1)] by (auto simp: fun_eq_iff)
  moreover have "bwrite b c = Some ?c" using b True D(1) by (simp add: bwrite_def upd_buffer_def)
  moreover have "content (disk ?c) (block_of c b) = seen c (block_of c b)" using D(3) seen_cached[OF I b v(1)] by simp
  ultimately show ?thesis using that[of ?c] 1(1) b v(1) by (simp add: block_of_def)
qed

text \<open>\<^verbatim>\<open>brelse\<close> of a buffer in use writes it back if need be and gives it up.\<close>

lemma brelse_law:
  assumes I: "cinv c" and b: "b < length (buffers c)" "0 < b_count (nbuf c b)"
  obtains c' where "brelse (Some b) c = Some c'" "cinv c'" "seen c' = seen c"
    "b_valid (nbuf c b) \<Longrightarrow> content (disk c') (block_of c b) = seen c (block_of c b)"
    "b_count (nbuf c b) = 1 \<Longrightarrow> free_list c' = b # free_list c"
proof -
  obtain c1 where w: "bwrite b c = Some c1" "cinv c1" "seen c1 = seen c" "length (buffers c1) = length (buffers c)"
    "nbuf c1 b = (nbuf c b)\<lparr>b_dirty := False\<rparr>" "block_of c1 b = block_of c b" "free_list c1 = free_list c"
    "b_valid (nbuf c b) \<Longrightarrow> content (disk c1) (block_of c b) = seen c (block_of c b)"
    by (rule bwrite_law[OF I b(1)]) simp
  let ?bf = "(nbuf c1 b)\<lparr>b_count := b_count (nbuf c1 b) - 1\<rparr>"
  let ?fl = "if b_count ?bf = 0 then b # free_list c1 else free_list c1"
  let ?c = "c1\<lparr>buffers := (buffers c1)[b := ?bf], free_list := ?fl, disk := disk c1\<rparr>"
  have b1: "b < length (buffers c1)" using b(1) w(4) by simp
  have out: "b \<notin> set (free_list c1)" using cinvD(5)[OF w(2)] b(2) w(5) by simp
  have fl: "distinct ?fl" "set ?fl = (if b_count ?bf = 0 then insert b (set (free_list c1)) else set (free_list c1) - {b})"
    using cinvD(4)[OF w(2)] out by auto
  have 1: "cinv ?c" "\<And>k. seen ?c k = (if k = block_of c1 b then if b_valid ?bf then b_data ?bf else content (disk c1) k else seen c1 k)"
    by (rule upd_law[OF w(2) b1, where bf = ?bf and D = "disk c1" and fl = ?fl];
        (use fl in simp; fail)?; use b(2) w(5) cinvD(6)[OF w(2)] cinvD(9,10)[OF w(2) b1] in simp)+
  have "seen ?c = seen c"
  proof
    fix k
    show "seen ?c k = seen c k"
    proof (cases "k = block_of c1 b \<and> \<not> b_valid (nbuf c1 b)")
      case True
      then have "seen c1 k = content (disk c1) k"
        using same_key[OF w(2) _ b1] by (intro seen_disk) metis
      with True show ?thesis unfolding 1(2) using w(3) by simp
    next
      case False
      then show ?thesis unfolding 1(2) using seen_cached[OF w(2) b1] w(3) by auto
    qed
  qed
  moreover have "brelse (Some b) c = Some ?c"
  proof -
    have "(if b_dirty (nbuf c b) then bwrite b c else Some c) = Some c1"
      using w(1) b(1) by (cases "b_dirty (nbuf c b)") (simp_all add: bwrite_def)
    then show ?thesis
      using b b1 w(5) out by (simp add: brelse_def upd_buffer_def)
  qed
  ultimately show thesis using that[of ?c] 1(1) w(5,7,8) b(1) by simp
qed

end

section \<open>The memory disks as block devices\<close>

text \<open>
  The four memory disks are the devices \<open>base\<close> to \<open>base + 3\<close>, each with 1024 blocks of the area
  from \<^verbatim>\<open>KERNEL_RAMDISK_MEM\<close>. The very last block of the area is not usable: the driver wants
  an access to end before the end of the area.
\<close>

definition disk_at :: "u32 \<Rightarrow> u32 \<Rightarrow> ramdisk" where
  "disk_at base dev = \<lparr>rm_start = 0xC00000 + (dev - base) * 0x100000, rm_size = 0x100000\<rparr>"

definition ram_range :: "u32 \<Rightarrow> u32 \<times> u32 \<Rightarrow> bool" where
  "ram_range base k \<longleftrightarrow> (case k of (dev, block) \<Rightarrow>
     unat (dev - base) < 4 \<and> unat block < 1024 \<and> \<not> (unat (dev - base) = 3 \<and> unat block = 1023))"

definition ram_addr :: "u32 \<Rightarrow> u32 \<times> u32 \<Rightarrow> nat" where
  "ram_addr base k = (case k of (dev, block) \<Rightarrow> 0xC00000 + unat (dev - base) * 0x100000 + unat block * 1024)"

definition ram_content :: "u32 \<Rightarrow> mem dstate \<Rightarrow> u32 \<times> u32 \<Rightarrow> u8 list" where
  "ram_content base D k =
     (if ram_range base k then map (\<lambda>i. world D (ram_addr base k + i)) [0..<BLOCK_SIZE] else [])"

definition ram_device :: "u32 \<Rightarrow> u32 \<Rightarrow> mem device \<Rightarrow> bool" where
  "ram_device base dev d \<longleftrightarrow> dv_type d \<noteq> DEV_NULL \<and> dv_dev d = dev \<and> dv_parent d = 0 \<and> dv_requests d = []
     \<and> dv_ioctl d = Some (ramdisk_ioctl (disk_at base dev)) \<and> dv_read d = Some (ramdisk_read (disk_at base dev))
     \<and> dv_write d = Some (ramdisk_write (disk_at base dev))"

definition ram_ok :: "u32 \<Rightarrow> mem dstate \<Rightarrow> bool" where
  "ram_ok base D \<longleftrightarrow> length (devices D) = 64 \<and> base < 61
     \<and> (\<forall>i < 4. ram_device base (base + of_nat i) (devices D ! (unat base + i)))"

lemma ram_okD:
  assumes "ram_ok base D" "unat (dev - base) < 4"
  shows "unat dev < length (devices D)" "dev < 64" "ram_device base dev (devices D ! unat dev)"
proof -
  define i where "i = unat (dev - base)"
  have i: "i < 4" using assms(2) by (simp add: i_def)
  have b: "unat base < 61" "length (devices D) = 64" using assms(1) by (simp_all add: ram_ok_def word_less_nat_alt)
  have dev: "dev = base + of_nat i" by (simp add: i_def)
  have "unat (base + of_nat i) = unat base + i"
    using b(1) i by (subst unat_add_u32) (simp_all add: unat_of_nat_u32)
  then have u: "unat dev = unat base + i" using dev by simp
  show "unat dev < length (devices D)" "dev < 64" using u b i by (simp_all add: word_less_nat_alt)
  show "ram_device base dev (devices D ! unat dev)"
    using assms(1) i dev u unfolding ram_ok_def by metis
qed

text \<open>The address the driver computes for the first of the two sectors of a block.\<close>

lemma ram_addr_sector:
  assumes "ram_range base (dev, block)"
  defines "a \<equiv> rm_start (disk_at base dev) + block * 2 * 512"
  shows "unat a = ram_addr base (dev, block)" "a + 1024 < RAMDISK_END"
proof -
  define u where "u = unat (dev - base)"
  have u: "u < 4" and b: "unat block < 1024" and x: "\<not> (u = 3 \<and> unat block = 1023)"
    using assms(1) by (auto simp: ram_range_def u_def)
  have lt: "0xC00000 + u * 0x100000 + unat block * 1024 + 1024 < 0x1000000"
    using u b x by (cases "u = 3") simp_all
  have "a = of_nat (0xC00000 + u * 0x100000 + unat block * 1024)"
    by (simp add: a_def disk_at_def u_def)
  then have ua: "unat a = 0xC00000 + u * 0x100000 + unat block * 1024"
    using lt by (simp only:) (rule unat_of_nat_u32, simp)
  then show "unat a = ram_addr base (dev, block)" by (simp add: ram_addr_def u_def)
  have "unat (a + 1024) = unat a + 1024" using ua lt by (subst unat_add_u32) simp_all
  then show "a + 1024 < RAMDISK_END" using ua lt by (simp add: word_less_nat_alt)
qed

text \<open>
  A request to an idle memory disk: the queue is empty again afterwards, and only the type and
  the direction of the device may have changed.
\<close>

definition after_request :: "u32 \<Rightarrow> mem dstate \<Rightarrow> mem \<Rightarrow> mem dstate" where
  "after_request dev D w = (let d = devices D ! unat dev in
     D\<lparr>devices := (devices D)[unat dev := d\<lparr>dv_type := DEV_BLOCK,
        dv_direct := (case dv_direct d of DIRECT_UP \<Rightarrow> DIRECT_DOWN | DIRECT_DOWN \<Rightarrow> DIRECT_UP), dv_requests := []\<rparr>],
        world := w\<rparr>)"

lemma ram_request:
  assumes ok: "ram_ok base D" and r: "ram_range base (dev, block)" and "length bs = BLOCK_SIZE"
  shows "block_request dev bs' block REQ_READ D
      = Some (ram_content base D (dev, block), after_request dev D (world D))"
    and "block_request dev bs block REQ_WRITE D
      = Some (bs, after_request dev D (put_bytes (world D) (ram_addr base (dev, block)) bs))"
proof -
  let ?d = "devices D ! unat dev"
  have b: "unat (dev - base) < 4" using r by (simp add: ram_range_def)
  note D = ram_okD[OF ok b]
  have d: "dv_type ?d \<noteq> DEV_NULL" "dv_dev ?d = dev" "dv_parent ?d = 0" "dv_requests ?d = []"
    "dv_ioctl ?d = Some (ramdisk_ioctl (disk_at base dev))" "dv_read ?d = Some (ramdisk_read (disk_at base dev))"
    "dv_write ?d = Some (ramdisk_write (disk_at base dev))"
    using D(3) by (simp_all add: ram_device_def)
  have t: "take_bit 8 2 = (2 :: u32)" by (simp add: take_bit_eq_mask mask_eq_exp_minus_1)
  note a = ram_addr_sector[OF r]
  show "block_request dev bs' block REQ_READ D
      = Some (ram_content base D (dev, block), after_request dev D (world D))"
    using D(1,2) d a t r
    by (cases "dv_direct ?d") (simp_all add: block_request_def device_request_def request_submit_def request_finish_def device_get_def
        update_device_def device_ioctl_def do_request_def device_read_def Let_def ramdisk_ioctl_def
        ramdisk_read_def sort_insert_def request_nextreq_def predecessor_def after_request_def ram_content_def
        rd_def wr_def)
  show "block_request dev bs block REQ_WRITE D
      = Some (bs, after_request dev D (put_bytes (world D) (ram_addr base (dev, block)) bs))"
    using D(1,2) d a t assms(3)
    by (cases "dv_direct ?d") (simp_all add: block_request_def device_request_def request_submit_def request_finish_def device_get_def
        update_device_def device_ioctl_def do_request_def device_write_def Let_def ramdisk_ioctl_def
        ramdisk_write_def sort_insert_def request_nextreq_def predecessor_def after_request_def
        rd_def wr_def)
qed

lemma ram_ok_after: "ram_ok base D \<Longrightarrow> unat (dev - base) < 4 \<Longrightarrow> ram_ok base (after_request dev D w)"
  using ram_okD[of base D dev]
  by (auto simp: ram_ok_def ram_device_def after_request_def Let_def nth_list_update)

lemma world_after [simp]: "world (after_request dev D w) = w"
  by (simp add: after_request_def Let_def)

lemma split_base:
  fixes x y i j n :: nat
  assumes "x * n + i = y * n + j" "i < n" "j < n"
  shows "x = y"
proof -
  have "(x * n + i) div n = (y * n + j) div n" using assms(1) by simp
  then show ?thesis using assms(2,3) by simp
qed

lemma ram_addr_disjoint:
  assumes "ram_range base k" "ram_range base k'" "k \<noteq> k'" "i < 1024" "j < 1024"
  shows "ram_addr base k + i \<noteq> ram_addr base k' + j"
proof
  assume e: "ram_addr base k + i = ram_addr base k' + j"
  obtain d b d' b' where k: "k = (d, b)" "k' = (d', b')" by (cases k, cases k')
  have "(unat (d - base) * 1024 + unat b) * 1024 + i = (unat (d' - base) * 1024 + unat b') * 1024 + j"
    using e k by (simp add: ram_addr_def)
  then have f: "unat (d - base) * 1024 + unat b = unat (d' - base) * 1024 + unat b'"
    using assms(4,5) by (rule split_base)
  have "unat b < 1024" "unat b' < 1024" using assms(1,2) k by (simp_all add: ram_range_def)
  from split_base[OF f this] f have "unat (d - base) = unat (d' - base)" "unat b = unat b'" by simp_all
  then show False using assms(3) k by (metis diff_add_cancel word_unat_eq_iff)
qed

lemma ram_content_put:
  assumes r: "ram_range base k" and l: "length bs = BLOCK_SIZE"
  shows "ram_content base (after_request dev D (put_bytes (world D) (ram_addr base k) bs))
    = (ram_content base D)(k := bs)"
proof
  fix k'
  show "ram_content base (after_request dev D (put_bytes (world D) (ram_addr base k) bs)) k'
    = ((ram_content base D)(k := bs)) k'"
  proof (cases "k' = k")
    case True
    have "map (\<lambda>i. put_bytes (world D) (ram_addr base k) bs (ram_addr base k + i)) [0..<1024] = bs"
      by (rule nth_equalityI) (simp_all add: l put_bytes_def)
    with True r show ?thesis by (simp add: ram_content_def)
  next
    case False
    have "put_bytes (world D) (ram_addr base k) bs (ram_addr base k' + i) = world D (ram_addr base k' + i)"
      if "ram_range base k'" "i < 1024" for i
    proof -
      have "\<not> (ram_addr base k \<le> ram_addr base k' + i \<and> ram_addr base k' + i < ram_addr base k + 1024)"
      proof
        assume a: "ram_addr base k \<le> ram_addr base k' + i \<and> ram_addr base k' + i < ram_addr base k + 1024"
        then obtain j where j: "ram_addr base k' + i = ram_addr base k + j" by (metis le_Suc_ex)
        with a have "j < 1024" by simp
        from ram_addr_disjoint[OF that(1) r False that(2) this] j show False by simp
      qed
      then have "\<not> (ram_addr base k \<le> ram_addr base k' + i \<and> ram_addr base k' + i < ram_addr base k + BLOCK_SIZE)" by simp
      then show ?thesis unfolding put_bytes_def l by (simp only: if_False)
    qed
    with False show ?thesis by (simp add: ram_content_def)
  qed
qed

interpretation rdk: block_disk "ram_content base" "ram_range base" "ram_ok base" for base
proof
  fix D dev block and bs :: "u8 list"
  assume ok: "ram_ok base D" and r: "ram_range base (dev, block)"
  have b: "unat (dev - base) < 4" using r by (simp add: ram_range_def)
  have "ram_content base (after_request dev D (world D)) = ram_content base D"
    by (rule ext) (simp add: ram_content_def)
  with ram_request(1)[OF ok r, of "replicate BLOCK_SIZE 0"] ram_ok_after[OF ok b]
  show "\<exists>D'. block_request dev bs block REQ_READ D = Some (ram_content base D (dev, block), D')
      \<and> ram_ok base D' \<and> ram_content base D' = ram_content base D" by simp
  show "\<exists>bs' D'. block_request dev bs block REQ_WRITE D = Some (bs', D') \<and> ram_ok base D'
        \<and> ram_content base D' = (ram_content base D)((dev, block) := bs)" if "length bs = BLOCK_SIZE"
    using ram_request(2)[OF ok r that] ram_ok_after[OF ok b] ram_content_put[OF r that] by blast
next
  fix D k assume "ram_ok base D" "ram_range base k"
  then show "length (ram_content base D k) = BLOCK_SIZE" by (simp add: ram_content_def)
qed

section \<open>Properties\<close>

text \<open>The cache over the memory disks: its invariant and what its readers see.\<close>

abbreviation "ram_cache_inv base \<equiv> cache_inv (ram_content base) (ram_range base) (ram_ok base)"
abbreviation "ram_view base \<equiv> block_view (ram_content base)"

lemma buffer_init_inv:
  assumes "ram_ok base D"
  shows "ram_cache_inv base (buffer_init D)" "ram_view base (buffer_init D) = ram_content base D" 
  using assms by (auto simp: cache_inv_def buffer_init_def block_view_def fun_eq_iff)

lemma buffer_init_room: "has_room (buffer_init D)"
  by (simp add: buffer_init_def has_room_def)

definition sample_ram :: "mem dstate" where
  "sample_ram = \<lparr>devices = map (\<lambda>i. (null_device (of_nat i))\<lparr>dv_type := DEV_BLOCK,
       dv_ioctl := Some (ramdisk_ioctl (disk_at 1 (of_nat i))), dv_read := Some (ramdisk_read (disk_at 1 (of_nat i))),
       dv_write := Some (ramdisk_write (disk_at 1 (of_nat i)))\<rparr>) [0..<64], world = (\<lambda>_. 0)\<rparr>"

lemma sample_ram_ok: "ram_ok 1 sample_ram"
proof -
  have "(1 :: u32) < 61" by simp
  moreover have "ram_device 1 (1 + of_nat i) (devices sample_ram ! (unat (1 :: u32) + i))" if "i < 4" for i
    using that by (simp add: ram_device_def sample_ram_def null_device_def)
  ultimately show ?thesis by (simp add: ram_ok_def sample_ram_def)
qed

text \<open>
  C7: the block cache is transparent for readers. On a consistent cache over the memory disks
  with a buffer to spare, \<^verbatim>\<open>bread\<close> of a block of a disk returns a valid buffer in use that holds
  exactly the bytes the block is seen to have (a block cached earlier, or the disk), the cache
  stays consistent, and every block is seen as before, also when a buffer had to be taken from
  another block.
\<close>

theorem bread_reads_block:
  assumes "ram_cache_inv base c" and "has_room c" and "ram_range base (dev, block)"
  shows "\<exists>b c'. bread dev block c = Some (b, c') \<and> ram_cache_inv base c' \<and> ram_view base c' = ram_view base c
    \<and> b < length (buffers c') \<and> block_of c' b = (dev, block) \<and> 0 < b_count (nbuf c' b) \<and> b_valid (nbuf c' b)
    \<and> b_data (nbuf c' b) = ram_view base c (dev, block)"
  using rdk.bread_law[OF assms] by metis

lemma bread_reads_block_witness:
  "\<exists>b c'. bread 2 7 (buffer_init sample_ram) = Some (b, c') \<and> ram_cache_inv 1 c'
    \<and> ram_view 1 c' = ram_view 1 (buffer_init sample_ram)
    \<and> b < length (buffers c') \<and> block_of c' b = (2, 7) \<and> 0 < b_count (nbuf c' b) \<and> b_valid (nbuf c' b)
    \<and> b_data (nbuf c' b) = ram_view 1 (buffer_init sample_ram) (2, 7)"
  by (rule bread_reads_block) (simp_all add: buffer_init_inv buffer_init_room sample_ram_ok ram_range_def)

text \<open>What the file system does to change a block.\<close>

definition change_block :: "u32 \<Rightarrow> u32 \<Rightarrow> (u8 list \<Rightarrow> u8 list) \<Rightarrow> ('w, 'z) cache_scheme \<Rightarrow> ('w, 'z) cache_scheme option" where
  "change_block dev block f c = do {
     (b, c) \<leftarrow> bread dev block c;
     c \<leftarrow> modify_buffer b f c;
     brelse (Some b) c
   }"

text \<open>
  C6: a block that is changed through the cache is changed on the disk. Reading a block,
  changing its bytes, marking it dirty and releasing it returns; the block is then seen with
  the new bytes and every other block as before, the disk itself holds the new bytes, and the
  cache is consistent.
\<close>

theorem change_block_durable:
  assumes "ram_cache_inv base c" and "has_room c" and "ram_range base (dev, block)"
    and "length (f (ram_view base c (dev, block))) = BLOCK_SIZE"
  shows "\<exists>c'. change_block dev block f c = Some c' \<and> ram_cache_inv base c'
    \<and> ram_view base c' = (ram_view base c)((dev, block) := f (ram_view base c (dev, block)))
    \<and> ram_content base (disk c') (dev, block) = f (ram_view base c (dev, block))"
proof -
  obtain b c1 where r: "bread dev block c = Some (b, c1)" "ram_cache_inv base c1" "ram_view base c1 = ram_view base c"
    "b < length (buffers c1)" "block_of c1 b = (dev, block)" "0 < b_count (nbuf c1 b)" "b_valid (nbuf c1 b)"
    "b_data (nbuf c1 b) = ram_view base c (dev, block)" by (rule rdk.bread_law[OF assms(1-3)])
  obtain c2 where m: "modify_buffer b f c1 = Some c2" "ram_cache_inv base c2"
    "ram_view base c2 = (ram_view base c1)(block_of c1 b := f (ram_view base c1 (block_of c1 b)))"
    "length (buffers c2) = length (buffers c1)"
    "nbuf c2 b = (nbuf c1 b)\<lparr>b_data := f (b_data (nbuf c1 b)), b_dirty := True\<rparr>" "block_of c2 b = block_of c1 b"
    by (rule rdk.modify_law[OF r(2,4,7,6), of f]) (simp_all add: r(8) assms(4))
  have "b < length (buffers c2)" "0 < b_count (nbuf c2 b)" "b_valid (nbuf c2 b)" using r m by simp_all
  then obtain c' where "brelse (Some b) c2 = Some c'" "ram_cache_inv base c'" "ram_view base c' = ram_view base c2"
    "ram_content base (disk c') (block_of c2 b) = ram_view base c2 (block_of c2 b)"
    using rdk.brelse_law[OF m(2)] by metis
  then show ?thesis using r m by (simp add: change_block_def)
qed

lemma change_block_durable_witness:
  "\<exists>c'. change_block 1 3 (\<lambda>bs. bs[5 := 9]) (buffer_init sample_ram) = Some c' \<and> ram_cache_inv 1 c'
    \<and> ram_view 1 c' = (ram_view 1 (buffer_init sample_ram))((1, 3) := (ram_view 1 (buffer_init sample_ram) (1, 3))[5 := 9])
    \<and> ram_content 1 (disk c') (1, 3) = (ram_view 1 (buffer_init sample_ram) (1, 3))[5 := 9]"
  by (rule change_block_durable)
    (simp_all add: buffer_init_inv buffer_init_room sample_ram_ok ram_range_def ram_content_def)

end
