(* ===== verification/Buffer_Hold.thy ===== *)
theory Buffer_Hold
  imports Buffer
begin

text \<open>
  What the users of the block cache keep while they visit other blocks. A buffer that is in use
  and valid is pinned: neither \<^verbatim>\<open>bread\<close> nor \<^verbatim>\<open>brelse\<close> of another block changes its bytes, and a
  visit (\<^verbatim>\<open>bread\<close> and later \<^verbatim>\<open>brelse\<close>) leaves as many buffers to be had as before.
\<close>

definition pinned :: "('w, 'z) cache_scheme \<Rightarrow> nat \<Rightarrow> bool" where
  "pinned c b \<longleftrightarrow> b < length (buffers c) \<and> b_valid (nbuf c b) \<and> 0 < b_count (nbuf c b)"

text \<open>\<open>held d\<close>: the buffer is as before, with \<open>d\<close> more users; it may have been written back.\<close>

definition held :: "int \<Rightarrow> ('w, 'z) cache_scheme \<Rightarrow> ('w, 'z) cache_scheme \<Rightarrow> nat \<Rightarrow> bool" where
  "held d c c' a \<longleftrightarrow> a < length (buffers c') \<and> (b_dirty (nbuf c' a) \<longrightarrow> b_dirty (nbuf c a))
     \<and> (nbuf c' a)\<lparr>b_dirty := False\<rparr> = (nbuf c a)\<lparr>b_dirty := False, b_count := b_count (nbuf c a) + d\<rparr>"

definition keeps :: "nat set \<Rightarrow> ('w, 'z) cache_scheme \<Rightarrow> ('w, 'z) cache_scheme \<Rightarrow> bool" where
  "keeps S c c' \<longleftrightarrow> (has_room c \<longrightarrow> has_room c') \<and> (\<forall>a \<in> S. pinned c a \<longrightarrow> held 0 c c' a)"

definition visiting :: "nat set \<Rightarrow> ('w, 'z) cache_scheme \<Rightarrow> nat \<Rightarrow> ('w, 'z) cache_scheme \<Rightarrow> bool" where
  "visiting S c b c' \<longleftrightarrow>
     (b_count (nbuf c' b) = 1 \<or> (has_room c \<longrightarrow> has_room c'))
     \<and> (\<forall>a \<in> S. pinned c a \<longrightarrow> held (if a = b then 1 else 0) c c' a)"

lemma heldD:
  assumes "held d c c' a"
  shows "b_data (nbuf c' a) = b_data (nbuf c a)" "b_valid (nbuf c' a) = b_valid (nbuf c a)"
    "b_count (nbuf c' a) = b_count (nbuf c a) + d" "block_of c' a = block_of c a" "a < length (buffers c')"
    "\<not> b_dirty (nbuf c a) \<Longrightarrow> \<not> b_dirty (nbuf c' a)"
  using assms by (simp_all add: held_def block_of_def buffer.equality buffer.ext_inject)
    (cases "nbuf c a"; cases "nbuf c' a"; auto)+

lemma held_pinned: "held d c c' a \<Longrightarrow> pinned c a \<Longrightarrow> 0 \<le> d \<Longrightarrow> pinned c' a"
  using heldD[of d c c' a] by (simp add: pinned_def)

lemma held_trans: "held d c c' a \<Longrightarrow> held e c' c'' a \<Longrightarrow> held (d + e) c c'' a"
  by (cases "nbuf c a"; cases "nbuf c' a"; cases "nbuf c'' a") (simp add: held_def)

lemma keeps_refl [simp]: "keeps S c c"
  by (simp add: keeps_def held_def pinned_def)

lemma keeps_pinned: "keeps S c c' \<Longrightarrow> a \<in> S \<Longrightarrow> pinned c a \<Longrightarrow> pinned c' a"
  by (auto simp: keeps_def intro: held_pinned)

lemma keepsD:
  assumes "keeps S c c'" "a \<in> S" "pinned c a"
  shows "b_data (nbuf c' a) = b_data (nbuf c a)" "block_of c' a = block_of c a"
    "b_count (nbuf c' a) = b_count (nbuf c a)" "\<not> b_dirty (nbuf c a) \<Longrightarrow> \<not> b_dirty (nbuf c' a)"
  using assms heldD[of 0 c c' a] by (simp_all add: keeps_def)

lemma keeps_trans:
  assumes "keeps S c c'" "keeps S c' c''" shows "keeps S c c''"
proof -
  have "held 0 c c'' a" if "a \<in> S" "pinned c a" for a
    using held_trans[of 0 c c' a 0 c''] keeps_pinned[OF assms(1) that] assms that by (simp add: keeps_def)
  then show ?thesis using assms by (simp add: keeps_def)
qed

section \<open>Visits\<close>

lemma upd_bufferE:
  assumes "upd_buffer b f c = Some c'"
  shows "b < length (buffers c)" "c' = c\<lparr>buffers := (buffers c)[b := f (nbuf c b)]\<rparr>"
  using assms by (simp_all add: upd_buffer_def rd_def bind_Some split: if_splits)

text \<open>Parts of the cache an operation on one buffer leaves alone.\<close>

definition only :: "nat \<Rightarrow> ('w, 'z) cache_scheme \<Rightarrow> ('w, 'z) cache_scheme \<Rightarrow> bool" where
  "only b c c' \<longleftrightarrow> cache.more c' = cache.more c \<and> length (buffers c') = length (buffers c)
     \<and> (\<forall>a. a \<noteq> b \<longrightarrow> nbuf c' a = nbuf c a) \<and> buffer_ptr c' = buffer_ptr c \<and> buffer_data c' = buffer_data c"

lemma only_refl [simp]: "only b c c"
  by (simp add: only_def)

lemma only_trans: "only b c c' \<Longrightarrow> only b c' c'' \<Longrightarrow> only b c c''"
  by (simp add: only_def)

lemma only_upd: "upd_buffer b f c = Some c' \<Longrightarrow> only b c c'"
  by (drule upd_bufferE(2)) (simp add: only_def)

lemma only_disk: "only b (c\<lparr>disk := D\<rparr>) c' = only b c c'" "only b c (c'\<lparr>disk := D\<rparr>) = only b c c'"
  "only b c (c'\<lparr>free_list := fl\<rparr>) = only b c c'"
  by (simp_all add: only_def)

lemma only_room: "only b c c' \<Longrightarrow> free_list c' = free_list c \<or> free_list c' \<noteq> [] \<Longrightarrow> has_room c \<Longrightarrow> has_room c'"
  by (auto simp: only_def has_room_def)

lemma only_held: "only b c c' \<Longrightarrow> pinned c a \<Longrightarrow> a \<noteq> b \<Longrightarrow> held 0 c c' a"
  by (simp add: only_def held_def pinned_def)

section \<open>Visits\<close>

lemma bwrite_frame:
  assumes "bwrite b c = Some c'"
  shows "only b c c'" "free_list c' = free_list c"
proof -
  have "only b c c' \<and> free_list c' = free_list c"
  proof (cases "b_dirty (nbuf c b)")
    case False
    then show ?thesis using assms by (auto simp: bwrite_def rd_def split: if_splits)
  next
    case True
    with assms obtain D where D: "upd_buffer b (\<lambda>bf. bf\<lparr>b_dirty := False, b_valid := True\<rparr>) (c\<lparr>disk := D\<rparr>) = Some c'"
      by (auto simp: bwrite_def rd_def bind_Some split: if_splits prod.splits)
    show ?thesis using only_upd[OF D] upd_bufferE(2)[OF D] by (simp add: only_disk)
  qed
  then show "only b c c'" "free_list c' = free_list c" by simp_all
qed

lemma brelse_frame:
  assumes "brelse (Some b) c = Some c'"
  shows "only b c c'" "free_list c' = free_list c \<or> free_list c' \<noteq> []"
proof -
  obtain c1 where 1: "(if b_dirty (nbuf c b) then bwrite b c else Some c) = Some c1"
    using assms by (auto simp: brelse_def rd_def bind_Some split: if_splits)
  have w: "only b c c1" "free_list c1 = free_list c"
    using 1 bwrite_frame[of b c c1] by (auto split: if_splits)
  obtain c2 where 2: "upd_buffer b (\<lambda>bf. bf\<lparr>b_count := b_count bf - 1\<rparr>) c1 = Some c2"
    "c' = c2 \<or> c' = c2\<lparr>free_list := b # free_list c2\<rparr>"
    using assms 1 by (auto simp: brelse_def rd_def bind_Some check_def split: if_splits)
  have "only b c c2" "free_list c2 = free_list c"
    using only_trans[OF w(1) only_upd[OF 2(1)]] upd_bufferE(2)[OF 2(1)] w(2) by simp_all
  with 2(2) show "only b c c'" "free_list c' = free_list c \<or> free_list c' \<noteq> []"
    by (auto simp: only_disk)
qed

context block_disk
begin

lemma brelse_held:
  assumes I: "cinv c" and r: "brelse (Some b) c = Some c'" and p: "pinned c b"
  shows "held (- 1) c c' b" "b_count (nbuf c b) = 1 \<Longrightarrow> free_list c' \<noteq> []"
proof -
  have b: "b < length (buffers c)" "b_valid (nbuf c b)" "0 < b_count (nbuf c b)" using p by (simp_all add: pinned_def)
  obtain c1 where w: "bwrite b c = Some c1" "length (buffers c1) = length (buffers c)"
    "nbuf c1 b = (nbuf c b)\<lparr>b_dirty := False\<rparr>"
    by (rule bwrite_law[OF I b(1)]) simp
  have w': "(if b_dirty (nbuf c b) then bwrite b c else Some c) = Some c1"
    using w(1) b(1) by (cases "b_dirty (nbuf c b)") (simp_all add: bwrite_def)
  let ?bf = "(nbuf c b)\<lparr>b_dirty := False, b_count := b_count (nbuf c b) - 1\<rparr>"
  let ?c = "c1\<lparr>buffers := (buffers c1)[b := ?bf]\<rparr>"
  have "brelse (Some b) c = (if b_count ?bf \<noteq> 0 then Some ?c else do {
      check (b \<notin> set (free_list c1)); Some (?c\<lparr>free_list := b # free_list c1\<rparr>) })"
    using b w(2,3) w' by (simp add: brelse_def upd_buffer_def)
  then have "nbuf c' b = ?bf \<and> length (buffers c') = length (buffers c) \<and> (b_count ?bf = 0 \<longrightarrow> free_list c' \<noteq> [])"
    using r b(1) w(2) by (auto simp: check_def split: if_splits)
  then show "held (- 1) c c' b" "b_count (nbuf c b) = 1 \<Longrightarrow> free_list c' \<noteq> []"
    using b(1) by (simp_all add: held_def)
qed

lemma getblk_frame:
  assumes I: "cinv c" and g: "getblk dev block c = Some (b, c')"
  shows "cache.more c' = cache.more c"
    "a < length (buffers c) \<Longrightarrow> 0 < b_count (nbuf c a) \<Longrightarrow>
      a < length (buffers c') \<and> nbuf c' a = (if a = b then (nbuf c a)\<lparr>b_count := b_count (nbuf c a) + 1\<rparr> else nbuf c a)"
    "b_count (nbuf c' b) = 1 \<or> (has_room c \<longrightarrow> has_room c')"
proof -
  have "cache.more c' = cache.more c
    \<and> (\<forall>a < length (buffers c). 0 < b_count (nbuf c a) \<longrightarrow>
        a < length (buffers c') \<and> nbuf c' a = (if a = b then (nbuf c a)\<lparr>b_count := b_count (nbuf c a) + 1\<rparr> else nbuf c a))
    \<and> (b_count (nbuf c' b) = 1 \<or> (has_room c \<longrightarrow> has_room c'))"
  proof -
    from get_from_hash_law[OF I, of dev block] consider
      (hit) a where "a < length (buffers c)" "get_from_hash_table dev block c = Some (Some a, c\<lparr>free_list := removeAll a (free_list c)\<rparr>)"
    | (miss) "get_from_hash_table dev block c = Some (None, c)" by blast
    then show ?thesis
    proof cases
      case hit
      then have c': "b = a" "c' = c\<lparr>free_list := removeAll a (free_list c),
          buffers := (buffers c)[a := (nbuf c a)\<lparr>b_count := b_count (nbuf c a) + 1\<rparr>]\<rparr>"
        using g by (auto simp: getblk_def upd_buffer_def rd_def)
      have "a \<notin> set (free_list c)" if "0 < b_count (nbuf c a)" using that cinvD(5)[OF I] by simp
      moreover have "0 \<le> b_count (nbuf c a)" by (rule cinvD(7)[OF I hit(1)])
      ultimately show ?thesis using hit(1) c'
        by (cases "b_count (nbuf c a) = 0") (simp_all add: has_room_def removeAll_id)
    next
      case miss
      then obtain c1 where f: "get_free_buffer c = Some (b, c1)"
        and g': "do { bf \<leftarrow> rd (buffers c1) b; check (b_count bf = 0); check (\<not> b_dirty bf);
             c \<leftarrow> upd_buffer b (\<lambda>bf. bf\<lparr>b_count := 1, b_dev := dev, b_block := block\<rparr>) c1;
             hash_locate b c } = Some c'"
        using miss  g by (auto simp: getblk_def bind_Some check_def split: if_splits)
      have c': "cache.more c' = cache.more c1" "length (buffers c') = length (buffers c1)"
        "b < length (buffers c1)" "b_count (nbuf c' b) = 1" "\<forall>a. a \<noteq> b \<longrightarrow> nbuf c' a = nbuf c1 a"
        using g' by (auto simp: bind_Some check_def upd_buffer_def rd_def hash_locate_def Let_def split: if_splits)
      show ?thesis
      proof (cases "buffer_ptr c + 64 < buffer_data c")
        case True
        then have "b = length (buffers c)" "cache.more c1 = cache.more c" "length (buffers c1) = Suc (length (buffers c))"
          "\<forall>a < length (buffers c). nbuf c1 a = nbuf c a"
          using f by (auto simp: get_free_buffer_def get_new_buffer_def nth_append)
        then show ?thesis using c' by simp
      next
        case False
        then have "b = last (free_list c)" "free_list c \<noteq> []" "cache.more c1 = cache.more c"
          "length (buffers c1) = length (buffers c)" "\<forall>a. a \<noteq> b \<longrightarrow> nbuf c1 a = nbuf c a"
          using f by (auto simp: get_free_buffer_def get_new_buffer_def bind_Some check_def hash_remove_def rd_def upd_buffer_def
            Let_def split: if_splits)
        moreover from this have "b_count (nbuf c b) = 0" using cinvD(5)[OF I] last_in_set[of "free_list c"] by simp
        ultimately show ?thesis using c' by auto
      qed
    qed
  qed
  then show "cache.more c' = cache.more c"
    "a < length (buffers c) \<Longrightarrow> 0 < b_count (nbuf c a) \<Longrightarrow>
      a < length (buffers c') \<and> nbuf c' a = (if a = b then (nbuf c a)\<lparr>b_count := b_count (nbuf c a) + 1\<rparr> else nbuf c a)"
    "b_count (nbuf c' b) = 1 \<or> (has_room c \<longrightarrow> has_room c')" by blast+
qed

lemma bread_visit:
  assumes I: "cinv c" and room: "has_room c" and r: "in_range (dev, block)"
  obtains b c' where "bread dev block c = Some (b, c')" "cinv c'" "seen c' = seen c"
    "pinned c' b" "block_of c' b = (dev, block)" "b_data (nbuf c' b) = seen c (dev, block)"
    "visiting S c b c'" "cache.more c' = cache.more c"
proof -
  obtain b c' where l: "bread dev block c = Some (b, c')" "cinv c'" "seen c' = seen c"
    "b < length (buffers c')" "block_of c' b = (dev, block)" "0 < b_count (nbuf c' b)" "b_valid (nbuf c' b)"
    "b_data (nbuf c' b) = seen c (dev, block)" by (rule bread_law[OF assms])
  obtain c1 where g: "getblk dev block c = Some (b, c1)"
    using l(1) by (auto simp: bread_def bind_Some split: if_splits)
  have "(b_valid (nbuf c1 b) \<longrightarrow> c' = c1) \<and> only b c1 c' \<and> free_list c' = free_list c1
      \<and> b_count (nbuf c' b) = b_count (nbuf c1 b)"
    using l(1) g by (auto simp: bread_def bind_Some rd_def upd_buffer_def only_def split: if_splits prod.splits)
  note c1 = this getblk_frame[OF I g]
  have "held (if a = b then 1 else 0) c c' a" if "pinned c a" for a
    using c1(3)[of a] that c1(1) by (cases "a = b") (simp_all add: pinned_def held_def only_def)
  moreover have "b_count (nbuf c' b) = 1 \<or> (has_room c \<longrightarrow> has_room c')"
    using c1(1,4) only_room[of b c1 c'] by auto
  ultimately have "visiting S c b c'" by (simp add: visiting_def)
  then show thesis using that l c1(1,2) by (simp add: pinned_def only_def)
qed

text \<open>The user of an open buffer takes one more hold of it.\<close>

lemma hold_visit:
  assumes I: "cinv c" and p: "pinned c b"
  obtains c' where "upd_buffer b (\<lambda>bf. bf\<lparr>b_count := b_count bf + 1\<rparr>) c = Some c'" "cinv c'" "seen c' = seen c"
    "pinned c' b" "block_of c' b = block_of c b" "b_data (nbuf c' b) = b_data (nbuf c b)" "visiting S c b c'"
    "cache.more c' = cache.more c"
proof -
  have b: "b < length (buffers c)" "b_valid (nbuf c b)" "0 < b_count (nbuf c b)" using p by (simp_all add: pinned_def)
  let ?bf = "(nbuf c b)\<lparr>b_count := b_count (nbuf c b) + 1\<rparr>"
  let ?c = "c\<lparr>buffers := (buffers c)[b := ?bf], free_list := free_list c, disk := disk c\<rparr>"
  have fl: "distinct (free_list c)" "set (free_list c) = (if b_count ?bf = 0 then insert b (set (free_list c)) else set (free_list c) - {b})"
    using cinvD(4,5)[OF I] b by auto
  have 1: "cinv ?c" "\<And>k. seen ?c k = (if k = block_of c b then if b_valid ?bf then b_data ?bf else content (disk c) k else seen c k)"
    by (rule upd_law[OF I b(1), where bf = ?bf and D = "disk c" and fl = "free_list c"];
        (use fl in simp; fail)?; use b cinvD(6)[OF I] cinvD(9,10)[OF I b(1,2)] in simp)+
  have "seen ?c = seen c" using 1(2) b(2) seen_cached[OF I b(1,2)] by (auto simp: fun_eq_iff)
  moreover have "upd_buffer b (\<lambda>bf. bf\<lparr>b_count := b_count bf + 1\<rparr>) c = Some ?c" using b(1) by (simp add: upd_buffer_def)
  moreover have "visiting S c b ?c" using b
    by (auto simp: visiting_def held_def has_room_def pinned_def nth_list_update)
  ultimately show thesis using that[of ?c] 1(1) b by (simp add: pinned_def block_of_def)
qed

text \<open>Ending a visit: everything that was pinned is as before, and there is as much room.\<close>

lemma brelse_visit:
  assumes I: "cinv c'" and v: "visiting S c b c'" and p: "pinned c' b"
  obtains c'' where "brelse (Some b) c' = Some c''" "cinv c''" "seen c'' = seen c'"
    "keeps S c c''" "cache.more c'' = cache.more c'" "b < length (buffers c'')"
    "b_data (nbuf c'' b) = b_data (nbuf c' b)" "content (disk c'') (block_of c' b) = seen c' (block_of c' b)"
    "only b c' c''"
proof -
  have b: "b < length (buffers c')" "0 < b_count (nbuf c' b)" "b_valid (nbuf c' b)" using p by (simp_all add: pinned_def)
  obtain c'' where r: "brelse (Some b) c' = Some c''" "cinv c''" "seen c'' = seen c'"
    "content (disk c'') (block_of c' b) = seen c' (block_of c' b)"
    by (rule brelse_law[OF I b(1,2)]) (use b(3) in simp)
  note f = brelse_frame[OF r(1)]
  note h = brelse_held[OF I r(1) p]
  have room: "has_room c \<longrightarrow> has_room c''"
    using v h(2) only_room[OF f] by (auto simp: visiting_def has_room_def)
  have "held 0 c c'' a" if a: "a \<in> S" "pinned c a" for a
  proof (cases "a = b")
    case True
    then show ?thesis using v a held_trans[of 1 c c' b "- 1" c''] h(1) by (auto simp: visiting_def)
  next
    case False
    then have 1: "held 0 c c' a" using v a by (auto simp: visiting_def)
    then have "pinned c' a" using a held_pinned by fastforce
    from only_held[OF f(1) this False] 1 show ?thesis using held_trans[of 0 c c' a 0 c''] by simp
  qed
  with room have "keeps S c c''" by (simp add: keeps_def)
  then show thesis using that r f(1) heldD(1,5)[OF h(1)] by (simp add: only_def)
qed

text \<open>Changing the visited buffer, when it is none of those that must stay.\<close>

lemma modify_visit:
  assumes I: "cinv c'" and v: "visiting S c b c'" and p: "pinned c' b" and S: "b \<notin> S"
    and f: "length (f (b_data (nbuf c' b))) = BLOCK_SIZE"
  obtains c'' where "modify_buffer b f c' = Some c''" "cinv c''"
    "seen c'' = (seen c')(block_of c' b := f (seen c' (block_of c' b)))" "pinned c'' b"
    "block_of c'' b = block_of c' b" "b_data (nbuf c'' b) = f (b_data (nbuf c' b))" "visiting S c b c''"
    "cache.more c'' = cache.more c'"
proof -
  have b: "b < length (buffers c')" "b_valid (nbuf c' b)" "0 < b_count (nbuf c' b)" using p by (simp_all add: pinned_def)
  obtain c'' where m: "modify_buffer b f c' = Some c''" "cinv c''"
    "seen c'' = (seen c')(block_of c' b := f (seen c' (block_of c' b)))" "length (buffers c'') = length (buffers c')"
    "nbuf c'' b = (nbuf c' b)\<lparr>b_data := f (b_data (nbuf c' b)), b_dirty := True\<rparr>" "block_of c'' b = block_of c' b"
    "free_list c'' = free_list c'" by (rule modify_law[where f = f, OF I b f])
  have o: "only b c' c''" using m(1) unfolding modify_buffer_def by (rule only_upd)
  have "held (if a = b then 1 else 0) c c'' a" if a: "a \<in> S" "pinned c a" for a
  proof -
    have n: "a \<noteq> b" using a S by blast
    then have 1: "held 0 c c' a" using v a by (auto simp: visiting_def)
    then have "pinned c' a" using a held_pinned by fastforce
    from only_held[OF o this n] 1 n show ?thesis using held_trans[of 0 c c' a 0 c''] by simp
  qed
  moreover have "b_count (nbuf c'' b) = 1 \<or> (has_room c \<longrightarrow> has_room c'')"
    using v m(5) only_room[OF o] m(7) by (auto simp: visiting_def)
  ultimately have "visiting S c b c''" by (simp add: visiting_def)
  then show thesis using that m o b by (simp add: pinned_def only_def)
qed

end

end
