(* ===== verification/Tasks.thy ===== *)
theory Tasks
  imports Paging Linked_List
begin

text \<open>
  \<^verbatim>\<open>kernel/task.c\<close> and \<^verbatim>\<open>kernel/clock.c\<close>: the task table and the scheduler. A task is known by
  its index in \<^verbatim>\<open>task_table\<close>, which is its pid. The wait lists (\<^verbatim>\<open>block_list\<close>, \<^verbatim>\<open>sleep_list\<close>,
  the waiters of a mutex) hold tasks, newest first, and are walked as \<open>Linked_List\<close> shows;
  \<open>t_linked\<close> says that the node of a task has neighbours. \<^verbatim>\<open>task_switch\<close> is assembly: after
  \<^verbatim>\<open>schedule\<close> the processor continues in the task \<open>running\<close>.
\<close>

section \<open>State\<close>

datatype task_state = TASK_INIT | TASK_RUNNING | TASK_READY | TASK_BLOCKED | TASK_SLEEPING
  | TASK_WAITTING | TASK_DIED

abbreviation (input) TASK_NUMBER :: nat where "TASK_NUMBER \<equiv> 64"
abbreviation (input) TASK_FILE_NR :: int where "TASK_FILE_NR \<equiv> 16"
abbreviation (input) KERNEL_USER :: u32 where "KERNEL_USER \<equiv> 0"
abbreviation (input) ONIXS_MAGIC_NR :: u32 where "ONIXS_MAGIC_NR \<equiv> 0xAA5555AA"

text \<open>The lists a task can wait in: the two of \<^verbatim>\<open>task.c\<close> and the waiters of a mutex.\<close>

datatype task_list = Block_list | Sleep_list | Waiters nat

record task = proc_mem +
  t_addr :: u32
  t_linked :: bool
  t_state :: task_state
  t_priority :: u32
  t_ticks :: u32
  t_jiffies :: u32
  t_gid :: u32
  t_pid :: int
  t_ppid :: int
  t_vmap_ptr :: u32
  t_vmap_bits :: u32
  t_status :: int
  t_waitpid :: int
  t_pwd :: nat
  t_ipwd :: "nat option"
  t_iroot :: "nat option"
  t_iexec :: "nat option"
  t_umask :: u16
  t_files :: "nat option list"
  t_magic :: u32

record sched =
  task_table :: "task option list"
  running :: nat
  idle_task :: nat
  queues :: "task_list \<Rightarrow> nat list"
  intr :: bool
  jiffies :: u32
  active_pde :: u32
  tss_esp0 :: u32

definition get_task :: "nat \<Rightarrow> 'a sched_scheme \<Rightarrow> task option" where
  "get_task t s = Option.bind (rd (task_table s) t) id"

definition upd_task :: "nat \<Rightarrow> (task \<Rightarrow> task) \<Rightarrow> 'a sched_scheme \<Rightarrow> 'a sched_scheme option" where
  "upd_task t f s = do {
     tk \<leftarrow> get_task t s;
     Some (s\<lparr>task_table := (task_table s)[t := Some (f tk)]\<rparr>)
   }"

section \<open>The scheduler\<close>

definition better :: "task \<Rightarrow> task \<Rightarrow> bool" where
  "better old new \<longleftrightarrow> sint (t_ticks old) < sint (t_ticks new)
     \<or> t_ticks old = t_ticks new \<and> t_jiffies new < t_jiffies old"

fun search_tasks :: "task_state \<Rightarrow> nat \<Rightarrow> nat \<Rightarrow> task option list \<Rightarrow> (nat \<times> task) option \<Rightarrow> (nat \<times> task) option" where
  "search_tasks st current i [] found = found"
| "search_tasks st current i (None # ts) found = search_tasks st current (Suc i) ts found"
| "search_tasks st current i (Some ptr # ts) found =
     (if t_state ptr \<noteq> st \<or> i = current then search_tasks st current (Suc i) ts found
      else search_tasks st current (Suc i) ts
        (case found of None \<Rightarrow> Some (i, ptr)
         | Some (j, task) \<Rightarrow> if better task ptr then Some (i, ptr) else Some (j, task)))"

definition task_searchTask :: "task_state \<Rightarrow> 'a sched_scheme \<Rightarrow> nat option option" where
  "task_searchTask st s = do {
     check (\<not> intr s);
     case search_tasks st (running s) 0 (task_table s) None of
       Some (t, _) \<Rightarrow> Some (Some t)
     | None \<Rightarrow> Some (if st = TASK_READY then Some (idle_task s) else None)
   }"

definition task_activate :: "nat \<Rightarrow> 'a sched_scheme \<Rightarrow> 'a sched_scheme option" where
  "task_activate t s = do {
     tk \<leftarrow> get_task t s;
     check (t_magic tk = ONIXS_MAGIC_NR);
     let s = (if t_pde tk \<noteq> active_pde s then s\<lparr>active_pde := t_pde tk\<rparr> else s);
     Some (if t_uid tk \<noteq> KERNEL_USER then s\<lparr>tss_esp0 := t_addr tk + MEMORY_PAGE_SIZE\<rparr> else s)
   }"

definition schedule :: "'a sched_scheme \<Rightarrow> 'a sched_scheme option" where
  "schedule s = do {
     check (\<not> intr s);
     found \<leftarrow> task_searchTask TASK_READY s;
     nx \<leftarrow> found;
     next_tk \<leftarrow> get_task nx s;
     check (t_magic next_tk = ONIXS_MAGIC_NR);
     cur \<leftarrow> get_task (running s) s;
     s \<leftarrow> (if t_state cur = TASK_RUNNING then upd_task (running s) (\<lambda>tk. tk\<lparr>t_state := TASK_READY\<rparr>) s
          else Some s);
     s \<leftarrow> upd_task nx (\<lambda>tk. tk\<lparr>t_state := TASK_RUNNING\<rparr>) s;
     if nx = running s then Some s
     else do {
       s \<leftarrow> task_activate nx s;
       Some (s\<lparr>running := nx\<rparr>)
     }
   }"

definition task_block :: "nat \<Rightarrow> task_list \<Rightarrow> task_state \<Rightarrow> 'a sched_scheme \<Rightarrow> 'a sched_scheme option" where
  "task_block t blist st s = do {
     check (\<not> intr s);
     tk \<leftarrow> get_task t s;
     check (\<not> t_linked tk);
     check (st \<noteq> TASK_READY \<and> st \<noteq> TASK_RUNNING);
     let s = s\<lparr>queues := (queues s)(blist := t # queues s blist)\<rparr>;
     s \<leftarrow> upd_task t (\<lambda>tk. tk\<lparr>t_linked := True, t_state := st\<rparr>) s;
     if running s = t then schedule s else Some s
   }"

definition task_unblock :: "nat \<Rightarrow> 'a sched_scheme \<Rightarrow> 'a sched_scheme option" where
  "task_unblock t s = do {
     check (\<not> intr s);
     tk \<leftarrow> get_task t s;
     check (t_linked tk);
     let s = s\<lparr>queues := \<lambda>q. removeAll t (queues s q)\<rparr>;
     upd_task t (\<lambda>tk. tk\<lparr>t_linked := False, t_state := TASK_READY\<rparr>) s
   }"

text \<open>The loop of \<^verbatim>\<open>task_wakeup\<close>: it stops at the first task whose time has not come.\<close>

fun wakeup_loop :: "nat list \<Rightarrow> 'a sched_scheme \<Rightarrow> 'a sched_scheme option" where
  "wakeup_loop [] s = Some s"
| "wakeup_loop (t # ts) s = do {
     tk \<leftarrow> get_task t s;
     if t_ticks tk > jiffies s then Some s
     else do {
       s \<leftarrow> upd_task t (\<lambda>tk. tk\<lparr>t_ticks := 0\<rparr>) s;
       s \<leftarrow> task_unblock t s;
       wakeup_loop ts s
     }
   }"

definition task_wakeup :: "'a sched_scheme \<Rightarrow> 'a sched_scheme option" where
  "task_wakeup s = do {
     check (\<not> intr s);
     wakeup_loop (queues s Sleep_list) s
   }"

definition task_yield :: "'a sched_scheme \<Rightarrow> 'a sched_scheme option" where
  "task_yield s = schedule s"

definition ticks_of :: "'a sched_scheme \<Rightarrow> nat \<Rightarrow> int" where
  "ticks_of s t = (case get_task t s of Some tk \<Rightarrow> sint (t_ticks tk) | None \<Rightarrow> 0)"

abbreviation (input) jiffy :: u32 where "jiffy \<equiv> 10"

definition task_sleep :: "u32 \<Rightarrow> 'a sched_scheme \<Rightarrow> 'a sched_scheme option" where
  "task_sleep ms s = do {
     check (\<not> intr s);
     let ticks = ms div jiffy;
     let ticks = (if ticks > 0 then ticks else 1);
     s \<leftarrow> upd_task (running s) (\<lambda>tk. tk\<lparr>t_ticks := jiffies s + ticks\<rparr>) s;
     tk \<leftarrow> get_task (running s) s;
     check (\<not> t_linked tk);
     let s = s\<lparr>queues := (queues s)(Sleep_list := sort_insert (ticks_of s) (running s) (queues s Sleep_list))\<rparr>;
     s \<leftarrow> upd_task (running s) (\<lambda>tk. tk\<lparr>t_linked := True, t_state := TASK_SLEEPING\<rparr>) s;
     schedule s
   }"

text \<open>The timer interrupt; the processor has cleared the interrupt flag on entry.\<close>

definition clock_handler :: "u32 \<Rightarrow> 'a sched_scheme \<Rightarrow> 'a sched_scheme option" where
  "clock_handler vector s = do {
     check (vector = 0x20);
     let s = s\<lparr>jiffies := jiffies s + 1\<rparr>;
     let t = running s;
     tk \<leftarrow> get_task t s;
     check (t_magic tk = ONIXS_MAGIC_NR);
     s \<leftarrow> task_wakeup s;
     s \<leftarrow> upd_task t (\<lambda>tk. tk\<lparr>t_jiffies := jiffies s, t_ticks := t_ticks tk - 1\<rparr>) s;
     tk \<leftarrow> get_task t s;
     if t_ticks tk = 0 then do {
       s \<leftarrow> upd_task t (\<lambda>tk. tk\<lparr>t_ticks := t_priority tk\<rparr>) s;
       schedule s }
     else Some s
   }"

definition task_get_fd :: "task \<Rightarrow> int option" where
  "task_get_fd tk = map_option int (List.find (\<lambda>i. rd (t_files tk) i = Some None) [3..<16])"

definition task_put_fd :: "int \<Rightarrow> task \<Rightarrow> task option" where
  "task_put_fd fd tk = do {
     check (fd < TASK_FILE_NR);
     fs \<leftarrow> wri (t_files tk) fd None;
     Some (tk\<lparr>t_files := fs\<rparr>)
   }"

definition sys_getpid :: "'a sched_scheme \<Rightarrow> int option" where
  "sys_getpid s = map_option t_pid (get_task (running s) s)"

definition sys_getppid :: "'a sched_scheme \<Rightarrow> int option" where
  "sys_getppid s = map_option t_ppid (get_task (running s) s)"

definition sys_umask :: "u16 \<Rightarrow> 'a sched_scheme \<Rightarrow> (u16 \<times> 'a sched_scheme) option" where
  "sys_umask msk s = do {
     tk \<leftarrow> get_task (running s) s;
     s \<leftarrow> upd_task (running s) (\<lambda>tk. tk\<lparr>t_umask := msk AND 0x1FF\<rparr>) s;
     Some (t_umask tk, s)
   }"


section \<open>Reading and updating the table\<close>

lemma get_task_same [simp]:
  "get_task u (s\<lparr>running := a\<rparr>) = get_task u s" "get_task u (s\<lparr>queues := b\<rparr>) = get_task u s"
  "get_task u (s\<lparr>jiffies := c\<rparr>) = get_task u s" "get_task u (s\<lparr>active_pde := d\<rparr>) = get_task u s"
  "get_task u (s\<lparr>tss_esp0 := d\<rparr>) = get_task u s"
  by (simp_all add: get_task_def)

lemma get_task_Some: "get_task t s = Some tk \<longleftrightarrow> t < length (task_table s) \<and> task_table s ! t = Some tk"
  by (auto simp: get_task_def rd_def split: if_splits)

lemma get_task_put [simp]:
  "get_task u (s\<lparr>task_table := (task_table s)[t := Some x]\<rparr>) =
     (if u = t \<and> t < length (task_table s) then Some x else get_task u s)"
  by (auto simp: get_task_def rd_def nth_list_update)

lemma upd_task_eq:
  "get_task t s = Some tk \<Longrightarrow> upd_task t f s = Some (s\<lparr>task_table := (task_table s)[t := Some (f tk)]\<rparr>)"
  by (simp add: upd_task_def)

text \<open>\<open>put t tk s\<close> is the state with \<open>tk\<close> as the task \<open>t\<close>; a chain of updates stays readable with it.\<close>

definition put :: "nat \<Rightarrow> task \<Rightarrow> 'a sched_scheme \<Rightarrow> 'a sched_scheme" where
  "put t tk s = s\<lparr>task_table := (task_table s)[t := Some tk]\<rparr>"

lemma upd_task_put: "get_task t s = Some tk \<Longrightarrow> upd_task t f s = Some (put t (f tk) s)"
  by (simp add: upd_task_eq put_def)

lemma put_simps [simp]:
  "running (put t tk s) = running s" "queues (put t tk s) = queues s" "intr (put t tk s) = intr s"
  "jiffies (put t tk s) = jiffies s" "idle_task (put t tk s) = idle_task s"
  "active_pde (put t tk s) = active_pde s"
  "(put t tk s)\<lparr>queues := q\<rparr> = put t tk (s\<lparr>queues := q\<rparr>)"
  "(put t tk s)\<lparr>running := n\<rparr> = put t tk (s\<lparr>running := n\<rparr>)"
  "put t tk (put t tk' s) = put t tk s"
  by (simp_all add: put_def)

lemma get_task_put_same: "get_task t s = Some tk' \<Longrightarrow> get_task t (put t tk s) = Some tk"
  by (simp add: put_def get_task_Some)

lemma get_task_put_other: "u \<noteq> t \<Longrightarrow> get_task u (put t tk s) = get_task u s"
  by (simp add: put_def)

lemma sort_insert_distinct: "distinct xs \<Longrightarrow> n \<notin> set xs \<Longrightarrow> distinct (sort_insert key n xs)"
proof -
  assume d: "distinct xs" and n: "n \<notin> set xs"
  let ?P = "\<lambda>x. key x \<le> key n"
  have "distinct (takeWhile ?P xs @ dropWhile ?P xs)" using d by (simp only: takeWhile_dropWhile_id)
  then have "distinct (takeWhile ?P xs)" "distinct (dropWhile ?P xs)"
    "set (takeWhile ?P xs) \<inter> set (dropWhile ?P xs) = {}"
    unfolding distinct_append by blast+
  then show ?thesis using n by (auto simp: sort_insert_def dest: set_takeWhileD set_dropWhileD)
qed

section \<open>The choice of the next task\<close>

lemma sint_inject: "sint a = sint b \<longleftrightarrow> a = b"
  by (rule word_eq_iff_signed[symmetric])

text \<open>The order of \<open>better\<close>: by time slice, then by how long ago the task ran.\<close>

lemma better_trans: "\<not> better a b \<Longrightarrow> \<not> better b c \<Longrightarrow> \<not> better a c"
  unfolding better_def by (auto simp: sint_inject)

lemma better_irrefl: "\<not> better a a"
  by (simp add: better_def)

lemma better_asym: "better a b \<Longrightarrow> \<not> better b a"
  by (auto simp: better_def)

definition ready_in :: "task_state \<Rightarrow> nat \<Rightarrow> task option list \<Rightarrow> nat \<Rightarrow> task \<Rightarrow> bool" where
  "ready_in st current ts i tk \<longleftrightarrow> i < length ts \<and> ts ! i = Some tk \<and> t_state tk = st \<and> i \<noteq> current"

lemma search_tasks_spec:
  assumes "\<forall>j tk. found = Some (j, tk) \<longrightarrow> ready_in st current ts j tk \<and> j < i"
    and "\<forall>j tk. j < i \<longrightarrow> ready_in st current ts j tk \<longrightarrow> (\<exists>j' tk'. found = Some (j', tk') \<and> \<not> better tk' tk)"
    and "i \<le> length ts"
  shows "case search_tasks st current i (drop i ts) found of
      None \<Rightarrow> \<forall>j tk. \<not> ready_in st current ts j tk
    | Some (j, tk) \<Rightarrow> ready_in st current ts j tk \<and> (\<forall>j' tk'. ready_in st current ts j' tk' \<longrightarrow> \<not> better tk tk')"
  using assms
proof (induction "length ts - i" arbitrary: i found)
  case 0
  then have "drop i ts = []" "\<And>j tk. ready_in st current ts j tk \<Longrightarrow> j < i" by (auto simp: ready_in_def)
  with 0 show ?case by (fastforce split: option.splits)
next
  case (Suc n)
  then have i: "i < length ts" and d: "drop i ts = ts ! i # drop (Suc i) ts"
    by (auto simp: Cons_nth_drop_Suc)
  have n: "n = length ts - Suc i" using Suc(2) by simp
  note IH = Suc(1)[OF n]
  show ?case
  proof (cases "\<exists>ptr. ready_in st current ts i ptr")
    case False
    then have "search_tasks st current i (drop i ts) found = search_tasks st current (Suc i) (drop (Suc i) ts) found"
      unfolding d using i by (cases "ts ! i") (auto simp: ready_in_def)
    moreover have "j < i" if "j < Suc i" "ready_in st current ts j tk" for j tk
      using that False by (auto simp: less_Suc_eq)
    ultimately show ?thesis using IH[of found] Suc(3,4) i by fastforce
  next
    case True
    then obtain ptr where r: "ready_in st current ts i ptr" by blast
    then have p: "ts ! i = Some ptr" "t_state ptr = st" "i \<noteq> current" by (auto simp: ready_in_def)
    have uniq: "tk = ptr" if "ready_in st current ts i tk" for tk using that p by (simp add: ready_in_def)
    define found' where "found' = (case found of None \<Rightarrow> Some (i, ptr)
      | Some (j, task) \<Rightarrow> if better task ptr then Some (i, ptr) else Some (j, task))"
    have "search_tasks st current i (drop i ts) found = search_tasks st current (Suc i) (drop (Suc i) ts) found'"
      unfolding d found'_def using p by simp
    moreover have "\<forall>j tk. found' = Some (j, tk) \<longrightarrow> ready_in st current ts j tk \<and> j < Suc i"
      using Suc(3) r by (auto simp: found'_def split: option.splits if_splits prod.splits)
    moreover have "\<forall>j tk. j < Suc i \<longrightarrow> ready_in st current ts j tk \<longrightarrow> (\<exists>j' tk'. found' = Some (j', tk') \<and> \<not> better tk' tk)"
    proof (intro allI impI)
      fix j tk assume j: "j < Suc i" "ready_in st current ts j tk"
      show "\<exists>j' tk'. found' = Some (j', tk') \<and> \<not> better tk' tk"
      proof (cases "j = i")
        case True
        with uniq j show ?thesis
          by (auto simp: found'_def better_irrefl split: option.splits)
      next
        case False
        with j have "j < i" by simp
        with j(2) Suc(4) obtain j' tk' where f: "found = Some (j', tk')" "\<not> better tk' tk" by blast
        then show ?thesis using better_trans[of ptr tk' tk] better_asym[of tk' ptr]
          by (auto simp: found'_def)
      qed
    qed
    ultimately show ?thesis using IH[of found'] i by simp
  qed
qed


lemma task_searchTask_ready:
  assumes "\<not> intr s"
  obtains t where "task_searchTask TASK_READY s = Some (Some t)"
    "t = idle_task s \<and> (\<forall>j tk. get_task j s = Some tk \<longrightarrow> t_state tk = TASK_READY \<longrightarrow> j = running s)
     \<or> (\<exists>tk. get_task t s = Some tk \<and> t_state tk = TASK_READY \<and> t \<noteq> running s
        \<and> (\<forall>j tk'. get_task j s = Some tk' \<longrightarrow> t_state tk' = TASK_READY \<longrightarrow> j \<noteq> running s \<longrightarrow> \<not> better tk tk'))"
proof (cases "search_tasks TASK_READY (running s) 0 (task_table s) None")
  case None
  with search_tasks_spec[of None TASK_READY "running s" "task_table s" 0] assms
  show ?thesis by (intro that[of "idle_task s"]) (auto simp: task_searchTask_def ready_in_def get_task_Some)
next
  case (Some p)
  obtain t tk where p: "p = (t, tk)" by (cases p)
  with search_tasks_spec[of None TASK_READY "running s" "task_table s" 0] Some assms
  show ?thesis by (intro that[of t]) (auto simp: task_searchTask_def ready_in_def get_task_Some)
qed

section \<open>The invariant\<close>

definition waits :: "task_state \<Rightarrow> bool" where
  "waits st \<longleftrightarrow> st = TASK_BLOCKED \<or> st = TASK_SLEEPING \<or> st = TASK_WAITTING"

text \<open>
  What holds of the task table whenever the kernel runs outside the scheduler: \<open>ok_tasks r\<close>
  says that only \<open>r\<close> is marked as running, that a task waits exactly when its node is in a
  wait list, that a node is in at most one list, and that the idle task never waits.
\<close>

definition ok_task :: "'a sched_scheme \<Rightarrow> nat \<Rightarrow> task \<Rightarrow> bool" where
  "ok_task s t tk \<longleftrightarrow> t_magic tk = ONIXS_MAGIC_NR
     \<and> (t_linked tk \<longleftrightarrow> waits (t_state tk)) \<and> (t_linked tk \<longleftrightarrow> (\<exists>q. t \<in> set (queues s q)))"

definition ok_tasks :: "nat option \<Rightarrow> 'a sched_scheme \<Rightarrow> bool" where
  "ok_tasks r s \<longleftrightarrow>
     (\<forall>t tk. get_task t s = Some tk \<longrightarrow> ok_task s t tk \<and> (t_state tk = TASK_RUNNING \<longleftrightarrow> Some t = r))
     \<and> (\<forall>q. distinct (queues s q)) \<and> (\<forall>q q' t. t \<in> set (queues s q) \<longrightarrow> t \<in> set (queues s q') \<longrightarrow> q = q')
     \<and> (\<forall>q t. t \<in> set (queues s q) \<longrightarrow> get_task t s \<noteq> None)
     \<and> get_task (running s) s \<noteq> None \<and> \<not> intr s
     \<and> (\<exists>tk. get_task (idle_task s) s = Some tk \<and> (t_state tk = TASK_READY \<or> t_state tk = TASK_RUNNING))"

abbreviation sched_inv :: "'a sched_scheme \<Rightarrow> bool" where
  "sched_inv s \<equiv> ok_tasks (Some (running s)) s"

lemma ok_tasksD:
  assumes "ok_tasks r s"
  shows "\<not> intr s" "\<exists>tk. get_task (running s) s = Some tk"
    "\<exists>tk. get_task (idle_task s) s = Some tk \<and> (t_state tk = TASK_READY \<or> t_state tk = TASK_RUNNING)"
    "get_task t s = Some tk \<Longrightarrow> t_magic tk = ONIXS_MAGIC_NR"
    "get_task t s = Some tk \<Longrightarrow> t_state tk = TASK_RUNNING \<longleftrightarrow> Some t = r"
    "get_task t s = Some tk \<Longrightarrow> t_linked tk \<longleftrightarrow> waits (t_state tk)"
    "get_task t s = Some tk \<Longrightarrow> t_linked tk \<longleftrightarrow> (\<exists>q. t \<in> set (queues s q))"
    "distinct (queues s q)" "t \<in> set (queues s q) \<Longrightarrow> t \<in> set (queues s q') \<Longrightarrow> q = q'"
    "t \<in> set (queues s q) \<Longrightarrow> \<exists>tk. get_task t s = Some tk"
  using assms unfolding ok_tasks_def ok_task_def by blast+

text \<open>One task is replaced and the wait lists keep all the others: the one step of all the proofs.\<close>

lemma ok_tasks_put:
  assumes ok: "ok_tasks r s" and t: "get_task t s = Some tk"
    and m: "t_magic tk' = ONIXS_MAGIC_NR" "t_linked tk' \<longleftrightarrow> waits (t_state tk')"
      "t_state tk' = TASK_RUNNING \<longleftrightarrow> r' = Some t"
    and r: "\<And>u. u \<noteq> t \<Longrightarrow> r' = Some u \<longleftrightarrow> r = Some u"
    and idle: "t = idle_task s \<Longrightarrow> t_state tk' = TASK_READY \<or> t_state tk' = TASK_RUNNING"
    and q: "\<And>u q. u \<noteq> t \<Longrightarrow> u \<in> set (qs q) \<longleftrightarrow> u \<in> set (queues s q)" "\<And>q. distinct (qs q)"
      "\<And>q q'. t \<in> set (qs q) \<Longrightarrow> t \<in> set (qs q') \<Longrightarrow> q = q'" "t_linked tk' \<longleftrightarrow> (\<exists>q. t \<in> set (qs q))"
  shows "ok_tasks r' (put t tk' (s\<lparr>queues := qs\<rparr>))"
proof -
  let ?s = "put t tk' (s\<lparr>queues := qs\<rparr>)"
  have g: "get_task u ?s = (if u = t then Some tk' else get_task u s)" for u
    using t by (cases "u = t") (simp_all add: get_task_put_same get_task_put_other)
  have 1: "ok_task ?s u uk \<and> (t_state uk = TASK_RUNNING \<longleftrightarrow> Some u = r')" if "get_task u ?s = Some uk" for u uk
  proof (cases "u = t")
    case True
    then show ?thesis using that g m q(4) by (auto simp: ok_task_def)
  next
    case False
    then have u: "get_task u s = Some uk" using that g by simp
    then show ?thesis
      using ok_tasksD(4-7)[OF ok u] r[OF False] q(1)[OF False] by (auto simp: ok_task_def)
  qed
  have 2: "q = q'" if "u \<in> set (qs q)" "u \<in> set (qs q')" for u q q'
    using that q(1,3) ok_tasksD(9)[OF ok] by (cases "u = t") auto
  have 3: "get_task u ?s \<noteq> None" if "u \<in> set (qs q)" for u q
    using that q(1)[of u q] g ok_tasksD(10)[OF ok] by (cases "u = t") auto
  show ?thesis
    unfolding ok_tasks_def
    using 1 2 3 q(2) g ok_tasksD(1-3)[OF ok] idle by auto
qed

lemma ok_tasks_more:
  "ok_tasks r (s\<lparr>active_pde := a\<rparr>) = ok_tasks r s" "ok_tasks r (s\<lparr>tss_esp0 := a\<rparr>) = ok_tasks r s"
  "ok_tasks r (s\<lparr>jiffies := j\<rparr>) = ok_tasks r s"
  "get_task n s \<noteq> None \<Longrightarrow> ok_tasks r s \<Longrightarrow> ok_tasks r (s\<lparr>running := n\<rparr>)"
  unfolding ok_tasks_def ok_task_def get_task_same by (simp, simp, simp) (simp (no_asm), blast)

lemma schedule_ok:
  assumes ok: "ok_tasks r s" and r: "r = Some (running s) \<or> r = None"
  obtains s' where "schedule s = Some s'" "sched_inv s'" "queues s' = queues s" "jiffies s' = jiffies s"
    "task_searchTask TASK_READY s = Some (Some (running s'))"
proof -
  obtain cur where cur: "get_task (running s) s = Some cur" using ok_tasksD(2)[OF ok] by blast
  obtain idle where idle: "get_task (idle_task s) s = Some idle"
    "t_state idle = TASK_READY \<or> t_state idle = TASK_RUNNING" using ok_tasksD(3)[OF ok] by blast
  obtain nx where nx: "task_searchTask TASK_READY s = Some (Some nx)"
    and nx': "nx = idle_task s \<or> (\<exists>tk. get_task nx s = Some tk \<and> t_state tk = TASK_READY)"
    by (rule task_searchTask_ready[OF ok_tasksD(1)[OF ok]]) blast
  then obtain ntk where n: "get_task nx s = Some ntk" "t_state ntk = TASK_READY \<or> t_state ntk = TASK_RUNNING"
    using idle by blast
  have rr: "t_state cur = TASK_RUNNING \<longleftrightarrow> r = Some (running s)" using ok_tasksD(5)[OF ok cur] by auto
  define s1 where "s1 = (if t_state cur = TASK_RUNNING then put (running s) (cur\<lparr>t_state := TASK_READY\<rparr>) s else s)"
  have q: "queues s1 = queues s" "running s1 = running s" "intr s1 = intr s" "jiffies s1 = jiffies s"
    "active_pde s1 = active_pde s" by (simp_all add: s1_def)
  have ok1: "ok_tasks None s1"
  proof (cases "t_state cur = TASK_RUNNING")
    case True
    have "ok_tasks None (put (running s) (cur\<lparr>t_state := TASK_READY\<rparr>) (s\<lparr>queues := queues s\<rparr>))"
      using True rr ok_tasksD(4,6,7)[OF ok cur]
      by (intro ok_tasks_put[OF ok cur]) (auto simp: waits_def ok_tasksD[OF ok])
    with True show ?thesis by (simp add: s1_def)
  next
    case False
    with rr r show ?thesis using ok by (auto simp: s1_def)
  qed
  obtain n1 where n1: "get_task nx s1 = Some n1" "\<not> t_linked n1" "t_magic n1 = ONIXS_MAGIC_NR"
  proof -
    have "\<exists>n1. get_task nx s1 = Some n1 \<and> t_linked n1 = t_linked ntk"
      using n(1) cur by (cases "nx = running s") (auto simp: s1_def get_task_put_same[OF cur] get_task_put_other)
    then obtain n1 where "get_task nx s1 = Some n1" "t_linked n1 = t_linked ntk" by blast
    moreover have "\<not> t_linked ntk" using ok_tasksD(6)[OF ok n(1)] n(2) by (auto simp: waits_def)
    ultimately show ?thesis using that ok_tasksD(4)[OF ok1] by blast
  qed
  define s2 where "s2 = put nx (n1\<lparr>t_state := TASK_RUNNING\<rparr>) s1"
  have "ok_tasks (Some nx) (put nx (n1\<lparr>t_state := TASK_RUNNING\<rparr>) (s1\<lparr>queues := queues s1\<rparr>))"
    using n1(2,3) ok_tasksD(7)[OF ok1 n1(1)]
    by (intro ok_tasks_put[OF ok1 n1(1)]) (auto simp: waits_def ok_tasksD[OF ok1])
  then have ok2: "ok_tasks (Some nx) s2" by (simp add: s2_def)
  have n2: "get_task nx s2 = Some (n1\<lparr>t_state := TASK_RUNNING\<rparr>)"
    unfolding s2_def by (rule get_task_put_same[OF n1(1)])
  have e1: "(if t_state cur = TASK_RUNNING then upd_task (running s) (\<lambda>tk. tk\<lparr>t_state := TASK_READY\<rparr>) s
      else Some s) = Some s1"
    by (simp add: s1_def upd_task_put[OF cur])
  have e2: "upd_task nx (\<lambda>tk. tk\<lparr>t_state := TASK_RUNNING\<rparr>) s1 = Some s2"
    by (simp add: s2_def upd_task_put[OF n1(1)])
  have step: "schedule s = (if nx = running s then Some s2
      else Option.bind (task_activate nx s2) (\<lambda>s. Some (s\<lparr>running := nx\<rparr>)))"
    using nx n(1) cur ok_tasksD(1)[OF ok] ok_tasksD(4)[OF ok n(1)] q(2)
    by (simp add: schedule_def e1 e2) (simp add: s2_def)
  show thesis
  proof (cases "nx = running s")
    case True
    with step ok2 q nx show ?thesis by (intro that[of s2]) (simp_all add: s2_def)
  next
    case False
    obtain s3 where s3: "task_activate nx s2 = Some s3" "ok_tasks (Some nx) s3" "get_task nx s3 = get_task nx s2"
      "queues s3 = queues s2" "jiffies s3 = jiffies s2"
      using n2 n1(3) ok2 by (auto simp: task_activate_def Let_def ok_tasks_more)
    have "ok_tasks (Some nx) (s3\<lparr>running := nx\<rparr>)" using s3(2,3) n2 by (intro ok_tasks_more(4)) simp_all
    with False step s3 q nx show ?thesis by (intro that[of "s3\<lparr>running := nx\<rparr>"]) (simp_all add: s2_def)
  qed
qed


lemma put_queues: "put t tk (s\<lparr>queues := queues s\<rparr>) = put t tk s"
  by simp

text \<open>A task that enters a wait list.\<close>

lemma ok_tasks_enter:
  assumes ok: "sched_inv s" and t: "get_task t s = Some tk" "\<not> t_linked tk" "t \<noteq> idle_task s"
    and tk': "t_magic tk' = t_magic tk" "t_linked tk'" "waits (t_state tk')"
    and qs: "\<And>u p. u \<in> set (qs p) \<longleftrightarrow> u \<in> set (queues s p) \<or> u = t \<and> p = q" "\<And>p. distinct (qs p)"
  shows "ok_tasks (if t = running s then None else Some (running s)) (put t tk' (s\<lparr>queues := qs\<rparr>))"
proof (rule ok_tasks_put[OF ok t(1)])
  have out: "t \<notin> set (queues s p)" for p using ok_tasksD(7)[OF ok t(1)] t(2) by blast
  then show "\<And>p p'. t \<in> set (qs p) \<Longrightarrow> t \<in> set (qs p') \<Longrightarrow> p = p'" "t_linked tk' = (\<exists>p. t \<in> set (qs p))"
    using qs(1) tk'(2) by simp_all
  show "t_magic tk' = ONIXS_MAGIC_NR" using ok_tasksD(4)[OF ok t(1)] tk'(1) by simp
  show "(t_state tk' = TASK_RUNNING) = ((if t = running s then None else Some (running s)) = Some t)"
    using tk'(3) by (auto simp: waits_def)
qed (use t(3) tk' qs in simp_all)

lemma task_block_ok:
  assumes ok: "sched_inv s" and t: "get_task t s = Some tk" "\<not> t_linked tk" "t \<noteq> idle_task s" and st: "waits st"
  obtains s' where "task_block t q st s = Some s'" "sched_inv s'" "queues s' = (queues s)(q := t # queues s q)"
proof -
  let ?tk = "tk\<lparr>t_linked := True, t_state := st\<rparr>"
  let ?qs = "(queues s)(q := t # queues s q)"
  let ?s = "put t ?tk (s\<lparr>queues := ?qs\<rparr>)"
  let ?r = "if t = running s then None else Some (running s)"
  have "t \<notin> set (queues s q')" for q' using ok_tasksD(7)[OF ok t(1)] t(2) by blast
  then have ok': "ok_tasks ?r ?s"
    using st ok_tasksD(8)[OF ok] by (intro ok_tasks_enter[OF ok t, where q = q]) auto
  have st': "st \<noteq> TASK_READY" "st \<noteq> TASK_RUNNING" using st by (auto simp: waits_def)
  have e: "task_block t q st s = (if t = running s then schedule ?s else Some ?s)"
    using t st' ok_tasksD(1)[OF ok] by (simp add: task_block_def upd_task_put Let_def)
  show thesis
  proof (cases "t = running s")
    case True
    then have "ok_tasks None ?s" using ok' by simp
    then obtain s' where "schedule ?s = Some s'" "sched_inv s'" "queues s' = queues ?s"
      by (rule schedule_ok) simp_all
    with True e show thesis by (intro that[of s']) simp_all
  next
    case False
    with ok' e show thesis by (intro that[of ?s]) simp_all
  qed
qed

lemma task_unblock_ok:
  assumes ok: "sched_inv s" and t: "get_task t s = Some tk" "t_linked tk"
  shows "task_unblock t s = Some (put t (tk\<lparr>t_linked := False, t_state := TASK_READY\<rparr>)
      (s\<lparr>queues := \<lambda>q. removeAll t (queues s q)\<rparr>))" (is "_ = Some ?s")
    and "sched_inv (put t (tk\<lparr>t_linked := False, t_state := TASK_READY\<rparr>)
      (s\<lparr>queues := \<lambda>q. removeAll t (queues s q)\<rparr>))"
proof -
  have nr: "t \<noteq> running s" using ok_tasksD(5,6)[OF ok t(1)] t(2) by (auto simp: waits_def)
  show "task_unblock t s = Some ?s"
    using t ok_tasksD(1)[OF ok] by (simp add: task_unblock_def upd_task_put)
  have "ok_tasks (Some (running s)) ?s"
    using nr ok_tasksD(4)[OF ok t(1)] ok_tasksD(8)[OF ok]
    by (intro ok_tasks_put[OF ok t(1)]) (auto simp: waits_def distinct_removeAll)
  then show "sched_inv ?s" by simp
qed

lemma wakeup_loop_ok:
  assumes "sched_inv s" "set ts \<subseteq> set (queues s Sleep_list)" "distinct ts"
  shows "\<exists>s'. wakeup_loop ts s = Some s' \<and> sched_inv s' \<and> running s' = running s \<and> jiffies s' = jiffies s
    \<and> get_task (running s) s' = get_task (running s) s"
  using assms
proof (induction ts arbitrary: s)
  case (Cons t ts)
  obtain tk where t: "get_task t s = Some tk" using ok_tasksD(10)[OF Cons.prems(1)] Cons.prems(2) by (meson list.set_intros(1) subsetD)
  show ?case
  proof (cases "t_ticks tk > jiffies s")
    case True
    then show ?thesis using t Cons.prems(1) by simp
  next
    case False
    let ?s = "put t (tk\<lparr>t_ticks := 0\<rparr>) s"
    have l: "t_linked tk" using ok_tasksD(7)[OF Cons.prems(1) t] Cons.prems(2) by auto
    have nr: "t \<noteq> running s" using ok_tasksD(5,6)[OF Cons.prems(1) t] l by (auto simp: waits_def)
    have "sched_inv (put t (tk\<lparr>t_ticks := 0\<rparr>) (s\<lparr>queues := queues s\<rparr>))"
      unfolding put_simps
      using ok_tasksD(4-7)[OF Cons.prems(1) t] ok_tasksD(8,9)[OF Cons.prems(1)]
        ok_tasksD(3)[OF Cons.prems(1)] t nr
      by (intro ok_tasks_put[OF Cons.prems(1) t]) (auto simp: waits_def)
    then have ok: "sched_inv ?s" by (simp add: put_queues)
    have g: "get_task t ?s = Some (tk\<lparr>t_ticks := 0\<rparr>)" by (rule get_task_put_same[OF t])
    let ?s' = "put t (tk\<lparr>t_ticks := 0, t_linked := False, t_state := TASK_READY\<rparr>)
      (s\<lparr>queues := \<lambda>q. removeAll t (queues s q)\<rparr>)"
    have u: "task_unblock t ?s = Some ?s'" "sched_inv ?s'"
      using task_unblock_ok[OF ok g] l by simp_all
    have sub: "set ts \<subseteq> set (queues ?s' Sleep_list)" using Cons.prems(2,3) by auto
    have "\<exists>s''. wakeup_loop ts ?s' = Some s'' \<and> sched_inv s'' \<and> running s'' = running ?s'
      \<and> jiffies s'' = jiffies ?s' \<and> get_task (running ?s') s'' = get_task (running ?s') ?s'"
      using Cons.prems(3) by (intro Cons.IH[OF u(2) sub]) simp
    then show ?thesis using False t u(1) nr by (simp add: upd_task_put get_task_put_other)
  qed
qed simp

lemma sched_inv_set:
  assumes ok: "sched_inv s" and t: "get_task (running s) s = Some tk"
    and tk': "t_magic tk' = t_magic tk" "t_linked tk' = t_linked tk" "t_state tk' = t_state tk"
  shows "sched_inv (put (running s) tk' s)"
proof -
  have "sched_inv (put (running s) tk' (s\<lparr>queues := queues s\<rparr>))"
    unfolding put_simps
    using ok_tasksD(4-7)[OF ok t] tk' ok_tasksD(8,9)[OF ok]
    by (intro ok_tasks_put[OF ok t]) auto
  then show ?thesis by (simp add: put_queues)
qed

lemma clock_handler_ok:
  assumes ok: "sched_inv s"
  obtains s' where "clock_handler 0x20 s = Some s'" "sched_inv s'"
    "\<And>tk. get_task (running s) s = Some tk \<Longrightarrow> t_ticks tk \<noteq> 1 \<Longrightarrow>
       running s' = running s \<and> (\<exists>tk'. get_task (running s) s' = Some tk' \<and> t_ticks tk' = t_ticks tk - 1)"
proof -
  obtain tk where t: "get_task (running s) s = Some tk" using ok_tasksD(2)[OF ok] by blast
  let ?s = "s\<lparr>jiffies := jiffies s + 1\<rparr>"
  have ok': "ok_tasks (Some (running s)) ?s" using ok by (simp add: ok_tasks_more)
  obtain s1 where s1: "wakeup_loop (queues s Sleep_list) ?s = Some s1" "sched_inv s1" "running s1 = running s"
    "get_task (running s) s1 = Some tk"
    using wakeup_loop_ok[of ?s "queues s Sleep_list"] ok' ok_tasksD(8)[OF ok] t by auto
  define tk' where "tk' = tk\<lparr>t_jiffies := jiffies s1, t_ticks := t_ticks tk - 1\<rparr>"
  have ok2: "sched_inv (put (running s1) tk' s1)"
    using s1(3,4) by (intro sched_inv_set[OF s1(2)]) (simp_all add: tk'_def)
  have g: "get_task (running s) (put (running s) tk' s1) = Some tk'" by (rule get_task_put_same[OF s1(4)])
  have "upd_task (running s) (\<lambda>tk. tk\<lparr>t_jiffies := jiffies s1, t_ticks := t_ticks tk - 1\<rparr>) s1
      = Some (put (running s) tk' s1)"
    unfolding tk'_def by (rule upd_task_put[OF s1(4)])
  then have e: "clock_handler 0x20 s = (if t_ticks tk' = 0
      then schedule (put (running s) (tk'\<lparr>t_ticks := t_priority tk'\<rparr>) s1)
      else Some (put (running s) tk' s1))"
    using t s1(1,4) ok_tasksD(1)[OF ok] ok_tasksD(4)[OF ok t] g
    by (simp add: clock_handler_def task_wakeup_def Let_def upd_task_put[OF g])
  show thesis
  proof (cases "t_ticks tk' = 0")
    case True
    have "sched_inv (put (running s1) (tk'\<lparr>t_ticks := t_priority tk'\<rparr>) (put (running s1) tk' s1))"
      using sched_inv_set[OF ok2, of tk' "tk'\<lparr>t_ticks := t_priority tk'\<rparr>"] g s1(3) by simp
    then have ok3: "sched_inv (put (running s) (tk'\<lparr>t_ticks := t_priority tk'\<rparr>) s1)" using s1(3) by simp
    have "t_ticks tk = 1" using True by (simp add: tk'_def)
    obtain s' where "schedule (put (running s) (tk'\<lparr>t_ticks := t_priority tk'\<rparr>) s1) = Some s'" "sched_inv s'"
      by (rule schedule_ok[OF ok3]) simp_all
    with e True t \<open>t_ticks tk = 1\<close> show thesis by (intro that[of s']) simp_all
  next
    case False
    with e ok2 s1(3) g t show thesis by (intro that[of "put (running s) tk' s1"]) (auto simp: tk'_def)
  qed
qed

lemma task_sleep_ok:
  assumes ok: "sched_inv s" and "running s \<noteq> idle_task s"
  obtains s' where "task_sleep ms s = Some s'" "sched_inv s'"
proof -
  obtain tk where t: "get_task (running s) s = Some tk" using ok_tasksD(2)[OF ok] by blast
  define n where "n = (if ms div jiffy > 0 then ms div jiffy else 1)"
  let ?s1 = "put (running s) (tk\<lparr>t_ticks := jiffies s + n\<rparr>) s"
  have ok1: "sched_inv ?s1" using sched_inv_set[OF ok t] by simp
  have g: "get_task (running s) ?s1 = Some (tk\<lparr>t_ticks := jiffies s + n\<rparr>)" by (rule get_task_put_same[OF t])
  let ?tk = "tk\<lparr>t_ticks := jiffies s + n, t_linked := True, t_state := TASK_SLEEPING\<rparr>"
  let ?qs = "(queues s)(Sleep_list := sort_insert (ticks_of ?s1) (running s) (queues s Sleep_list))"
  have nl: "\<not> t_linked tk" using ok_tasksD(5,6)[OF ok t] by (auto simp: waits_def)
  then have "running s \<notin> set (queues s q)" for q using ok_tasksD(7)[OF ok t] by blast
  then have "distinct (?qs q)" for q
    using ok_tasksD(8)[OF ok] by (simp add: sort_insert_distinct)
  then have "ok_tasks (if running s = running ?s1 then None else Some (running ?s1))
      (put (running s) ?tk (?s1\<lparr>queues := ?qs\<rparr>))"
    using assms(2) nl by (intro ok_tasks_enter[OF ok1 g, where q = Sleep_list]) (auto simp: waits_def)
  then have ok2: "ok_tasks None (put (running s) ?tk (s\<lparr>queues := ?qs\<rparr>))"
    by (simp add: put_def)
  have "task_sleep ms s = schedule (put (running s) ?tk (s\<lparr>queues := ?qs\<rparr>))"
    using t nl ok_tasksD(1)[OF ok] g
    by (simp add: task_sleep_def Let_def n_def upd_task_put put_def get_task_Some)
  with ok2 schedule_ok[OF ok2] that show thesis by auto
qed


section \<open>The scheduler as a transition system\<close>

text \<open>
  What the kernel does to the task table between two points of the running task: it blocks in
  some list, unblocks a waiting task, gives up the processor, sleeps, or is interrupted.
\<close>

inductive sched_step :: "sched \<Rightarrow> sched \<Rightarrow> bool" where
  block: "running s \<noteq> idle_task s \<Longrightarrow> waits st \<Longrightarrow> task_block (running s) q st s = Some s' \<Longrightarrow> sched_step s s'"
| unblock: "task_unblock t s = Some s' \<Longrightarrow> sched_step s s'"
| yield: "task_yield s = Some s' \<Longrightarrow> sched_step s s'"
| sleep: "running s \<noteq> idle_task s \<Longrightarrow> task_sleep ms s = Some s' \<Longrightarrow> sched_step s s'"
| tick: "clock_handler 0x20 s = Some s' \<Longrightarrow> sched_step s s'"

inductive_cases sched_stepE: "sched_step s s'"

lemma running_free:
  assumes "sched_inv s"
  obtains tk where "get_task (running s) s = Some tk" "\<not> t_linked tk"
  using ok_tasksD(2)[OF assms] ok_tasksD(5,6)[OF assms] by (force simp: waits_def)

lemma sched_step_inv:
  assumes "sched_step s s'" and ok: "sched_inv s"
  shows "sched_inv s'"
  using assms(1)
proof cases
  case (block st q)
  obtain tk where "get_task (running s) s = Some tk" "\<not> t_linked tk" by (rule running_free[OF ok])
  from task_block_ok[OF ok this block(1,2)] block(3) show ?thesis by (metis option.inject)
next
  case (unblock t)
  then obtain tk where "get_task t s = Some tk" "t_linked tk"
    by (auto simp: task_unblock_def check_def bind_Some split: if_splits)
  from task_unblock_ok[OF ok this] unblock show ?thesis by simp
next
  case yield
  with schedule_ok[OF ok] show ?thesis by (metis task_yield_def option.inject)
next
  case (sleep ms)
  with task_sleep_ok[OF ok sleep(1), of ms] show ?thesis by (metis option.inject)
next
  case tick
  with clock_handler_ok[OF ok] show ?thesis by (metis option.inject)
qed

section \<open>What the scheduler leaves alone\<close>

text \<open>
  The part of the state that the scheduler does not know, the idle task and the slots of the
  table that are in use stay as they are.
\<close>

definition unscheduled :: "'a sched_scheme \<Rightarrow> 'a \<times> nat \<times> bool list" where
  "unscheduled s = (sched.more s, idle_task s, map (\<lambda>tk. tk = None) (task_table s))"

lemma rest_simps [simp]: "unscheduled (s\<lparr>queues := a\<rparr>) = unscheduled s" "unscheduled (s\<lparr>running := b\<rparr>) = unscheduled s"
  "unscheduled (s\<lparr>jiffies := c\<rparr>) = unscheduled s" "unscheduled (s\<lparr>active_pde := d\<rparr>) = unscheduled s" "unscheduled (s\<lparr>tss_esp0 := d\<rparr>) = unscheduled s"
  by (simp_all add: unscheduled_def)

lemma upd_task_rest: "upd_task t f s = Some s' \<Longrightarrow> unscheduled s' = unscheduled s \<and> queues s' = queues s \<and> running s' = running s"
  by (auto simp: upd_task_def halt_simps unscheduled_def get_task_Some map_update intro!: list_update_same_conv[THEN iffD2])

lemma task_activate_rest: "task_activate t s = Some s' \<Longrightarrow> unscheduled s' = unscheduled s \<and> queues s' = queues s"
  unfolding task_activate_def Let_def by (elim bindE) (auto split: if_split_asm)

lemma schedule_rest: "schedule s = Some s' \<Longrightarrow> unscheduled s' = unscheduled s \<and> queues s' = queues s"
  unfolding schedule_def
  by (elim bindE) (auto simp: bind_Some simp del: check_bind dest!: upd_task_rest task_activate_rest split: if_split_asm)

lemma task_unblock_rest: "task_unblock t s = Some s' \<Longrightarrow> unscheduled s' = unscheduled s \<and> queues s' = (\<lambda>q. removeAll t (queues s q))"
  by (auto simp: task_unblock_def bind_Some Let_def simp del: check_bind dest!: upd_task_rest)

lemma task_block_rest: "task_block t q st s = Some s' \<Longrightarrow> unscheduled s' = unscheduled s \<and> queues s' = (queues s)(q := t # queues s q)"
  by (auto simp: task_block_def bind_Some Let_def simp del: check_bind dest!: upd_task_rest schedule_rest split: if_splits)

lemma task_sleep_rest: "task_sleep ms s = Some s' \<Longrightarrow> unscheduled s' = unscheduled s
    \<and> (\<forall>q. set (queues s' q) \<subseteq> insert (running s) (set (queues s q)) \<and> (q \<noteq> Sleep_list \<longrightarrow> queues s' q = queues s q))"
  by (auto simp: task_sleep_def bind_Some Let_def simp del: check_bind split: if_splits dest!: upd_task_rest schedule_rest)

lemma wakeup_loop_rest: "wakeup_loop ts s = Some s' \<Longrightarrow> unscheduled s' = unscheduled s \<and> (\<forall>q t. t \<in> set (queues s' q) \<longrightarrow> t \<in> set (queues s q))
    \<and> (\<forall>q t. t \<notin> set ts \<longrightarrow> (t \<in> set (queues s' q) \<longleftrightarrow> t \<in> set (queues s q)))"
proof (induction ts arbitrary: s)
  case (Cons t ts)
  obtain tk where t: "get_task t s = Some tk" using Cons.prems by (auto elim!: bindE)
  show ?case
  proof (cases "t_ticks tk > jiffies s")
    case True
    with t Cons.prems show ?thesis by simp
  next
    case False
    then obtain s1 s2 where s: "upd_task t (\<lambda>tk. tk\<lparr>t_ticks := 0\<rparr>) s = Some s1" "task_unblock t s1 = Some s2"
      "wakeup_loop ts s2 = Some s'"
      using t Cons.prems by (auto elim!: bindE)
    show ?thesis
      using upd_task_rest[OF s(1)] task_unblock_rest[OF s(2)] Cons.IH[OF s(3)] by auto
  qed
qed simp

lemma clock_handler_rest: "clock_handler v s = Some s' \<Longrightarrow> unscheduled s' = unscheduled s
    \<and> (\<forall>q t. t \<in> set (queues s' q) \<longrightarrow> t \<in> set (queues s q))
    \<and> (\<forall>q t. t \<notin> set (queues s Sleep_list) \<longrightarrow> (t \<in> set (queues s' q) \<longleftrightarrow> t \<in> set (queues s q)))"
  unfolding clock_handler_def task_wakeup_def Let_def
  by (elim bindE) (auto simp: bind_Some simp del: check_bind
      dest!: upd_task_rest schedule_rest wakeup_loop_rest split: if_split_asm)

lemma rest_task: "unscheduled s' = unscheduled s \<Longrightarrow> get_task t s' = None \<longleftrightarrow> get_task t s = None"
proof -
  assume "unscheduled s' = unscheduled s"
  then have m: "map (\<lambda>tk. tk = None) (task_table s') = map (\<lambda>tk. tk = None) (task_table s)"
    by (simp add: unscheduled_def)
  then have l: "length (task_table s') = length (task_table s)" by (metis length_map)
  have "(task_table s' ! t = None) = (task_table s ! t = None)" if "t < length (task_table s)"
    using arg_cong[OF m, of "\<lambda>xs. xs ! t"] that l by simp
  then show ?thesis using l by (auto simp: get_task_def rd_def)
qed

definition sample_task_at :: "nat \<Rightarrow> task_state \<Rightarrow> u32 \<Rightarrow> task" where
  "sample_task_at i st ticks = proc_mem.extend sample_task
     \<lparr>t_addr = 0x200000 + of_nat i * 0x1000, t_linked = waits st, t_state = st, t_priority = 5, t_ticks = ticks,
      t_jiffies = 0, t_gid = 0, t_pid = int i, t_ppid = 0, t_vmap_ptr = 0, t_vmap_bits = 0, t_status = 0,
      t_waitpid = 0, t_pwd = 0, t_ipwd = None, t_iroot = None, t_iexec = None, t_umask = 18,
      t_files = replicate 16 None, t_magic = ONIXS_MAGIC_NR\<rparr>"

definition sample_sched :: sched where
  "sample_sched = \<lparr>task_table = [Some (sample_task_at 0 TASK_READY 1), Some (sample_task_at 1 TASK_RUNNING 3),
       Some (sample_task_at 2 TASK_READY 7), Some (sample_task_at 3 TASK_SLEEPING 20)] @ replicate 60 None,
     running = 1, idle_task = 0, queues = (\<lambda>_. [])(Sleep_list := [3]), intr = False, jiffies = 19,
     active_pde = 0x1000, tss_esp0 = 0\<rparr>"

lemma sample_tasks: "get_task t sample_sched = Some tk \<longleftrightarrow>
    t = 0 \<and> tk = sample_task_at 0 TASK_READY 1 \<or> t = 1 \<and> tk = sample_task_at 1 TASK_RUNNING 3
    \<or> t = 2 \<and> tk = sample_task_at 2 TASK_READY 7 \<or> t = 3 \<and> tk = sample_task_at 3 TASK_SLEEPING 20"
  by (auto simp: get_task_Some sample_sched_def nth_append nth_Cons' less_Suc_eq_le split: if_splits)

lemma sample_task_at_simps [simp]:
  "t_state (sample_task_at i st k) = st" "t_linked (sample_task_at i st k) = waits st"
  "t_magic (sample_task_at i st k) = ONIXS_MAGIC_NR" "t_ticks (sample_task_at i st k) = k"
  "t_jiffies (sample_task_at i st k) = 0"
  by (simp_all add: sample_task_at_def proc_mem.defs)

lemma sample_sched_simps [simp]:
  "running sample_sched = 1" "idle_task sample_sched = 0" "\<not> intr sample_sched" "jiffies sample_sched = 19"
  "queues sample_sched = (\<lambda>_. [])(Sleep_list := [3])"
  by (simp_all add: sample_sched_def)

lemma sample_sched_inv: "sched_inv sample_sched"
  unfolding ok_tasks_def ok_task_def not_None_eq sample_tasks by (auto simp: waits_def split: if_splits)

section \<open>A task that is woken\<close>

text \<open>A task that can run and has \<open>k\<close> ticks; nothing but its own run changes that.\<close>

definition runnable :: "nat \<Rightarrow> u32 \<Rightarrow> 'a sched_scheme \<Rightarrow> bool" where
  "runnable t k s \<longleftrightarrow> (\<exists>tk. get_task t s = Some tk \<and> t_ticks tk = k
     \<and> (t_state tk = TASK_READY \<or> t_state tk = TASK_RUNNING))"

lemma runnable_simps [simp]:
  "runnable t k (s\<lparr>running := a\<rparr>) = runnable t k s" "runnable t k (s\<lparr>queues := b\<rparr>) = runnable t k s"
  "runnable t k (s\<lparr>jiffies := c\<rparr>) = runnable t k s" "runnable t k (s\<lparr>active_pde := d\<rparr>) = runnable t k s"
  "runnable t k (s\<lparr>tss_esp0 := d\<rparr>) = runnable t k s"
  by (simp_all add: runnable_def)

lemma upd_task_runnable:
  assumes "upd_task u f s = Some s'" and "runnable t k s"
    and "\<And>tk. u = t \<Longrightarrow> t_ticks (f tk) = t_ticks tk \<and> (t_state (f tk) = TASK_READY \<or> t_state (f tk) = TASK_RUNNING)"
  shows "runnable t k s'"
proof -
  obtain uk where u: "get_task u s = Some uk" using assms(1) by (auto simp: upd_task_def elim!: bindE)
  then have s': "s' = put u (f uk) s" using assms(1) by (simp add: upd_task_put)
  show ?thesis
  proof (cases "u = t")
    case True
    then show ?thesis using assms(2,3) u by (auto simp: s' runnable_def get_task_put_same)
  next
    case False
    then show ?thesis using assms(2) by (simp add: s' runnable_def get_task_put_other)
  qed
qed

lemma schedule_runnable:
  assumes "schedule s = Some s'" and "runnable t k s"
  shows "runnable t k s'"
proof -
  obtain nx ntk cur s1 s2 where
    s1: "(if t_state (cur :: task) = TASK_RUNNING then upd_task (running s) (\<lambda>tk. tk\<lparr>t_state := TASK_READY\<rparr>) s else Some s) = Some s1"
    and s2: "upd_task nx (\<lambda>tk. tk\<lparr>t_state := TASK_RUNNING\<rparr>) s1 = Some s2"
    and s': "(if nx = running s2 then Some s2 else Option.bind (task_activate nx s2) (\<lambda>s. Some (s\<lparr>running := nx\<rparr>))) = Some s'"
    using assms(1) unfolding schedule_def by (auto simp: bind_Some simp del: check_bind)
  have "runnable t k s1"
    using s1 assms(2) by (auto split: if_split_asm intro: upd_task_runnable)
  then have "runnable t k s2" by (rule upd_task_runnable[OF s2]) simp
  then show ?thesis
    using s' by (auto simp: task_activate_def Let_def bind_Some simp del: check_bind split: if_split_asm)
qed

lemma task_unblock_runnable: "task_unblock u s = Some s' \<Longrightarrow> runnable t k s \<Longrightarrow> runnable t k s'"
  by (auto simp: task_unblock_def Let_def bind_Some simp del: check_bind intro: upd_task_runnable)

lemma wakeup_loop_runnable:
  "wakeup_loop ts s = Some s' \<Longrightarrow> t \<notin> set ts \<Longrightarrow> runnable t k s \<Longrightarrow> runnable t k s'"
proof (induction ts arbitrary: s)
  case (Cons u ts)
  obtain uk where u: "get_task u s = Some uk" using Cons.prems(1) by (auto elim!: bindE)
  show ?case
  proof (cases "t_ticks uk > jiffies s")
    case True
    with u Cons.prems show ?thesis by simp
  next
    case False
    then obtain s1 s2 where s: "upd_task u (\<lambda>tk. tk\<lparr>t_ticks := 0\<rparr>) s = Some s1" "task_unblock u s1 = Some s2"
      "wakeup_loop ts s2 = Some s'"
      using u Cons.prems(1) by (auto elim!: bindE)
    have "runnable t k s1" using Cons.prems(2) by (intro upd_task_runnable[OF s(1) Cons.prems(3)]) auto
    with Cons.IH[OF s(3)] task_unblock_runnable[OF s(2)] Cons.prems(2) show ?thesis by simp
  qed
qed simp

text \<open>What \<^verbatim>\<open>task_wakeup\<close> does to a task that it takes out of the list.\<close>

lemma wakeup_loop_woken:
  assumes "wakeup_loop ts s = Some s'" "set ts \<subseteq> set (queues s Sleep_list)" "distinct ts"
    "t \<in> set ts" "t \<notin> set (queues s' Sleep_list)"
  shows "runnable t 0 s'"
  using assms
proof (induction ts arbitrary: s)
  case (Cons u ts)
  obtain uk where u: "get_task u s = Some uk" using Cons.prems(1) by (auto elim!: bindE)
  have "\<not> t_ticks uk > jiffies s"
    using u Cons.prems by auto
  then obtain s1 s2 where s: "upd_task u (\<lambda>tk. tk\<lparr>t_ticks := 0\<rparr>) s = Some s1" "task_unblock u s1 = Some s2"
    "wakeup_loop ts s2 = Some s'"
    using u Cons.prems(1) by (auto elim!: bindE)
  have s1: "s1 = put u (uk\<lparr>t_ticks := 0\<rparr>) s" using s(1) u by (simp add: upd_task_put)
  have g1: "get_task u s1 = Some (uk\<lparr>t_ticks := 0\<rparr>)" unfolding s1 by (rule get_task_put_same[OF u])
  then have s2: "s2 = put u (uk\<lparr>t_ticks := 0, t_linked := False, t_state := TASK_READY\<rparr>)
      (s1\<lparr>queues := \<lambda>q. removeAll u (queues s1 q)\<rparr>)"
    using s(2) by (auto simp: task_unblock_def Let_def bind_Some upd_task_put simp del: check_bind)
  show ?case
  proof (cases "t = u")
    case True
    have "runnable t 0 s2"
      using get_task_put_same[of u "s1\<lparr>queues := \<lambda>q. removeAll u (queues s1 q)\<rparr>"] g1
      by (simp add: True s2 runnable_def)
    with True Cons.prems(3) show ?thesis using wakeup_loop_runnable[OF s(3)] by simp
  next
    case False
    have "set ts \<subseteq> set (queues s2 Sleep_list)" using Cons.prems(2,3) by (auto simp: s2 s1)
    with False Cons.IH[OF s(3)] Cons.prems(3-5) show ?thesis by simp
  qed
qed simp

lemma clock_handler_steps:
  assumes "clock_handler 0x20 s = Some s'"
  obtains s1 where "wakeup_loop (queues s Sleep_list) (s\<lparr>jiffies := jiffies s + 1\<rparr>) = Some s1"
    "queues s' = queues s1"
    "\<forall>t k. t \<noteq> running s \<longrightarrow> runnable t k s1 \<longrightarrow> runnable t k s'"
proof -
  have run: "running (s\<lparr>jiffies := j\<rparr>) = running s" for j by simp
  obtain s1 s2 where w: "wakeup_loop (queues s Sleep_list) (s\<lparr>jiffies := jiffies s + 1\<rparr>) = Some s1"
    and u: "upd_task (running s) (\<lambda>tk. tk\<lparr>t_jiffies := jiffies s1, t_ticks := t_ticks tk - 1\<rparr>) s1 = Some s2"
    and s': "s' = s2 \<or> (\<exists>s3. upd_task (running s) (\<lambda>tk. tk\<lparr>t_ticks := t_priority tk\<rparr>) s2 = Some s3 \<and> schedule s3 = Some s')"
    using assms unfolding clock_handler_def task_wakeup_def Let_def run
    by (elim bindE) (auto simp: bind_Some simp del: check_bind split: if_split_asm)
  from s' show thesis
  proof
    assume "s' = s2"
    with upd_task_rest[OF u] upd_task_runnable[OF u] show thesis by (intro that[OF w]) auto
  next
    assume "\<exists>s3. upd_task (running s) (\<lambda>tk. tk\<lparr>t_ticks := t_priority tk\<rparr>) s2 = Some s3 \<and> schedule s3 = Some s'"
    then obtain s3 where s3: "upd_task (running s) (\<lambda>tk. tk\<lparr>t_ticks := t_priority tk\<rparr>) s2 = Some s3" "schedule s3 = Some s'"
      by blast
    show thesis
    proof (intro that[OF w] allI impI)
      show "queues s' = queues s1"
        using upd_task_rest[OF u] upd_task_rest[OF s3(1)] schedule_rest[OF s3(2)] by simp
    next
      fix t k
      assume t: "t \<noteq> running s" "runnable t k s1"
      have "runnable t k s2" by (rule upd_task_runnable[OF u t(2)]) (use t(1) in simp_all)
      then have "runnable t k s3" by (rule upd_task_runnable[OF s3(1)]) (use t(1) in simp_all)
      with s3(2) show "runnable t k s'" by (rule schedule_runnable)
    qed
  qed
qed

lemma runnable_free:
  assumes "sched_inv s" and "runnable t k s"
  shows "t \<notin> set (queues s q)"
  using assms ok_tasksD(6,7)[OF assms(1)] by (fastforce simp: runnable_def waits_def)

lemma sched_step_runnable:
  assumes "sched_step s s'" and ok: "sched_inv s" and t: "running s \<noteq> t" "runnable t k s"
  shows "runnable t k s'"
  using assms(1)
proof cases
  case (block st q)
  then obtain s1 where s1: "upd_task (running s) (\<lambda>tk. tk\<lparr>t_linked := True, t_state := st\<rparr>)
      (s\<lparr>queues := (queues s)(q := running s # queues s q)\<rparr>) = Some s1" "schedule s1 = Some s' \<or> s1 = s'"
    by (auto simp: task_block_def Let_def bind_Some simp del: check_bind split: if_split_asm)
  have "runnable t k s1" by (rule upd_task_runnable[OF s1(1)]) (use t in simp_all)
  with s1(2) show ?thesis by (blast intro: schedule_runnable)
next
  case (unblock u)
  with t show ?thesis by (blast intro: task_unblock_runnable)
next
  case yield
  with t show ?thesis by (auto simp: task_yield_def intro: schedule_runnable)
next
  case (sleep ms)
  obtain f s1 where s1: "upd_task (running s) f s = Some s1"
    and rest: "Option.bind (get_task (running s1) s1) (\<lambda>tk. Option.bind (check (\<not> t_linked tk)) (\<lambda>_.
      Option.bind (upd_task (running s1) (\<lambda>tk. tk\<lparr>t_linked := True, t_state := TASK_SLEEPING\<rparr>)
        (s1\<lparr>queues := (queues s1)(Sleep_list := sort_insert (ticks_of s1) (running s1) (queues s1 Sleep_list))\<rparr>))
        schedule)) = Some s'"
    using sleep(2) by (auto simp: task_sleep_def Let_def elim!: bindE simp del: check_bind)
  have run: "running s1 = running s" using upd_task_rest[OF s1] by simp
  obtain s2 where s2: "upd_task (running s1) (\<lambda>tk. tk\<lparr>t_linked := True, t_state := TASK_SLEEPING\<rparr>)
        (s1\<lparr>queues := (queues s1)(Sleep_list := sort_insert (ticks_of s1) (running s1) (queues s1 Sleep_list))\<rparr>) = Some s2"
    "schedule s2 = Some s'"
    using rest by (auto elim!: bindE simp del: check_bind)
  have "runnable t k s1" by (rule upd_task_runnable[OF s1 t(2)]) (use t in simp_all)
  then have "runnable t k s2" by (intro upd_task_runnable[OF s2(1)]) (use t run in simp_all)
  with s2(2) show ?thesis by (rule schedule_runnable)
next
  case tick
  from tick obtain s1 where w: "wakeup_loop (queues s Sleep_list) (s\<lparr>jiffies := jiffies s + 1\<rparr>) = Some s1"
    and k: "\<forall>t k. t \<noteq> running s \<longrightarrow> runnable t k s1 \<longrightarrow> runnable t k s'"
    by (rule clock_handler_steps)
  have "runnable t k s1" using wakeup_loop_runnable[OF w] runnable_free[OF ok t(2)] t(2) by simp
  with k t(1) show ?thesis by metis
qed

fun interrupts :: "nat \<Rightarrow> sched \<Rightarrow> sched option" where
  "interrupts 0 s = Some s"
| "interrupts (Suc n) s = Option.bind (clock_handler 0x20 s) (interrupts n)"

lemma interrupts_keep_running:
  assumes "sched_inv s" "get_task (running s) s = Some tk" "n < unat (t_ticks tk) \<or> t_ticks tk = 0 \<and> n < 2 ^ 32"
  shows "\<exists>s'. interrupts n s = Some s' \<and> running s' = running s"
  using assms
proof (induction n arbitrary: s tk)
  case (Suc n)
  have "t_ticks tk \<noteq> 1" using Suc.prems(3) by auto
  then obtain s' tk' where s': "clock_handler 0x20 s = Some s'" "sched_inv s'" "running s' = running s"
    "get_task (running s) s' = Some tk'" "t_ticks tk' = t_ticks tk - 1"
    using clock_handler_ok[OF Suc.prems(1)] Suc.prems(2) by metis
  have "n < unat (t_ticks tk')"
  proof (cases "t_ticks tk = 0")
    case True
    then have "t_ticks tk' = EOF" using s'(5) by simp
    then show ?thesis using Suc.prems(3) True by (simp add: unat_EOF)
  next
    case False
    then have "unat (t_ticks tk') = unat (t_ticks tk) - 1" using s'(5) by (simp add: unat_minus_one)
    then show ?thesis using Suc.prems(3) False by simp
  qed
  then show ?case using Suc.IH[OF s'(2), of tk'] s' by simp
qed simp

definition sample_asleep :: sched where
  "sample_asleep = \<lparr>task_table = [Some (sample_task_at 0 TASK_RUNNING 1), Some (sample_task_at 1 TASK_SLEEPING 20)]
       @ replicate 62 None,
     running = 0, idle_task = 0, queues = (\<lambda>_. [])(Sleep_list := [1]), intr = False, jiffies = 19,
     active_pde = 0x1000, tss_esp0 = 0\<rparr>"

lemma search_none: "search_tasks st current i (replicate n None) found = found"
  by (induction n arbitrary: i) simp_all

lemma sample_asleep_inv: "sched_inv sample_asleep"
proof -
  have "get_task t sample_asleep = Some tk \<longleftrightarrow>
      t = 0 \<and> tk = sample_task_at 0 TASK_RUNNING 1 \<or> t = 1 \<and> tk = sample_task_at 1 TASK_SLEEPING 20" for t tk
    by (auto simp: get_task_Some sample_asleep_def nth_append nth_Cons' less_Suc_eq_le split: if_splits)
  moreover have "running sample_asleep = 0" "idle_task sample_asleep = 0" "\<not> intr sample_asleep"
    "queues sample_asleep = (\<lambda>_. [])(Sleep_list := [1])" by (simp_all add: sample_asleep_def)
  ultimately show ?thesis
    unfolding ok_tasks_def ok_task_def not_None_eq by (auto simp: waits_def split: if_splits)
qed

section \<open>Properties\<close>

text \<open>
  C1: the scheduler keeps the task table consistent and its operations return. From a state
  that satisfies the invariant (one task is marked as running and it is the current one, a task
  waits exactly when its node is in a wait list, no node is in two lists, the idle task never
  waits) every sequence of blocking, unblocking, yielding, sleeping and timer interrupts leads
  to such a state. In such a state yielding and the timer interrupt return, so does unblocking
  any task that is in a wait list, and, when the running task is not the idle task, so do its
  sleeping and its blocking: no assertion of the scheduler fails. (Unblocking a task that is in
  no list fails the assertion of \<^verbatim>\<open>list_remove\<close>, and nothing is said of it.)
\<close>

theorem scheduler_keeps_invariant:
  assumes "sched_inv s" and "sched_step\<^sup>*\<^sup>* s s'"
  shows "sched_inv s' \<and> (\<exists>u. task_yield s' = Some u) \<and> (\<exists>u. clock_handler 0x20 s' = Some u)
    \<and> (\<forall>t p. t \<in> set (queues s' p) \<longrightarrow> (\<exists>u. task_unblock t s' = Some u))
    \<and> (running s' \<noteq> idle_task s' \<longrightarrow> (\<exists>u. task_sleep ms s' = Some u)
       \<and> (waits st \<longrightarrow> (\<exists>u. task_block (running s') q st s' = Some u)))"
proof -
  have ok: "sched_inv s'" using assms(2,1) by induction (auto intro: sched_step_inv)
  obtain tk where r: "get_task (running s') s' = Some tk" "\<not> t_linked tk" by (rule running_free[OF ok])
  have u: "\<exists>u. task_unblock t s' = Some u" if "t \<in> set (queues s' p)" for t p
  proof -
    obtain tk where "get_task t s' = Some tk" using ok_tasksD(10)[OF ok \<open>t \<in> set (queues s' p)\<close>] by blast
    moreover have "t_linked tk" using ok_tasksD(7)[OF ok calculation] that by blast
    ultimately show ?thesis using task_unblock_ok(1)[OF ok] by blast
  qed
  have "(\<exists>u. task_yield s' = Some u) \<and> (\<exists>u. clock_handler 0x20 s' = Some u)
    \<and> (running s' \<noteq> idle_task s' \<longrightarrow> (\<exists>u. task_sleep ms s' = Some u)
       \<and> (waits st \<longrightarrow> (\<exists>u. task_block (running s') q st s' = Some u)))"
    unfolding task_yield_def
    using schedule_ok[OF ok] clock_handler_ok[OF ok] task_sleep_ok[OF ok, of ms]
      task_block_ok[OF ok r, of st q] by meson
  with ok u show ?thesis by blast
qed

lemma scheduler_keeps_invariant_witness:
  "sched_inv sample_sched \<and> (\<exists>u. task_yield sample_sched = Some u) \<and> (\<exists>u. clock_handler 0x20 sample_sched = Some u)
    \<and> (\<exists>u. task_unblock 3 sample_sched = Some u) \<and> (\<exists>u. task_sleep 50 sample_sched = Some u)
    \<and> (\<exists>u. task_block 1 Block_list TASK_BLOCKED sample_sched = Some u)"
proof -
  have "3 \<in> set (queues sample_sched Sleep_list)" by simp
  with scheduler_keeps_invariant[OF sample_sched_inv rtranclp.rtrancl_refl, of 50 TASK_BLOCKED Block_list]
  have "\<exists>u. task_unblock 3 sample_sched = Some u" by blast
  with scheduler_keeps_invariant[OF sample_sched_inv rtranclp.rtrancl_refl, of 50 TASK_BLOCKED Block_list]
  show ?thesis by (simp add: waits_def)
qed

text \<open>
  C2: \<^verbatim>\<open>schedule\<close> hands the processor to the best ready task. In a consistent state it
  returns, and the task then running was ready, and no other ready task had a larger time slice
  left, nor the same slice and an earlier time of its last run; when no task is ready the idle
  task runs. (The comment at \<^verbatim>\<open>task_searchTask\<close> says the task of the highest priority or the one
  that ran last; the code looks at the ticks left, and takes the one whose last run is longest ago.)
\<close>

theorem schedule_picks_best:
  assumes ok: "sched_inv s"
  shows "\<exists>s'. schedule s = Some s' \<and> sched_inv s'
    \<and> (if \<exists>t tk. get_task t s = Some tk \<and> t_state tk = TASK_READY
       then \<exists>tk. get_task (running s') s = Some tk \<and> t_state tk = TASK_READY
         \<and> (\<forall>t tk'. get_task t s = Some tk' \<longrightarrow> t_state tk' = TASK_READY \<longrightarrow>
              sint (t_ticks tk') < sint (t_ticks tk)
              \<or> t_ticks tk' = t_ticks tk \<and> t_jiffies tk \<le> t_jiffies tk')
       else running s' = idle_task s)"
proof -
  obtain t where t: "task_searchTask TASK_READY s = Some (Some t)"
    and choice: "t = idle_task s \<and> (\<forall>j tk. get_task j s = Some tk \<longrightarrow> t_state tk = TASK_READY \<longrightarrow> j = running s)
     \<or> (\<exists>tk. get_task t s = Some tk \<and> t_state tk = TASK_READY \<and> t \<noteq> running s
        \<and> (\<forall>j tk'. get_task j s = Some tk' \<longrightarrow> t_state tk' = TASK_READY \<longrightarrow> j \<noteq> running s \<longrightarrow> \<not> better tk tk'))"
    by (rule task_searchTask_ready[OF ok_tasksD(1)[OF ok]]) blast
  obtain s' where s': "schedule s = Some s'" "sched_inv s'" "task_searchTask TASK_READY s = Some (Some (running s'))"
    by (rule schedule_ok[OF ok]) simp_all
  then have run: "running s' = t" using t by simp
  have nr: "t_state tk = TASK_READY \<Longrightarrow> get_task u s = Some tk \<Longrightarrow> u \<noteq> running s" for u tk
    using ok_tasksD(5)[OF ok, of u tk] by auto
  show ?thesis
  proof (cases "\<exists>u tk. get_task u s = Some tk \<and> t_state tk = TASK_READY")
    case True
    with choice nr obtain tk where "get_task t s = Some tk" "t_state tk = TASK_READY"
      "\<And>j tk'. get_task j s = Some tk' \<Longrightarrow> t_state tk' = TASK_READY \<Longrightarrow> \<not> better tk tk'" by metis
    then have "\<exists>tk. get_task (running s') s = Some tk \<and> t_state tk = TASK_READY
         \<and> (\<forall>t tk'. get_task t s = Some tk' \<longrightarrow> t_state tk' = TASK_READY \<longrightarrow>
              sint (t_ticks tk') < sint (t_ticks tk)
              \<or> t_ticks tk' = t_ticks tk \<and> t_jiffies tk \<le> t_jiffies tk')"
      unfolding run better_def by (metis linorder_neqE_linordered_idom linorder_not_le sint_inject)
    with True s' show ?thesis by auto
  next
    case False
    with choice run s' show ?thesis by auto
  qed
qed

lemma schedule_picks_best_witness:
  "\<exists>s'. schedule sample_sched = Some s' \<and> sched_inv s'
    \<and> (if \<exists>t tk. get_task t sample_sched = Some tk \<and> t_state tk = TASK_READY
       then \<exists>tk. get_task (running s') sample_sched = Some tk \<and> t_state tk = TASK_READY
         \<and> (\<forall>t tk'. get_task t sample_sched = Some tk' \<longrightarrow> t_state tk' = TASK_READY \<longrightarrow>
              sint (t_ticks tk') < sint (t_ticks tk)
              \<or> t_ticks tk' = t_ticks tk \<and> t_jiffies tk \<le> t_jiffies tk')
       else running s' = idle_task sample_sched)"
  by (rule schedule_picks_best[OF sample_sched_inv])

text \<open>
  C3: a task that has slept is not preempted any more. When the timer interrupt wakes a
  sleeping task \<open>t\<close> (it was in \<^verbatim>\<open>sleep_list\<close> and is not any more), \<^verbatim>\<open>task_wakeup\<close> leaves it without
  ticks, and whatever the scheduler does until \<open>t\<close> gets the processor keeps it so. The interrupt
  counts down before it compares with zero: once \<open>t\<close> runs, it keeps the processor for the next
  \<open>2^32 - 1\<close> timer interrupts, whatever other tasks are ready.
\<close>

theorem woken_task_not_preempted:
  assumes ok: "sched_inv s" and t: "t \<in> set (queues s Sleep_list)"
    and woken: "clock_handler 0x20 s = Some s1" "t \<notin> set (queues s1 Sleep_list)"
    and until: "(\<lambda>a b. running a \<noteq> t \<and> sched_step a b)\<^sup>*\<^sup>* s1 s2" "running s2 = t"
    and n: "n < 2 ^ 32"
  shows "\<exists>s'. interrupts n s2 = Some s' \<and> running s' = t"
proof -
  obtain s0 where w: "wakeup_loop (queues s Sleep_list) (s\<lparr>jiffies := jiffies s + 1\<rparr>) = Some s0"
    "queues s1 = queues s0" and k: "\<forall>t k. t \<noteq> running s \<longrightarrow> runnable t k s0 \<longrightarrow> runnable t k s1"
    using woken(1) by (rule clock_handler_steps)
  have "t \<noteq> running s" using ok_tasksD(5-7)[OF ok] ok_tasksD(2)[OF ok] t by (force simp: waits_def)
  moreover have "runnable t 0 s0"
    using t woken(2) w(2) ok_tasksD(8)[OF ok] by (intro wakeup_loop_woken[OF w(1)]) simp_all
  ultimately have "runnable t 0 s1" using k by blast
  moreover have "sched_inv s1" using sched_step_inv[OF sched_step.tick ok] woken(1) by blast
  ultimately have start: "runnable t 0 s1 \<and> sched_inv s1" ..
  have "runnable t 0 s2 \<and> sched_inv s2"
    using until(1) start by (induction rule: rtranclp_induct) (auto intro: sched_step_runnable sched_step_inv)
  then show ?thesis
    using interrupts_keep_running[of s2 _ n] until(2) n by (auto simp: runnable_def)
qed

lemma woken_task_not_preempted_witness:
  "\<exists>s1 s'. clock_handler 0x20 sample_asleep = Some s1 \<and> interrupts 1000 s1 = Some s' \<and> running s' = 1"
proof -
  obtain s1 where s1: "clock_handler 0x20 sample_asleep = Some s1" "running s1 = 1" "1 \<notin> set (queues s1 Sleep_list)"
    by (simp add: clock_handler_def sample_asleep_def task_wakeup_def get_task_def rd_def upd_task_def task_unblock_def
        Let_def schedule_def task_searchTask_def task_activate_def search_none waits_def sample_task_at_def proc_mem.defs)
  have t: "1 \<in> set (queues sample_asleep Sleep_list)" by (simp add: sample_asleep_def)
  show ?thesis
    using woken_task_not_preempted[OF sample_asleep_inv t s1(1,3) rtranclp.rtrancl_refl s1(2), of 1000] s1(1) by auto
qed

end
