(* ===== verification/Interrupt.thy ===== *)
theory Interrupt
  imports Tasks
begin

text \<open>
  Ports, \<^verbatim>\<open>kernel/interrupt.c\<close> (the interrupt controller and the table of gates), the timer and
  the speaker of \<^verbatim>\<open>kernel/clock.c\<close> and the segment descriptors of \<^verbatim>\<open>kernel/global.c\<close>. The hardware is a state \<open>'w\<close> with the four port instructions
  as a parameter \<open>P\<close>. The entry points of \<^verbatim>\<open>handler.asm\<close> are addresses, the C handlers they
  call are the constructors of \<open>isr\<close>.
\<close>

section \<open>Ports\<close>

record 'w ports =
  inb :: "u16 \<Rightarrow> 'w \<Rightarrow> u8 \<times> 'w"
  outb :: "u16 \<Rightarrow> u8 \<Rightarrow> 'w \<Rightarrow> 'w"
  inw :: "u16 \<Rightarrow> 'w \<Rightarrow> u16 \<times> 'w"
  outw :: "u16 \<Rightarrow> u16 \<Rightarrow> 'w \<Rightarrow> 'w"

section \<open>State\<close>

abbreviation (input) IDT_SIZE :: nat where "IDT_SIZE \<equiv> 256"
abbreviation (input) ENTRY_SIZE :: nat where "ENTRY_SIZE \<equiv> 0x30"
abbreviation (input) IRQ_MASTER_NR :: nat where "IRQ_MASTER_NR \<equiv> 0x20"
abbreviation (input) PIC_M_CTRL :: u16 where "PIC_M_CTRL \<equiv> 0x20"
abbreviation (input) PIC_M_DATA :: u16 where "PIC_M_DATA \<equiv> 0x21"
abbreviation (input) PIC_S_CTRL :: u16 where "PIC_S_CTRL \<equiv> 0xA0"
abbreviation (input) PIC_S_DATA :: u16 where "PIC_S_DATA \<equiv> 0xA1"
abbreviation (input) PIC_EOI :: u8 where "PIC_EOI \<equiv> 0x20"
abbreviation (input) IRQ_CLOCK :: u32 where "IRQ_CLOCK \<equiv> 0"
abbreviation (input) IRQ_CASCADE :: u32 where "IRQ_CASCADE \<equiv> 2"
abbreviation (input) IRQ_SERIAL_2 :: u32 where "IRQ_SERIAL_2 \<equiv> 3"
abbreviation (input) IRQ_SERIAL_1 :: u32 where "IRQ_SERIAL_1 \<equiv> 4"
abbreviation (input) IRQ_HARDDISK :: u32 where "IRQ_HARDDISK \<equiv> 14"
abbreviation (input) IRQ_HARDDISK2 :: u32 where "IRQ_HARDDISK2 \<equiv> 15"

datatype isr = No_Handler | Exception_Handler | Page_Fault | Default_Handler | Clock_Handler
  | Serial_Handler | Ide_Handler | Rtc_Handler | Keyboard_Handler

record gate =
  g_offset0 :: u16
  g_selector :: u16
  g_reserved :: u8
  g_type :: u8
  g_segment :: u8
  g_dpl :: u8
  g_present :: u8
  g_offset1 :: u16

record 'w intr = sched +
  idt :: "gate list"
  handler_table :: "isr list"
  hw :: 'w

section \<open>The interrupt controller\<close>

definition out :: "'w ports \<Rightarrow> u16 \<Rightarrow> u8 \<Rightarrow> ('w, 'z) intr_scheme \<Rightarrow> ('w, 'z) intr_scheme" where
  "out P port v s = s\<lparr>hw := outb P port v (hw s)\<rparr>"

definition interrupt_register :: "u32 \<Rightarrow> isr \<Rightarrow> ('w, 'z) intr_scheme \<Rightarrow> ('w, 'z) intr_scheme option" where
  "interrupt_register irq h s = do {
     check (irq < 16);
     t \<leftarrow> wr (handler_table s) (IRQ_MASTER_NR + unat irq) h;
     Some (s\<lparr>handler_table := t\<rparr>)
   }"

definition interrupt_mask :: "'w ports \<Rightarrow> u32 \<Rightarrow> bool \<Rightarrow> ('w, 'z) intr_scheme \<Rightarrow> ('w, 'z) intr_scheme option" where
  "interrupt_mask P irq enable s = do {
     check (irq < 16);
     let (port, irq) = (if irq < 8 then (PIC_M_DATA, irq) else (PIC_S_DATA, irq - 8));
     let (v, w) = inb P port (hw s);
     let b = push_bit (unat irq) 1;
     Some (s\<lparr>hw := outb P port (if enable then v AND NOT b else v OR b) w\<rparr>)
   }"

definition send_eoi :: "'w ports \<Rightarrow> int \<Rightarrow> ('w, 'z) intr_scheme \<Rightarrow> ('w, 'z) intr_scheme" where
  "send_eoi P vector s =
     (let s = (if 0x20 \<le> vector \<and> vector < 0x28 then out P PIC_M_CTRL PIC_EOI s else s)
      in if 0x28 \<le> vector \<and> vector < 0x30 then out P PIC_S_CTRL PIC_EOI (out P PIC_M_CTRL PIC_EOI s) else s)"

definition default_handler :: "'w ports \<Rightarrow> int \<Rightarrow> ('w, 'z) intr_scheme \<Rightarrow> ('w, 'z) intr_scheme" where
  "default_handler P vector s = send_eoi P vector s"

definition pic_init :: "'w ports \<Rightarrow> ('w, 'z) intr_scheme \<Rightarrow> ('w, 'z) intr_scheme" where
  "pic_init P s =
     out P PIC_S_DATA 0xFF (out P PIC_M_DATA 0xFF
     (out P PIC_S_DATA 1 (out P PIC_S_DATA 2 (out P PIC_S_DATA 0x28 (out P PIC_S_CTRL 0x11
     (out P PIC_M_DATA 1 (out P PIC_M_DATA 4 (out P PIC_M_DATA 0x20 (out P PIC_M_CTRL 0x11 s)))))))))"

section \<open>The interrupt flag\<close>

definition interrupt_enable :: "('w, 'z) intr_scheme \<Rightarrow> ('w, 'z) intr_scheme" where
  "interrupt_enable s = s\<lparr>intr := True\<rparr>"

definition interrupt_enable_ret :: "('w, 'z) intr_scheme \<Rightarrow> bool \<times> ('w, 'z) intr_scheme" where
  "interrupt_enable_ret s = (intr s, s\<lparr>intr := True\<rparr>)"

definition interrupt_disable :: "('w, 'z) intr_scheme \<Rightarrow> ('w, 'z) intr_scheme" where
  "interrupt_disable s = s\<lparr>intr := False\<rparr>"

definition interrupt_disable_ret :: "('w, 'z) intr_scheme \<Rightarrow> bool \<times> ('w, 'z) intr_scheme" where
  "interrupt_disable_ret s = (intr s, s\<lparr>intr := False\<rparr>)"

definition interrupt_get_state :: "('w, 'z) intr_scheme \<Rightarrow> bool" where
  "interrupt_get_state s = intr s"

definition interrupt_set_state :: "bool \<Rightarrow> ('w, 'z) intr_scheme \<Rightarrow> ('w, 'z) intr_scheme" where
  "interrupt_set_state state s = (if state then interrupt_enable s else interrupt_disable s)"

text \<open>A critical section that saves the flag and restores it leaves it as it was.\<close>

lemma interrupt_flag_restored:
  "interrupt_disable_ret s = (old, s1) \<Longrightarrow> intr (f s1) = intr s1 \<Longrightarrow> intr (interrupt_set_state old (f s1)) = intr s"
  by (auto simp: interrupt_disable_ret_def interrupt_set_state_def interrupt_enable_def interrupt_disable_def)

section \<open>Locks of a driver\<close>

text \<open>
  A lock as the driver sees it that runs with interrupts off: taken by nobody, or by its holder. Where
  \<^verbatim>\<open>lock_acquire\<close> would wait for another task the result is \<open>None\<close>; \<open>Mutex\<close> has the waiting.
\<close>

record driver_lock =
  lk_holder :: "nat option"
  lk_repeat :: u32

definition free_lock :: driver_lock where
  "free_lock = \<lparr>lk_holder = None, lk_repeat = 0\<rparr>"

definition take_lock :: "nat \<Rightarrow> driver_lock \<Rightarrow> driver_lock option" where
  "take_lock t l =
     (if lk_holder l \<noteq> Some t then do {
        check (lk_holder l = None);
        check (lk_repeat l = 0);
        Some \<lparr>lk_holder = Some t, lk_repeat = 1\<rparr> }
      else Some (l\<lparr>lk_repeat := lk_repeat l + 1\<rparr>))"

definition give_lock :: "nat \<Rightarrow> driver_lock \<Rightarrow> driver_lock option" where
  "give_lock t l = do {
     check (lk_holder l = Some t);
     if lk_repeat l > 1 then Some (l\<lparr>lk_repeat := lk_repeat l - 1\<rparr>)
     else do { check (lk_repeat l = 1); Some free_lock }
   }"

section \<open>Exceptions\<close>

definition messages :: "string list" where
  "messages = [''#DE Divide Error'', ''#DB RESERVED'', ''--  NMI Interrupt'', ''#BP Breakpoint'',
     ''#OF Overflow'', ''#BR BOUND Range Exceeded'', ''#UD Invalid Opcode (Undefined Opcode)'',
     ''#NM Device Not Available (No Math Coprocessor)'', ''#DF Double Fault'',
     ''    Coprocessor Segment Overrun (reserved)'', ''#TS Invalid TSS'', ''#NP Segment Not Present'',
     ''#SS Stack-Segment Fault'', ''#GP General Protection'', ''#PF Page Fault'',
     ''--  (Intel reserved. Do not use.)'', ''#MF x87 FPU Floating-Point Error (Math Fault)'',
     ''#AC Alignment Check'', ''#MC Machine Check'', ''#XF SIMD Floating-Point Exception'',
     ''#VE Virtualization Exception'', ''#CP Control Protection Exception'']"

text \<open>
  The text \<^verbatim>\<open>exception_handler\<close> prints before it spins: the message is chosen with a test of the
  vector, but the entry printed is \<^verbatim>\<open>messages[vector]\<close>, which behind the table is no message.
\<close>

definition exception_message :: "nat \<Rightarrow> string option" where
  "exception_message vector = rd messages vector"

section \<open>The gates\<close>

definition make_gate :: "u32 \<Rightarrow> u8 \<Rightarrow> gate" where
  "make_gate handler dpl = \<lparr>g_offset0 = ucast (handler AND 0xFFFF), g_selector = push_bit 3 1, g_reserved = 0,
     g_type = 0xE, g_segment = 0, g_dpl = dpl, g_present = 1, g_offset1 = ucast (drop_bit 16 handler AND 0xFFFF)\<rparr>"

text \<open>\<open>entries\<close> is \<^verbatim>\<open>handler_entry_table\<close>, \<open>entry\<close> the address of \<^verbatim>\<open>syscall_handler\<close>.\<close>

definition idt_init :: "u32 list \<Rightarrow> u32 \<Rightarrow> ('w, 'z) intr_scheme \<Rightarrow> ('w, 'z) intr_scheme" where
  "idt_init entries entry s =
     (let gs = fold (\<lambda>i gs. gs[i := make_gate (entries ! i) 0]) [0..<ENTRY_SIZE] (idt s);
          ht = fold (\<lambda>i t. t[i := Exception_Handler]) [0..<0x20] (handler_table s);
          ht = ht[0xE := Page_Fault];
          ht = fold (\<lambda>i t. t[i := Default_Handler]) [0x20..<ENTRY_SIZE] ht
      in s\<lparr>idt := gs[0x80 := make_gate entry 3], handler_table := ht\<rparr>)"

definition interrupt_init :: "'w ports \<Rightarrow> u32 list \<Rightarrow> u32 \<Rightarrow> ('w, 'z) intr_scheme \<Rightarrow> ('w, 'z) intr_scheme" where
  "interrupt_init P entries entry s = idt_init entries entry (pic_init P s)"

section \<open>Timer and speaker\<close>

abbreviation (input) PIT_CHAN0_REG :: u16 where "PIT_CHAN0_REG \<equiv> 0x40"
abbreviation (input) PIT_CTRL_REG :: u16 where "PIT_CTRL_REG \<equiv> 0x43"
abbreviation (input) SPEAKER_REG :: u16 where "SPEAKER_REG \<equiv> 0x61"

definition OSCILLATOR :: int where
  "OSCILLATOR = 1193182 * 4"

definition CLOCK_COUNTER :: int where
  "CLOCK_COUNTER = OSCILLATOR div 100"

definition BEEP_COUNT :: int where
  "BEEP_COUNT = OSCILLATOR div 440"

definition pit_init :: "'w ports \<Rightarrow> ('w, 'z) intr_scheme \<Rightarrow> ('w, 'z) intr_scheme" where
  "pit_init P s =
     (let s = out P PIT_CTRL_REG 0x34 s;
          s = out P PIT_CHAN0_REG (of_int CLOCK_COUNTER) s;
          s = out P PIT_CHAN0_REG (of_int (CLOCK_COUNTER div 256)) s;
          s = out P PIT_CTRL_REG 0xB6 s;
          s = out P PIT_CHAN0_REG (of_int BEEP_COUNT) s
      in out P PIT_CHAN0_REG (of_int (BEEP_COUNT div 256)) s)"

definition clock_init :: "'w ports \<Rightarrow> ('w, 'z) intr_scheme \<Rightarrow> ('w, 'z) intr_scheme option" where
  "clock_init P s = do {
     s \<leftarrow> interrupt_register IRQ_CLOCK Clock_Handler (pit_init P s);
     interrupt_mask P IRQ_CLOCK True s
   }"

definition beep_start :: "'w ports \<Rightarrow> ('w, 'z) intr_scheme \<Rightarrow> ('w, 'z) intr_scheme" where
  "beep_start P s = out P SPEAKER_REG 3 s"

definition beep_stop :: "'w ports \<Rightarrow> ('w, 'z) intr_scheme \<Rightarrow> ('w, 'z) intr_scheme" where
  "beep_stop P s = (let (v, w) = inb P SPEAKER_REG (hw s) in out P SPEAKER_REG (v AND 0xFC) (s\<lparr>hw := w\<rparr>))"

section \<open>Segments\<close>

record descriptor =
  d_limit_low :: u16
  d_base_low :: u32
  d_type :: u8
  d_segment :: u8
  d_dpl :: u8
  d_present :: u8
  d_limit_high :: u8
  d_available :: u8
  d_long_mode :: u8
  d_big :: u8
  d_granularity :: u8
  d_base_high :: u8

definition zero_descriptor :: descriptor where
  "zero_descriptor = \<lparr>d_limit_low = 0, d_base_low = 0, d_type = 0, d_segment = 0, d_dpl = 0, d_present = 0,
     d_limit_high = 0, d_available = 0, d_long_mode = 0, d_big = 0, d_granularity = 0, d_base_high = 0\<rparr>"

definition descriptor_init :: "u32 \<Rightarrow> u32 \<Rightarrow> descriptor \<Rightarrow> descriptor" where
  "descriptor_init base limit d = d\<lparr>d_base_low := base AND 0xFFFFFF, d_base_high := ucast (drop_bit 24 base AND 0xFF),
     d_limit_low := ucast (limit AND 0xFFFF), d_limit_high := ucast (drop_bit 16 limit AND 0xF)\<rparr>"

definition segment_descriptor :: "u8 \<Rightarrow> u8 \<Rightarrow> descriptor \<Rightarrow> descriptor" where
  "segment_descriptor dpl type d = (descriptor_init 0 0xFFFFF d)\<lparr>d_segment := 1, d_granularity := 1, d_big := 1,
     d_long_mode := 0, d_present := 1, d_dpl := dpl, d_type := type\<rparr>"

definition gdt_init :: "descriptor list" where
  "gdt_init = (let g = replicate 128 zero_descriptor;
       g = g[1 := segment_descriptor 0 0xA (g ! 1)];
       g = g[2 := segment_descriptor 0 2 (g ! 2)];
       g = g[4 := segment_descriptor 3 0xA (g ! 4)]
     in g[5 := segment_descriptor 3 2 (g ! 5)])"

text \<open>
  \<open>base\<close> and \<open>len\<close> are the address and the size of the static \<^verbatim>\<open>tss\<close>; of its fields those that
  are not zero.
\<close>

record task_segment =
  ts_ss0 :: u32
  ts_iobase :: u16

definition tss_init :: "u32 \<Rightarrow> u32 \<Rightarrow> descriptor list \<Rightarrow> task_segment \<times> descriptor list" where
  "tss_init base len g = (\<lparr>ts_ss0 = push_bit 3 2, ts_iobase = ucast len\<rparr>,
     g[3 := (descriptor_init base (len - 1) (g ! 3))\<lparr>d_segment := 0, d_granularity := 0, d_big := 0,
       d_long_mode := 0, d_present := 1, d_dpl := 0, d_type := 9\<rparr>])"

section \<open>What the tables keep\<close>

definition gate_address :: "gate \<Rightarrow> u32" where
  "gate_address g = push_bit 16 (ucast (g_offset1 g)) OR ucast (g_offset0 g)"

lemma make_gate_address [simp]: "gate_address (make_gate a dpl) = a"
proof -
  have m: "(0xFFFF :: u32) = mask 16" by (simp add: mask_eq_exp_minus_1)
  show ?thesis unfolding gate_address_def make_gate_def gate.simps m by (rule bit_word_eqI) (auto simp: bit_simps)
qed

lemma fold_update_length [simp]: "length (fold (\<lambda>i xs. xs[i := f i]) is xs) = length xs"
  by (induction "is" arbitrary: xs) simp_all

lemma fold_update_nth:
  "j < length xs \<Longrightarrow> fold (\<lambda>i xs. xs[i := f i]) [m..<n] xs ! j = (if m \<le> j \<and> j < n then f j else xs ! j)"
  by (induction n) (auto simp: nth_list_update less_Suc_eq)

text \<open>
  The gates that are present are those of the 48 vectors and of the system call, each with the
  address of its entry; only the last can be entered from user mode; every vector with a gate
  of \<^verbatim>\<open>interrupt_entry\<close> has a handler.
\<close>

definition idt_wf :: "u32 list \<Rightarrow> u32 \<Rightarrow> ('w, 'z) intr_scheme \<Rightarrow> bool" where
  "idt_wf entries entry s \<longleftrightarrow> length (idt s) = 256 \<and> length (handler_table s) = 256
     \<and> (\<forall>v < 256. g_present (idt s ! v) = (if v < 0x30 \<or> v = 0x80 then 1 else 0))
     \<and> (\<forall>v < 256. g_present (idt s ! v) = 1 \<longrightarrow> g_selector (idt s ! v) = 8 \<and> g_type (idt s ! v) = 0xE
          \<and> g_segment (idt s ! v) = 0 \<and> g_dpl (idt s ! v) = (if v = 0x80 then 3 else 0)
          \<and> gate_address (idt s ! v) = (if v = 0x80 then entry else entries ! v))
     \<and> (\<forall>v < 0x30. handler_table s ! v \<noteq> No_Handler)
     \<and> handler_table s ! 0xE = Page_Fault"

lemma idt_init_wf:
  assumes "length (idt s) = 256" "length (handler_table s) = 256" "\<forall>g \<in> set (idt s). g_present g = 0"
  shows "idt_wf entries entry (idt_init entries entry s)"
proof -
  have z: "g_present (idt s ! v) = 0" if "v < 256" for v using assms that by simp
  have at: "idt (idt_init entries entry s) ! v
      = (if v = 0x80 then make_gate entry 3 else if v < 0x30 then make_gate (entries ! v) 0 else idt s ! v)"
    if "v < 256" for v
    using that assms by (simp add: idt_init_def Let_def fold_update_nth nth_list_update del: upt_rec_numeral)
  have ht: "handler_table (idt_init entries entry s) ! v
      = (if v = 0xE then Page_Fault else if v < 0x20 then Exception_Handler else if v < 0x30 then Default_Handler
         else handler_table s ! v)" if "v < 256" for v
    using that assms by (simp add: idt_init_def Let_def fold_update_nth nth_list_update del: upt_rec_numeral)
  have len: "length (idt (idt_init entries entry s)) = 256" "length (handler_table (idt_init entries entry s)) = 256"
    using assms by (simp_all add: idt_init_def Let_def)
  have gate: "g_present (make_gate a d) = 1" "g_selector (make_gate a d) = 8" "g_type (make_gate a d) = 0xE"
    "g_segment (make_gate a d) = 0" "g_dpl (make_gate a d) = d" for a d by (simp_all add: make_gate_def)
  show ?thesis unfolding idt_wf_def using len by (simp add: at ht gate z)
qed

lemma pic_init_tables [simp]:
  "idt (pic_init P s) = idt s" "handler_table (pic_init P s) = handler_table s"
  by (simp_all add: pic_init_def out_def)

lemma register_wf:
  assumes "idt_wf entries entry s" "irq < 16" "h \<noteq> No_Handler"
  shows "\<exists>s'. interrupt_register irq h s = Some s' \<and> idt_wf entries entry s'"
proof -
  have i: "unat irq < 16" using assms(2) by (simp add: word_less_nat_alt)
  then have "interrupt_register irq h s = Some (s\<lparr>handler_table := (handler_table s)[0x20 + unat irq := h]\<rparr>)"
    using assms by (simp add: interrupt_register_def wr_def idt_wf_def)
  moreover have "idt_wf entries entry (s\<lparr>handler_table := (handler_table s)[0x20 + unat irq := h]\<rparr>)"
    using assms(1,3) i by (auto simp: idt_wf_def nth_list_update)
  ultimately show ?thesis by blast
qed

text \<open>The registrations of the drivers, one after the other.\<close>

fun register_all :: "(u32 \<times> isr) list \<Rightarrow> ('w, 'z) intr_scheme \<Rightarrow> ('w, 'z) intr_scheme option" where
  "register_all [] s = Some s"
| "register_all ((irq, h) # rs) s = Option.bind (interrupt_register irq h s) (register_all rs)"

lemma register_all_wf:
  "idt_wf entries entry s \<Longrightarrow> \<forall>(irq, h) \<in> set rs. irq < 16 \<and> h \<noteq> No_Handler \<Longrightarrow>
    \<exists>s'. register_all rs s = Some s' \<and> idt_wf entries entry s'"
proof (induction rs arbitrary: s)
  case (Cons r rs)
  obtain irq h where r: "r = (irq, h)" by fastforce
  obtain s1 where "interrupt_register irq h s = Some s1" "idt_wf entries entry s1"
    using register_wf[OF Cons.prems(1), of irq h] Cons.prems(2) r by auto
  with Cons.IH[of s1] Cons.prems(2) r show ?case by simp
qed simp

text \<open>The mask of the controller: what the data port of a chip reads is what was written to it last.\<close>

definition pic_data :: "'w ports \<Rightarrow> (u16 \<Rightarrow> 'w \<Rightarrow> u8) \<Rightarrow> bool" where
  "pic_data P m \<longleftrightarrow> (\<forall>w. \<forall>port \<in> {PIC_M_DATA, PIC_S_DATA}. fst (inb P port w) = m port w
     \<and> (\<forall>p \<in> {PIC_M_DATA, PIC_S_DATA}. m p (snd (inb P port w)) = m p w)
     \<and> (\<forall>v. \<forall>p \<in> {PIC_M_DATA, PIC_S_DATA}. m p (outb P port v w) = (if p = port then v else m p w)))"

definition masked :: "(u16 \<Rightarrow> 'w \<Rightarrow> u8) \<Rightarrow> u32 \<Rightarrow> 'w \<Rightarrow> bool" where
  "masked m irq w \<longleftrightarrow> (if irq < 8 then bit (m PIC_M_DATA w) (unat irq) else bit (m PIC_S_DATA w) (unat (irq - 8)))"

lemma interrupt_mask_law:
  assumes P: "pic_data P m" and irq: "irq < 16" "irq' < 16" and r: "interrupt_mask P irq enable s = Some s'"
  shows "masked m irq' (hw s') \<longleftrightarrow> (if irq' = irq then \<not> enable else masked m irq' (hw s))"
proof -
  let ?p = "\<lambda>i :: u32. if i < 8 then PIC_M_DATA else PIC_S_DATA" and ?n = "\<lambda>i :: u32. if i < 8 then unat i else unat (i - 8)"
  have n: "?n i < 8" if "i < 16" for i
    using that by (auto simp: word_less_nat_alt unat_sub word_le_nat_alt)
  have inj: "?p irq' = ?p irq \<and> ?n irq' = ?n irq \<longleftrightarrow> irq' = irq"
    by (auto simp: word_unat_eq_iff[symmetric] split: if_splits)
  obtain v w where i: "inb P (?p irq) (hw s) = (v, w)" by fastforce
  have vw: "v = m (?p irq) (hw s)" "m p w = m p (hw s)" if "p \<in> {PIC_M_DATA, PIC_S_DATA}" for p
    using P i that unfolding pic_data_def by (auto dest!: spec[of _ "hw s"] split: if_splits)
  let ?v = "if enable then v AND NOT (push_bit (?n irq) 1) else v OR push_bit (?n irq) 1"
  have s': "hw s' = outb P (?p irq) ?v w"
    using r i irq(1) by (auto simp: interrupt_mask_def split: if_splits)
  have m': "m (?p irq') (hw s') = (if ?p irq' = ?p irq then ?v else m (?p irq') (hw s))"
    unfolding s' using P vw(2)[of "?p irq'"] unfolding pic_data_def
    by (cases "irq' < 8"; cases "irq < 8") simp_all
  have "bit ?v (?n irq') \<longleftrightarrow> (if ?n irq' = ?n irq then \<not> enable else bit v (?n irq'))"
    using n[OF irq(2)] n[OF irq(1)] by (auto simp: bit_simps)
  then show ?thesis using m' inj vw(1)[of "?p irq"] unfolding masked_def by (auto split: if_splits)
qed

section \<open>Properties\<close>

text \<open>
  C13: the interrupt tables are well-formed. After \<^verbatim>\<open>interrupt_init\<close> on the zeroed tables and any
  registrations of handlers for the 16 lines, the gates present are exactly those of the 48
  vectors and of the system call, each an interrupt gate in the code segment of the kernel to the
  address of its entry; only the gate of the system call can be entered from user mode; every
  vector has a handler, and that of the page fault is \<^verbatim>\<open>page_fault\<close>.
\<close>

theorem interrupt_tables_wf:
  assumes "length (idt s) = 256" and "length (handler_table s) = 256" and "\<forall>g \<in> set (idt s). g_present g = 0"
    and "\<forall>(irq, h) \<in> set rs. irq < 16 \<and> h \<noteq> No_Handler"
  shows "\<exists>s'. register_all rs (interrupt_init P entries entry s) = Some s' \<and> idt_wf entries entry s'"
  unfolding interrupt_init_def
  by (rule register_all_wf[OF idt_init_wf assms(4)]) (simp_all add: assms(1-3))

definition sample_gate :: gate where
  "sample_gate = \<lparr>g_offset0 = 0, g_selector = 0, g_reserved = 0, g_type = 0, g_segment = 0, g_dpl = 0, g_present = 0, g_offset1 = 0\<rparr>"

text \<open>Ports that read back what was written.\<close>

definition latch_ports :: "(u16 \<Rightarrow> u8) ports" where
  "latch_ports = \<lparr>inb = (\<lambda>p w. (w p, w)), outb = (\<lambda>p v w. w(p := v)), inw = (\<lambda>p w. (ucast (w p), w)),
     outw = (\<lambda>p v w. w(p := ucast v))\<rparr>"

definition sample_intr :: "(u16 \<Rightarrow> u8) intr" where
  "sample_intr = sched.extend sample_sched \<lparr>idt = replicate 256 sample_gate, handler_table = replicate 256 No_Handler,
     hw = (\<lambda>_. 0)\<rparr>"

lemma sample_intr_fields [simp]:
  "idt sample_intr = replicate 256 sample_gate" "handler_table sample_intr = replicate 256 No_Handler"
  "hw sample_intr = (\<lambda>_. 0)"
  by (simp_all add: sample_intr_def sched.extend_def)

lemma interrupt_tables_wf_witness:
  "\<exists>s'. register_all [(0, Clock_Handler), (14, Ide_Handler)] (interrupt_init latch_ports (replicate 48 0x10000) 0x12340 sample_intr) = Some s'
    \<and> idt_wf (replicate 48 0x10000) 0x12340 s'"
  by (rule interrupt_tables_wf) (auto simp: sample_gate_def)

end
