(* ===== verification/Clock_Chip.thy ===== *)
theory Clock_Chip
  imports Interrupt Calendar
begin

text \<open>
  The real-time clock of \<^verbatim>\<open>kernel/rtc.c\<close> and the reading of it in \<^verbatim>\<open>kernel/time.c\<close> at the level of the
  ports; the arithmetic is that of \<open>Calendar\<close>.
\<close>

section \<open>Registers\<close>

abbreviation (input) CMOS_ADDR :: u16 where "CMOS_ADDR \<equiv> 0x70"
abbreviation (input) CMOS_DATA :: u16 where "CMOS_DATA \<equiv> 0x71"
abbreviation (input) CMOS_NMI :: u8 where "CMOS_NMI \<equiv> 0x80"
abbreviation (input) CMOS_A :: u8 where "CMOS_A \<equiv> 0x0A"
abbreviation (input) CMOS_B :: u8 where "CMOS_B \<equiv> 0x0B"
abbreviation (input) CMOS_C :: u8 where "CMOS_C \<equiv> 0x0C"
abbreviation (input) CMOS_SECOND_WRITE :: u8 where "CMOS_SECOND_WRITE \<equiv> 1"
abbreviation (input) CMOS_MINUTE_WRITE :: u8 where "CMOS_MINUTE_WRITE \<equiv> 3"
abbreviation (input) CMOS_HOUR_WRITE :: u8 where "CMOS_HOUR_WRITE \<equiv> 5"
abbreviation (input) IRQ_RTC :: u32 where "IRQ_RTC \<equiv> 8"

record 'w rtc = "'w intr" +
  boot_time :: u32
  century :: int
  rtc_counter :: u32

definition cmos_read :: "'w ports \<Rightarrow> u8 \<Rightarrow> 'w \<Rightarrow> u8 \<times> 'w" where
  "cmos_read P addr w = inb P CMOS_DATA (outb P CMOS_ADDR (CMOS_NMI OR addr) w)"

definition cmos_write :: "'w ports \<Rightarrow> u8 \<Rightarrow> u8 \<Rightarrow> 'w \<Rightarrow> 'w" where
  "cmos_write P addr v w = outb P CMOS_DATA v (outb P CMOS_ADDR (CMOS_NMI OR addr) w)"

section \<open>The time\<close>

partial_function (option) chip_time_bcd :: "'w ports \<Rightarrow> tm \<Rightarrow> 'w \<Rightarrow> (tm \<times> int \<times> 'w) option" where
  "chip_time_bcd P t w =
     (let (s, w) = cmos_read P 0x00 w; (mi, w) = cmos_read P 0x02 w; (h, w) = cmos_read P 0x04 w;
          (wd, w) = cmos_read P 0x06 w; (md, w) = cmos_read P 0x07 w; (mo, w) = cmos_read P 0x08 w;
          (y, w) = cmos_read P 0x09 w; (c, w) = cmos_read P 0x32 w;
          t = t\<lparr>tm_sec := uint s, tm_min := uint mi, tm_hour := uint h, tm_wday := uint wd, tm_mday := uint md,
                tm_mon := uint mo, tm_year := uint y\<rparr>;
          (s', w) = cmos_read P 0x00 w
      in if s \<noteq> s' then chip_time_bcd P t w else Some (t, uint c, w))"

definition chip_time_read :: "'w ports \<Rightarrow> tm \<Rightarrow> 'w rtc \<Rightarrow> (tm \<times> 'w rtc) option" where
  "chip_time_read P t s = do {
     (t, c, w) \<leftarrow> chip_time_bcd P t (hw s);
     let t = t\<lparr>tm_sec := bcd (tm_sec t)\<rparr>;
     let t = t\<lparr>tm_min := bcd (tm_min t)\<rparr>;
     let t = t\<lparr>tm_hour := bcd (tm_hour t)\<rparr>;
     let t = t\<lparr>tm_wday := bcd (tm_wday t)\<rparr>;
     let t = t\<lparr>tm_mday := bcd (tm_mday t)\<rparr>;
     let t = t\<lparr>tm_mon := bcd (tm_mon t)\<rparr>;
     let t = t\<lparr>tm_year := bcd (tm_year t)\<rparr>;
     yday \<leftarrow> get_yday t;
     Some (t\<lparr>tm_yday := yday, tm_isdst := - 1\<rparr>, s\<lparr>hw := w, century := bcd c\<rparr>)
   }"

text \<open>\<open>t\<close> is the local variable, whose fields are not set before.\<close>

definition time_init :: "'w ports \<Rightarrow> tm \<Rightarrow> 'w rtc \<Rightarrow> 'w rtc option" where
  "time_init P t s = do {
     (t, s) \<leftarrow> chip_time_read P t s;
     stamp \<leftarrow> mktime t;
     Some (s\<lparr>boot_time := stamp\<rparr>)
   }"

section \<open>The alarm\<close>

definition chip_set_alarm :: "'w ports \<Rightarrow> u32 \<Rightarrow> tm \<Rightarrow> 'w rtc \<Rightarrow> 'w rtc option" where
  "chip_set_alarm P secs t s = do {
     (t, s) \<leftarrow> chip_time_read P t s;
     let (h, m, sec) = set_alarm secs t;
     let w = cmos_write P CMOS_HOUR_WRITE h (hw s);
     let w = cmos_write P CMOS_MINUTE_WRITE m w;
     Some (s\<lparr>hw := cmos_write P CMOS_SECOND_WRITE sec w\<rparr>)
   }"

definition rtc_handler :: "'w ports \<Rightarrow> tm \<Rightarrow> int \<Rightarrow> 'w rtc \<Rightarrow> 'w rtc option" where
  "rtc_handler P t vector s = do {
     check (vector = 0x28);
     let s = send_eoi P vector s;
     let (_, w) = cmos_read P CMOS_C (hw s);
     s \<leftarrow> chip_set_alarm P 1 t (s\<lparr>hw := w\<rparr>);
     time_init P t (s\<lparr>rtc_counter := rtc_counter s + 1\<rparr>)
   }"

text \<open>The rate is read from and written to the port with the number of register A, not to the register.\<close>

definition rtc_init :: "'w ports \<Rightarrow> tm \<Rightarrow> 'w rtc \<Rightarrow> 'w rtc option" where
  "rtc_init P t s = do {
     let w = cmos_write P CMOS_B 0x42 (hw s);
     let (_, w) = cmos_read P CMOS_C w;
     s \<leftarrow> chip_set_alarm P 2 t (s\<lparr>hw := w\<rparr>);
     let (v, w) = inb P (ucast CMOS_A) (hw s);
     let s = s\<lparr>hw := outb P (ucast CMOS_A) (v AND 0xF OR 0xE) w\<rparr>;
     s \<leftarrow> interrupt_register IRQ_RTC Rtc_Handler s;
     s \<leftarrow> interrupt_mask P IRQ_RTC True s;
     interrupt_mask P IRQ_CASCADE True s
   }"

section \<open>A chip\<close>

text \<open>What the documents say: reading gives the register selected, writing sets it, and no other changes.\<close>

definition rtc_chip :: "'w ports \<Rightarrow> ('w \<Rightarrow> u8 \<Rightarrow> u8) \<Rightarrow> bool" where
  "rtc_chip P reg \<longleftrightarrow>
     (\<forall>w a. a < 0x80 \<longrightarrow> fst (cmos_read P a w) = reg w a \<and> reg (snd (cmos_read P a w)) = reg w)
     \<and> (\<forall>w a v. a < 0x80 \<longrightarrow> reg (cmos_write P a v w) = (reg w)(a := v))"

lemma chip_time_bcd_law:
  assumes C: "rtc_chip P reg"
  shows "\<exists>w'. chip_time_bcd P t w = Some (t\<lparr>tm_sec := uint (reg w 0), tm_min := uint (reg w 2), tm_hour := uint (reg w 4),
      tm_wday := uint (reg w 6), tm_mday := uint (reg w 7), tm_mon := uint (reg w 8), tm_year := uint (reg w 9)\<rparr>,
      uint (reg w 0x32), w') \<and> reg w' = reg w"
proof -
  have r: "a < 0x80 \<Longrightarrow> fst (cmos_read P a w) = reg w a" "a < 0x80 \<Longrightarrow> reg (snd (cmos_read P a w)) = reg w" for a w
    using C by (simp_all add: rtc_chip_def)
  show ?thesis by (subst chip_time_bcd.simps) (simp add: Let_def split_beta r)
qed

text \<open>
  While the time stands still, reading the chip through the ports is reading it as \<open>Calendar\<close>
  has it.
\<close>

lemma chip_time_read_refines:
  assumes C: "rtc_chip P reg"
  shows "map_option fst (chip_time_read P t s) = map_option fst (time_read (\<lambda>n a. reg (hw s) a) 0 t)"
proof -
  obtain w where w: "chip_time_bcd P t (hw s) = Some (t\<lparr>tm_sec := uint (reg (hw s) 0), tm_min := uint (reg (hw s) 2),
      tm_hour := uint (reg (hw s) 4), tm_wday := uint (reg (hw s) 6), tm_mday := uint (reg (hw s) 7),
      tm_mon := uint (reg (hw s) 8), tm_year := uint (reg (hw s) 9)\<rparr>, uint (reg (hw s) 0x32), w)"
    using chip_time_bcd_law[OF C] by blast
  show ?thesis unfolding chip_time_read_def time_read_def w
    by (subst time_read_bcd.simps) (simp add: Let_def split_beta map_option_case split: option.splits Option.bind_splits)
qed

text \<open>
  The alarm goes off the given number of seconds after the time that the chip shows, when that is
  a time of day.
\<close>

lemma alarm_programmed:
  assumes C: "rtc_chip P reg" and r: "chip_time_read P t s = Some (now, s1)"
    and v: "0 \<le> tm_sec now" "tm_sec now < 60" "0 \<le> tm_min now" "tm_min now < 60" "0 \<le> tm_hour now" "tm_hour now < 24"
  shows "\<exists>s'. chip_set_alarm P secs t s = Some s'
    \<and> 3600 * uint (bcd_to_bin (reg (hw s') 5)) + 60 * uint (bcd_to_bin (reg (hw s') 3)) + uint (bcd_to_bin (reg (hw s') 1))
      = (3600 * tm_hour now + 60 * tm_min now + tm_sec now + uint secs) mod 86400"
proof -
  obtain h m sec where a: "set_alarm secs now = (h, m, sec)"
    "3600 * uint (bcd_to_bin h) + 60 * uint (bcd_to_bin m) + uint (bcd_to_bin sec)
      = (3600 * tm_hour now + 60 * tm_min now + tm_sec now + uint secs) mod 86400"
    using set_alarm_after[OF v] by blast
  have w: "a < 0x80 \<Longrightarrow> reg (cmos_write P a v w) = (reg w)(a := v)" for a v w using C by (simp add: rtc_chip_def)
  show ?thesis using r a by (simp add: chip_set_alarm_def w)
qed

end
