(* ===== verification/Syscalls.thy ===== *)
theory Syscalls
  imports Interrupt
begin

text \<open>
  The way of a system call: the stubs of \<^verbatim>\<open>lib/syscall.c\<close>, which put the number and the arguments into
  registers, the entry \<^verbatim>\<open>syscall_handler\<close>, which passes the registers to the function of the table, and
  the table of \<^verbatim>\<open>kernel/gate.c\<close>. The functions of the kernel are known by their names here; the other
  theories define them.
\<close>

section \<open>The table\<close>

abbreviation (input) SYSCALL_SIZE :: nat where "SYSCALL_SIZE \<equiv> 256"

abbreviation (input) SYS_NR_TEST :: nat where "SYS_NR_TEST \<equiv> 0"
abbreviation (input) SYS_NR_EXIT :: nat where "SYS_NR_EXIT \<equiv> 1"
abbreviation (input) SYS_NR_FORK :: nat where "SYS_NR_FORK \<equiv> 2"
abbreviation (input) SYS_NR_READ :: nat where "SYS_NR_READ \<equiv> 3"
abbreviation (input) SYS_NR_WRITE :: nat where "SYS_NR_WRITE \<equiv> 4"
abbreviation (input) SYS_NR_OPEN :: nat where "SYS_NR_OPEN \<equiv> 5"
abbreviation (input) SYS_NR_CLOSE :: nat where "SYS_NR_CLOSE \<equiv> 6"
abbreviation (input) SYS_NR_WAITPID :: nat where "SYS_NR_WAITPID \<equiv> 7"
abbreviation (input) SYS_NR_CREAT :: nat where "SYS_NR_CREAT \<equiv> 8"
abbreviation (input) SYS_NR_LINK :: nat where "SYS_NR_LINK \<equiv> 9"
abbreviation (input) SYS_NR_UNLINK :: nat where "SYS_NR_UNLINK \<equiv> 10"
abbreviation (input) SYS_NR_EXECVE :: nat where "SYS_NR_EXECVE \<equiv> 11"
abbreviation (input) SYS_NR_CHDIR :: nat where "SYS_NR_CHDIR \<equiv> 12"
abbreviation (input) SYS_NR_TIME :: nat where "SYS_NR_TIME \<equiv> 13"
abbreviation (input) SYS_NR_MKNOD :: nat where "SYS_NR_MKNOD \<equiv> 14"
abbreviation (input) SYS_NR_STAT :: nat where "SYS_NR_STAT \<equiv> 18"
abbreviation (input) SYS_NR_LSEEK :: nat where "SYS_NR_LSEEK \<equiv> 19"
abbreviation (input) SYS_NR_GETPID :: nat where "SYS_NR_GETPID \<equiv> 20"
abbreviation (input) SYS_NR_MOUNT :: nat where "SYS_NR_MOUNT \<equiv> 21"
abbreviation (input) SYS_NR_UMOUNT :: nat where "SYS_NR_UMOUNT \<equiv> 22"
abbreviation (input) SYS_NR_FSTAT :: nat where "SYS_NR_FSTAT \<equiv> 28"
abbreviation (input) SYS_NR_MKDIR :: nat where "SYS_NR_MKDIR \<equiv> 39"
abbreviation (input) SYS_NR_RMDIR :: nat where "SYS_NR_RMDIR \<equiv> 40"
abbreviation (input) SYS_NR_DUP :: nat where "SYS_NR_DUP \<equiv> 41"
abbreviation (input) SYS_NR_PIPE :: nat where "SYS_NR_PIPE \<equiv> 42"
abbreviation (input) SYS_NR_BRK :: nat where "SYS_NR_BRK \<equiv> 45"
abbreviation (input) SYS_NR_UMASK :: nat where "SYS_NR_UMASK \<equiv> 60"
abbreviation (input) SYS_NR_CHROOT :: nat where "SYS_NR_CHROOT \<equiv> 61"
abbreviation (input) SYS_NR_DUP2 :: nat where "SYS_NR_DUP2 \<equiv> 63"
abbreviation (input) SYS_NR_GETPPID :: nat where "SYS_NR_GETPPID \<equiv> 64"
abbreviation (input) SYS_NR_READDIR :: nat where "SYS_NR_READDIR \<equiv> 89"
abbreviation (input) SYS_NR_MMAP :: nat where "SYS_NR_MMAP \<equiv> 90"
abbreviation (input) SYS_NR_MUNMAP :: nat where "SYS_NR_MUNMAP \<equiv> 91"
abbreviation (input) SYS_NR_YIELD :: nat where "SYS_NR_YIELD \<equiv> 158"
abbreviation (input) SYS_NR_SLEEP :: nat where "SYS_NR_SLEEP \<equiv> 162"
abbreviation (input) SYS_NR_GETCWD :: nat where "SYS_NR_GETCWD \<equiv> 183"
abbreviation (input) SYS_NR_CLEAR :: nat where "SYS_NR_CLEAR \<equiv> 200"
abbreviation (input) SYS_NR_MKFS :: nat where "SYS_NR_MKFS \<equiv> 201"

datatype kernel_call = Sys_default | Sys_test | Task_exit | Task_fork | Sys_read | Sys_write | Sys_open | Sys_close | Task_waitpid
  | Sys_creat | Sys_link | Sys_unlink | Sys_execve | Sys_chdir | Sys_time | Sys_mknod | Sys_stat | Sys_lseek
  | Sys_getpid | Sys_mount | Sys_umount | Sys_mkdir | Sys_rmdir | Sys_dup | Sys_pipe | Sys_brk | Sys_umask
  | Sys_chroot | Sys_dup2 | Sys_getppid | Sys_mmap | Sys_munmap | Sys_readdir | Task_sleep | Task_yield | Sys_getcwd
  | Console_clear | Sys_mkfs

definition syscall_init :: "kernel_call list" where
  "syscall_init = (let t = fold (\<lambda>i t. t[i := Sys_default]) [0..<SYSCALL_SIZE] (replicate SYSCALL_SIZE Sys_default);
       t = t[SYS_NR_TEST := Sys_test];
       t = t[SYS_NR_EXIT := Task_exit];
       t = t[SYS_NR_FORK := Task_fork];
       t = t[SYS_NR_READ := Sys_read];
       t = t[SYS_NR_WRITE := Sys_write];
       t = t[SYS_NR_OPEN := Sys_open];
       t = t[SYS_NR_CLOSE := Sys_close];
       t = t[SYS_NR_WAITPID := Task_waitpid];
       t = t[SYS_NR_CREAT := Sys_creat];
       t = t[SYS_NR_LINK := Sys_link];
       t = t[SYS_NR_UNLINK := Sys_unlink];
       t = t[SYS_NR_EXECVE := Sys_execve];
       t = t[SYS_NR_CHDIR := Sys_chdir];
       t = t[SYS_NR_TIME := Sys_time];
       t = t[SYS_NR_MKNOD := Sys_mknod];
       t = t[SYS_NR_STAT := Sys_stat];
       t = t[SYS_NR_LSEEK := Sys_lseek];
       t = t[SYS_NR_GETPID := Sys_getpid];
       t = t[SYS_NR_MOUNT := Sys_mount];
       t = t[SYS_NR_UMOUNT := Sys_umount];
       t = t[SYS_NR_MKDIR := Sys_mkdir];
       t = t[SYS_NR_RMDIR := Sys_rmdir];
       t = t[SYS_NR_DUP := Sys_dup];
       t = t[SYS_NR_PIPE := Sys_pipe];
       t = t[SYS_NR_BRK := Sys_brk];
       t = t[SYS_NR_UMASK := Sys_umask];
       t = t[SYS_NR_CHROOT := Sys_chroot];
       t = t[SYS_NR_DUP2 := Sys_dup2];
       t = t[SYS_NR_GETPPID := Sys_getppid];
       t = t[SYS_NR_MMAP := Sys_mmap];
       t = t[SYS_NR_MUNMAP := Sys_munmap];
       t = t[SYS_NR_READDIR := Sys_readdir];
       t = t[SYS_NR_SLEEP := Task_sleep];
       t = t[SYS_NR_YIELD := Task_yield];
       t = t[SYS_NR_GETCWD := Sys_getcwd];
       t = t[SYS_NR_CLEAR := Console_clear]
     in t[SYS_NR_MKFS := Sys_mkfs])"

definition syscall_check :: "u32 \<Rightarrow> unit option" where
  "syscall_check nr = check (nr < 256)"

text \<open>\<^verbatim>\<open>sys_test\<close> returns before it does anything; \<^verbatim>\<open>sys_default\<close> panics.\<close>

definition sys_test :: u32 where
  "sys_test = 0"

definition sys_default :: "u32 option" where
  "sys_default = None"

section \<open>The entry\<close>

record registers =
  eax :: u32
  ebx :: u32
  ecx :: u32
  edx :: u32
  esi :: u32
  edi :: u32
  ebp :: u32

text \<open>The function called, and the arguments on its stack.\<close>

definition syscall_handler :: "kernel_call list \<Rightarrow> registers \<Rightarrow> (kernel_call \<times> u32 list) option" where
  "syscall_handler table r = do {
     syscall_check (eax r);
     f \<leftarrow> rd table (unat (eax r));
     Some (f, [ebx r, ecx r, edx r, esi r, edi r, ebp r])
   }"

section \<open>The stubs\<close>

text \<open>The registers when \<^verbatim>\<open>int 0x80\<close> is executed; those a stub does not set keep what they had.\<close>

definition syscall0 :: "nat \<Rightarrow> registers \<Rightarrow> registers" where
  "syscall0 nr r = r\<lparr>eax := of_nat nr\<rparr>"

definition syscall1 :: "nat \<Rightarrow> u32 \<Rightarrow> registers \<Rightarrow> registers" where
  "syscall1 nr a r = r\<lparr>eax := of_nat nr, ebx := a\<rparr>"

definition syscall2 :: "nat \<Rightarrow> u32 \<Rightarrow> u32 \<Rightarrow> registers \<Rightarrow> registers" where
  "syscall2 nr a b r = r\<lparr>eax := of_nat nr, ebx := a, ecx := b\<rparr>"

definition syscall3 :: "nat \<Rightarrow> u32 \<Rightarrow> u32 \<Rightarrow> u32 \<Rightarrow> registers \<Rightarrow> registers" where
  "syscall3 nr a b c r = r\<lparr>eax := of_nat nr, ebx := a, ecx := b, edx := c\<rparr>"

definition syscall4 :: "nat \<Rightarrow> u32 \<Rightarrow> u32 \<Rightarrow> u32 \<Rightarrow> u32 \<Rightarrow> registers \<Rightarrow> registers" where
  "syscall4 nr a b c d r = r\<lparr>eax := of_nat nr, ebx := a, ecx := b, edx := c, esi := d\<rparr>"

definition syscall5 :: "nat \<Rightarrow> u32 \<Rightarrow> u32 \<Rightarrow> u32 \<Rightarrow> u32 \<Rightarrow> u32 \<Rightarrow> registers \<Rightarrow> registers" where
  "syscall5 nr a b c d e r = r\<lparr>eax := of_nat nr, ebx := a, ecx := b, edx := c, esi := d, edi := e\<rparr>"

definition syscall6 :: "nat \<Rightarrow> u32 \<Rightarrow> u32 \<Rightarrow> u32 \<Rightarrow> u32 \<Rightarrow> u32 \<Rightarrow> u32 \<Rightarrow> registers \<Rightarrow> registers" where
  "syscall6 nr a b c d e f r = r\<lparr>eax := of_nat nr, ebx := a, ecx := b, edx := c, esi := d, edi := e, ebp := f\<rparr>"

datatype (plugins only: code) user_call = U_test | U_exit u32 | U_fork | U_read u32 u32 u32 | U_write u32 u32 u32
  | U_open u32 u32 u32 | U_close u32 | U_waitpid u32 u32 | U_creat u32 u32 | U_link u32 u32
  | U_unlink u32 | U_execve u32 u32 u32 | U_chdir u32 | U_time | U_mknod u32 u32 u32
  | U_stat u32 u32 | U_lseek u32 u32 u32 | U_getpid | U_mount u32 u32 u32 | U_umount u32
  | U_fstat u32 u32 | U_mkdir u32 u32 | U_rmdir u32 | U_dup u32 | U_pipe u32
  | U_brk u32 | U_umask u32 | U_chroot u32 | U_dup2 u32 u32 | U_getppid
  | U_readdir u32 u32 u32 | U_mmap u32 u32 u32 u32 u32 u32 | U_munmap u32 u32 | U_yield | U_sleep u32
  | U_getcwd u32 u32 | U_clear | U_mkfs u32 u32

primrec stub :: "user_call \<Rightarrow> registers \<Rightarrow> registers" where
  "stub U_test = syscall0 SYS_NR_TEST"
| "stub (U_exit a) = syscall1 SYS_NR_EXIT a"
| "stub U_fork = syscall0 SYS_NR_FORK"
| "stub (U_read a b c) = syscall3 SYS_NR_READ a b c"
| "stub (U_write a b c) = syscall3 SYS_NR_WRITE a b c"
| "stub (U_open a b c) = syscall3 SYS_NR_OPEN a b c"
| "stub (U_close a) = syscall1 SYS_NR_CLOSE a"
| "stub (U_waitpid a b) = syscall2 SYS_NR_WAITPID a b"
| "stub (U_creat a b) = syscall2 SYS_NR_CREAT a b"
| "stub (U_link a b) = syscall2 SYS_NR_LINK a b"
| "stub (U_unlink a) = syscall1 SYS_NR_UNLINK a"
| "stub (U_execve a b c) = syscall3 SYS_NR_EXECVE a b c"
| "stub (U_chdir a) = syscall1 SYS_NR_CHDIR a"
| "stub U_time = syscall0 SYS_NR_TIME"
| "stub (U_mknod a b c) = syscall3 SYS_NR_MKNOD a b c"
| "stub (U_stat a b) = syscall2 SYS_NR_STAT a b"
| "stub (U_lseek a b c) = syscall3 SYS_NR_LSEEK a b c"
| "stub U_getpid = syscall0 SYS_NR_GETPID"
| "stub (U_mount a b c) = syscall3 SYS_NR_MOUNT a b c"
| "stub (U_umount a) = syscall1 SYS_NR_UMOUNT a"
| "stub (U_fstat a b) = syscall2 SYS_NR_FSTAT a b"
| "stub (U_mkdir a b) = syscall2 SYS_NR_MKDIR a b"
| "stub (U_rmdir a) = syscall1 SYS_NR_RMDIR a"
| "stub (U_dup a) = syscall1 SYS_NR_DUP a"
| "stub (U_pipe a) = syscall1 SYS_NR_PIPE a"
| "stub (U_brk a) = syscall1 SYS_NR_BRK a"
| "stub (U_umask a) = syscall1 SYS_NR_UMASK a"
| "stub (U_chroot a) = syscall1 SYS_NR_CHROOT a"
| "stub (U_dup2 a b) = syscall2 SYS_NR_DUP2 a b"
| "stub U_getppid = syscall0 SYS_NR_GETPPID"
| "stub (U_readdir a b c) = syscall3 SYS_NR_READDIR a b c"
| "stub (U_mmap a b c d e f) = syscall6 SYS_NR_MMAP a b c d e f"
| "stub (U_munmap a b) = syscall2 SYS_NR_MUNMAP a b"
| "stub U_yield = syscall0 SYS_NR_YIELD"
| "stub (U_sleep a) = syscall1 SYS_NR_SLEEP a"
| "stub (U_getcwd a b) = syscall2 SYS_NR_GETCWD a b"
| "stub U_clear = syscall0 SYS_NR_CLEAR"
| "stub (U_mkfs a b) = syscall2 SYS_NR_MKFS a b"

text \<open>
  What the stub hands to its caller when the kernel has returned \<open>v\<close>: nothing for the functions of
  type void, and nothing for \<^verbatim>\<open>mkfs\<close>, which has no return statement.
\<close>

definition stub_result :: "user_call \<Rightarrow> u32 \<Rightarrow> u32 option" where
  "stub_result u v = (case u of
     U_exit _ \<Rightarrow> None | U_close _ \<Rightarrow> None | U_yield \<Rightarrow> None | U_sleep _ \<Rightarrow> None | U_clear \<Rightarrow> None | U_mkfs _ _ \<Rightarrow> None
   | _ \<Rightarrow> Some v)"

section \<open>The functions meant\<close>

text \<open>The function of the kernel with the name of the stub, and the arguments of the caller.\<close>

primrec kernel_function :: "user_call \<Rightarrow> kernel_call" where
  "kernel_function U_test = Sys_test"
| "kernel_function (U_exit _) = Task_exit"
| "kernel_function U_fork = Task_fork"
| "kernel_function (U_read _ _ _) = Sys_read"
| "kernel_function (U_write _ _ _) = Sys_write"
| "kernel_function (U_open _ _ _) = Sys_open"
| "kernel_function (U_close _) = Sys_close"
| "kernel_function (U_waitpid _ _) = Task_waitpid"
| "kernel_function (U_creat _ _) = Sys_creat"
| "kernel_function (U_link _ _) = Sys_link"
| "kernel_function (U_unlink _) = Sys_unlink"
| "kernel_function (U_execve _ _ _) = Sys_execve"
| "kernel_function (U_chdir _) = Sys_chdir"
| "kernel_function U_time = Sys_time"
| "kernel_function (U_mknod _ _ _) = Sys_mknod"
| "kernel_function (U_stat _ _) = Sys_stat"
| "kernel_function (U_lseek _ _ _) = Sys_lseek"
| "kernel_function U_getpid = Sys_getpid"
| "kernel_function (U_mount _ _ _) = Sys_mount"
| "kernel_function (U_umount _) = Sys_umount"
| "kernel_function (U_fstat _ _) = Sys_default"
| "kernel_function (U_mkdir _ _) = Sys_mkdir"
| "kernel_function (U_rmdir _) = Sys_rmdir"
| "kernel_function (U_dup _) = Sys_dup"
| "kernel_function (U_pipe _) = Sys_pipe"
| "kernel_function (U_brk _) = Sys_brk"
| "kernel_function (U_umask _) = Sys_umask"
| "kernel_function (U_chroot _) = Sys_chroot"
| "kernel_function (U_dup2 _ _) = Sys_dup2"
| "kernel_function U_getppid = Sys_getppid"
| "kernel_function (U_readdir _ _ _) = Sys_readdir"
| "kernel_function (U_mmap _ _ _ _ _ _) = Sys_mmap"
| "kernel_function (U_munmap _ _) = Sys_munmap"
| "kernel_function U_yield = Task_yield"
| "kernel_function (U_sleep _) = Task_sleep"
| "kernel_function (U_getcwd _ _) = Sys_getcwd"
| "kernel_function U_clear = Console_clear"
| "kernel_function (U_mkfs _ _) = Sys_mkfs"

primrec call_arguments :: "user_call \<Rightarrow> u32 list" where
  "call_arguments U_test = []"
| "call_arguments (U_exit a) = [a]"
| "call_arguments U_fork = []"
| "call_arguments (U_read a b c) = [a, b, c]"
| "call_arguments (U_write a b c) = [a, b, c]"
| "call_arguments (U_open a b c) = [a, b, c]"
| "call_arguments (U_close a) = [a]"
| "call_arguments (U_waitpid a b) = [a, b]"
| "call_arguments (U_creat a b) = [a, b]"
| "call_arguments (U_link a b) = [a, b]"
| "call_arguments (U_unlink a) = [a]"
| "call_arguments (U_execve a b c) = [a, b, c]"
| "call_arguments (U_chdir a) = [a]"
| "call_arguments U_time = []"
| "call_arguments (U_mknod a b c) = [a, b, c]"
| "call_arguments (U_stat a b) = [a, b]"
| "call_arguments (U_lseek a b c) = [a, b, c]"
| "call_arguments U_getpid = []"
| "call_arguments (U_mount a b c) = [a, b, c]"
| "call_arguments (U_umount a) = [a]"
| "call_arguments (U_fstat a b) = [a, b]"
| "call_arguments (U_mkdir a b) = [a, b]"
| "call_arguments (U_rmdir a) = [a]"
| "call_arguments (U_dup a) = [a]"
| "call_arguments (U_pipe a) = [a]"
| "call_arguments (U_brk a) = [a]"
| "call_arguments (U_umask a) = [a]"
| "call_arguments (U_chroot a) = [a]"
| "call_arguments (U_dup2 a b) = [a, b]"
| "call_arguments U_getppid = []"
| "call_arguments (U_readdir a b c) = [a, b, c]"
| "call_arguments (U_mmap a b c d e f) = [a, b, c, d, e, f]"
| "call_arguments (U_munmap a b) = [a, b]"
| "call_arguments U_yield = []"
| "call_arguments (U_sleep a) = [a]"
| "call_arguments (U_getcwd a b) = [a, b]"
| "call_arguments U_clear = []"
| "call_arguments (U_mkfs a b) = [a, b]"

lemmas syscall_regs = syscall0_def syscall1_def syscall2_def syscall3_def syscall4_def syscall5_def syscall6_def

lemma syscall_table_nth:
  "i < 256 \<Longrightarrow> syscall_init ! i = (if i = 201 then Sys_mkfs else
     if i = 200 then Console_clear else
     if i = 183 then Sys_getcwd else
     if i = 158 then Task_yield else
     if i = 162 then Task_sleep else
     if i = 89 then Sys_readdir else
     if i = 91 then Sys_munmap else
     if i = 90 then Sys_mmap else
     if i = 64 then Sys_getppid else
     if i = 63 then Sys_dup2 else
     if i = 61 then Sys_chroot else
     if i = 60 then Sys_umask else
     if i = 45 then Sys_brk else
     if i = 42 then Sys_pipe else
     if i = 41 then Sys_dup else
     if i = 40 then Sys_rmdir else
     if i = 39 then Sys_mkdir else
     if i = 22 then Sys_umount else
     if i = 21 then Sys_mount else
     if i = 20 then Sys_getpid else
     if i = 19 then Sys_lseek else
     if i = 18 then Sys_stat else
     if i = 14 then Sys_mknod else
     if i = 13 then Sys_time else
     if i = 12 then Sys_chdir else
     if i = 11 then Sys_execve else
     if i = 10 then Sys_unlink else
     if i = 9 then Sys_link else
     if i = 8 then Sys_creat else
     if i = 7 then Task_waitpid else
     if i = 6 then Sys_close else
     if i = 5 then Sys_open else
     if i = 4 then Sys_write else
     if i = 3 then Sys_read else
     if i = 2 then Task_fork else
     if i = 1 then Task_exit else
     if i = 0 then Sys_test else Sys_default)"
  by (simp add: syscall_init_def Let_def fold_update_nth nth_list_update del: upt_rec_numeral)

lemma syscall_table_at:
  "syscall_init ! 0 = Sys_test"
  "syscall_init ! Suc 0 = Task_exit"
  "syscall_init ! 2 = Task_fork"
  "syscall_init ! 3 = Sys_read"
  "syscall_init ! 4 = Sys_write"
  "syscall_init ! 5 = Sys_open"
  "syscall_init ! 6 = Sys_close"
  "syscall_init ! 7 = Task_waitpid"
  "syscall_init ! 8 = Sys_creat"
  "syscall_init ! 9 = Sys_link"
  "syscall_init ! 10 = Sys_unlink"
  "syscall_init ! 11 = Sys_execve"
  "syscall_init ! 12 = Sys_chdir"
  "syscall_init ! 13 = Sys_time"
  "syscall_init ! 14 = Sys_mknod"
  "syscall_init ! 18 = Sys_stat"
  "syscall_init ! 19 = Sys_lseek"
  "syscall_init ! 20 = Sys_getpid"
  "syscall_init ! 21 = Sys_mount"
  "syscall_init ! 22 = Sys_umount"
  "syscall_init ! 39 = Sys_mkdir"
  "syscall_init ! 40 = Sys_rmdir"
  "syscall_init ! 41 = Sys_dup"
  "syscall_init ! 42 = Sys_pipe"
  "syscall_init ! 45 = Sys_brk"
  "syscall_init ! 60 = Sys_umask"
  "syscall_init ! 61 = Sys_chroot"
  "syscall_init ! 63 = Sys_dup2"
  "syscall_init ! 64 = Sys_getppid"
  "syscall_init ! 90 = Sys_mmap"
  "syscall_init ! 91 = Sys_munmap"
  "syscall_init ! 89 = Sys_readdir"
  "syscall_init ! 162 = Task_sleep"
  "syscall_init ! 158 = Task_yield"
  "syscall_init ! 183 = Sys_getcwd"
  "syscall_init ! 200 = Console_clear"
  "syscall_init ! 201 = Sys_mkfs"
  "syscall_init ! 28 = Sys_default"
  "length syscall_init = 256"
  by (simp_all add: syscall_table_nth) (simp add: syscall_init_def Let_def)

lemma stub_number: "unat (eax (stub u r)) < 256"
  by (cases u) (simp_all add: syscall_regs)

lemma handler_law:
  assumes "unat (eax r) < 256"
  shows "syscall_handler syscall_init r
    = Some (syscall_init ! unat (eax r), [ebx r, ecx r, edx r, esi r, edi r, ebp r])"
  using assms by (simp add: syscall_handler_def syscall_check_def word_less_nat_alt rd_def syscall_table_at check_def)

section \<open>Properties\<close>

text \<open>
  C14: a system call reaches the function of its name. For every stub, whatever the registers held,
  the entry finds in the table the function of the kernel with the stub's name, and the arguments of the
  caller are its first arguments in their order; only \<^verbatim>\<open>fstat\<close> has no entry, it
  ends in \<^verbatim>\<open>sys_default\<close>, although \<^verbatim>\<open>fs/stat.c\<close> has a \<^verbatim>\<open>sys_fstat\<close>.
\<close>

theorem stubs_reach_kernel:
  "\<exists>rest. syscall_handler syscall_init (stub u r) = Some (kernel_function u, call_arguments u @ rest)
     \<and> (kernel_function u = Sys_default \<longleftrightarrow> (\<exists>fd statbuf. u = U_fstat fd statbuf))"
  unfolding handler_law[OF stub_number]
  by (cases u) (simp_all add: syscall_regs syscall_table_at)

end
