(* ===== verification/Serial.thy ===== *)
theory Serial
  imports Interrupt Fifo Device
begin

text \<open>
  \<^verbatim>\<open>kernel/serial.c\<close>: the two serial lines. The interrupt handler puts what arrives into the ring
  buffer of the line, readers take it from there and sleep while it is empty, writers poll the
  line and sleep while it is busy. \<open>resume\<close> is what happens from the moment the calling task has
  given up the processor in \<^verbatim>\<open>task_block\<close> until it runs again: other tasks and the interrupts.
\<close>

section \<open>State\<close>

abbreviation (input) DEV_SERIAL :: int where "DEV_SERIAL \<equiv> 3"
abbreviation (input) COM_INTR_ENABLE :: u16 where "COM_INTR_ENABLE \<equiv> 1"
abbreviation (input) COM_BAUD_LSB :: u16 where "COM_BAUD_LSB \<equiv> 0"
abbreviation (input) COM_BAUD_MSB :: u16 where "COM_BAUD_MSB \<equiv> 1"
abbreviation (input) COM_LINE_CONTROL :: u16 where "COM_LINE_CONTROL \<equiv> 3"
abbreviation (input) COM_MODEM_CONTROL :: u16 where "COM_MODEM_CONTROL \<equiv> 4"
abbreviation (input) COM_LINE_STATUS :: u16 where "COM_LINE_STATUS \<equiv> 5"
abbreviation (input) LSR_DR :: u8 where "LSR_DR \<equiv> 1"
abbreviation (input) LSR_THRE :: u8 where "LSR_THRE \<equiv> 0x20"

record serial =
  s_iobase :: u16
  s_rx :: fifo
  s_rlock :: driver_lock
  s_rx_waiter :: "nat option"
  s_wlock :: driver_lock
  s_tx_waiter :: "nat option"

record 'w com = "'w intr" +
  serials :: "serial list"

type_synonym 'w resume = "'w com \<Rightarrow> 'w com option"

definition upd_serial :: "nat \<Rightarrow> (serial \<Rightarrow> serial) \<Rightarrow> 'w com \<Rightarrow> 'w com option" where
  "upd_serial i f s = do {
     l \<leftarrow> rd (serials s) i;
     Some (s\<lparr>serials := (serials s)[i := f l]\<rparr>)
   }"

section \<open>The interrupt\<close>

definition cr_to_lf :: "u8 \<Rightarrow> u8" where
  "cr_to_lf ch = (if ch = 13 then 10 else ch)"

definition recv_data :: "'w ports \<Rightarrow> nat \<Rightarrow> 'w com \<Rightarrow> 'w com option" where
  "recv_data P i s = do {
     l \<leftarrow> rd (serials s) i;
     let (ch, w) = inb P (s_iobase l) (hw s);
     f \<leftarrow> fifo_put (s_rx l) (cr_to_lf ch);
     s \<leftarrow> upd_serial i (\<lambda>l. l\<lparr>s_rx := f\<rparr>) (s\<lparr>hw := w\<rparr>);
     case s_rx_waiter l of
       None \<Rightarrow> Some s
     | Some t \<Rightarrow> do { s \<leftarrow> task_unblock t s; upd_serial i (\<lambda>l. l\<lparr>s_rx_waiter := None\<rparr>) s }
   }"

text \<open>The index of the line is \<^verbatim>\<open>irq - IRQ_SERIAL_1\<close>, unsigned.\<close>

definition serial_handler :: "'w ports \<Rightarrow> int \<Rightarrow> 'w com \<Rightarrow> 'w com option" where
  "serial_handler P vector s = do {
     let irq = (word_of_int (vector - 0x20) :: u32);
     check (irq = IRQ_SERIAL_1 \<or> irq = IRQ_SERIAL_2);
     let s = send_eoi P vector s;
     let i = unat (irq - IRQ_SERIAL_1);
     l \<leftarrow> rd (serials s) i;
     let (state, w) = inb P (s_iobase l + COM_LINE_STATUS) (hw s);
     let s = s\<lparr>hw := w\<rparr>;
     s \<leftarrow> (if state AND LSR_DR \<noteq> 0 then recv_data P i s else Some s);
     l \<leftarrow> rd (serials s) i;
     case s_tx_waiter l of
       Some t \<Rightarrow>
         (if state AND LSR_THRE \<noteq> 0 then do {
            s \<leftarrow> task_unblock t s;
            upd_serial i (\<lambda>l. l\<lparr>s_tx_waiter := None\<rparr>) s }
          else Some s)
     | None \<Rightarrow> Some s
   }"

section \<open>Reading and writing\<close>

definition sleep_rx :: "'w resume \<Rightarrow> nat \<Rightarrow> 'w com \<Rightarrow> 'w com option" where
  "sleep_rx resume i s = do {
     l \<leftarrow> rd (serials s) i;
     check (s_rx_waiter l = None);
     s \<leftarrow> upd_serial i (\<lambda>l. l\<lparr>s_rx_waiter := Some (running s)\<rparr>) s;
     s \<leftarrow> task_block (running s) Block_list TASK_BLOCKED s;
     resume s
   }"

partial_function (option) wait_rx :: "'w resume \<Rightarrow> nat \<Rightarrow> 'w com \<Rightarrow> 'w com option" where
  "wait_rx resume i s = do {
     l \<leftarrow> rd (serials s) i;
     if fifo_empty (s_rx l) then do { s \<leftarrow> sleep_rx resume i s; wait_rx resume i s }
     else Some s
   }"

primrec serial_read_loop :: "'w resume \<Rightarrow> nat \<Rightarrow> nat \<Rightarrow> 'w com \<Rightarrow> (u8 list \<times> 'w com) option" where
  "serial_read_loop resume i 0 s = Some ([], s)"
| "serial_read_loop resume i (Suc n) s = do {
     s \<leftarrow> wait_rx resume i s;
     l \<leftarrow> rd (serials s) i;
     (b, f) \<leftarrow> fifo_get (s_rx l);
     s \<leftarrow> upd_serial i (\<lambda>l. l\<lparr>s_rx := f\<rparr>) s;
     (bs, s) \<leftarrow> serial_read_loop resume i n s;
     Some (b # bs, s)
   }"

definition serial_read :: "'w resume \<Rightarrow> nat \<Rightarrow> 'w com read_fn" where
  "serial_read resume i count idx flags s = do {
     l \<leftarrow> rd (serials s) i;
     k \<leftarrow> take_lock (running s) (s_rlock l);
     s \<leftarrow> upd_serial i (\<lambda>l. l\<lparr>s_rlock := k\<rparr>) s;
     (bs, s) \<leftarrow> serial_read_loop resume i (unat count) s;
     l \<leftarrow> rd (serials s) i;
     k \<leftarrow> give_lock (running s) (s_rlock l);
     s \<leftarrow> upd_serial i (\<lambda>l. l\<lparr>s_rlock := k\<rparr>) s;
     Some (count, bs, s)
   }"

text \<open>One byte: the loop polls the line, and sleeps when the transmitter is busy.\<close>

partial_function (option) serial_put :: "'w ports \<Rightarrow> 'w resume \<Rightarrow> nat \<Rightarrow> u8 \<Rightarrow> 'w com \<Rightarrow> 'w com option" where
  "serial_put P resume i b s = do {
     l \<leftarrow> rd (serials s) i;
     let (state, w) = inb P (s_iobase l + COM_LINE_STATUS) (hw s);
     let s = s\<lparr>hw := w\<rparr>;
     if state AND LSR_THRE \<noteq> 0 then Some (out P (s_iobase l) b s)
     else do {
       s \<leftarrow> upd_serial i (\<lambda>l. l\<lparr>s_tx_waiter := Some (running s)\<rparr>) s;
       s \<leftarrow> task_block (running s) Block_list TASK_BLOCKED s;
       s \<leftarrow> resume s;
       serial_put P resume i b s
     }
   }"

primrec serial_write_loop :: "'w ports \<Rightarrow> 'w resume \<Rightarrow> nat \<Rightarrow> u8 list \<Rightarrow> 'w com \<Rightarrow> 'w com option" where
  "serial_write_loop P resume i [] s = Some s"
| "serial_write_loop P resume i (b # bs) s = Option.bind (serial_put P resume i b s) (serial_write_loop P resume i bs)"

definition serial_write :: "'w ports \<Rightarrow> 'w resume \<Rightarrow> nat \<Rightarrow> 'w com write_fn" where
  "serial_write P resume i buf count idx flags s = do {
     check (unat count \<le> length buf);
     l \<leftarrow> rd (serials s) i;
     k \<leftarrow> take_lock (running s) (s_wlock l);
     s \<leftarrow> upd_serial i (\<lambda>l. l\<lparr>s_wlock := k\<rparr>) s;
     s \<leftarrow> serial_write_loop P resume i (take (unat count) buf) s;
     l \<leftarrow> rd (serials s) i;
     k \<leftarrow> give_lock (running s) (s_wlock l);
     s \<leftarrow> upd_serial i (\<lambda>l. l\<lparr>s_wlock := k\<rparr>) s;
     Some (count, s)
   }"

section \<open>Initialisation\<close>

text \<open>The registers of a line; the result tells whether the line answers the test byte.\<close>

definition serial_setup :: "'w ports \<Rightarrow> u16 \<Rightarrow> 'w com \<Rightarrow> bool \<times> 'w com" where
  "serial_setup P base s =
     (let s = out P (base + COM_LINE_CONTROL) 0x80 s;
          s = out P (base + COM_BAUD_LSB) 0x30 s;
          s = out P (base + COM_BAUD_MSB) 0 s;
          s = out P (base + COM_LINE_CONTROL) 3 s;
          s = out P (base + COM_INTR_ENABLE) 0xD s;
          s = out P (base + COM_MODEM_CONTROL) 0x1B s;
          s = out P base 0xAE s;
          (v, w) = inb P base (hw s);
          s = s\<lparr>hw := w\<rparr>
      in if v \<noteq> 0xAE then (False, s) else (True, out P (base + COM_MODEM_CONTROL) 0xB s))"

definition serial_init_one :: "'w ports \<Rightarrow> 'w resume \<Rightarrow> nat \<Rightarrow> 'w com dstate \<Rightarrow> 'w com dstate option" where
  "serial_init_one P resume i D = do {
     let irq = (if i = 0 then IRQ_SERIAL_1 else IRQ_SERIAL_2);
     let base = (if i = 0 then 0x3F8 else 0x2F8);
     s \<leftarrow> upd_serial i (\<lambda>l. l\<lparr>s_rx := fifo_init (f_buf (s_rx l)) 64, s_rx_waiter := None, s_rlock := free_lock,
            s_tx_waiter := None, s_wlock := free_lock, s_iobase := base\<rparr>) (world D);
     let (ok, s) = serial_setup P base s;
     if \<not> ok then Some (D\<lparr>world := s\<rparr>)
     else do {
       s \<leftarrow> interrupt_register irq Serial_Handler s;
       s \<leftarrow> interrupt_mask P irq True s;
       (_, D) \<leftarrow> device_install DEV_CHAR DEV_SERIAL (if i = 0 then ''com1'' else ''com2'') 0 None
         (Some (serial_read resume i)) (Some (serial_write P resume i)) (D\<lparr>world := s\<rparr>);
       Some D
     }
   }"

definition serial_init :: "'w ports \<Rightarrow> 'w resume \<Rightarrow> 'w com dstate \<Rightarrow> 'w com dstate option" where
  "serial_init P resume D = Option.bind (serial_init_one P resume 0 D) (serial_init_one P resume 1)"

section \<open>A line delivers what it receives\<close>

text \<open>
  What the driver relies on: \<open>rx\<close> are the bytes waiting in the chip; the line status tells whether
  there is one, reading the data port takes the first, and the end-of-interrupt command
  is none of its business.
\<close>

definition uart :: "'w ports \<Rightarrow> u16 \<Rightarrow> ('w \<Rightarrow> u8 list) \<Rightarrow> bool" where
  "uart P base rx \<longleftrightarrow>
     (\<forall>w. rx (snd (inb P (base + COM_LINE_STATUS) w)) = rx w
        \<and> (fst (inb P (base + COM_LINE_STATUS) w) AND LSR_DR \<noteq> 0 \<longleftrightarrow> rx w \<noteq> [])
        \<and> (rx w \<noteq> [] \<longrightarrow> fst (inb P base w) = hd (rx w) \<and> rx (snd (inb P base w)) = tl (rx w))
        \<and> (\<forall>v. rx (outb P PIC_M_CTRL v w) = rx w))"

text \<open>An idle line: an open ring, no reader, no writer.\<close>

definition line_idle :: "nat \<Rightarrow> 'w com \<Rightarrow> u16 \<Rightarrow> u8 list \<Rightarrow> bool" where
  "line_idle i s base bs \<longleftrightarrow> i < length (serials s) \<and> s_iobase (serials s ! i) = base \<and> fifo_wf (s_rx (serials s ! i))
     \<and> fifo_cap (s_rx (serials s ! i)) = 63 \<and> fifo_list (s_rx (serials s ! i)) = bs
     \<and> s_rx_waiter (serials s ! i) = None \<and> s_tx_waiter (serials s ! i) = None \<and> s_rlock (serials s ! i) = free_lock"

text \<open>The interrupts of COM1, one per byte.\<close>

primrec com1_interrupts :: "'w ports \<Rightarrow> nat \<Rightarrow> 'w com \<Rightarrow> 'w com option" where
  "com1_interrupts P 0 s = Some s"
| "com1_interrupts P (Suc n) s = Option.bind (serial_handler P 0x24 s) (com1_interrupts P n)"

lemma serial_handler_law:
  assumes U: "uart P base rx" and L: "line_idle 0 s base bs" and rx: "rx (hw s) = b # rs"
  shows "\<exists>s'. serial_handler P 0x24 s = Some s' \<and> line_idle 0 s' base (newest 63 (bs @ [cr_to_lf b])) \<and> rx (hw s') = rs"
proof -
  let ?l = "serials s ! 0"
  let ?w = "outb P PIC_M_CTRL PIC_EOI (hw s)"
  obtain st w1 where st: "inb P (base + 5) ?w = (st, w1)" by fastforce
  have u1: "rx w1 = b # rs" "st AND LSR_DR \<noteq> 0" using U rx st unfolding uart_def by (metis fst_conv snd_conv list.distinct(1))+
  obtain ch w2 where ch: "inb P base w1 = (ch, w2)" by fastforce
  have u2: "ch = b" "rx w2 = rs" using U u1(1) ch unfolding uart_def by (metis fst_conv snd_conv list.distinct(1) list.sel(1,3))+
  obtain f where f: "fifo_put (s_rx ?l) (cr_to_lf b) = Some f" "fifo_wf f" "fifo_list f = newest 63 (bs @ [cr_to_lf b])" "fifo_cap f = 63"
    using fifo_put_law[of "s_rx ?l" "cr_to_lf b"] L by (auto simp: line_idle_def)
  have i: "0 < length (serials s)" "s_iobase ?l = base" "s_rx_waiter ?l = None" "s_tx_waiter ?l = None"
    using L by (simp_all add: line_idle_def)
  let ?s = "s\<lparr>hw := w2, serials := (serials s)[0 := ?l\<lparr>s_rx := f\<rparr>]\<rparr>"
  have e: "send_eoi P 0x24 s = s\<lparr>hw := ?w\<rparr>" by (simp add: send_eoi_def out_def)
  have "recv_data P 0 (s\<lparr>hw := w1\<rparr>) = Some ?s"
    using i ch u2(1) f(1) by (simp add: recv_data_def upd_serial_def rd_def)
  then have "serial_handler P 0x24 s = Some ?s"
    using i st u1(2) by (simp add: serial_handler_def e Let_def rd_def)
  moreover have "line_idle 0 ?s base (newest 63 (bs @ [cr_to_lf b]))"
    using L f(2-4) by (simp add: line_idle_def)
  ultimately show ?thesis using u2(2) by fastforce
qed

lemma com1_interrupts_law:
  assumes U: "uart P base rx"
  shows "line_idle 0 s base bs \<Longrightarrow> rx (hw s) = rs \<Longrightarrow> length bs + length rs \<le> 63 \<Longrightarrow>
    \<exists>s'. com1_interrupts P (length rs) s = Some s' \<and> line_idle 0 s' base (bs @ map cr_to_lf rs)"
proof (induction rs arbitrary: s bs)
  case (Cons b rs)
  obtain s1 where 1: "serial_handler P 0x24 s = Some s1" "line_idle 0 s1 base (newest 63 (bs @ [cr_to_lf b]))" "rx (hw s1) = rs"
    using serial_handler_law[OF U Cons.prems(1,2)] by blast
  have "newest 63 (bs @ [cr_to_lf b]) = bs @ [cr_to_lf b]" using Cons.prems(3) by simp
  with Cons.IH[of s1 "bs @ [cr_to_lf b]"] 1 Cons.prems(3) show ?case by simp
qed simp

text \<open>Reading no more than the ring holds needs no sleep.\<close>

lemma serial_read_loop_law:
  "i < length (serials s) \<Longrightarrow> fifo_wf (s_rx (serials s ! i)) \<Longrightarrow> n \<le> length (fifo_list (s_rx (serials s ! i))) \<Longrightarrow>
    \<exists>s'. serial_read_loop resume i n s = Some (take n (fifo_list (s_rx (serials s ! i))), s') \<and> i < length (serials s')
      \<and> s_rlock (serials s' ! i) = s_rlock (serials s ! i) \<and> running s' = running s"
proof (induction n arbitrary: s)
  case (Suc n)
  let ?l = "serials s ! i"
  obtain x xs where x: "fifo_list (s_rx ?l) = x # xs" using Suc.prems(3) by (cases "fifo_list (s_rx ?l)") auto
  obtain f where f: "fifo_get (s_rx ?l) = Some (x, f)" "fifo_wf f" "fifo_list f = xs"
    using fifo_get_law[OF Suc.prems(2) x] by blast
  have ne: "\<not> fifo_empty (s_rx ?l)" using ring.empty_iff[OF Suc.prems(2)] x by simp
  let ?s = "s\<lparr>serials := (serials s)[i := ?l\<lparr>s_rx := f\<rparr>]\<rparr>"
  have w: "wait_rx resume i s = Some s" using ne Suc.prems(1) by (subst wait_rx.simps) (simp add: rd_def)
  have "\<exists>s'. serial_read_loop resume i n ?s = Some (take n (fifo_list (s_rx (serials ?s ! i))), s') \<and> i < length (serials s')
      \<and> s_rlock (serials s' ! i) = s_rlock (serials ?s ! i) \<and> running s' = running ?s"
    by (rule Suc.IH) (use Suc.prems f x in simp_all)
  then show ?case using w Suc.prems(1) f x by (auto simp: rd_def upd_serial_def)
qed simp

section \<open>Properties\<close>

text \<open>
  C12: a serial line delivers what it receives. When the chip of COM1 has received at most 63
  bytes, and its interrupt is handled once for each of them, \<^verbatim>\<open>serial_read\<close> of as many bytes
  returns, without sleeping, exactly these bytes in order, with every carriage return turned into
  a line feed.
\<close>

theorem serial_line_in_order:
  assumes "uart P base rx" and "line_idle 0 s base []" and "length (rx (hw s)) \<le> 63"
  shows "\<exists>s' s''. com1_interrupts P (length (rx (hw s))) s = Some s'
    \<and> serial_read resume 0 (of_nat (length (rx (hw s)))) idx flags s'
        = Some (of_nat (length (rx (hw s))), map cr_to_lf (rx (hw s)), s'')"
proof -
  let ?rs = "rx (hw s)"
  obtain s' where s': "com1_interrupts P (length ?rs) s = Some s'" "line_idle 0 s' base (map cr_to_lf ?rs)"
    using com1_interrupts_law[OF assms(1,2) refl] assms(3) by auto
  let ?l = "serials s' ! 0"
  have l: "0 < length (serials s')" "fifo_wf (s_rx ?l)" "fifo_list (s_rx ?l) = map cr_to_lf ?rs" "s_rlock ?l = free_lock"
    using s'(2) by (simp_all add: line_idle_def)
  let ?k = "\<lparr>lk_holder = Some (running s'), lk_repeat = 1\<rparr>"
  let ?s = "s'\<lparr>serials := (serials s')[0 := ?l\<lparr>s_rlock := ?k\<rparr>]\<rparr>"
  have un: "unat (of_nat (length ?rs) :: u32) = length ?rs" using assms(3) by (simp add: unat_of_nat)
  have "\<exists>s1. serial_read_loop resume 0 (length ?rs) ?s = Some (take (length ?rs) (fifo_list (s_rx (serials ?s ! 0))), s1)
      \<and> 0 < length (serials s1) \<and> s_rlock (serials s1 ! 0) = s_rlock (serials ?s ! 0) \<and> running s1 = running ?s"
    by (rule serial_read_loop_law) (use l in simp_all)
  then obtain s1 where s1: "serial_read_loop resume 0 (length ?rs) ?s = Some (map cr_to_lf ?rs, s1)" "0 < length (serials s1)"
    "s_rlock (serials s1 ! 0) = ?k" "running s1 = running s'" using l by auto
  have "serial_read resume 0 (of_nat (length ?rs)) idx flags s'
      = Some (of_nat (length ?rs), map cr_to_lf ?rs, s1\<lparr>serials := (serials s1)[0 := (serials s1 ! 0)\<lparr>s_rlock := free_lock\<rparr>]\<rparr>)"
    using l s1 by (simp add: serial_read_def rd_def upd_serial_def take_lock_def give_lock_def free_lock_def un)
  with s'(1) show ?thesis by blast
qed

text \<open>A chip with two bytes: \<^verbatim>\<open>rx\<close> is the world.\<close>

definition sample_uart :: "u8 list ports" where
  "sample_uart = \<lparr>inb = (\<lambda>p w. if p = 0x3FD then (if w = [] then 0x20 else 0x21, w) else if p = 0x3F8 then (hd w, tl w) else (0, w)),
     outb = (\<lambda>p v w. w), inw = (\<lambda>p w. (0, w)), outw = (\<lambda>p v w. w)\<rparr>"

definition sample_line :: serial where
  "sample_line = \<lparr>s_iobase = 0x3F8, s_rx = fifo_init (replicate 64 0) 64, s_rlock = free_lock, s_rx_waiter = None,
     s_wlock = free_lock, s_tx_waiter = None\<rparr>"

definition sample_com :: "u8 list com" where
  "sample_com = sched.extend sample_sched \<lparr>idt = [], handler_table = [], hw = [65, 13], serials = [sample_line, sample_line]\<rparr>"

lemma sample_com_fields [simp]: "serials sample_com = [sample_line, sample_line]" "hw sample_com = [65, 13]"
  by (simp_all add: sample_com_def sched.extend_def)

lemma serial_line_in_order_witness:
  "\<exists>s' s''. com1_interrupts sample_uart 2 sample_com = Some s' \<and> serial_read Some 0 2 0 0 s' = Some (2, [65, 10], s'')"
proof -
  have "uart sample_uart 0x3F8 (\<lambda>w. w)" by (auto simp: uart_def sample_uart_def)
  moreover have b: "map cr_to_lf (hw sample_com) = [65, 10]" and l: "length (hw sample_com) = 2" by (simp_all add: cr_to_lf_def)
  moreover have "line_idle 0 sample_com 0x3F8 []"
    using fifo_init_wf[of "replicate 64 0" 64] by (simp add: line_idle_def sample_line_def)
  ultimately show ?thesis
    using serial_line_in_order[of sample_uart "0x3F8" "\<lambda>w. w" sample_com Some 0 0] unfolding b l by simp
qed

text \<open>
  An interrupt of the second serial line stops the kernel. The handler computes the index of the
  line as \<^verbatim>\<open>irq - IRQ_SERIAL_1\<close>, and the second line has the smaller interrupt number: whatever
  the state, the handler accesses memory before the table of lines.
\<close>

lemma com2_interrupt_out_of_table:
  assumes "length (serials s) = 2"
  shows "serial_handler P 0x23 s = None"
proof -
  have "unat (- 1 :: u32) = 2 ^ 32 - 1" by (simp add: unsigned_minus_1_eq_mask mask_eq_exp_minus_1)
  then show ?thesis using assms by (simp add: serial_handler_def send_eoi_def out_def rd_def Let_def)
qed

end
