(* ===== verification/Ide.thy ===== *)
theory Ide
  imports Interrupt Device
begin

text \<open>
  \<^verbatim>\<open>kernel/ide.c\<close>: the driver of the parallel ATA disks, two controllers with two disks each, by
  programmed input and output. Controllers, disks and partitions are known by their indices.
  A buffer that is read is the list of bytes returned. \<open>resume\<close> is what happens from the
  moment the task has given up the processor until it runs again: the other tasks and the
  interrupts, one of them \<^verbatim>\<open>ide_handler\<close>.
\<close>

section \<open>State\<close>

abbreviation (input) DEV_IDE_DISK :: int where "DEV_IDE_DISK \<equiv> 4"
abbreviation (input) DEV_IDE_PART :: int where "DEV_IDE_PART \<equiv> 5"
abbreviation (input) IDE_DATA :: u16 where "IDE_DATA \<equiv> 0"
abbreviation (input) IDE_ERR :: u16 where "IDE_ERR \<equiv> 1"
abbreviation (input) IDE_FEATURE :: u16 where "IDE_FEATURE \<equiv> 1"
abbreviation (input) IDE_SECTOR :: u16 where "IDE_SECTOR \<equiv> 2"
abbreviation (input) IDE_LBA_LOW :: u16 where "IDE_LBA_LOW \<equiv> 3"
abbreviation (input) IDE_LBA_MID :: u16 where "IDE_LBA_MID \<equiv> 4"
abbreviation (input) IDE_LBA_HIGH :: u16 where "IDE_LBA_HIGH \<equiv> 5"
abbreviation (input) IDE_HDDEVSEL :: u16 where "IDE_HDDEVSEL \<equiv> 6"
abbreviation (input) IDE_STATUS :: u16 where "IDE_STATUS \<equiv> 7"
abbreviation (input) IDE_COMMAND :: u16 where "IDE_COMMAND \<equiv> 7"
abbreviation (input) IDE_ALT_STATUS :: u16 where "IDE_ALT_STATUS \<equiv> 0x206"
abbreviation (input) IDE_CONTROL :: u16 where "IDE_CONTROL \<equiv> 0x206"
abbreviation (input) IDE_CMD_READ :: u8 where "IDE_CMD_READ \<equiv> 0x20"
abbreviation (input) IDE_CMD_WRITE :: u8 where "IDE_CMD_WRITE \<equiv> 0x30"
abbreviation (input) IDE_CMD_IDENTIFY :: u8 where "IDE_CMD_IDENTIFY \<equiv> 0xEC"
abbreviation (input) IDE_SR_NULL :: u8 where "IDE_SR_NULL \<equiv> 0"
abbreviation (input) IDE_SR_ERR :: u8 where "IDE_SR_ERR \<equiv> 1"
abbreviation (input) IDE_SR_DRQ :: u8 where "IDE_SR_DRQ \<equiv> 8"
abbreviation (input) IDE_SR_DRDY :: u8 where "IDE_SR_DRDY \<equiv> 0x40"
abbreviation (input) IDE_SR_BSY :: u8 where "IDE_SR_BSY \<equiv> 0x80"
abbreviation (input) IDE_CTRL_SRST :: u8 where "IDE_CTRL_SRST \<equiv> 4"
abbreviation (input) IDE_LBA_MASTER :: u8 where "IDE_LBA_MASTER \<equiv> 0xE0"
abbreviation (input) IDE_LBA_SLAVE :: u8 where "IDE_LBA_SLAVE \<equiv> 0xF0"
abbreviation (input) PART_FS_EXTENDED :: u8 where "PART_FS_EXTENDED \<equiv> 5"

record ide_part =
  p_name :: string
  p_system :: u32
  p_start :: u32
  p_count :: u32

record ide_disk =
  k_name :: string
  k_selector :: u8
  k_master :: bool
  k_total_lba :: u32
  k_cylinders :: u32
  k_heads :: u32
  k_sectors :: u32
  k_parts :: "ide_part list"

record ide_ctrl =
  c_name :: string
  c_lock :: driver_lock
  c_iobase :: u16
  c_disks :: "ide_disk list"
  c_active :: "nat option"
  c_control :: u8
  c_waiter :: "nat option"

record 'w ide = "'w intr" +
  controllers :: "ide_ctrl list"

type_synonym 'w ide_resume = "'w ide \<Rightarrow> 'w ide option"

definition upd_ctrl :: "nat \<Rightarrow> (ide_ctrl \<Rightarrow> ide_ctrl) \<Rightarrow> 'w ide \<Rightarrow> 'w ide option" where
  "upd_ctrl c f s = do {
     k \<leftarrow> rd (controllers s) c;
     Some (s\<lparr>controllers := (controllers s)[c := f k]\<rparr>)
   }"

definition ide_disk_at :: "nat \<Rightarrow> nat \<Rightarrow> 'w ide \<Rightarrow> ide_disk option" where
  "ide_disk_at c d s = do { k \<leftarrow> rd (controllers s) c; rd (c_disks k) d }"

definition upd_disk :: "nat \<Rightarrow> nat \<Rightarrow> (ide_disk \<Rightarrow> ide_disk) \<Rightarrow> 'w ide \<Rightarrow> 'w ide option" where
  "upd_disk c d f s = do {
     k \<leftarrow> rd (controllers s) c;
     x \<leftarrow> rd (c_disks k) d;
     Some (s\<lparr>controllers := (controllers s)[c := k\<lparr>c_disks := (c_disks k)[d := f x]\<rparr>]\<rparr>)
   }"

section \<open>The registers\<close>

text \<open>\<^verbatim>\<open>ide_error\<close> reads the error register and prints what its bits mean.\<close>

definition ide_error :: "'w ports \<Rightarrow> u16 \<Rightarrow> 'w \<Rightarrow> u32 \<times> 'w" where
  "ide_error P base w = (let (e, w) = inb P (base + IDE_ERR) w in (ucast e, w))"

partial_function (option) ide_busy_wait :: "'w ports \<Rightarrow> u16 \<Rightarrow> u8 \<Rightarrow> 'w \<Rightarrow> 'w option" where
  "ide_busy_wait P base want w =
     (let (state, w) = inb P (base + IDE_ALT_STATUS) w;
          w = (if state AND IDE_SR_ERR \<noteq> 0 then snd (ide_error P base w) else w)
      in if state AND IDE_SR_BSY \<noteq> 0 then ide_busy_wait P base want w
         else if state AND want = want then Some w
         else ide_busy_wait P base want w)"

definition busy_wait :: "'w ports \<Rightarrow> u16 \<Rightarrow> u8 \<Rightarrow> 'w ide \<Rightarrow> 'w ide option" where
  "busy_wait P base want s = do { w \<leftarrow> ide_busy_wait P base want (hw s); Some (s\<lparr>hw := w\<rparr>) }"

definition ide_select_drive :: "'w ports \<Rightarrow> nat \<Rightarrow> nat \<Rightarrow> 'w ide \<Rightarrow> 'w ide option" where
  "ide_select_drive P c d s = do {
     k \<leftarrow> rd (controllers s) c;
     x \<leftarrow> rd (c_disks k) d;
     upd_ctrl c (\<lambda>k. k\<lparr>c_active := Some d\<rparr>) (out P (c_iobase k + IDE_HDDEVSEL) (k_selector x) s)
   }"

definition ide_select_sector :: "'w ports \<Rightarrow> u16 \<Rightarrow> u8 \<Rightarrow> u32 \<Rightarrow> u8 \<Rightarrow> 'w ide \<Rightarrow> 'w ide" where
  "ide_select_sector P base selector lba count s =
     (let s = out P (base + IDE_FEATURE) 0 s;
          s = out P (base + IDE_SECTOR) count s;
          s = out P (base + IDE_LBA_LOW) (ucast (lba AND 0xFF)) s;
          s = out P (base + IDE_LBA_MID) (ucast (drop_bit 8 (lba AND 0xFF00))) s;
          s = out P (base + IDE_LBA_HIGH) (ucast (drop_bit 16 (lba AND 0xFF0000))) s
      in out P (base + IDE_HDDEVSEL) (ucast (drop_bit 24 lba AND 0xF) OR selector) s)"

definition ide_reset_control :: "'w ports \<Rightarrow> nat \<Rightarrow> 'w ide \<Rightarrow> 'w ide option" where
  "ide_reset_control P c s = do {
     k \<leftarrow> rd (controllers s) c;
     s \<leftarrow> busy_wait P (c_iobase k) IDE_SR_NULL (out P (c_iobase k + IDE_CONTROL) IDE_CTRL_SRST s);
     busy_wait P (c_iobase k) IDE_SR_NULL (out P (c_iobase k + IDE_CONTROL) (c_control k) s)
   }"

primrec read_words :: "'w ports \<Rightarrow> u16 \<Rightarrow> nat \<Rightarrow> 'w \<Rightarrow> u8 list \<times> 'w" where
  "read_words P base 0 w = ([], w)"
| "read_words P base (Suc n) w =
     (let (v, w) = inw P (base + IDE_DATA) w; (bs, w) = read_words P base n w
      in (ucast v # ucast (drop_bit 8 v) # bs, w))"

definition ide_pio_read_sector :: "'w ports \<Rightarrow> u16 \<Rightarrow> 'w ide \<Rightarrow> u8 list \<times> 'w ide" where
  "ide_pio_read_sector P base s = (let (bs, w) = read_words P base 256 (hw s) in (bs, s\<lparr>hw := w\<rparr>))"

fun write_words :: "'w ports \<Rightarrow> u16 \<Rightarrow> u8 list \<Rightarrow> 'w \<Rightarrow> 'w" where
  "write_words P base (lo # hi # bs) w = write_words P base bs (outw P (base + IDE_DATA) (ucast lo OR push_bit 8 (ucast hi)) w)"
| "write_words P base bs w = w"

definition ide_pio_write_sector :: "'w ports \<Rightarrow> u16 \<Rightarrow> u8 list \<Rightarrow> 'w ide \<Rightarrow> 'w ide option" where
  "ide_pio_write_sector P base bs s = do {
     check (512 \<le> length bs);
     Some (s\<lparr>hw := write_words P base (take 512 bs) (hw s)\<rparr>)
   }"

text \<open>\<^verbatim>\<open>ide_swap_pairs\<close> on the bytes of a string; the last one becomes the terminator.\<close>

fun swap_pairs :: "u8 list \<Rightarrow> u8 list" where
  "swap_pairs (a # b # bs) = b # a # swap_pairs bs"
| "swap_pairs bs = bs"

definition ide_swap_pairs :: "u8 list \<Rightarrow> u8 list" where
  "ide_swap_pairs bs = (swap_pairs bs)[length bs - 1 := 0]"

section \<open>Reading and writing\<close>

text \<open>A running task sleeps until the interrupt of the controller; early in the boot it only polls.\<close>

definition ide_sleep :: "'w ide_resume \<Rightarrow> nat \<Rightarrow> 'w ide \<Rightarrow> 'w ide option" where
  "ide_sleep resume c s = do {
     tk \<leftarrow> get_task (running s) s;
     if t_state tk = TASK_RUNNING then do {
       s \<leftarrow> upd_ctrl c (\<lambda>k. k\<lparr>c_waiter := Some (running s)\<rparr>) s;
       s \<leftarrow> task_block (running s) Block_list TASK_BLOCKED s;
       resume s }
     else Some s
   }"

definition ctrl_acquire :: "nat \<Rightarrow> 'w ide \<Rightarrow> 'w ide option" where
  "ctrl_acquire c s = do {
     k \<leftarrow> rd (controllers s) c;
     l \<leftarrow> take_lock (running s) (c_lock k);
     upd_ctrl c (\<lambda>k. k\<lparr>c_lock := l\<rparr>) s
   }"

definition ctrl_release :: "nat \<Rightarrow> 'w ide \<Rightarrow> 'w ide option" where
  "ctrl_release c s = do {
     k \<leftarrow> rd (controllers s) c;
     l \<leftarrow> give_lock (running s) (c_lock k);
     upd_ctrl c (\<lambda>k. k\<lparr>c_lock := l\<rparr>) s
   }"

primrec read_sectors :: "'w ports \<Rightarrow> 'w ide_resume \<Rightarrow> nat \<Rightarrow> u16 \<Rightarrow> nat \<Rightarrow> 'w ide \<Rightarrow> (u8 list \<times> 'w ide) option" where
  "read_sectors P resume c base 0 s = Some ([], s)"
| "read_sectors P resume c base (Suc n) s = do {
     s \<leftarrow> ide_sleep resume c s;
     s \<leftarrow> busy_wait P base IDE_SR_DRQ s;
     let (bs, s) = ide_pio_read_sector P base s;
     (rest, s) \<leftarrow> read_sectors P resume c base n s;
     Some (bs @ rest, s)
   }"

definition ide_pio_read :: "'w ports \<Rightarrow> 'w ide_resume \<Rightarrow> nat \<Rightarrow> nat \<Rightarrow> u8 \<Rightarrow> u32 \<Rightarrow> 'w ide \<Rightarrow> (u8 list \<times> 'w ide) option" where
  "ide_pio_read P resume c d count lba s = do {
     check (count > 0);
     check (\<not> intr s);
     k \<leftarrow> rd (controllers s) c;
     x \<leftarrow> rd (c_disks k) d;
     s \<leftarrow> ctrl_acquire c s;
     s \<leftarrow> ide_select_drive P c d s;
     s \<leftarrow> busy_wait P (c_iobase k) IDE_SR_DRDY s;
     let s = ide_select_sector P (c_iobase k) (k_selector x) lba count s;
     let s = out P (c_iobase k + IDE_COMMAND) IDE_CMD_READ s;
     (bs, s) \<leftarrow> read_sectors P resume c (c_iobase k) (unat count) s;
     s \<leftarrow> ctrl_release c s;
     Some (bs, s)
   }"

text \<open>\<^verbatim>\<open>ide_read_exec\<close>: the second disk of the first controller, without the lock and without sleeping.\<close>

primrec poll_sectors :: "'w ports \<Rightarrow> u16 \<Rightarrow> nat \<Rightarrow> 'w ide \<Rightarrow> (u8 list \<times> 'w ide) option" where
  "poll_sectors P base 0 s = Some ([], s)"
| "poll_sectors P base (Suc n) s = do {
     s \<leftarrow> busy_wait P base IDE_SR_DRQ s;
     let (bs, s) = ide_pio_read_sector P base s;
     (rest, s) \<leftarrow> poll_sectors P base n s;
     Some (bs @ rest, s)
   }"

definition ide_read_exec :: "'w ports \<Rightarrow> u8 \<Rightarrow> u32 \<Rightarrow> 'w ide \<Rightarrow> (u8 list \<times> 'w ide) option" where
  "ide_read_exec P count lba s = do {
     k \<leftarrow> rd (controllers s) 0;
     x \<leftarrow> rd (c_disks k) 1;
     s \<leftarrow> ide_select_drive P 0 1 s;
     s \<leftarrow> busy_wait P (c_iobase k) IDE_SR_DRDY s;
     let s = ide_select_sector P (c_iobase k) (k_selector x) lba count s;
     let s = out P (c_iobase k + IDE_COMMAND) IDE_CMD_READ s;
     poll_sectors P (c_iobase k) (unat count) s
   }"

primrec write_sectors :: "'w ports \<Rightarrow> 'w ide_resume \<Rightarrow> nat \<Rightarrow> u16 \<Rightarrow> nat \<Rightarrow> u8 list \<Rightarrow> 'w ide \<Rightarrow> 'w ide option" where
  "write_sectors P resume c base 0 bs s = Some s"
| "write_sectors P resume c base (Suc n) bs s = do {
     s \<leftarrow> ide_pio_write_sector P base bs s;
     s \<leftarrow> ide_sleep resume c s;
     s \<leftarrow> busy_wait P base IDE_SR_NULL s;
     write_sectors P resume c base n (drop 512 bs) s
   }"

text \<open>The command is written with \<^verbatim>\<open>outw\<close>: 16 bits to the command register.\<close>

definition ide_pio_write :: "'w ports \<Rightarrow> 'w ide_resume \<Rightarrow> nat \<Rightarrow> nat \<Rightarrow> u8 list \<Rightarrow> u8 \<Rightarrow> u32 \<Rightarrow> 'w ide \<Rightarrow> 'w ide option" where
  "ide_pio_write P resume c d buf count lba s = do {
     check (count > 0);
     check (\<not> intr s);
     k \<leftarrow> rd (controllers s) c;
     x \<leftarrow> rd (c_disks k) d;
     s \<leftarrow> ctrl_acquire c s;
     s \<leftarrow> ide_select_drive P c d s;
     s \<leftarrow> busy_wait P (c_iobase k) IDE_SR_DRDY s;
     let s = ide_select_sector P (c_iobase k) (k_selector x) lba count s;
     let s = s\<lparr>hw := outw P (c_iobase k + IDE_COMMAND) (ucast IDE_CMD_WRITE) (hw s)\<rparr>;
     s \<leftarrow> write_sectors P resume c (c_iobase k) (unat count) buf s;
     ctrl_release c s
   }"

definition ide_part_of :: "nat \<Rightarrow> nat \<Rightarrow> nat \<Rightarrow> 'w ide \<Rightarrow> ide_part option" where
  "ide_part_of c d p s = do { x \<leftarrow> ide_disk_at c d s; rd (k_parts x) p }"

definition ide_pio_part_read ::
    "'w ports \<Rightarrow> 'w ide_resume \<Rightarrow> nat \<Rightarrow> nat \<Rightarrow> nat \<Rightarrow> u8 \<Rightarrow> u32 \<Rightarrow> 'w ide \<Rightarrow> (u8 list \<times> 'w ide) option" where
  "ide_pio_part_read P resume c d p count lba s = do {
     part \<leftarrow> ide_part_of c d p s;
     ide_pio_read P resume c d count (p_start part + lba) s
   }"

definition ide_pio_part_write ::
    "'w ports \<Rightarrow> 'w ide_resume \<Rightarrow> nat \<Rightarrow> nat \<Rightarrow> nat \<Rightarrow> u8 list \<Rightarrow> u8 \<Rightarrow> u32 \<Rightarrow> 'w ide \<Rightarrow> 'w ide option" where
  "ide_pio_part_write P resume c d p buf count lba s = do {
     part \<leftarrow> ide_part_of c d p s;
     ide_pio_write P resume c d buf count (p_start part + lba) s
   }"

definition ide_handler :: "'w ports \<Rightarrow> int \<Rightarrow> 'w ide \<Rightarrow> 'w ide option" where
  "ide_handler P vector s = do {
     let s = send_eoi P vector s;
     let c = vector - 14 - 0x20;
     k \<leftarrow> rdi (controllers s) c;
     let (_, w) = inb P (c_iobase k + IDE_STATUS) (hw s);
     let s = s\<lparr>hw := w\<rparr>;
     case c_waiter k of
       None \<Rightarrow> Some s
     | Some t \<Rightarrow> do { s \<leftarrow> task_unblock t s; upd_ctrl (nat c) (\<lambda>k. k\<lparr>c_waiter := None\<rparr>) s }
   }"

section \<open>Finding the disks and the partitions\<close>

definition le16 :: "u8 list \<Rightarrow> nat \<Rightarrow> u32" where
  "le16 bs p = ucast (bs ! p) + push_bit 8 (ucast (bs ! (p + 1)))"

definition le32 :: "u8 list \<Rightarrow> nat \<Rightarrow> u32" where
  "le32 bs p = le16 bs p + push_bit 16 (le16 bs (p + 2))"

definition ide_identify :: "'w ports \<Rightarrow> nat \<Rightarrow> nat \<Rightarrow> 'w ide \<Rightarrow> (u32 \<times> 'w ide) option" where
  "ide_identify P c d s = do {
     k \<leftarrow> rd (controllers s) c;
     s \<leftarrow> ctrl_acquire c s;
     s \<leftarrow> ide_select_drive P c d s;
     let s = out P (c_iobase k + IDE_COMMAND) IDE_CMD_IDENTIFY s;
     s \<leftarrow> busy_wait P (c_iobase k) IDE_SR_NULL s;
     let (bs, s) = ide_pio_read_sector P (c_iobase k) s;
     if le32 bs 120 = 0 then do { s \<leftarrow> ctrl_release c s; Some (EOF, s) }
     else do {
       s \<leftarrow> upd_disk c d (\<lambda>x. x\<lparr>k_total_lba := le32 bs 120, k_cylinders := le16 bs 2, k_heads := le16 bs 6,
              k_sectors := le16 bs 12\<rparr>) s;
       s \<leftarrow> ctrl_release c s;
       Some (0, s)
     }
   }"

text \<open>One entry of the partition table in the boot sector \<open>bs\<close>.\<close>

definition part_entry :: "u8 list \<Rightarrow> nat \<Rightarrow> u8 list" where
  "part_entry bs i = take 16 (drop (446 + 16 * i) bs)"

definition part_init_one ::
    "'w ports \<Rightarrow> 'w ide_resume \<Rightarrow> nat \<Rightarrow> nat \<Rightarrow> u8 list \<Rightarrow> nat \<Rightarrow> 'w ide \<Rightarrow> 'w ide option" where
  "part_init_one P resume c d bs i s = do {
     let e = part_entry bs i;
     if le32 e 12 = 0 then Some s
     else do {
       s \<leftarrow> upd_disk c d (\<lambda>x. x\<lparr>k_parts := (k_parts x)[i := \<lparr>p_name = k_name x @ [char_of (49 + i)],
              p_system = ucast (e ! 4), p_start = le32 e 8, p_count = le32 e 12\<rparr>]\<rparr>) s;
       if e ! 4 = PART_FS_EXTENDED then do {
         (_, s) \<leftarrow> ide_pio_read P resume c d 1 (le32 e 8) s;
         Some s }
       else Some s
     }
   }"

fun part_init_loop ::
    "'w ports \<Rightarrow> 'w ide_resume \<Rightarrow> nat \<Rightarrow> nat \<Rightarrow> u8 list \<Rightarrow> nat list \<Rightarrow> 'w ide \<Rightarrow> 'w ide option" where
  "part_init_loop P resume c d bs [] s = Some s"
| "part_init_loop P resume c d bs (i # is) s =
     Option.bind (part_init_one P resume c d bs i s) (part_init_loop P resume c d bs is)"

definition ide_part_init :: "'w ports \<Rightarrow> 'w ide_resume \<Rightarrow> nat \<Rightarrow> nat \<Rightarrow> 'w ide \<Rightarrow> 'w ide option" where
  "ide_part_init P resume c d s = do {
     x \<leftarrow> ide_disk_at c d s;
     if k_total_lba x = 0 then Some s
     else do {
       (bs, s) \<leftarrow> ide_pio_read P resume c d 1 0 s;
       part_init_loop P resume c d bs [0..<4] s
     }
   }"

definition ide_pio_ioctl :: "nat \<Rightarrow> nat \<Rightarrow> 'w ide ioctl_fn" where
  "ide_pio_ioctl c d cmd s = do {
     x \<leftarrow> ide_disk_at c d s;
     if cmd = DEV_CMD_SECTOR_START then Some 0
     else if cmd = DEV_CMD_SECTOR_COUNT then Some (k_total_lba x)
     else None
   }"

definition ide_pio_part_ioctl :: "nat \<Rightarrow> nat \<Rightarrow> nat \<Rightarrow> 'w ide ioctl_fn" where
  "ide_pio_part_ioctl c d p cmd s = do {
     part \<leftarrow> ide_part_of c d p s;
     if cmd = DEV_CMD_SECTOR_START then Some (p_start part)
     else if cmd = DEV_CMD_SECTOR_COUNT then Some (p_count part)
     else None
   }"

definition disk_init :: "'w ports \<Rightarrow> 'w ide_resume \<Rightarrow> nat \<Rightarrow> nat \<Rightarrow> 'w ide \<Rightarrow> 'w ide option" where
  "disk_init P resume c d s = do {
     s \<leftarrow> upd_disk c d (\<lambda>x. x\<lparr>k_name := ''hd'' @ [char_of (97 + c * 2 + d)], k_master := (d = 0),
            k_selector := if d = 0 then IDE_LBA_MASTER else IDE_LBA_SLAVE\<rparr>) s;
     (_, s) \<leftarrow> ide_identify P c d s;
     ide_part_init P resume c d s
   }"

definition ctrl_init_one :: "'w ports \<Rightarrow> 'w ide_resume \<Rightarrow> nat \<Rightarrow> 'w ide \<Rightarrow> 'w ide option" where
  "ctrl_init_one P resume c s = do {
     let base = (if c = 0 then 0x1F0 else 0x170);
     let (control, w) = inb P (base + IDE_CONTROL) (hw s);
     s \<leftarrow> upd_ctrl c (\<lambda>k. k\<lparr>c_name := ''cidx'' @ [char_of (48 + c)], c_lock := free_lock, c_active := None,
            c_waiter := None, c_iobase := base, c_control := control\<rparr>) (s\<lparr>hw := w\<rparr>);
     s \<leftarrow> disk_init P resume c 0 s;
     disk_init P resume c 1 s
   }"

definition ide_ctrl_init :: "'w ports \<Rightarrow> 'w ide_resume \<Rightarrow> 'w ide \<Rightarrow> 'w ide option" where
  "ide_ctrl_init P resume s = Option.bind (ctrl_init_one P resume 0 s) (ctrl_init_one P resume 1)"

text \<open>The functions a disk and a partition are installed with; the driver returns 0.\<close>

definition ide_read_fn :: "('w ide \<Rightarrow> (u8 list \<times> 'w ide) option) \<Rightarrow> 'w ide \<Rightarrow> (u32 \<times> u8 list \<times> 'w ide) option" where
  "ide_read_fn f s = do { (bs, s) \<leftarrow> f s; Some (0, bs, s) }"

fun install_parts :: "'w ports \<Rightarrow> 'w ide_resume \<Rightarrow> nat \<Rightarrow> nat \<Rightarrow> u32 \<Rightarrow> nat list \<Rightarrow> 'w ide dstate \<Rightarrow> 'w ide dstate option" where
  "install_parts P resume c d dev [] D = Some D"
| "install_parts P resume c d dev (i # is) D = do {
     part \<leftarrow> ide_part_of c d i (world D);
     if p_count part = 0 then install_parts P resume c d dev is D
     else do {
       (_, D) \<leftarrow> device_install DEV_BLOCK DEV_IDE_PART (p_name part) dev (Some (ide_pio_part_ioctl c d i))
         (Some (\<lambda>count lba flags. ide_read_fn (ide_pio_part_read P resume c d i (ucast count) lba)))
         (Some (\<lambda>buf count lba flags s. do { s \<leftarrow> ide_pio_part_write P resume c d i buf (ucast count) lba s; Some (0, s) })) D;
       install_parts P resume c d dev is D
     }
   }"

fun install_disks :: "'w ports \<Rightarrow> 'w ide_resume \<Rightarrow> (nat \<times> nat) list \<Rightarrow> 'w ide dstate \<Rightarrow> 'w ide dstate option" where
  "install_disks P resume [] D = Some D"
| "install_disks P resume ((c, d) # ds) D = do {
     x \<leftarrow> ide_disk_at c d (world D);
     if k_total_lba x = 0 then install_disks P resume ds D
     else do {
       (dev, D) \<leftarrow> device_install DEV_BLOCK DEV_IDE_DISK (k_name x) 0 (Some (ide_pio_ioctl c d))
         (Some (\<lambda>count lba flags. ide_read_fn (ide_pio_read P resume c d (ucast count) lba)))
         (Some (\<lambda>buf count lba flags s. do { s \<leftarrow> ide_pio_write P resume c d buf (ucast count) lba s; Some (0, s) })) D;
       D \<leftarrow> install_parts P resume c d dev [0..<4] D;
       install_disks P resume ds D
     }
   }"

definition ide_install :: "'w ports \<Rightarrow> 'w ide_resume \<Rightarrow> 'w ide dstate \<Rightarrow> 'w ide dstate option" where
  "ide_install P resume D = install_disks P resume [(0, 0), (0, 1), (1, 0), (1, 1)] D"

definition ide_init :: "'w ports \<Rightarrow> 'w ide_resume \<Rightarrow> 'w ide dstate \<Rightarrow> 'w ide dstate option" where
  "ide_init P resume D = do {
     s \<leftarrow> ide_ctrl_init P resume (world D);
     D \<leftarrow> ide_install P resume (D\<lparr>world := s\<rparr>);
     s \<leftarrow> interrupt_register IRQ_HARDDISK Ide_Handler (world D);
     s \<leftarrow> interrupt_register IRQ_HARDDISK2 Ide_Handler s;
     s \<leftarrow> interrupt_mask P IRQ_HARDDISK True s;
     s \<leftarrow> interrupt_mask P IRQ_HARDDISK2 False s;
     s \<leftarrow> interrupt_mask P IRQ_CASCADE True s;
     Some (D\<lparr>world := s\<rparr>)
   }"

end
