(* ===== verification/Ata.thy ===== *)
theory Ata
  imports Ide
begin

text \<open>
  What reading with the driver of \<open>Ide\<close> relies on, the documented behaviour of an ATA channel for
  programmed input, and what follows for the sectors it returns.
\<close>

section \<open>The channel\<close>

text \<open>
  The registers, the words the host can read, the polls for which the channel stays busy, and
  the sectors of the two disks.
\<close>

record ata =
  a_count :: u8
  a_low :: u8
  a_mid :: u8
  a_high :: u8
  a_sel :: u8
  a_data :: "u16 list"
  a_busy :: nat
  a_disks :: "bool \<Rightarrow> nat \<Rightarrow> u16 list"

definition ata_lba :: "ata \<Rightarrow> nat" where
  "ata_lba a = unat (a_low a) + 256 * unat (a_mid a) + 65536 * unat (a_high a) + 16777216 * unat (a_sel a AND 0xF)"

definition ata_slave :: "ata \<Rightarrow> bool" where
  "ata_slave a = bit (a_sel a) 4"

definition ata_sectors :: "ata \<Rightarrow> bool \<Rightarrow> nat \<Rightarrow> nat \<Rightarrow> u16 list" where
  "ata_sectors a slave lba n = concat (map (\<lambda>i. a_disks a slave (lba + i)) [0..<n])"

definition ata_read_command :: "ata \<Rightarrow> ata" where
  "ata_read_command a = a\<lparr>a_data := ata_sectors a (ata_slave a) (ata_lba a) (unat (a_count a))\<rparr>"

text \<open>
  The ports from \<open>base\<close> on are such a channel: polling the alternate status reports busy for a while
  and then that the drive is ready, without an error, and whether it has data; the registers
  keep what is written; the command makes the channel busy for a while; so does the end of a
  sector when more sectors follow.
\<close>

definition ata_channel :: "'w ports \<Rightarrow> u16 \<Rightarrow> ('w \<Rightarrow> ata) \<Rightarrow> bool" where
  "ata_channel P base view \<longleftrightarrow>
     (\<forall>w. view (snd (inb P (base + IDE_ALT_STATUS) w)) = (view w)\<lparr>a_busy := a_busy (view w) - 1\<rparr>)
     \<and> (\<forall>w. fst (inb P (base + IDE_ALT_STATUS) w) AND IDE_SR_BSY \<noteq> 0 \<longleftrightarrow> 0 < a_busy (view w))
     \<and> (\<forall>w. a_busy (view w) = 0 \<longrightarrow> fst (inb P (base + IDE_ALT_STATUS) w) AND IDE_SR_DRDY = IDE_SR_DRDY)
     \<and> (\<forall>w. a_busy (view w) = 0 \<and> a_data (view w) \<noteq> [] \<longrightarrow> fst (inb P (base + IDE_ALT_STATUS) w) AND IDE_SR_DRQ = IDE_SR_DRQ)
     \<and> (\<forall>w. view (snd (inb P (base + IDE_ERR) w)) = view w)
     \<and> (\<forall>w v. a_busy (view w) = 0 \<longrightarrow> view (outb P (base + IDE_FEATURE) v w) = view w)
     \<and> (\<forall>w v. a_busy (view w) = 0 \<longrightarrow> view (outb P (base + IDE_SECTOR) v w) = (view w)\<lparr>a_count := v\<rparr>)
     \<and> (\<forall>w v. a_busy (view w) = 0 \<longrightarrow> view (outb P (base + IDE_LBA_LOW) v w) = (view w)\<lparr>a_low := v\<rparr>)
     \<and> (\<forall>w v. a_busy (view w) = 0 \<longrightarrow> view (outb P (base + IDE_LBA_MID) v w) = (view w)\<lparr>a_mid := v\<rparr>)
     \<and> (\<forall>w v. a_busy (view w) = 0 \<longrightarrow> view (outb P (base + IDE_LBA_HIGH) v w) = (view w)\<lparr>a_high := v\<rparr>)
     \<and> (\<forall>w v. a_busy (view w) = 0 \<longrightarrow> view (outb P (base + IDE_HDDEVSEL) v w) = (view w)\<lparr>a_sel := v\<rparr>)
     \<and> (\<forall>w. a_busy (view w) = 0 \<longrightarrow>
          (\<exists>b. view (outb P (base + IDE_COMMAND) IDE_CMD_READ w) = (ata_read_command (view w))\<lparr>a_busy := b\<rparr>))
     \<and> (\<forall>w x xs. a_busy (view w) = 0 \<and> a_data (view w) = x # xs \<longrightarrow> fst (inw P (base + IDE_DATA) w) = x)
     \<and> (\<forall>w x xs. a_busy (view w) = 0 \<and> a_data (view w) = x # xs \<longrightarrow>
          (\<exists>b. view (snd (inw P (base + IDE_DATA) w)) = (view w)\<lparr>a_data := xs, a_busy := b\<rparr>
               \<and> (xs = [] \<or> length xs mod 256 \<noteq> 0 \<longrightarrow> b = 0)))"

lemma ata_channelD:
  assumes "ata_channel P base view"
  shows "view (snd (inb P (base + IDE_ALT_STATUS) w)) = (view w)\<lparr>a_busy := a_busy (view w) - 1\<rparr>"
    and "fst (inb P (base + IDE_ALT_STATUS) w) AND IDE_SR_BSY \<noteq> 0 \<longleftrightarrow> 0 < a_busy (view w)"
    and "a_busy (view w) = 0 \<Longrightarrow> fst (inb P (base + IDE_ALT_STATUS) w) AND IDE_SR_DRDY = IDE_SR_DRDY"
    and "a_busy (view w) = 0 \<Longrightarrow> a_data (view w) \<noteq> [] \<Longrightarrow> fst (inb P (base + IDE_ALT_STATUS) w) AND IDE_SR_DRQ = IDE_SR_DRQ"
    and "view (snd (inb P (base + IDE_ERR) w)) = view w"
  using assms unfolding ata_channel_def by simp_all

lemma ata_channel_regs:
  assumes "ata_channel P base view" "a_busy (view w) = 0"
  shows "view (outb P (base + IDE_FEATURE) v w) = view w"
    and "view (outb P (base + IDE_SECTOR) v w) = (view w)\<lparr>a_count := v\<rparr>"
    and "view (outb P (base + IDE_LBA_LOW) v w) = (view w)\<lparr>a_low := v\<rparr>"
    and "view (outb P (base + IDE_LBA_MID) v w) = (view w)\<lparr>a_mid := v\<rparr>"
    and "view (outb P (base + IDE_LBA_HIGH) v w) = (view w)\<lparr>a_high := v\<rparr>"
    and "view (outb P (base + IDE_HDDEVSEL) v w) = (view w)\<lparr>a_sel := v\<rparr>"
    and "\<exists>b. view (outb P (base + IDE_COMMAND) IDE_CMD_READ w) = (ata_read_command (view w))\<lparr>a_busy := b\<rparr>"
  using assms unfolding ata_channel_def by blast+

lemma ata_channel_data:
  assumes "ata_channel P base view" "a_busy (view w) = 0" "a_data (view w) = x # xs"
  shows "fst (inw P (base + IDE_DATA) w) = x"
    and "\<exists>b. view (snd (inw P (base + IDE_DATA) w)) = (view w)\<lparr>a_data := xs, a_busy := b\<rparr>
               \<and> (xs = [] \<or> length xs mod 256 \<noteq> 0 \<longrightarrow> b = 0)"
  using assms unfolding ata_channel_def by blast+

text \<open>
  A task that sleeps is woken: where \<open>Q\<close> holds the sleep returns to the same task with the
  controllers as they were but for the waiting task, the channel has not been touched by others
  (time may have passed), and \<open>Q\<close> holds again.
\<close>

definition no_waiter :: "ide_ctrl \<Rightarrow> ide_ctrl" where
  "no_waiter k = k\<lparr>c_waiter := None\<rparr>"

definition wakes :: "'w ide_resume \<Rightarrow> nat \<Rightarrow> ('w \<Rightarrow> ata) \<Rightarrow> ('w ide \<Rightarrow> bool) \<Rightarrow> bool" where
  "wakes resume c view Q \<longleftrightarrow>
     (\<forall>s. Q s \<longrightarrow> (\<exists>s' b. ide_sleep resume c s = Some s' \<and> Q s' \<and> running s' = running s
        \<and> map no_waiter (controllers s') = map no_waiter (controllers s)
        \<and> view (hw s') = (view (hw s))\<lparr>a_busy := b\<rparr>))
     \<and> (\<forall>s w. Q s \<longrightarrow> Q (s\<lparr>hw := w\<rparr>)) \<and> (\<forall>s ks. Q s \<longrightarrow> length ks = length (controllers s) \<longrightarrow> Q (s\<lparr>controllers := ks\<rparr>))"

section \<open>Polling\<close>

lemma busy_wait_law:
  assumes A: "ata_channel P base view"
    and want: "want = IDE_SR_NULL \<or> want = IDE_SR_DRDY \<or> want = IDE_SR_DRQ \<and> a_data (view w) \<noteq> []"
  shows "\<exists>w'. ide_busy_wait P base want w = Some w' \<and> view w' = (view w)\<lparr>a_busy := 0\<rparr>"
  using want
proof (induction "a_busy (view w)" arbitrary: w)
  case 0
  obtain st w1 where p: "inb P (base + IDE_ALT_STATUS) w = (st, w1)" by fastforce
  let ?w = "if st AND IDE_SR_ERR \<noteq> 0 then snd (ide_error P base w1) else w1"
  have "view ?w = view w1" using ata_channelD(5)[OF A] by (simp add: ide_error_def split_beta)
  then have "view ?w = (view w)\<lparr>a_busy := 0\<rparr>" using ata_channelD(1)[OF A, of w] p 0(1) by simp
  moreover have "st AND IDE_SR_BSY = 0" using ata_channelD(2)[OF A, of w] p 0(1) by simp
  moreover have "st AND want = want"
    using ata_channelD(3,4)[OF A, of w] p 0 by auto
  ultimately show ?case using p by (subst ide_busy_wait.simps) (simp add: Let_def)
next
  case (Suc n)
  obtain st w1 where p: "inb P (base + IDE_ALT_STATUS) w = (st, w1)" by fastforce
  let ?w = "if st AND IDE_SR_ERR \<noteq> 0 then snd (ide_error P base w1) else w1"
  have "view ?w = view w1" using ata_channelD(5)[OF A] by (simp add: ide_error_def split_beta)
  then have w: "view ?w = (view w)\<lparr>a_busy := n\<rparr>" using ata_channelD(1)[OF A, of w] p Suc(2)[symmetric] by simp
  have b: "st AND IDE_SR_BSY \<noteq> 0" using ata_channelD(2)[OF A, of w] p Suc(2) by simp
  have "\<exists>w'. ide_busy_wait P base want ?w = Some w' \<and> view w' = (view ?w)\<lparr>a_busy := 0\<rparr>"
    by (rule Suc(1)) (use w Suc(3) in simp_all)
  then show ?case using p b w by (subst ide_busy_wait.simps) (simp add: Let_def)
qed

section \<open>The data\<close>

definition bytes_of_words :: "u16 list \<Rightarrow> u8 list" where
  "bytes_of_words vs = concat (map (\<lambda>v. [ucast v, ucast (drop_bit 8 v)]) vs)"

lemma bytes_of_words_simps [simp]:
  "bytes_of_words [] = []"
  "bytes_of_words (v # vs) = ucast v # ucast (drop_bit 8 v) # bytes_of_words vs"
  "bytes_of_words (vs @ ws) = bytes_of_words vs @ bytes_of_words ws"
  by (simp_all add: bytes_of_words_def)

text \<open>\<open>n\<close> words of a sector that is followed by whole sectors.\<close>

lemma read_words_law:
  assumes A: "ata_channel P base view" and "a_busy (view w) = 0" "a_data (view w) = xs @ ys" "length xs \<le> 256"
    "length ys mod 256 = 0"
  shows "\<exists>b. fst (read_words P base (length xs) w) = bytes_of_words xs
    \<and> view (snd (read_words P base (length xs) w)) = (view w)\<lparr>a_data := ys, a_busy := b\<rparr> \<and> (ys = [] \<longrightarrow> b = 0)"
  using assms(2-4)
proof (induction xs arbitrary: w)
  case Nil
  then show ?case by (intro exI[of _ 0]) simp
next
  case (Cons x xs)
  obtain v w1 where "inw P (base + IDE_DATA) w = (v, w1)" by fastforce
  then have p: "v = fst (inw P (base + IDE_DATA) w)" "w1 = snd (inw P (base + IDE_DATA) w)"
    "inw P base w = (v, w1)" by simp_all
  have d: "a_data (view w) = x # (xs @ ys)" using Cons by simp
  obtain b where v: "v = x" and w1: "view w1 = (view w)\<lparr>a_data := xs @ ys, a_busy := b\<rparr>"
    and b: "xs @ ys = [] \<or> length (xs @ ys) mod 256 \<noteq> 0 \<longrightarrow> b = 0"
    using ata_channel_data[OF A Cons(2) d] unfolding p(1,2) by blast
  show ?case
  proof (cases "xs = []")
    case True
    then show ?thesis using p(3) v w1 b by (intro exI[of _ b]) simp
  next
    case False
    have "length (xs @ ys) mod 256 = length xs mod 256"
      using assms(5) by (simp add: mod_add_eq[symmetric, of "length xs"])
    moreover have "length xs mod 256 \<noteq> 0" using False Cons(4) by simp
    ultimately have b0: "b = 0" using b by simp
    then show ?thesis using Cons.IH[of w1] Cons.prems p(3) v w1 by (simp add: split_beta)
  qed
qed

section \<open>Sectors\<close>

definition ata_wf :: "ata \<Rightarrow> bool" where
  "ata_wf a \<longleftrightarrow> (\<forall>b i. length (a_disks a b i) = 256)"

lemma ata_sectors_length: "ata_wf a \<Longrightarrow> length (ata_sectors a b lba n) = 256 * n"
  by (induction n) (simp_all add: ata_sectors_def ata_wf_def)

lemma ata_sectors_0 [simp]: "ata_sectors a b lba 0 = []"
  by (simp add: ata_sectors_def)

lemma ata_sectors_Suc: "ata_sectors a b lba (Suc n) = a_disks a b lba @ ata_sectors a b (lba + 1) n"
  by (simp add: ata_sectors_def upt_conv_Cons map_Suc_upt[symmetric] del: upt_Suc) (simp add: comp_def)

lemma ata_sectors_cong: "a_disks a' = a_disks a \<Longrightarrow> ata_sectors a' = ata_sectors a"
  by (intro ext) (simp add: ata_sectors_def)

text \<open>The sectors the loop reads are the next ones the channel has; then it has the rest.\<close>

lemma read_sectors_law:
  assumes A: "ata_channel P base view" and W: "wakes resume c view Q"
  shows "Q s \<Longrightarrow> ata_wf (view (hw s)) \<Longrightarrow> a_data (view (hw s)) = ata_sectors (view (hw s)) b lba n \<Longrightarrow>
    \<exists>s'. read_sectors P resume c base n s = Some (bytes_of_words (ata_sectors (view (hw s)) b lba n), s') \<and> Q s'
      \<and> running s' = running s \<and> map no_waiter (controllers s') = map no_waiter (controllers s)
      \<and> view (hw s') = (view (hw s))\<lparr>a_data := [], a_busy := if n = 0 then a_busy (view (hw s)) else 0\<rparr>"
proof (induction n arbitrary: s lba)
  case 0
  then show ?case by simp
next
  case (Suc n)
  let ?a = "view (hw s)" and ?x = "a_disks (view (hw s)) b lba"
  let ?r = "ata_sectors ?a b (lba + 1) n"
  obtain s1 b1 where s1: "ide_sleep resume c s = Some s1" "Q s1" "running s1 = running s"
    "map no_waiter (controllers s1) = map no_waiter (controllers s)" "view (hw s1) = ?a\<lparr>a_busy := b1\<rparr>"
    using W Suc(2) unfolding wakes_def by blast
  have x: "length ?x = 256" using Suc(3) by (simp add: ata_wf_def)
  have d: "a_data ?a = ?x @ ?r" using Suc(4) by (simp add: ata_sectors_Suc)
  then have "a_data ?a \<noteq> []" using x by (cases ?x) auto
  then obtain w2 where w2: "ide_busy_wait P base IDE_SR_DRQ (hw s1) = Some w2" "view w2 = ?a\<lparr>a_busy := 0\<rparr>"
    using busy_wait_law[OF A, of IDE_SR_DRQ "hw s1"] s1(5) by auto
  have "\<exists>b. fst (read_words P base (length ?x) w2) = bytes_of_words ?x
    \<and> view (snd (read_words P base (length ?x) w2)) = (view w2)\<lparr>a_data := ?r, a_busy := b\<rparr> \<and> (?r = [] \<longrightarrow> b = 0)"
    by (rule read_words_law[OF A]) (use w2(2) d x ata_sectors_length[OF Suc(3)] in simp_all)
  then obtain bs w3 b3 where w3: "read_words P base 256 w2 = (bytes_of_words ?x, w3)"
    "view w3 = ?a\<lparr>a_data := ?r, a_busy := b3\<rparr>" "?r = [] \<longrightarrow> b3 = 0"
    unfolding x using w2(2) by (cases "read_words P base 256 w2") auto
  let ?s = "s1\<lparr>hw := w3\<rparr>"
  have c: "ata_sectors (view (hw ?s)) = ata_sectors ?a" by (rule ata_sectors_cong) (simp add: w3)
  have n0: "n = 0 \<Longrightarrow> b3 = 0" using w3(3) by simp
  have "\<exists>s'. read_sectors P resume c base n ?s = Some (bytes_of_words (ata_sectors (view (hw ?s)) b (lba + 1) n), s') \<and> Q s'
      \<and> running s' = running ?s \<and> map no_waiter (controllers s') = map no_waiter (controllers ?s)
      \<and> view (hw s') = (view (hw ?s))\<lparr>a_data := [], a_busy := if n = 0 then a_busy (view (hw ?s)) else 0\<rparr>"
  proof (rule Suc.IH)
    show "Q ?s" using W s1(2) unfolding wakes_def by blast
    show "ata_wf (view (hw ?s))" using Suc(3) w3(2) by (simp add: ata_wf_def)
    show "a_data (view (hw ?s)) = ata_sectors (view (hw ?s)) b (lba + 1) n" using c w3(2) by simp
  qed
  then obtain s' where r: "read_sectors P resume c base n ?s = Some (bytes_of_words ?r, s')"
    "Q s'" "running s' = running s" "map no_waiter (controllers s') = map no_waiter (controllers s)"
    "view (hw s') = ?a\<lparr>a_data := [], a_busy := 0\<rparr>"
    using c s1(3,4) w3(2) n0 by (auto split: if_splits)
  have "read_sectors P resume c base (Suc n) s = Some (bytes_of_words (ata_sectors ?a b lba (Suc n)), s')"
    using s1(1) w2(1) w3(1) r(1)
    by (simp add: busy_wait_def ide_pio_read_sector_def ata_sectors_Suc)
  then show ?case using r by simp
qed

section \<open>The address\<close>

text \<open>The bytes of the block address in the registers give it back.\<close>

lemma unat_byte: "unat (ucast (take_bit 8 (drop_bit n x)) :: u8) = unat (x :: u32) div 2 ^ n mod 256"
proof -
  have "unat x < 2 ^ 32" using unsigned_less[of x] by simp
  then show ?thesis
    by (simp only: unsigned_ucast_eq unsigned_take_bit_eq unsigned_drop_bit_eq) (simp add: take_bit_eq_mod drop_bit_eq_div)
qed

lemma byte_masks: "(0xFF :: u32) = mask 8" "(0xFF00 :: u32) = push_bit 8 (mask 8)" "(0xFF0000 :: u32) = push_bit 16 (mask 8)"
    "(0xF :: u32) = mask 4" "(0xF :: u8) = mask 4"
  by (simp_all add: mask_eq_exp_minus_1 push_bit_eq_mult)

lemma lba_bytes:
  "unat (ucast (lba AND 0xFF) :: u8) = unat (lba :: u32) mod 256"
  "unat (ucast (drop_bit 8 (lba AND 0xFF00)) :: u8) = unat lba div 256 mod 256"
  "unat (ucast (drop_bit 16 (lba AND 0xFF0000)) :: u8) = unat lba div 65536 mod 256"
proof -
  have w: "lba AND 0xFF = take_bit 8 (drop_bit 0 lba)" "drop_bit 8 (lba AND 0xFF00) = take_bit 8 (drop_bit 8 lba)"
    "drop_bit 16 (lba AND 0xFF0000) = take_bit 8 (drop_bit 16 lba)"
    unfolding byte_masks by (rule bit_word_eqI, auto simp: bit_simps)+
  show "unat (ucast (lba AND 0xFF) :: u8) = unat lba mod 256" unfolding w unat_byte by simp
  show "unat (ucast (drop_bit 8 (lba AND 0xFF00)) :: u8) = unat lba div 256 mod 256" unfolding w unat_byte by simp
  show "unat (ucast (drop_bit 16 (lba AND 0xFF0000)) :: u8) = unat lba div 65536 mod 256" unfolding w unat_byte by simp
qed

lemma selector_bits:
  assumes "sel = 0xE0 \<or> sel = 0xF0"
  shows "(ucast (x AND 0xF) OR sel :: u8) AND 0xF = ucast (x AND 0xF :: u32)"
    and "bit (ucast (x AND 0xF :: u32) OR sel :: u8) 4 \<longleftrightarrow> sel = 0xF0"
proof -
  have s: "\<not> bit sel 0" "\<not> bit sel 1" "\<not> bit sel 2" "\<not> bit sel 3" "bit sel 4 \<longleftrightarrow> sel = 0xF0" using assms by auto
  show "(ucast (x AND 0xF) OR sel :: u8) AND 0xF = ucast (x AND 0xF)" unfolding byte_masks
  proof (rule bit_word_eqI)
    fix n assume "n < LENGTH(8)"
    have "n < 4 \<Longrightarrow> \<not> bit sel n" using s(1-4) by (auto simp: less_Suc_eq numeral_eq_Suc)
    then show "bit ((ucast (x AND mask 4) OR sel :: u8) AND mask 4) n = bit (ucast (x AND mask 4) :: u8) n"
      by (auto simp: bit_simps)
  qed
  show "bit (ucast (x AND 0xF) OR sel :: u8) 4 \<longleftrightarrow> sel = 0xF0" unfolding byte_masks using s(5) by (auto simp: bit_simps)
qed

lemma lba_high:
  assumes "unat lba < 2 ^ 28"
  shows "unat (ucast (drop_bit 24 lba AND 0xF) :: u8) = unat (lba :: u32) div 16777216"
proof -
  have "unat (ucast (take_bit 4 (drop_bit 24 lba)) :: u8) = take_bit 4 (drop_bit 24 (unat lba))"
    by (simp only: unsigned_ucast_eq unsigned_take_bit_eq unsigned_drop_bit_eq take_bit_take_bit) (use assms in \<open>simp add: take_bit_eq_mod drop_bit_eq_div\<close>)
  moreover have "take_bit 4 (drop_bit 24 (unat lba)) = unat lba div 16777216"
    using assms by (simp add: take_bit_eq_mod drop_bit_eq_div)
  moreover have "drop_bit 24 lba AND 0xF = take_bit 4 (drop_bit 24 lba)" unfolding byte_masks take_bit_eq_mask ..
  ultimately show ?thesis by simp
qed

lemma four_digits: "n mod 256 + 256 * (n div 256 mod 256) + 65536 * (n div 65536 mod 256) + 16777216 * (n div 16777216) = (n :: nat)"
proof -
  have 1: "n div 65536 = n div 256 div 256" using div_mult2_eq[of n 256 256] by simp
  have 2: "n div 16777216 = n div 256 div 256 div 256" using div_mult2_eq[of n 65536 256] 1 by simp
  have "n = n mod 256 + 256 * (n div 256)" for n :: nat by simp
  note d = this[of n] this[of "n div 256"] this[of "n div 256 div 256"]
  show ?thesis unfolding 1 2 using d by linarith
qed

lemma select_sector_law:
  assumes A: "ata_channel P base view" and idle: "a_busy (view (hw s)) = 0" and sel: "sel = 0xE0 \<or> sel = 0xF0"
    and lba: "unat lba < 2 ^ 28"
  shows "\<exists>w. ide_select_sector P base sel lba count s = s\<lparr>hw := w\<rparr> \<and> ata_lba (view w) = unat lba
    \<and> ata_slave (view w) = (sel = 0xF0) \<and> a_count (view w) = count \<and> a_busy (view w) = 0
    \<and> a_data (view w) = a_data (view (hw s)) \<and> a_disks (view w) = a_disks (view (hw s))"
proof -
  let ?w = "hw (ide_select_sector P base sel lba count s)"
  have v: "view ?w = (view (hw s))\<lparr>a_count := count,
      a_low := ucast (lba AND 0xFF), a_mid := ucast (drop_bit 8 (lba AND 0xFF00)),
      a_high := ucast (drop_bit 16 (lba AND 0xFF0000)), a_sel := ucast (drop_bit 24 lba AND 0xF) OR sel\<rparr>"
    using idle by (simp add: ide_select_sector_def Let_def out_def ata_channel_regs[OF A])
  have s: "ide_select_sector P base sel lba count s = s\<lparr>hw := ?w\<rparr>"
    by (simp add: ide_select_sector_def Let_def out_def)
  have f: "a_low (view ?w) = ucast (lba AND 0xFF)" "a_mid (view ?w) = ucast (drop_bit 8 (lba AND 0xFF00))"
    "a_high (view ?w) = ucast (drop_bit 16 (lba AND 0xFF0000))" "a_sel (view ?w) = ucast (drop_bit 24 lba AND 0xF) OR sel"
    unfolding v by simp_all
  have "ata_lba (view ?w) = unat lba"
    unfolding ata_lba_def f lba_bytes selector_bits(1)[OF sel] lba_high[OF lba] four_digits ..
  moreover have "ata_slave (view ?w) = (sel = 0xF0)"
    unfolding ata_slave_def f selector_bits(2)[OF sel] ..
  ultimately show ?thesis using s v idle by (intro exI[of _ ?w]) simp
qed

section \<open>Reading\<close>

definition held_by :: "nat \<Rightarrow> driver_lock" where
  "held_by t = \<lparr>lk_holder = Some t, lk_repeat = 1\<rparr>"

lemma ctrl_acquire_free:
  assumes "c < length (controllers s)" "c_lock (controllers s ! c) = free_lock"
  shows "ctrl_acquire c s = Some (s\<lparr>controllers := (controllers s)[c := (controllers s ! c)\<lparr>c_lock := held_by (running s)\<rparr>]\<rparr>)"
  using assms by (simp add: ctrl_acquire_def rd_def take_lock_def free_lock_def upd_ctrl_def held_by_def)

lemma ctrl_release_held:
  assumes "c < length (controllers s)" "c_lock (controllers s ! c) = held_by (running s)"
  shows "ctrl_release c s = Some (s\<lparr>controllers := (controllers s)[c := (controllers s ! c)\<lparr>c_lock := free_lock\<rparr>]\<rparr>)"
  using assms by (simp add: ctrl_release_def rd_def give_lock_def upd_ctrl_def held_by_def)

lemma no_waiter_same:
  assumes "map no_waiter ks' = map no_waiter ks"
  shows "length ks' = length ks" and "c < length ks \<Longrightarrow> c_lock (ks' ! c) = c_lock (ks ! c)"
proof -
  show l: "length ks' = length ks" using assms by (metis length_map)
  show "c_lock (ks' ! c) = c_lock (ks ! c)" if "c < length ks"
  proof -
    have "no_waiter (ks' ! c) = no_waiter (ks ! c)" using assms l that by (metis nth_map)
    then have "c_lock (no_waiter (ks' ! c)) = c_lock (no_waiter (ks ! c))" by simp
    then show ?thesis by (simp add: no_waiter_def)
  qed
qed

text \<open>The drive is selected, the address and the command are written.\<close>

definition read_started :: "'w ports \<Rightarrow> nat \<Rightarrow> nat \<Rightarrow> u8 \<Rightarrow> u32 \<Rightarrow> 'w ide \<Rightarrow> 'w ide option" where
  "read_started P c d count lba s = do {
     k \<leftarrow> rd (controllers s) c;
     x \<leftarrow> rd (c_disks k) d;
     s \<leftarrow> ide_select_drive P c d s;
     s \<leftarrow> busy_wait P (c_iobase k) IDE_SR_DRDY s;
     let s = ide_select_sector P (c_iobase k) (k_selector x) lba count s;
     Some (out P (c_iobase k + IDE_COMMAND) IDE_CMD_READ s)
   }"

lemma read_started_law:
  assumes A: "ata_channel P (c_iobase k) view" and c: "c < length (controllers s)" "controllers s ! c = k"
    and d: "d < length (c_disks k)" "k_selector (c_disks k ! d) = (if d = 0 then 0xE0 else 0xF0)"
    and idle: "a_busy (view (hw s)) = 0" and lba: "unat lba < 2 ^ 28"
  shows "\<exists>w. read_started P c d count lba s
      = Some (s\<lparr>controllers := (controllers s)[c := k\<lparr>c_active := Some d\<rparr>], hw := w\<rparr>)
    \<and> a_data (view w) = ata_sectors (view (hw s)) (d \<noteq> 0) (unat lba) (unat count)
    \<and> a_disks (view w) = a_disks (view (hw s))"
proof -
  let ?b = "c_iobase k" and ?sel = "k_selector (c_disks k ! d)"
  let ?s = "s\<lparr>controllers := (controllers s)[c := k\<lparr>c_active := Some d\<rparr>]\<rparr>"
  let ?w1 = "outb P (?b + IDE_HDDEVSEL) ?sel (hw s)"
  have w1: "view ?w1 = (view (hw s))\<lparr>a_sel := ?sel\<rparr>" by (rule ata_channel_regs(6)[OF A idle])
  obtain w2 where w2: "ide_busy_wait P ?b IDE_SR_DRDY ?w1 = Some w2" "view w2 = (view ?w1)\<lparr>a_busy := 0\<rparr>"
    using busy_wait_law[OF A] by blast
  have "\<exists>w. ide_select_sector P ?b ?sel lba count (?s\<lparr>hw := w2\<rparr>) = ?s\<lparr>hw := w2\<rparr>\<lparr>hw := w\<rparr> \<and> ata_lba (view w) = unat lba
    \<and> ata_slave (view w) = (?sel = 0xF0) \<and> a_count (view w) = count \<and> a_busy (view w) = 0
    \<and> a_data (view w) = a_data (view (hw (?s\<lparr>hw := w2\<rparr>))) \<and> a_disks (view w) = a_disks (view (hw (?s\<lparr>hw := w2\<rparr>)))"
    by (rule select_sector_law[OF A]) (use d(2) lba w2(2) in simp_all)
  then obtain w3 where w3: "ide_select_sector P ?b ?sel lba count (?s\<lparr>hw := w2\<rparr>) = ?s\<lparr>hw := w3\<rparr>"
    "ata_lba (view w3) = unat lba" "ata_slave (view w3) = (d \<noteq> 0)" "a_count (view w3) = count"
    "a_busy (view w3) = 0" "a_disks (view w3) = a_disks (view (hw s))"
    using d(2) w1 w2(2) by (auto split: if_splits)
  let ?w = "outb P (?b + IDE_COMMAND) IDE_CMD_READ w3"
  obtain b where w: "view ?w = (ata_read_command (view w3))\<lparr>a_busy := b\<rparr>"
    using ata_channel_regs(7)[OF A w3(5)] by blast
  have "read_started P c d count lba s = Some (?s\<lparr>hw := ?w\<rparr>)"
    using c d(1) w2(1) w3(1)
    by (simp add: read_started_def rd_def ide_select_drive_def upd_ctrl_def out_def busy_wait_def)
  moreover have "a_data (view ?w) = ata_sectors (view (hw s)) (d \<noteq> 0) (unat lba) (unat count)"
    using w w3 ata_sectors_cong[OF w3(6)] by (simp add: ata_read_command_def)
  moreover have "a_disks (view ?w) = a_disks (view (hw s))"
    using w w3(6) by (simp add: ata_read_command_def)
  ultimately show ?thesis by (intro exI[of _ ?w]) simp
qed

lemma ide_pio_read_started:
  assumes "c < length (controllers s)" "d < length (c_disks (controllers s ! c))"
  shows "ide_pio_read P resume c d count lba s = do {
     check (count > 0);
     check (\<not> intr s);
     s1 \<leftarrow> ctrl_acquire c s;
     s2 \<leftarrow> read_started P c d count lba s1;
     (bs, s3) \<leftarrow> read_sectors P resume c (c_iobase (controllers s ! c)) (unat count) s2;
     s4 \<leftarrow> ctrl_release c s3;
     Some (bs, s4)
   }"
proof -
  have "ctrl_acquire c s = Some s1 \<Longrightarrow> rd (controllers s1) c = Some (controllers s1 ! c)
      \<and> c_iobase (controllers s1 ! c) = c_iobase (controllers s ! c)
      \<and> c_disks (controllers s1 ! c) = c_disks (controllers s ! c)" for s1
    using assms by (auto simp: ctrl_acquire_def rd_def upd_ctrl_def split: Option.bind_splits)
  then show ?thesis using assms
    by (cases "ctrl_acquire c s") (simp_all add: ide_pio_read_def rd_def read_started_def)
qed

section \<open>Properties\<close>

text \<open>
  C11: a disk is read as it is. On an idle channel that behaves as ATA documents, with the lock of
  the controller free and a scheduler that wakes the sleeping task, \<^verbatim>\<open>ide_pio_read\<close> returns: with
  the bytes of the \<open>count\<close> sectors from \<open>lba\<close> on of the disk selected, in order and the low
  byte of each word first, the disks unchanged, the channel idle and the lock free again.
\<close>

theorem ide_pio_read_sectors:
  assumes "ata_channel P (c_iobase k) view" and "wakes resume c view Q" and "Q s" and "\<not> intr s"
    and "c < length (controllers s)" and "controllers s ! c = k" and "c_lock k = free_lock"
    and "d < length (c_disks k)" and "k_selector (c_disks k ! d) = (if d = 0 then 0xE0 else 0xF0)"
    and "a_busy (view (hw s)) = 0" and "ata_wf (view (hw s))"
    and "0 < count" and "unat lba + unat count \<le> 2 ^ 28"
  shows "\<exists>s'. ide_pio_read P resume c d count lba s
        = Some (bytes_of_words (ata_sectors (view (hw s)) (d \<noteq> 0) (unat lba) (unat count)), s')
      \<and> a_disks (view (hw s')) = a_disks (view (hw s)) \<and> a_busy (view (hw s')) = 0
      \<and> c_lock (controllers s' ! c) = free_lock"
proof -
  let ?k = "k\<lparr>c_lock := held_by (running s)\<rparr>"
  let ?s1 = "s\<lparr>controllers := (controllers s)[c := ?k]\<rparr>" and ?k2 = "?k\<lparr>c_active := Some d\<rparr>"
  let ?secs = "ata_sectors (view (hw s)) (d \<noteq> 0) (unat lba) (unat count)"
  have n: "0 < unat count" "unat lba < 2 ^ 28" using assms(12,13) by (simp_all add: word_less_nat_alt)
  have 1: "ctrl_acquire c s = Some ?s1" using ctrl_acquire_free[OF assms(5)] assms(6,7) by simp
  have "\<exists>w. read_started P c d count lba ?s1
      = Some (?s1\<lparr>controllers := (controllers ?s1)[c := ?k2], hw := w\<rparr>)
    \<and> a_data (view w) = ata_sectors (view (hw ?s1)) (d \<noteq> 0) (unat lba) (unat count)
    \<and> a_disks (view w) = a_disks (view (hw ?s1))"
    by (rule read_started_law) (use assms n in simp_all)
  then obtain w where 2: "read_started P c d count lba ?s1 = Some (s\<lparr>controllers := (controllers s)[c := ?k2], hw := w\<rparr>)"
    "a_data (view w) = ?secs" "a_disks (view w) = a_disks (view (hw s))" by auto
  let ?s2 = "s\<lparr>controllers := (controllers s)[c := ?k2], hw := w\<rparr>"
  have e: "ata_sectors (view w) = ata_sectors (view (hw s))" by (rule ata_sectors_cong[OF 2(3)])
  have "\<exists>s3. read_sectors P resume c (c_iobase k) (unat count) ?s2
        = Some (bytes_of_words (ata_sectors (view (hw ?s2)) (d \<noteq> 0) (unat lba) (unat count)), s3) \<and> Q s3
      \<and> running s3 = running ?s2 \<and> map no_waiter (controllers s3) = map no_waiter (controllers ?s2)
      \<and> view (hw s3) = (view (hw ?s2))\<lparr>a_data := [], a_busy := if unat count = 0 then a_busy (view (hw ?s2)) else 0\<rparr>"
  proof (rule read_sectors_law[OF assms(1,2)])
    have "Q (s\<lparr>controllers := (controllers s)[c := ?k2]\<rparr>)" using assms(2,3) unfolding wakes_def by simp
    then have "Q (s\<lparr>controllers := (controllers s)[c := ?k2]\<rparr>\<lparr>hw := w\<rparr>)" using assms(2) unfolding wakes_def by blast
    then show "Q ?s2" by simp
    show "ata_wf (view (hw ?s2))" using assms(11) 2(3) by (simp add: ata_wf_def)
    show "a_data (view (hw ?s2)) = ata_sectors (view (hw ?s2)) (d \<noteq> 0) (unat lba) (unat count)" using 2(2) e by simp
  qed
  then obtain s3 where 3: "read_sectors P resume c (c_iobase k) (unat count) ?s2 = Some (bytes_of_words ?secs, s3)"
    "running s3 = running s" "map no_waiter (controllers s3) = map no_waiter ((controllers s)[c := ?k2])"
    "view (hw s3) = (view w)\<lparr>a_data := [], a_busy := 0\<rparr>" using n(1) e by auto
  have l: "c < length (controllers s3)" "c_lock (controllers s3 ! c) = held_by (running s3)"
    using no_waiter_same[OF 3(3)] assms(5) 3(2) by simp_all
  have "ide_pio_read P resume c d count lba s
      = Some (bytes_of_words ?secs, s3\<lparr>controllers := (controllers s3)[c := (controllers s3 ! c)\<lparr>c_lock := free_lock\<rparr>]\<rparr>)"
    using ide_pio_read_started[of c s d P resume count lba] assms(4-6,8,12) 1 2(1) 3(1) ctrl_release_held[OF l] by simp
  then show ?thesis using l(1) 3(4) 2(3) by simp
qed

text \<open>A channel at port 0x1F0 that is busy for three polls after a command and two between sectors.\<close>

definition ata_port_in :: "u16 \<Rightarrow> ata \<Rightarrow> u8 \<times> ata" where
  "ata_port_in port a =
     (if port = 0x3F6 then (if 0 < a_busy a then 0x80 else if a_data a = [] then 0x40 else 0x48, a\<lparr>a_busy := a_busy a - 1\<rparr>)
      else (0, a))"

definition ata_port_out :: "u16 \<Rightarrow> u8 \<Rightarrow> ata \<Rightarrow> ata" where
  "ata_port_out port v a =
     (if 0 < a_busy a then a
      else if port = 0x1F2 then a\<lparr>a_count := v\<rparr> else if port = 0x1F3 then a\<lparr>a_low := v\<rparr>
      else if port = 0x1F4 then a\<lparr>a_mid := v\<rparr> else if port = 0x1F5 then a\<lparr>a_high := v\<rparr>
      else if port = 0x1F6 then a\<lparr>a_sel := v\<rparr>
      else if port = 0x1F7 \<and> v = 0x20 then (ata_read_command a)\<lparr>a_busy := 3\<rparr> else a)"

definition ata_port_inw :: "u16 \<Rightarrow> ata \<Rightarrow> u16 \<times> ata" where
  "ata_port_inw port a =
     (case a_data a of [] \<Rightarrow> (0, a)
      | x # xs \<Rightarrow> (x, a\<lparr>a_data := xs, a_busy := if xs \<noteq> [] \<and> length xs mod 256 = 0 then 2 else 0\<rparr>))"

definition ata_ports :: "ata ports" where
  "ata_ports = \<lparr>inb = ata_port_in, outb = ata_port_out, inw = ata_port_inw, outw = (\<lambda>port v a. a)\<rparr>"

lemma ata_ports_channel: "ata_channel ata_ports 0x1F0 id"
  unfolding ata_channel_def
  by (intro conjI allI impI; simp add: ata_ports_def ata_port_in_def ata_port_out_def ata_port_inw_def)
     (metis ata.surjective ata.update_convs(7))+

text \<open>When the other tasks have run, the scheduler is as before the call.\<close>

definition sample_resume :: "'w ide_resume" where
  "sample_resume s = Some (sched.extend sample_sched (sched.more s))"

lemma sample_sched_like:
  assumes "sched.truncate s = sample_sched"
  shows "sched_inv s" "running s = 1" "idle_task s = 0" "get_task t s = get_task t sample_sched"
proof -
  have "task_table s = task_table sample_sched" using arg_cong[OF assms, of task_table] by (simp only: sched.defs sched.select_convs)
  then have e: "get_task t s = get_task t sample_sched" "queues s = queues sample_sched"
    "running s = running sample_sched" "idle_task s = idle_task sample_sched" "intr s = intr sample_sched" for t
    using arg_cong[OF assms, of queues] arg_cong[OF assms, of running] arg_cong[OF assms, of idle_task]
      arg_cong[OF assms, of intr] by (simp_all only: sched.defs sched.select_convs get_task_def)
  show "sched_inv s" using sample_sched_inv unfolding ok_tasks_def ok_task_def e .
  show "running s = 1" "idle_task s = 0" "get_task t s = get_task t sample_sched" by (simp_all add: e)
qed

lemma same_more: "sched.more u = sched.more v \<Longrightarrow> controllers u = controllers v \<and> hw u = hw v"
  for u v :: "'w ide"
  by (cases u; cases v) simp

lemma sample_wakes: "wakes sample_resume c view (\<lambda>s. sched.truncate s = sample_sched \<and> c < length (controllers s))"
proof -
  have "\<exists>s' b. ide_sleep sample_resume c s = Some s' \<and> (sched.truncate s' = sample_sched \<and> c < length (controllers s'))
      \<and> running s' = running s \<and> map no_waiter (controllers s') = map no_waiter (controllers s)
      \<and> view (hw s') = (view (hw s))\<lparr>a_busy := b\<rparr>"
    if s: "sched.truncate s = sample_sched" "c < length (controllers s)" for s
  proof -
    let ?s = "s\<lparr>controllers := (controllers s)[c := (controllers s ! c)\<lparr>c_waiter := Some 1\<rparr>]\<rparr>"
    have t: "sched.truncate ?s = sample_sched" using s(1) by (simp add: sched.defs)
    have tk: "get_task 1 s = Some (sample_task_at 1 TASK_RUNNING 3)" "get_task 1 ?s = Some (sample_task_at 1 TASK_RUNNING 3)"
      using sample_sched_like(4)[OF s(1)] sample_sched_like(4)[OF t] sample_tasks[of 1] by auto
    obtain u where u: "task_block 1 Block_list TASK_BLOCKED ?s = Some u"
      using task_block_ok[OF sample_sched_like(1)[OF t] tk(2), of TASK_BLOCKED] sample_sched_like(3)[OF t] by (auto simp: waits_def)
    have m: "sched.more u = sched.more ?s" using task_block_rest[OF u] by (simp add: unscheduled_def)
    let ?s' = "sched.extend sample_sched (sched.more u) :: 'a ide"
    have "ide_sleep sample_resume c s = Some ?s'"
      using s(2) tk(1) u sample_sched_like(2)[OF s(1)]
      by (simp add: ide_sleep_def upd_ctrl_def rd_def sample_resume_def)
    moreover have "sched.truncate ?s' = sample_sched" "running ?s' = running s"
      using sample_sched_like(2)[OF s(1)] by (simp_all add: sched.defs sample_sched_def)
    moreover have "controllers ?s' = controllers ?s" "hw ?s' = hw s"
      using same_more[of ?s' ?s] m by (simp_all add: sched.defs)
    moreover have "map no_waiter (controllers ?s) = map no_waiter (controllers s)"
      using s(2) by (simp add: map_update no_waiter_def list_update_same_conv)
    ultimately show ?thesis using s(2) by (intro exI[of _ ?s'] exI[of _ "a_busy (view (hw s))"]) simp
  qed
  then show ?thesis unfolding wakes_def by (simp add: sched.defs)
qed

definition sample_ata :: ata where
  "sample_ata = \<lparr>a_count = 0, a_low = 0, a_mid = 0, a_high = 0, a_sel = 0, a_data = [], a_busy = 0,
     a_disks = (\<lambda>slave lba. replicate 256 (if slave then 0x100 + of_nat lba else of_nat lba))\<rparr>"

definition sample_ctrl :: "ide_ctrl" where
  "sample_ctrl = \<lparr>c_name = ''cidx0'', c_lock = free_lock, c_iobase = 0x1F0,
     c_disks = map (\<lambda>(n, sel). \<lparr>k_name = n, k_selector = sel, k_master = (sel = 0xE0), k_total_lba = 9, k_cylinders = 1,
       k_heads = 1, k_sectors = 9, k_parts = []\<rparr>) [(''hda'', 0xE0), (''hdb'', 0xF0)],
     c_active = None, c_control = 0, c_waiter = None\<rparr>"

definition sample_ide :: "ata ide" where
  "sample_ide = sched.extend sample_sched \<lparr>idt = [], handler_table = [], hw = sample_ata, controllers = [sample_ctrl]\<rparr>"

lemma ide_pio_read_sectors_witness:
  "\<exists>s'. ide_pio_read ata_ports sample_resume 0 1 2 7 sample_ide
        = Some (bytes_of_words (replicate 256 0x107 @ replicate 256 0x108), s')
      \<and> a_disks (hw s') = a_disks sample_ata \<and> a_busy (hw s') = 0 \<and> c_lock (controllers s' ! 0) = free_lock"
proof -
  have h: "hw sample_ide = sample_ata" "controllers sample_ide = [sample_ctrl]" "sched.truncate sample_ide = sample_sched"
    "\<not> intr sample_ide"
    by (simp_all add: sample_ide_def sched.defs sample_sched_def)
  have "\<exists>s'. ide_pio_read ata_ports sample_resume 0 1 2 7 sample_ide
        = Some (bytes_of_words (ata_sectors (id (hw sample_ide)) (1 \<noteq> (0 :: nat)) (unat (7 :: u32)) (unat (2 :: u8))), s')
      \<and> a_disks (id (hw s')) = a_disks (id (hw sample_ide)) \<and> a_busy (id (hw s')) = 0
      \<and> c_lock (controllers s' ! 0) = free_lock"
  proof (rule ide_pio_read_sectors[OF _ sample_wakes])
    show "ata_channel ata_ports (c_iobase sample_ctrl) id" by (simp add: sample_ctrl_def ata_ports_channel)
    show "ata_wf (id (hw sample_ide))" by (simp add: h sample_ata_def ata_wf_def)
  qed (use h in \<open>simp_all add: sample_ctrl_def sample_ata_def\<close>)
  moreover have "ata_sectors sample_ata True 7 2 = replicate 256 0x107 @ replicate 256 0x108"
    by (simp add: ata_sectors_def sample_ata_def upt_rec)
  ultimately show ?thesis by (simp add: h)
qed

end
