(* ===== verification/Mutex.thy ===== *)
theory Mutex
  imports Tasks
begin

text \<open>
  \<^verbatim>\<open>kernel/mutex.c\<close>: the mutex and the lock that its holder may take again. The mutex is the one
  with the waiters \<open>Waiters m\<close>; the scheduler below it is the one of \<open>Tasks\<close>. The code runs
  with interrupts off inside \<^verbatim>\<open>mutex_lock\<close> and \<^verbatim>\<open>mutex_unlock\<close> and with interrupts on in
  \<^verbatim>\<open>lock_acquire\<close> and \<^verbatim>\<open>lock_release\<close>, so a task can lose the processor between any two of
  their accesses: \<open>place\<close> says how far each task has come, and every definition here is the
  code between two such points.
\<close>

section \<open>State\<close>

datatype place =
    Outside    \<comment> \<open>anywhere but in the functions of the lock, without the lock\<close>
  | Entering   \<comment> \<open>\<^verbatim>\<open>lock_acquire\<close> has seen that it is not the holder\<close>
  | Waiting    \<comment> \<open>in \<^verbatim>\<open>task_block\<close> of \<^verbatim>\<open>mutex_lock\<close>, or back from it\<close>
  | Acquired   \<comment> \<open>\<^verbatim>\<open>mutex_lock\<close> has returned\<close>
  | Owner      \<comment> \<open>\<^verbatim>\<open>holder\<close> is set\<close>
  | Holding    \<comment> \<open>\<^verbatim>\<open>lock_acquire\<close> has returned\<close>
  | Giving     \<comment> \<open>\<^verbatim>\<open>lock_release\<close> is about to clear \<^verbatim>\<open>holder\<close>\<close>
  | Cleared    \<comment> \<open>about to clear \<^verbatim>\<open>repeat\<close>\<close>
  | Unlocking  \<comment> \<open>about to call \<^verbatim>\<open>mutex_unlock\<close>\<close>

record lock_sys = sched +
  m_value :: bool
  l_holder :: "nat option"
  l_repeat :: u32
  place :: "nat \<Rightarrow> place"

definition go :: "nat \<Rightarrow> place \<Rightarrow> lock_sys \<Rightarrow> lock_sys" where
  "go t p s = s\<lparr>place := (place s)(t := p)\<rparr>"

section \<open>The mutex\<close>

definition mutex_init :: "nat \<Rightarrow> lock_sys \<Rightarrow> lock_sys" where
  "mutex_init m s = s\<lparr>m_value := False, queues := (queues s)(Waiters m := [])\<rparr>"

text \<open>\<^verbatim>\<open>mutex_lock\<close>: one test of the loop, and what follows it when the mutex is free.\<close>

definition mutex_lock :: "nat \<Rightarrow> lock_sys \<Rightarrow> lock_sys option" where
  "mutex_lock m s =
     (if m_value s then task_block (running s) (Waiters m) TASK_BLOCKED (go (running s) Waiting s)
      else Some (go (running s) Acquired (s\<lparr>m_value := True\<rparr>)))"

definition mutex_unlock :: "nat \<Rightarrow> lock_sys \<Rightarrow> lock_sys option" where
  "mutex_unlock m s = do {
     check (m_value s);
     let s = go (running s) Outside (s\<lparr>m_value := False\<rparr>);
     if queues s (Waiters m) \<noteq> [] then do {
       let t = last (queues s (Waiters m));
       tk \<leftarrow> get_task t s;
       check (t_magic tk = ONIXS_MAGIC_NR);
       s \<leftarrow> task_unblock t s;
       task_yield s }
     else Some s
   }"

section \<open>The lock\<close>

definition lock_init :: "nat \<Rightarrow> lock_sys \<Rightarrow> lock_sys" where
  "lock_init m s = mutex_init m (s\<lparr>l_holder := None, l_repeat := 0\<rparr>)"

text \<open>\<^verbatim>\<open>lock_acquire\<close> up to its first shared access: the test of the holder.\<close>

definition lock_acquire :: "lock_sys \<Rightarrow> lock_sys" where
  "lock_acquire s =
     (if l_holder s \<noteq> Some (running s) then go (running s) Entering s
      else s\<lparr>l_repeat := l_repeat s + 1\<rparr>)"

text \<open>\<^verbatim>\<open>lock_release\<close> up to the point where it gives the lock up.\<close>

definition lock_release :: "lock_sys \<Rightarrow> lock_sys option" where
  "lock_release s = do {
     check (l_holder s = Some (running s));
     if l_repeat s > 1 then Some (s\<lparr>l_repeat := l_repeat s - 1\<rparr>)
     else do {
       check (l_repeat s = 1);
       Some (go (running s) Giving s)
     }
   }"

text \<open>The rest of both functions: the code from the place the running task has reached.\<close>

fun lock_continue :: "nat \<Rightarrow> place \<Rightarrow> lock_sys \<Rightarrow> lock_sys option" where
  "lock_continue m Entering s = mutex_lock m s"
| "lock_continue m Waiting s = mutex_lock m s"
| "lock_continue m Acquired s = Some (go (running s) Owner (s\<lparr>l_holder := Some (running s)\<rparr>))"
| "lock_continue m Owner s = do {
     check (l_repeat s = 0);
     Some (go (running s) Holding (s\<lparr>l_repeat := 1\<rparr>)) }"
| "lock_continue m Giving s = Some (go (running s) Cleared (s\<lparr>l_holder := None\<rparr>))"
| "lock_continue m Cleared s = Some (go (running s) Unlocking (s\<lparr>l_repeat := 0\<rparr>))"
| "lock_continue m Unlocking s = mutex_unlock m s"
| "lock_continue m Outside s = Some s"
| "lock_continue m Holding s = Some s"

section \<open>The system\<close>

text \<open>
  What can happen: the running task continues in the functions of the lock; a task outside them
  takes the lock (again), or gives it up if it has it; it waits for something else or yields;
  a task that waits for something else is woken; the timer interrupt preempts whoever runs.
\<close>

definition at_large :: "lock_sys \<Rightarrow> bool" where
  "at_large s \<longleftrightarrow> place s (running s) = Outside \<or> place s (running s) = Holding"

inductive lock_step :: "nat \<Rightarrow> lock_sys \<Rightarrow> lock_sys \<Rightarrow> bool" for m where
  continue: "lock_continue m (place s (running s)) s = Some s' \<Longrightarrow> lock_step m s s'"
| acquire: "at_large s \<Longrightarrow> running s \<noteq> idle_task s \<Longrightarrow> l_repeat s \<noteq> - 1 \<Longrightarrow> lock_step m s (lock_acquire s)"
| release: "place s (running s) = Holding \<Longrightarrow> lock_release s = Some s' \<Longrightarrow> lock_step m s s'"
| block: "at_large s \<Longrightarrow> running s \<noteq> idle_task s \<Longrightarrow> waits st \<Longrightarrow> q \<noteq> Waiters m \<Longrightarrow>
    task_block (running s) q st s = Some s' \<Longrightarrow> lock_step m s s'"
| sleep: "at_large s \<Longrightarrow> running s \<noteq> idle_task s \<Longrightarrow> task_sleep ms s = Some s' \<Longrightarrow> lock_step m s s'"
| yield: "at_large s \<Longrightarrow> task_yield s = Some s' \<Longrightarrow> lock_step m s s'"
| unblock: "t \<notin> set (queues s (Waiters m)) \<Longrightarrow> task_unblock t s = Some s' \<Longrightarrow> lock_step m s s'"
| tick: "clock_handler 0x20 s = Some s' \<Longrightarrow> lock_step m s s'"

inductive_cases lock_stepE: "lock_step m s s'"

section \<open>The invariant\<close>

definition inside :: "place \<Rightarrow> bool" where
  "inside p \<longleftrightarrow> p \<noteq> Outside \<and> p \<noteq> Entering \<and> p \<noteq> Waiting"

text \<open>What the fields of the lock are when its owner has come to a place.\<close>

fun fields_at :: "place \<Rightarrow> nat \<Rightarrow> nat option \<Rightarrow> u32 \<Rightarrow> bool" where
  "fields_at Acquired t h r = (h = None \<and> r = 0)"
| "fields_at Owner t h r = (h = Some t \<and> r = 0)"
| "fields_at Holding t h r = (h = Some t \<and> r \<noteq> 0)"
| "fields_at Giving t h r = (h = Some t \<and> r = 1)"
| "fields_at Cleared t h r = (h = None \<and> r = 1)"
| "fields_at Unlocking t h r = (h = None \<and> r = 0)"
| "fields_at _ t h r = False"

text \<open>A task that was woken by \<^verbatim>\<open>mutex_unlock\<close> and will test the mutex when it runs.\<close>

definition woken :: "lock_sys \<Rightarrow> nat \<Rightarrow> bool" where
  "woken s t \<longleftrightarrow> place s t = Waiting \<and> (\<exists>tk. get_task t s = Some tk \<and> \<not> t_linked tk)"

definition owned :: "lock_sys \<Rightarrow> bool" where
  "owned s \<longleftrightarrow> (\<exists>t. inside (place s t) \<and> (\<forall>u. inside (place s u) \<longrightarrow> u = t)
     \<and> fields_at (place s t) t (l_holder s) (l_repeat s))"

definition lock_free :: "lock_sys \<Rightarrow> bool" where
  "lock_free s \<longleftrightarrow> (\<forall>u. \<not> inside (place s u)) \<and> l_holder s = None \<and> l_repeat s = 0"

definition lock_inv :: "nat \<Rightarrow> lock_sys \<Rightarrow> bool" where
  "lock_inv m s \<longleftrightarrow> sched_inv s
     \<and> (if m_value s then owned s else lock_free s \<and> (queues s (Waiters m) \<noteq> [] \<longrightarrow> (\<exists>t. woken s t)))
     \<and> (\<forall>t. t \<in> set (queues s (Waiters m)) \<longrightarrow> place s t = Waiting)
     \<and> (\<forall>q t. t \<in> set (queues s q) \<longrightarrow> place s t = Outside \<or> place s t = Holding \<or> q = Waiters m)
     \<and> place s (idle_task s) = Outside"

lemma lock_invD:
  assumes "lock_inv m s"
  shows "sched_inv s" "m_value s \<Longrightarrow> owned s" "\<not> m_value s \<Longrightarrow> lock_free s"
    "\<not> m_value s \<Longrightarrow> queues s (Waiters m) \<noteq> [] \<Longrightarrow> \<exists>t. woken s t"
    "t \<in> set (queues s (Waiters m)) \<Longrightarrow> place s t = Waiting"
    "t \<in> set (queues s q) \<Longrightarrow> place s t = Outside \<or> place s t = Holding \<or> q = Waiters m"
    "place s (idle_task s) = Outside"
  using assms unfolding lock_inv_def by (auto split: if_splits)

lemma rest_lock:
  assumes "unscheduled s' = unscheduled s"
  shows "m_value s' = m_value s" "l_holder s' = l_holder s" "l_repeat s' = l_repeat s" "place s' = place s"
    "idle_task s' = idle_task s"
  using assms by (cases s; cases s'; simp add: unscheduled_def)+

text \<open>A step of the scheduler that does not touch the waiters of the mutex.\<close>

lemma lock_inv_frame:
  assumes I: "lock_inv m s" and ok: "sched_inv s'" and r: "unscheduled s' = unscheduled s"
    and w: "\<And>t. t \<in> set (queues s' (Waiters m)) \<longleftrightarrow> t \<in> set (queues s (Waiters m))"
    and q: "\<And>q t. t \<in> set (queues s' q) \<Longrightarrow> t \<in> set (queues s q) \<or> place s t = Outside \<or> place s t = Holding"
  shows "lock_inv m s'"
proof -
  note R = rest_lock[OF r]
  have wk: "woken s' t" if "woken s t" for t
  proof -
    obtain tk where t: "place s t = Waiting" "get_task t s = Some tk" "\<not> t_linked tk"
      using \<open>woken s t\<close> by (auto simp: woken_def)
    then obtain tk' where t': "get_task t s' = Some tk'" using rest_task[OF r, of t] by force
    have "t \<notin> set (queues s p)" for p using ok_tasksD(7)[OF lock_invD(1)[OF I] t(2)] t(3) by blast
    then have "t \<notin> set (queues s' p)" for p using q[of t p] t(1) by auto
    then have "\<not> t_linked tk'" using ok_tasksD(7)[OF ok t'] by blast
    with t t' R show ?thesis by (simp add: woken_def)
  qed
  then have ex: "\<exists>t. woken s t \<Longrightarrow> \<exists>t. woken s' t" by blast
  have "queues s' (Waiters m) = [] \<longleftrightarrow> queues s (Waiters m) = []"
    using w by (metis all_not_in_conv set_empty)
  moreover have "owned s' = owned s" "lock_free s' = lock_free s" using R by (simp_all add: owned_def lock_free_def)
  moreover have "\<forall>p t. t \<in> set (queues s' p) \<longrightarrow> place s' t = Outside \<or> place s' t = Holding \<or> p = Waiters m"
    using q lock_invD(6)[OF I] unfolding R by meson
  moreover have "\<forall>t. t \<in> set (queues s' (Waiters m)) \<longrightarrow> place s' t = Waiting" "place s' (idle_task s') = Outside"
    using w lock_invD(5,7)[OF I] unfolding R by simp_all
  ultimately show ?thesis
    unfolding lock_inv_def
    using ok R(1) lock_invD(2-4)[OF I] ex by (auto split: if_splits)
qed

lemma ok_tasks_lock [simp]:
  "ok_tasks r (s\<lparr>m_value := a\<rparr>) = ok_tasks r s" "ok_tasks r (s\<lparr>l_holder := b\<rparr>) = ok_tasks r s"
  "ok_tasks r (s\<lparr>l_repeat := c\<rparr>) = ok_tasks r s" "ok_tasks r (s\<lparr>place := d\<rparr>) = ok_tasks r s"
  by (simp_all add: ok_tasks_def ok_task_def get_task_def)

lemma get_task_lock [simp]:
  "get_task t (s\<lparr>m_value := a\<rparr>) = get_task t s" "get_task t (s\<lparr>l_holder := b\<rparr>) = get_task t s"
  "get_task t (s\<lparr>l_repeat := c\<rparr>) = get_task t s" "get_task t (s\<lparr>place := d\<rparr>) = get_task t s"
  by (simp_all add: get_task_def)

lemma go_simps [simp]:
  "ok_tasks r (go t p s) = ok_tasks r s" "running (go t p s) = running s" "queues (go t p s) = queues s"
  "m_value (go t p s) = m_value s" "l_holder (go t p s) = l_holder s" "l_repeat (go t p s) = l_repeat s"
  "place (go t p s) = (place s)(t := p)" "idle_task (go t p s) = idle_task s" "get_task u (go t p s) = get_task u s"
  by (simp_all add: go_def)

section \<open>Every step keeps the invariant\<close>

text \<open>The running task waits in no list; it is not the idle task when it is in the lock's code.\<close>

lemma running_queues:
  assumes "sched_inv s"
  shows "running s \<notin> set (queues s q)"
proof -
  obtain tk where "get_task (running s) s = Some tk" "\<not> t_linked tk" by (rule running_free[OF assms])
  then show ?thesis using ok_tasksD(7)[OF assms] by blast
qed

lemma owned_running:
  assumes "owned s" "inside (place s t)"
  shows "u = t \<longleftrightarrow> inside (place s u)" "fields_at (place s t) t (l_holder s) (l_repeat s)"
  using assms unfolding owned_def by metis+

text \<open>The owner moves on to another place of the lock's code.\<close>

lemma value_inside: "lock_inv m s \<Longrightarrow> inside (place s t) \<Longrightarrow> m_value s"
  using lock_invD(3)[of m s] by (auto simp: lock_free_def)

lemma lock_inv_go:
  assumes I: "lock_inv m s" and i: "inside (place s (running s))" "inside p"
    and f: "fields_at p (running s) h r"
  shows "lock_inv m (go (running s) p (s\<lparr>l_holder := h, l_repeat := r\<rparr>))" (is "lock_inv m ?s")
proof -
  have v: "m_value s" by (rule value_inside[OF I i(1)])
  have "inside (place s u) \<Longrightarrow> u = running s" for u
    using owned_running(1)[OF lock_invD(2)[OF I v] i(1)] by blast
  then have "owned ?s" using f i(2) by (auto simp: owned_def)
  moreover have "running s \<noteq> idle_task s" using lock_invD(7)[OF I] i(1) by (auto simp: inside_def)
  moreover have "running s \<notin> set (queues s q)" for q by (rule running_queues[OF lock_invD(1)[OF I]])
  ultimately show ?thesis
    unfolding lock_inv_def using v lock_invD(1,5-7)[OF I] by simp
qed

lemma lock_inv_go1:
  assumes "lock_inv m s" "inside (place s (running s))" "inside p"
  shows "fields_at p (running s) h (l_repeat s) \<Longrightarrow> lock_inv m (go (running s) p (s\<lparr>l_holder := h\<rparr>))"
    "fields_at p (running s) (l_holder s) r \<Longrightarrow> lock_inv m (go (running s) p (s\<lparr>l_repeat := r\<rparr>))"
    "fields_at p (running s) (l_holder s) (l_repeat s) \<Longrightarrow> lock_inv m (go (running s) p s)"
  using lock_inv_go[OF assms, of h "l_repeat s"] lock_inv_go[OF assms, of "l_holder s" r]
    lock_inv_go[OF assms, of "l_holder s" "l_repeat s"] by simp_all

lemma go_same: "place s t = p \<Longrightarrow> go t p s = s"
  by (simp add: go_def fun_upd_idem)

lemma mutex_lock_step:
  assumes I: "lock_inv m s" and p: "place s (running s) = Entering \<or> place s (running s) = Waiting"
  obtains s' where "mutex_lock m s = Some s'" "lock_inv m s'"
proof -
  let ?t = "running s"
  note ok = lock_invD(1)[OF I]
  have ni: "\<not> inside (place s ?t)" using p by (auto simp: inside_def)
  have idle: "?t \<noteq> idle_task s" using lock_invD(7)[OF I] p by auto
  have out: "?t \<notin> set (queues s q)" for q by (rule running_queues[OF ok])
  show thesis
  proof (cases "m_value s")
    case False
    let ?s = "go ?t Acquired (s\<lparr>m_value := True\<rparr>)"
    have "owned ?s" using lock_invD(3)[OF I False] by (auto simp: owned_def lock_free_def inside_def)
    then have "lock_inv m ?s"
      unfolding lock_inv_def using lock_invD(1,5-7)[OF I] idle out by simp
    then show thesis using False by (intro that[of ?s]) (simp add: mutex_lock_def)
  next
    case True
    let ?s = "go ?t Waiting s"
    obtain tk where tk: "get_task ?t s = Some tk" "\<not> t_linked tk" by (rule running_free[OF ok])
    have w: "waits TASK_BLOCKED" by (simp add: waits_def)
    have ok': "sched_inv ?s" using ok by simp
    obtain s' where s': "task_block ?t (Waiters m) TASK_BLOCKED ?s = Some s'" "sched_inv s'"
      "queues s' = (queues ?s)(Waiters m := ?t # queues ?s (Waiters m))"
      by (rule task_block_ok[OF ok', of ?t tk TASK_BLOCKED "Waiters m"]) (use tk idle w in simp_all)
    note R = rest_lock[OF conjunct1[OF task_block_rest[OF s'(1)]]]
    have "owned s'"
      using lock_invD(2)[OF I True] ni unfolding owned_def R go_simps
      by (metis fun_upd_apply inside_def)
    then have "lock_inv m s'"
      unfolding lock_inv_def using s'(2,3) R True lock_invD(5-7)[OF I] idle out by (simp split: if_splits) metis
    then show thesis using True s'(1) by (intro that[of s']) (simp_all add: mutex_lock_def)
  qed
qed

lemma mutex_unlock_step:
  assumes I: "lock_inv m s" and p: "place s (running s) = Unlocking"
  obtains s' where "mutex_unlock m s = Some s'" "lock_inv m s'"
proof -
  let ?t = "running s" and ?s = "go (running s) Outside (s\<lparr>m_value := False\<rparr>)"
  note ok = lock_invD(1)[OF I]
  have i: "inside (place s ?t)" using p by (simp add: inside_def)
  have v: "m_value s" by (rule value_inside[OF I i])
  note O = owned_running[OF lock_invD(2)[OF I v] i]
  have fr: "lock_free ?s" using O p by (auto simp: lock_free_def inside_def)
  have out: "?t \<notin> set (queues s q)" for q by (rule running_queues[OF ok])
  have ok1: "sched_inv ?s" using ok by simp
  show thesis
  proof (cases "queues s (Waiters m) = []")
    case True
    then have "lock_inv m ?s"
      unfolding lock_inv_def using fr lock_invD(1,5-7)[OF I] p by auto
    then show thesis using v True by (intro that[of ?s]) (simp add: mutex_unlock_def)
  next
    case False
    let ?w = "last (queues s (Waiters m))"
    have w: "?w \<in> set (queues s (Waiters m))" using False by simp
    obtain tk where tk: "get_task ?w s = Some tk" using ok_tasksD(10)[OF ok w] by blast
    have l: "t_linked tk" using ok_tasksD(7)[OF ok tk] w by blast
    define s2 where "s2 = put ?w (tk\<lparr>t_linked := False, t_state := TASK_READY\<rparr>)
      (?s\<lparr>queues := \<lambda>q. removeAll ?w (queues ?s q)\<rparr>)"
    have u: "task_unblock ?w ?s = Some s2" "sched_inv s2"
      using task_unblock_ok[OF ok1, of ?w tk] tk l by (simp_all add: s2_def)
    obtain s' where s': "schedule s2 = Some s'" "sched_inv s'"
      by (rule schedule_ok[OF u(2)]) simp_all
    have r: "unscheduled s' = unscheduled ?s" "queues s' = (\<lambda>q. removeAll ?w (queues s q))"
      using task_unblock_rest[OF u(1)] schedule_rest[OF s'(1)] by simp_all
    note R = rest_lock[OF r(1)]
    have ww: "place s ?w = Waiting" by (rule lock_invD(5)[OF I w])
    have wr: "?w \<noteq> ?t" using w out by metis
    obtain tk' where tk': "get_task ?w s' = Some tk'" using rest_task[OF r(1), of ?w] tk by force
    have "\<not> t_linked tk'" using ok_tasksD(7)[OF s'(2) tk'] r(2) by simp
    then have wk: "woken s' ?w" using tk' ww p R wr by (simp add: woken_def)
    have "lock_free s'" using fr R by (simp add: lock_free_def)
    then have "lock_inv m s'"
      unfolding lock_inv_def using s'(2) R r(2) wk lock_invD(5-7)[OF I] out by auto
    then show thesis
      using v False s'(1) u(1) tk ok_tasksD(4)[OF ok tk]
      by (intro that[of s']) (simp_all add: mutex_unlock_def Let_def task_yield_def)
  qed
qed

lemma lock_continue_step:
  assumes I: "lock_inv m s"
  obtains s' where "lock_continue m (place s (running s)) s = Some s'" "lock_inv m s'"
proof -
  let ?t = "running s"
  have F: "fields_at (place s ?t) ?t (l_holder s) (l_repeat s)" if "inside (place s ?t)"
    using owned_running(2)[OF lock_invD(2)[OF I value_inside[OF I that]] that] .
  note go = lock_inv_go1[OF I]
  show thesis
  proof (cases "place s ?t")
    case Acquired
    with F have "lock_inv m (go ?t Owner (s\<lparr>l_holder := Some ?t\<rparr>))" by (intro go(1)) (simp_all add: inside_def)
    with Acquired show thesis by (intro that) simp_all
  next
    case Owner
    with F have "lock_inv m (go ?t Holding (s\<lparr>l_repeat := 1\<rparr>))" by (intro go(2)) (simp_all add: inside_def)
    with Owner F show thesis by (intro that) (simp_all add: inside_def)
  next
    case Giving
    with F have "lock_inv m (go ?t Cleared (s\<lparr>l_holder := None\<rparr>))" by (intro go(1)) (simp_all add: inside_def)
    with Giving show thesis by (intro that) simp_all
  next
    case Cleared
    with F have "lock_inv m (go ?t Unlocking (s\<lparr>l_repeat := 0\<rparr>))" by (intro go(2)) (simp_all add: inside_def)
    with Cleared show thesis by (intro that) simp_all
  qed (use I mutex_lock_step[OF I] mutex_unlock_step[OF I] that in force)+
qed

lemma lock_release_step:
  assumes I: "lock_inv m s" and p: "place s (running s) = Holding"
  obtains s' where "lock_release s = Some s'" "lock_inv m s'"
proof -
  let ?t = "running s"
  have i: "inside (place s ?t)" using p by (simp add: inside_def)
  have F: "l_holder s = Some ?t" "l_repeat s \<noteq> 0"
    using owned_running(2)[OF lock_invD(2)[OF I value_inside[OF I i]] i] p by simp_all
  show thesis
  proof (cases "l_repeat s > 1")
    case True
    then have "l_repeat s - 1 \<noteq> 0" by auto
    then have "lock_inv m (go ?t Holding (s\<lparr>l_repeat := l_repeat s - 1\<rparr>))"
      using F i p by (intro lock_inv_go1(2)[OF I]) (simp_all add: inside_def)
    then have "lock_inv m (s\<lparr>l_repeat := l_repeat s - 1\<rparr>)" using p by (simp add: go_same)
    with True F show thesis by (intro that) (simp_all add: lock_release_def)
  next
    case False
    then have r1: "l_repeat s = 1"
      using F(2) by (simp add: word_less_nat_alt word_unat_eq_iff)
    then have "lock_inv m (go ?t Giving s)"
      using F i p by (intro lock_inv_go1(3)[OF I]) (simp_all add: inside_def)
    with r1 F show thesis by (intro that) (simp_all add: lock_release_def)
  qed
qed

lemma lock_acquire_step:
  assumes I: "lock_inv m s" and p: "at_large s" "running s \<noteq> idle_task s" and r: "l_repeat s \<noteq> - 1"
  shows "lock_inv m (lock_acquire s)"
proof (cases "l_holder s = Some (running s)")
  case True
  then have v: "m_value s" using lock_invD(3)[OF I] by (auto simp: lock_free_def)
  then obtain t where t: "inside (place s t)" "fields_at (place s t) t (l_holder s) (l_repeat s)"
    using lock_invD(2)[OF I] unfolding owned_def by blast
  then have "t = running s" using True by (cases "place s t") (auto simp: inside_def)
  with t p have h: "place s (running s) = Holding" "inside (place s (running s))"
    by (auto simp: at_large_def inside_def)
  have "l_repeat s + 1 \<noteq> 0" using r by (simp add: eq_neg_iff_add_eq_0)
  then have "lock_inv m (go (running s) Holding (s\<lparr>l_repeat := l_repeat s + 1\<rparr>))"
    using True h by (intro lock_inv_go1(2)[OF I]) (simp_all add: inside_def)
  then show ?thesis using True h by (simp add: lock_acquire_def go_same)
next
  case False
  have "place s (running s) \<noteq> Holding"
  proof
    assume h: "place s (running s) = Holding"
    then have i: "inside (place s (running s))" by (simp add: inside_def)
    have "fields_at (place s (running s)) (running s) (l_holder s) (l_repeat s)"
      by (rule owned_running(2)[OF lock_invD(2)[OF I value_inside[OF I i]] i])
    with h False show False by simp
  qed
  then have o: "place s (running s) = Outside" using p by (auto simp: at_large_def)
  have out: "running s \<notin> set (queues s q)" for q by (rule running_queues[OF lock_invD(1)[OF I]])
  let ?s = "go (running s) Entering s"
  have wk: "woken ?s t" if "woken s t" for t
    using that o by (auto simp: woken_def)
  have of: "owned ?s = owned s" "lock_free ?s = lock_free s"
  proof -
    have i: "inside (place ?s u) = inside (place s u)" for u using o by (simp add: inside_def)
    have f: "fields_at (place ?s t) t h r = fields_at (place s t) t h r" for t h r using o by simp
    show "owned ?s = owned s" unfolding owned_def i f by simp
    show "lock_free ?s = lock_free s" unfolding lock_free_def i by simp
  qed
  have 1: "if m_value s then owned ?s else lock_free ?s \<and> (queues s (Waiters m) \<noteq> [] \<longrightarrow> (\<exists>t. woken ?s t))"
    unfolding of using lock_invD(2-4)[OF I] wk by (simp split: if_split) blast
  have 2: "place ?s t = Waiting" if "t \<in> set (queues s (Waiters m))" for t
    using lock_invD(5)[OF I that] that out by auto
  have 3: "place ?s t = Outside \<or> place ?s t = Holding \<or> q = Waiters m" if "t \<in> set (queues s q)" for t q
    using lock_invD(6)[OF I that] that out by auto
  have "lock_inv m ?s"
    unfolding lock_inv_def using lock_invD(1,7)[OF I] p(2) 1 2 3 by simp
  then show ?thesis using False by (simp add: lock_acquire_def)
qed

lemma lock_step_inv:
  assumes I: "lock_inv m s" and "lock_step m s s'"
  shows "lock_inv m s'"
  using assms(2)
proof cases
  case continue
  then show ?thesis using lock_continue_step[OF I] by (metis option.inject)
next
  case acquire
  then show ?thesis using lock_acquire_step[OF I] by simp
next
  case release
  then show ?thesis using lock_release_step[OF I] by (metis option.inject)
next
  case (block st q)
  obtain tk where "get_task (running s) s = Some tk" "\<not> t_linked tk" by (rule running_free[OF lock_invD(1)[OF I]])
  from task_block_ok[OF lock_invD(1)[OF I] this block(2,3), of q] block(5) have "sched_inv s'" by (metis option.inject)
  with task_block_rest[OF block(5)] block(1,4) show ?thesis
    by (intro lock_inv_frame[OF I]) (auto simp: at_large_def split: if_splits)
next
  case (sleep ms)
  from task_sleep_ok[OF lock_invD(1)[OF I] sleep(2), of ms] sleep(3) have "sched_inv s'" by (metis option.inject)
  with task_sleep_rest[OF sleep(3)] sleep(1) show ?thesis
    by (intro lock_inv_frame[OF I]) (auto simp: at_large_def split: if_splits)
next
  case yield
  from schedule_ok[OF lock_invD(1)[OF I]] yield(2) have "sched_inv s'" by (metis option.inject task_yield_def)
  with schedule_rest[of s s'] yield(2) show ?thesis
    by (intro lock_inv_frame[OF I]) (auto simp: task_yield_def)
next
  case (unblock t)
  obtain tk where "get_task t s = Some tk" "t_linked tk"
    using unblock(2) by (auto simp: task_unblock_def bind_Some simp del: check_bind)
  from task_unblock_ok[OF lock_invD(1)[OF I] this] unblock(2) have "sched_inv s'" by (metis option.inject)
  with task_unblock_rest[OF unblock(2)] unblock(1) show ?thesis
    by (intro lock_inv_frame[OF I]) auto
next
  case tick
  from clock_handler_ok[OF lock_invD(1)[OF I]] tick have "sched_inv s'" by (metis option.inject)
  moreover have "t \<notin> set (queues s Sleep_list)" if "t \<in> set (queues s (Waiters m))" for t
    using ok_tasksD(9)[OF lock_invD(1)[OF I] that] by blast
  ultimately show ?thesis
    using clock_handler_rest[OF tick] by (intro lock_inv_frame[OF I]) blast+
qed

lemma lock_init_inv:
  assumes "sched_inv s" "queues s (Waiters m) = []" "\<forall>t. place s t = Outside"
  shows "lock_inv m (lock_init m s)"
proof -
  have "s\<lparr>l_holder := None, l_repeat := 0, m_value := False, queues := (queues s)(Waiters m := [])\<rparr>
      = s\<lparr>l_holder := None, l_repeat := 0, m_value := False\<rparr>"
    using assms(2) by (simp add: fun_upd_idem)
  then show ?thesis
    using assms unfolding lock_inv_def by (simp add: lock_init_def mutex_init_def lock_free_def inside_def)
qed

section \<open>Properties\<close>

text \<open>
  C15: the lock gives mutual exclusion, and no wakeup is lost. From \<^verbatim>\<open>lock_init\<close> on, whatever
  the tasks do with the lock and with the rest of the scheduler (but for 2^32 - 1 nested
  acquisitions, which \<open>lock_step\<close> leaves out), and wherever the timer preempts them: at most one task is between the test of the mutex in \<^verbatim>\<open>mutex_lock\<close> and its
  release in \<^verbatim>\<open>mutex_unlock\<close>; the scheduler's invariant holds; whichever task runs, no assertion
  of the lock's code fails; a task that has the lock can release it; and when the
  mutex is free while tasks still wait for it, one of them has been woken and will test it again.
\<close>

theorem lock_excludes:
  assumes "sched_inv s" "queues s (Waiters m) = []" "\<forall>t. place s t = Outside"
    and steps: "(lock_step m)\<^sup>*\<^sup>* (lock_init m s) s'"
  shows "(\<forall>t u. inside (place s' t) \<longrightarrow> inside (place s' u) \<longrightarrow> t = u) \<and> sched_inv s'
    \<and> (\<exists>s''. lock_continue m (place s' (running s')) s' = Some s'')
    \<and> (place s' (running s') = Holding \<longrightarrow> (\<exists>s''. lock_release s' = Some s''))
    \<and> (\<not> m_value s' \<longrightarrow> queues s' (Waiters m) \<noteq> [] \<longrightarrow> (\<exists>t. woken s' t))"
proof -
  have I: "lock_inv m s'"
    using steps by induction (use lock_init_inv[OF assms(1-3)] lock_step_inv in blast)+
  have "t = u" if "inside (place s' t)" "inside (place s' u)" for t u
    using that lock_invD(2)[OF I value_inside[OF I that(1)]] unfolding owned_def by metis
  moreover obtain s'' where "lock_continue m (place s' (running s')) s' = Some s''"
    by (rule lock_continue_step[OF I])
  moreover have "\<exists>s''. lock_release s' = Some s''" if "place s' (running s') = Holding"
    by (rule lock_release_step[OF I that]) blast
  ultimately show ?thesis using lock_invD(1,4)[OF I] by blast
qed

definition sample_lock :: lock_sys where
  "sample_lock = sched.extend sample_sched \<lparr>m_value = True, l_holder = Some 7, l_repeat = 3, place = (\<lambda>_. Outside)\<rparr>"

lemma sample_lock_ok: "sched_inv sample_lock" "queues sample_lock (Waiters m) = []" "\<forall>t. place sample_lock t = Outside"
proof -
  have e: "get_task t sample_lock = get_task t sample_sched" "queues sample_lock = queues sample_sched"
    "running sample_lock = running sample_sched" "idle_task sample_lock = idle_task sample_sched"
    "intr sample_lock = intr sample_sched" for t
    by (simp_all add: sample_lock_def sched.defs get_task_def)
  show "sched_inv sample_lock"
    using sample_sched_inv unfolding ok_tasks_def ok_task_def e .
  show "queues sample_lock (Waiters m) = []" by (simp add: e)
  show "\<forall>t. place sample_lock t = Outside" by (simp add: sample_lock_def sched.defs)
qed

text \<open>The running task (1) takes the lock: two places of its code have passed.\<close>

definition sample_taken :: lock_sys where
  "sample_taken = go 1 Acquired ((lock_acquire (lock_init 5 sample_lock))\<lparr>m_value := True\<rparr>)"

lemma sample_steps: "(lock_step 5)\<^sup>*\<^sup>* (lock_init 5 sample_lock) sample_taken"
proof -
  let ?a = "lock_init 5 sample_lock" and ?b = "lock_acquire (lock_init 5 sample_lock)"
  have r: "running ?a = 1" "idle_task ?a = 0" "at_large ?a" "l_repeat ?a = 0" "l_holder ?a = None" "\<not> m_value ?a"
    by (simp_all add: sample_lock_def sched.defs sample_sched_def lock_init_def mutex_init_def at_large_def)
  have b: "running ?b = 1" "place ?b 1 = Entering" "\<not> m_value ?b"
    using r by (simp_all add: lock_acquire_def)
  have "lock_step 5 ?a ?b" using r by (intro lock_step.acquire) simp_all
  moreover have "lock_step 5 ?b sample_taken"
    using b by (intro lock_step.continue) (simp add: sample_taken_def mutex_lock_def)
  ultimately show ?thesis by (meson rtranclp.intros)
qed

lemma lock_excludes_witness:
  "{t. inside (place sample_taken t)} = {1} \<and> sched_inv sample_taken"
proof -
  have "inside (place sample_taken 1)" by (simp add: sample_taken_def inside_def)
  with lock_excludes[OF sample_lock_ok sample_steps] show ?thesis by blast
qed

end
