(* ===== verification/Pipe.thy ===== *)
theory Pipe
  imports Tasks Fifo
begin

text \<open>
  \<^verbatim>\<open>fs/pipe.c\<close> with a reading and a writing task and the scheduler between them. A system call
  runs with interrupts off, so \<^verbatim>\<open>pipe_read\<close> and \<^verbatim>\<open>pipe_write\<close> are interleaved only where they
  sleep; a call that sleeps keeps what is left to do in \<open>rd_left\<close> and \<open>wr_left\<close>. Next to the
  state of the pipe there is a history, the bytes that were handed over: \<open>rd_got\<close>, \<open>wr_sent\<close>.
\<close>

section \<open>The two calls\<close>

record pipe_sys = sched +
  p_fifo :: fifo
  p_rxwaiter :: "nat option"
  p_txwaiter :: "nat option"
  rd_asleep :: bool
  rd_left :: nat
  rd_got :: "u8 list"
  wr_asleep :: bool
  wr_left :: "u8 list"
  wr_sent :: "u8 list"

definition wake :: "nat option \<Rightarrow> pipe_sys \<Rightarrow> pipe_sys option" where
  "wake w s = (case w of None \<Rightarrow> Some s | Some t \<Rightarrow> task_unblock t s)"

text \<open>\<^verbatim>\<open>pipe_read\<close>: the part of a turn after the test, and the loop from the test on.\<close>

definition read_byte :: "pipe_sys \<Rightarrow> pipe_sys option" where
  "read_byte s = do {
     (byte, f) \<leftarrow> fifo_get (p_fifo s);
     s \<leftarrow> wake (p_txwaiter s) (s\<lparr>p_fifo := f, rd_got := rd_got s @ [byte]\<rparr>);
     Some (s\<lparr>p_txwaiter := None\<rparr>)
   }"

fun read_run :: "nat \<Rightarrow> nat \<Rightarrow> pipe_sys \<Rightarrow> pipe_sys option" where
  "read_run r 0 s = Some (s\<lparr>rd_left := 0, rd_asleep := False\<rparr>)"
| "read_run r (Suc n) s =
     (if fifo_empty (p_fifo s) then do {
        check (p_rxwaiter s = None);
        task_block r Block_list TASK_BLOCKED (s\<lparr>p_rxwaiter := Some r, rd_left := Suc n, rd_asleep := True\<rparr>) }
      else do {
        s \<leftarrow> read_byte s;
        read_run r n s })"

definition read_resume :: "nat \<Rightarrow> pipe_sys \<Rightarrow> pipe_sys option" where
  "read_resume r s = do {
     s' \<leftarrow> read_byte s;
     read_run r (rd_left s - 1) s'
   }"

text \<open>\<^verbatim>\<open>pipe_write\<close>: it goes to sleep without leaving itself in \<^verbatim>\<open>txwaiter\<close>.\<close>

definition write_byte :: "u8 \<Rightarrow> pipe_sys \<Rightarrow> pipe_sys option" where
  "write_byte byte s = do {
     f \<leftarrow> fifo_put (p_fifo s) byte;
     s \<leftarrow> wake (p_rxwaiter s) (s\<lparr>p_fifo := f, wr_sent := wr_sent s @ [byte]\<rparr>);
     Some (s\<lparr>p_rxwaiter := None\<rparr>)
   }"

fun write_run :: "nat \<Rightarrow> u8 list \<Rightarrow> pipe_sys \<Rightarrow> pipe_sys option" where
  "write_run w [] s = Some (s\<lparr>wr_left := [], wr_asleep := False\<rparr>)"
| "write_run w (x # xs) s =
     (if fifo_full (p_fifo s) then do {
        check (p_txwaiter s = None);
        task_block w Block_list TASK_BLOCKED (s\<lparr>wr_left := x # xs, wr_asleep := True\<rparr>) }
      else do {
        s \<leftarrow> write_byte x s;
        write_run w xs s })"

definition write_resume :: "nat \<Rightarrow> pipe_sys \<Rightarrow> pipe_sys option" where
  "write_resume w s = do {
     s' \<leftarrow> write_byte (hd (wr_left s)) s;
     write_run w (tl (wr_left s)) s'
   }"

section \<open>The system\<close>

text \<open>A task is at large when it is not asleep in one of the two calls.\<close>

definition elsewhere :: "nat \<Rightarrow> nat \<Rightarrow> nat \<Rightarrow> pipe_sys \<Rightarrow> bool" where
  "elsewhere r w t s \<longleftrightarrow> (t = r \<longrightarrow> \<not> rd_asleep s) \<and> (t = w \<longrightarrow> \<not> wr_asleep s)"

inductive pipe_step :: "nat \<Rightarrow> nat \<Rightarrow> pipe_sys \<Rightarrow> pipe_sys \<Rightarrow> bool" for r w where
  reads: "running s = r \<Longrightarrow> \<not> rd_asleep s \<Longrightarrow> read_run r n s = Some s' \<Longrightarrow> pipe_step r w s s'"
| reads_on: "running s = r \<Longrightarrow> rd_asleep s \<Longrightarrow> read_resume r s = Some s' \<Longrightarrow> pipe_step r w s s'"
| writes: "running s = w \<Longrightarrow> \<not> wr_asleep s \<Longrightarrow> write_run w bs s = Some s' \<Longrightarrow> pipe_step r w s s'"
| writes_on: "running s = w \<Longrightarrow> wr_asleep s \<Longrightarrow> write_resume w s = Some s' \<Longrightarrow> pipe_step r w s s'"
| block: "elsewhere r w (running s) s \<Longrightarrow> running s \<noteq> idle_task s \<Longrightarrow> waits st \<Longrightarrow>
    task_block (running s) q st s = Some s' \<Longrightarrow> pipe_step r w s s'"
| sleep: "elsewhere r w (running s) s \<Longrightarrow> running s \<noteq> idle_task s \<Longrightarrow> task_sleep ms s = Some s' \<Longrightarrow>
    pipe_step r w s s'"
| yield: "elsewhere r w (running s) s \<Longrightarrow> task_yield s = Some s' \<Longrightarrow> pipe_step r w s s'"
| unblock: "elsewhere r w t s \<Longrightarrow> task_unblock t s = Some s' \<Longrightarrow> pipe_step r w s s'"
| tick: "clock_handler 0x20 s = Some s' \<Longrightarrow> pipe_step r w s s'"

section \<open>The invariant\<close>

text \<open>
  The bytes read so far and the bytes in the ring are the bytes written, in order; the reader is
  registered exactly while it is blocked on an empty pipe; once the writer sleeps, it stays in
  the list of the blocked tasks.
\<close>

definition in_no_list :: "nat \<Rightarrow> 'a sched_scheme \<Rightarrow> bool" where
  "in_no_list t s \<longleftrightarrow> (\<forall>q. t \<notin> set (queues s q))"

definition reader_ok :: "nat \<Rightarrow> pipe_sys \<Rightarrow> bool" where
  "reader_ok r s \<longleftrightarrow> (if rd_asleep s then 0 < rd_left s
       \<and> (if p_rxwaiter s = None then in_no_list r s \<and> fifo_list (p_fifo s) \<noteq> []
          else p_rxwaiter s = Some r \<and> r \<in> set (queues s Block_list) \<and> fifo_list (p_fifo s) = [])
     else p_rxwaiter s = None)"

definition writer_ok :: "nat \<Rightarrow> pipe_sys \<Rightarrow> bool" where
  "writer_ok w s \<longleftrightarrow> p_txwaiter s = None \<and> (wr_asleep s \<longrightarrow> w \<in> set (queues s Block_list))"

definition pipe_core :: "nat \<Rightarrow> nat \<Rightarrow> pipe_sys \<Rightarrow> bool" where
  "pipe_core r w s \<longleftrightarrow> sched_inv s \<and> r \<noteq> w \<and> r \<noteq> idle_task s \<and> w \<noteq> idle_task s \<and> fifo_wf (p_fifo s)
     \<and> rd_got s @ fifo_list (p_fifo s) = wr_sent s \<and> p_txwaiter s = None"

definition pipe_inv :: "nat \<Rightarrow> nat \<Rightarrow> pipe_sys \<Rightarrow> bool" where
  "pipe_inv r w s \<longleftrightarrow> pipe_core r w s \<and> reader_ok r s \<and> writer_ok w s"

lemma pipe_coreD:
  assumes "pipe_core r w s"
  shows "sched_inv s" "r \<noteq> w" "r \<noteq> idle_task s" "w \<noteq> idle_task s" "fifo_wf (p_fifo s)"
    "rd_got s @ fifo_list (p_fifo s) = wr_sent s" "p_txwaiter s = None"
  using assms by (simp_all add: pipe_core_def)

lemma ok_tasks_pipe [simp]:
  "ok_tasks p (s\<lparr>p_fifo := a\<rparr>) = ok_tasks p s" "ok_tasks p (s\<lparr>p_rxwaiter := b\<rparr>) = ok_tasks p s"
  "ok_tasks p (s\<lparr>p_txwaiter := b\<rparr>) = ok_tasks p s" "ok_tasks p (s\<lparr>rd_asleep := c\<rparr>) = ok_tasks p s"
  "ok_tasks p (s\<lparr>rd_left := d\<rparr>) = ok_tasks p s" "ok_tasks p (s\<lparr>rd_got := e\<rparr>) = ok_tasks p s"
  "ok_tasks p (s\<lparr>wr_asleep := c\<rparr>) = ok_tasks p s" "ok_tasks p (s\<lparr>wr_left := e\<rparr>) = ok_tasks p s"
  "ok_tasks p (s\<lparr>wr_sent := e\<rparr>) = ok_tasks p s"
  by (simp_all add: ok_tasks_def ok_task_def get_task_def)

lemma get_task_pipe [simp]:
  "get_task t (s\<lparr>p_fifo := a\<rparr>) = get_task t s" "get_task t (s\<lparr>p_rxwaiter := b\<rparr>) = get_task t s"
  "get_task t (s\<lparr>p_txwaiter := b\<rparr>) = get_task t s" "get_task t (s\<lparr>rd_asleep := c\<rparr>) = get_task t s"
  "get_task t (s\<lparr>rd_left := d\<rparr>) = get_task t s" "get_task t (s\<lparr>rd_got := e\<rparr>) = get_task t s"
  "get_task t (s\<lparr>wr_asleep := c\<rparr>) = get_task t s" "get_task t (s\<lparr>wr_left := e\<rparr>) = get_task t s"
  "get_task t (s\<lparr>wr_sent := e\<rparr>) = get_task t s"
  by (simp_all add: get_task_def)

lemma unscheduled_pipe:
  assumes "unscheduled s' = unscheduled s"
  shows "p_fifo s' = p_fifo s" "p_rxwaiter s' = p_rxwaiter s" "p_txwaiter s' = p_txwaiter s"
    "rd_asleep s' = rd_asleep s" "rd_left s' = rd_left s" "rd_got s' = rd_got s" "wr_asleep s' = wr_asleep s"
    "wr_left s' = wr_left s" "wr_sent s' = wr_sent s" "idle_task s' = idle_task s"
  using assms by (cases s; cases s'; simp add: unscheduled_def)+

lemma running_in_no_list: "sched_inv s \<Longrightarrow> in_no_list (running s) s"
  using ok_tasksD(7) unfolding in_no_list_def by (metis running_free)

section \<open>The calls\<close>

text \<open>A task that goes to sleep in one of the calls: what the scheduler does then.\<close>

lemma sleep_in_call:
  assumes ok: "sched_inv s" and "running s \<noteq> idle_task s"
  obtains s' where "task_block (running s) Block_list TASK_BLOCKED s = Some s'" "sched_inv s'"
    "queues s' = (queues s)(Block_list := running s # queues s Block_list)" "unscheduled s' = unscheduled s"
proof -
  obtain tk where tk: "get_task (running s) s = Some tk" "\<not> t_linked tk" by (rule running_free[OF ok])
  from task_block_ok[OF ok tk assms(2), of TASK_BLOCKED Block_list] obtain s'
    where "task_block (running s) Block_list TASK_BLOCKED s = Some s'" "sched_inv s'"
      "queues s' = (queues s)(Block_list := running s # queues s Block_list)" by (auto simp: waits_def)
  with task_block_rest[of _ _ _ s s'] that show thesis by blast
qed

lemma read_byte_ok:
  assumes I: "pipe_core r w s" and xs: "fifo_list (p_fifo s) \<noteq> []"
  obtains f where "read_byte s = Some (s\<lparr>p_fifo := f, rd_got := rd_got s @ [hd (fifo_list (p_fifo s))]\<rparr>)"
    "pipe_core r w (s\<lparr>p_fifo := f, rd_got := rd_got s @ [hd (fifo_list (p_fifo s))]\<rparr>)"
proof -
  obtain x xs where l: "fifo_list (p_fifo s) = x # xs" using xs by (cases "fifo_list (p_fifo s)") auto
  from fifo_get_law[OF pipe_coreD(5)[OF I] l] obtain f
    where f: "fifo_get (p_fifo s) = Some (x, f)" "fifo_wf f" "fifo_list f = xs" by blast
  have same: "s\<lparr>p_fifo := f, p_txwaiter := None, rd_got := g\<rparr> = s\<lparr>p_fifo := f, rd_got := g\<rparr>" for g
    using pipe_coreD(7)[OF I] by (cases s) simp
  show thesis
    using f l I pipe_coreD(6)[OF I] by (intro that[of f]) (auto simp: read_byte_def wake_def pipe_core_def same)
qed

lemma read_run_ok:
  assumes "pipe_core r w s" "writer_ok w s" "running s = r" "p_rxwaiter s = None"
  shows "\<exists>s'. read_run r n s = Some s' \<and> pipe_inv r w s'"
  using assms
proof (induction n arbitrary: s)
  case 0
  then show ?case by (auto simp: pipe_inv_def pipe_core_def reader_ok_def writer_ok_def)
next
  case (Suc n)
  note I = Suc.prems(1)
  show ?case
  proof (cases "fifo_empty (p_fifo s)")
    case True
    then have e: "fifo_list (p_fifo s) = []" using fifo_empty_iff[OF pipe_coreD(5)[OF I]] by (metis length_0_conv length_fifo_list)
    let ?s = "s\<lparr>p_rxwaiter := Some r, rd_left := Suc n, rd_asleep := True\<rparr>"
    have "sched_inv ?s" "running ?s \<noteq> idle_task ?s" using pipe_coreD(1,3)[OF I] Suc.prems(3) by auto
    then obtain s' where s': "task_block (running ?s) Block_list TASK_BLOCKED ?s = Some s'" "sched_inv s'"
      "queues s' = (queues ?s)(Block_list := running ?s # queues ?s Block_list)" "unscheduled s' = unscheduled ?s"
      by (rule sleep_in_call)
    note R = unscheduled_pipe[OF s'(4)]
    have "pipe_inv r w s'"
      using I Suc.prems(2,3) s'(2,3) R e
      by (auto simp: pipe_inv_def pipe_core_def reader_ok_def writer_ok_def)
    then show ?thesis using True s'(1) Suc.prems(3,4) by simp
  next
    case False
    then have "fifo_list (p_fifo s) \<noteq> []" using fifo_empty_iff[OF pipe_coreD(5)[OF I]] by (metis length_0_conv length_fifo_list)
    then obtain f where f: "read_byte s = Some (s\<lparr>p_fifo := f, rd_got := rd_got s @ [hd (fifo_list (p_fifo s))]\<rparr>)"
      "pipe_core r w (s\<lparr>p_fifo := f, rd_got := rd_got s @ [hd (fifo_list (p_fifo s))]\<rparr>)" (is "pipe_core r w ?s")
      by (rule read_byte_ok[OF I])
    have "writer_ok w ?s" "running ?s = r" "p_rxwaiter ?s = None" using Suc.prems by (simp_all add: writer_ok_def)
    from Suc.IH[OF f(2) this] show ?thesis using False f(1) by simp
  qed
qed

lemma write_byte_ok:
  assumes I: "pipe_core r w s" and r: "reader_ok r s" and full: "\<not> fifo_full (p_fifo s)" and run: "running s = w"
  obtains s' where "write_byte x s = Some s'" "pipe_core r w s'" "reader_ok r s'" "running s' = w"
    "wr_sent s' = wr_sent s @ [x]"
proof -
  from fifo_put_room[OF pipe_coreD(5)[OF I] full] obtain f
    where f: "fifo_put (p_fifo s) x = Some f" "fifo_wf f" "fifo_list f = fifo_list (p_fifo s) @ [x]" by blast
  let ?s = "s\<lparr>p_fifo := f, wr_sent := wr_sent s @ [x]\<rparr>"
  have I': "pipe_core r w ?s" using I f(2,3) pipe_coreD(6)[OF I] by (simp add: pipe_core_def flip: append_assoc)
  show thesis
  proof (cases "p_rxwaiter s")
    case None
    have same: "?s\<lparr>p_rxwaiter := None\<rparr> = ?s" using None by (cases s) simp
    have "reader_ok r ?s" using r None f(3) by (auto simp: reader_ok_def in_no_list_def)
    moreover have "write_byte x s = Some ?s" using f(1) None same by (simp add: write_byte_def wake_def)
    ultimately show thesis using I' run by (intro that[of ?s]) simp_all
  next
    case (Some t)
    then have t: "t = r" "r \<in> set (queues s Block_list)" "rd_asleep s" "0 < rd_left s"
      using r by (auto simp: reader_ok_def split: if_splits)
    obtain tk where tk: "get_task r s = Some tk" using ok_tasksD(10)[OF pipe_coreD(1)[OF I] t(2)] by blast
    have l: "t_linked tk" using ok_tasksD(7)[OF pipe_coreD(1)[OF I] tk] t(2) by blast
    have okS: "sched_inv ?s" using pipe_coreD(1)[OF I] by simp
    obtain s1 where s1: "task_unblock r ?s = Some s1" "sched_inv s1" "running s1 = running s"
      using task_unblock_ok[OF okS, of r tk] tk l by force
    from task_unblock_rest[OF s1(1)] have u: "unscheduled s1 = unscheduled ?s"
      "queues s1 = (\<lambda>q. removeAll r (queues s q))" by simp_all
    note R = unscheduled_pipe[OF u(1)]
    let ?s1 = "s1\<lparr>p_rxwaiter := None\<rparr>"
    have "pipe_core r w ?s1" using I' s1(2) R by (simp add: pipe_core_def)
    moreover have "reader_ok r ?s1" using t R u(2) f(3) by (simp add: reader_ok_def in_no_list_def)
    moreover have "write_byte x s = Some ?s1" using f(1) Some t(1) s1(1) by (simp add: write_byte_def wake_def)
    ultimately show thesis using run s1(3) R by (intro that[of ?s1]) simp_all
  qed
qed

lemma write_run_ok:
  assumes "pipe_core r w s" "reader_ok r s" "running s = w"
  shows "\<exists>s'. write_run w xs s = Some s' \<and> pipe_inv r w s'"
  using assms
proof (induction xs arbitrary: s)
  case Nil
  then show ?case by (auto simp: pipe_inv_def pipe_core_def reader_ok_def writer_ok_def in_no_list_def)
next
  case (Cons x xs)
  note I = Cons.prems(1)
  show ?case
  proof (cases "fifo_full (p_fifo s)")
    case True
    let ?s = "s\<lparr>wr_left := x # xs, wr_asleep := True\<rparr>"
    have "sched_inv ?s" "running ?s \<noteq> idle_task ?s" using pipe_coreD(1,4)[OF I] Cons.prems(3) by auto
    then obtain s' where s': "task_block (running ?s) Block_list TASK_BLOCKED ?s = Some s'" "sched_inv s'"
      "queues s' = (queues ?s)(Block_list := running ?s # queues ?s Block_list)" "unscheduled s' = unscheduled ?s"
      by (rule sleep_in_call)
    note R = unscheduled_pipe[OF s'(4)]
    have "pipe_core r w s'" using I s'(2) R by (simp add: pipe_core_def)
    moreover have "writer_ok w s'" using Cons.prems(3) s'(3) R pipe_coreD(7)[OF I] by (simp add: writer_ok_def)
    moreover have "reader_ok r s'"
      using Cons.prems(2,3) s'(3) R pipe_coreD(2)[OF I] by (auto simp: reader_ok_def in_no_list_def)
    ultimately have "pipe_inv r w s'" by (simp add: pipe_inv_def)
    then show ?thesis using True s'(1) Cons.prems(3) pipe_coreD(7)[OF I] by simp
  next
    case False
    obtain s1 where s1: "write_byte x s = Some s1" "pipe_core r w s1" "reader_ok r s1" "running s1 = w"
      by (rule write_byte_ok[OF I Cons.prems(2) False Cons.prems(3), of x])
    from Cons.IH[OF s1(2-4)] show ?thesis using False s1(1) by simp
  qed
qed

section \<open>Every step keeps the invariant\<close>

text \<open>What the scheduler does on behalf of others.\<close>

lemma pipe_inv_frame:
  assumes I: "pipe_inv r w s" and ok: "sched_inv s'" and u: "unscheduled s' = unscheduled s"
    and q: "\<And>q t. t \<in> set (queues s' q) \<Longrightarrow> t \<in> set (queues s q) \<or> elsewhere r w t s"
    and b: "\<And>t. t \<in> set (queues s Block_list) \<Longrightarrow> \<not> elsewhere r w t s \<Longrightarrow> t \<in> set (queues s' Block_list)"
  shows "pipe_inv r w s'"
proof -
  note R = unscheduled_pipe[OF u]
  have c: "pipe_core r w s'" using I ok R by (simp add: pipe_inv_def pipe_core_def)
  have rd: "reader_ok r s" and wr: "writer_ok w s" using I by (simp_all add: pipe_inv_def)
  have "reader_ok r s'"
  proof (cases "rd_asleep s")
    case True
    then have "\<not> elsewhere r w r s" by (simp add: elsewhere_def)
    then show ?thesis using rd True q b unfolding reader_ok_def R in_no_list_def by (auto split: if_splits)
  next
    case False
    then show ?thesis using rd R by (simp add: reader_ok_def)
  qed
  moreover have "writer_ok w s'"
  proof (cases "wr_asleep s")
    case True
    then have "\<not> elsewhere r w w s" by (simp add: elsewhere_def)
    then show ?thesis using wr True b R by (simp add: writer_ok_def)
  next
    case False
    then show ?thesis using wr R by (simp add: writer_ok_def)
  qed
  ultimately show ?thesis using c by (simp add: pipe_inv_def)
qed

lemma writer_blocked:
  assumes "pipe_inv r w s" "wr_asleep s"
  shows "running s \<noteq> w"
proof -
  have "w \<in> set (queues s Block_list)" using assms by (simp add: pipe_inv_def writer_ok_def)
  moreover have "in_no_list (running s) s"
    using assms(1) by (intro running_in_no_list) (simp add: pipe_inv_def pipe_core_def)
  ultimately show ?thesis by (auto simp: in_no_list_def)
qed

lemma read_resume_ok:
  assumes I: "pipe_inv r w s" and "running s = r" "rd_asleep s"
  shows "\<exists>s'. read_resume r s = Some s' \<and> pipe_inv r w s'"
proof -
  have c: "pipe_core r w s" and rd: "reader_ok r s" and wr: "writer_ok w s" using I by (simp_all add: pipe_inv_def)
  have "in_no_list r s" using running_in_no_list[OF pipe_coreD(1)[OF c]] assms(2) by simp
  with rd assms(3) have p: "p_rxwaiter s = None" "fifo_list (p_fifo s) \<noteq> []"
    by (auto simp: reader_ok_def in_no_list_def split: if_splits)
  obtain f where f: "read_byte s = Some (s\<lparr>p_fifo := f, rd_got := rd_got s @ [hd (fifo_list (p_fifo s))]\<rparr>)"
      "pipe_core r w (s\<lparr>p_fifo := f, rd_got := rd_got s @ [hd (fifo_list (p_fifo s))]\<rparr>)"
    by (rule read_byte_ok[OF c p(2)])
  from read_run_ok[OF f(2), of "rd_left s - 1"] show ?thesis
    using f(1) wr p(1) assms(2) by (simp add: read_resume_def writer_ok_def)
qed

lemma pipe_calls:
  assumes I: "pipe_inv r w s"
  shows "running s = r \<Longrightarrow> \<not> rd_asleep s \<Longrightarrow> \<exists>s'. read_run r n s = Some s' \<and> pipe_inv r w s'"
    and "running s = w \<Longrightarrow> \<not> wr_asleep s \<Longrightarrow> \<exists>s'. write_run w xs s = Some s' \<and> pipe_inv r w s'"
  using I read_run_ok[of r w s n] write_run_ok[of r w s xs] by (auto simp: pipe_inv_def reader_ok_def)

lemma pipe_step_inv:
  assumes I: "pipe_inv r w s" and "pipe_step r w s s'"
  shows "pipe_inv r w s'"
proof -
  have ok: "sched_inv s" using I by (simp add: pipe_inv_def pipe_core_def)
  from assms(2) show ?thesis
  proof cases
    case (reads n)
    then show ?thesis using pipe_calls(1)[OF I] by (metis option.inject)
  next
    case reads_on
    then show ?thesis using read_resume_ok[OF I] by (metis option.inject)
  next
    case (writes bs)
    then show ?thesis using pipe_calls(2)[OF I] by (metis option.inject)
  next
    case writes_on
    then show ?thesis using writer_blocked[OF I] by simp
  next
    case (block st q)
    obtain tk where "get_task (running s) s = Some tk" "\<not> t_linked tk" by (rule running_free[OF ok])
    from task_block_ok[OF ok this block(2,3), of q] block(4) have "sched_inv s'" by (metis option.inject)
    with task_block_rest[OF block(4)] block(1) show ?thesis
      by (intro pipe_inv_frame[OF I]) (auto split: if_splits)
  next
    case (sleep ms)
    from task_sleep_ok[OF ok sleep(2), of ms] sleep(3) have "sched_inv s'" by (metis option.inject)
    moreover have "queues s' Block_list = queues s Block_list" using task_sleep_rest[OF sleep(3)] by simp
    moreover have "t \<in> set (queues s q) \<or> elsewhere r w t s" if "t \<in> set (queues s' q)" for t q
      using task_sleep_rest[OF sleep(3)] sleep(1) that by blast
    ultimately show ?thesis
      using task_sleep_rest[OF sleep(3)] by (intro pipe_inv_frame[OF I]) simp_all
  next
    case yield
    from schedule_ok[OF ok] yield(2) have "sched_inv s'" by (metis option.inject task_yield_def)
    with schedule_rest[of s s'] yield(2) show ?thesis
      by (intro pipe_inv_frame[OF I]) (auto simp: task_yield_def)
  next
    case (unblock t)
    obtain tk where "get_task t s = Some tk" "t_linked tk"
      using unblock(2) by (auto simp: task_unblock_def bind_Some simp del: check_bind)
    from task_unblock_ok[OF ok this] unblock(2) have "sched_inv s'" by (metis option.inject)
    with task_unblock_rest[OF unblock(2)] unblock(1) show ?thesis
      by (intro pipe_inv_frame[OF I]) auto
  next
    case tick
    from clock_handler_ok[OF ok] tick have "sched_inv s'" by (metis option.inject)
    moreover have "t \<notin> set (queues s Sleep_list)" if "t \<in> set (queues s Block_list)" for t
      using ok_tasksD(9)[OF ok that] by blast
    ultimately show ?thesis
      using clock_handler_rest[OF tick] by (intro pipe_inv_frame[OF I]) blast+
  qed
qed

lemma pipe_steps_inv: "(pipe_step r w)\<^sup>*\<^sup>* s s' \<Longrightarrow> pipe_inv r w s \<Longrightarrow> pipe_inv r w s'"
  by (induction rule: rtranclp_induct) (auto intro: pipe_step_inv)

text \<open>A step in which the writer does not run leaves its call alone.\<close>

definition writer_part :: "pipe_sys \<Rightarrow> bool \<times> u8 list" where
  "writer_part s = (wr_asleep s, wr_left s)"

lemma unscheduled_writer: "unscheduled s' = unscheduled s \<Longrightarrow> writer_part s' = writer_part s"
  using unscheduled_pipe[of s' s] by (simp add: writer_part_def)

lemma read_byte_writer: "read_byte s = Some s' \<Longrightarrow> writer_part s' = writer_part s"
proof -
  assume "read_byte s = Some s'"
  then obtain x f u where u: "wake (p_txwaiter s) (s\<lparr>p_fifo := f, rd_got := rd_got s @ [x]\<rparr>) = Some u"
    and s': "s' = u\<lparr>p_txwaiter := None\<rparr>"
    by (auto simp: read_byte_def elim!: bindE)
  have "unscheduled u = unscheduled (s\<lparr>p_fifo := f, rd_got := rd_got s @ [x]\<rparr>)"
    using u task_unblock_rest by (fastforce simp: wake_def split: option.splits)
  from unscheduled_writer[OF this] show ?thesis by (simp add: s' writer_part_def)
qed

lemma read_run_writer: "read_run r n s = Some s' \<Longrightarrow> writer_part s' = writer_part s"
proof (induction n arbitrary: s)
  case (Suc n)
  show ?case
  proof (cases "fifo_empty (p_fifo s)")
    case True
    then have "task_block r Block_list TASK_BLOCKED (s\<lparr>p_rxwaiter := Some r, rd_left := Suc n, rd_asleep := True\<rparr>) = Some s'"
      using Suc.prems by (auto elim!: bindE split: if_splits)
    from unscheduled_writer[OF conjunct1[OF task_block_rest[OF this]]] show ?thesis by (simp add: writer_part_def)
  next
    case False
    then show ?thesis using Suc.prems Suc.IH read_byte_writer by (fastforce elim!: bindE)
  qed
qed (auto simp: writer_part_def)

lemma pipe_step_keeps_writer:
  assumes "pipe_step r w s s'" "running s \<noteq> w"
  shows "wr_asleep s' = wr_asleep s \<and> wr_left s' = wr_left s"
proof -
  have "writer_part s' = writer_part s"
    using assms(1)
  proof cases
    case reads_on
    then obtain s1 where "read_byte s = Some s1" "read_run r (rd_left s - 1) s1 = Some s'"
      by (auto simp: read_resume_def elim!: bindE)
    then show ?thesis using read_byte_writer read_run_writer by metis
  qed (use assms(2) in \<open>auto simp: task_yield_def intro: read_run_writer unscheduled_writer
      dest: task_block_rest task_sleep_rest schedule_rest task_unblock_rest clock_handler_rest\<close>)
  then show ?thesis by (simp add: writer_part_def)
qed

text \<open>A pipe nobody has used yet.\<close>

definition new_pipe :: "nat \<Rightarrow> nat \<Rightarrow> pipe_sys \<Rightarrow> bool" where
  "new_pipe r w s \<longleftrightarrow> sched_inv s \<and> r \<noteq> w \<and> r \<noteq> idle_task s \<and> w \<noteq> idle_task s
     \<and> (\<exists>b len. length b = unat len \<and> 1 < unat len \<and> p_fifo s = fifo_init b len)
     \<and> p_rxwaiter s = None \<and> p_txwaiter s = None \<and> \<not> rd_asleep s \<and> \<not> wr_asleep s \<and> rd_got s = [] \<and> wr_sent s = []"

lemma new_pipe_inv: "new_pipe r w s \<Longrightarrow> pipe_inv r w s"
  by (auto simp: new_pipe_def pipe_inv_def pipe_core_def reader_ok_def writer_ok_def fifo_init_wf)

section \<open>Properties\<close>

text \<open>
  C16: a pipe hands over the bytes in order, whatever the interleaving of one reading and one
  writing task. From a new pipe on, for any sequence of calls and of steps of the scheduler, the bytes read followed by the bytes in
  the ring are exactly the bytes written: none is lost, repeated or overtaken. Every call of
  the two tasks returns or goes to sleep, no assertion fails, and while the reader is asleep
  with nobody having woken it, the pipe is empty.
\<close>

theorem pipe_in_order:
  assumes "new_pipe r w s" and "(pipe_step r w)\<^sup>*\<^sup>* s s'"
  shows "rd_got s' @ fifo_list (p_fifo s') = wr_sent s' \<and> sched_inv s'
    \<and> (running s' = r \<longrightarrow> (if rd_asleep s' then \<exists>u. read_resume r s' = Some u else \<forall>n. \<exists>u. read_run r n s' = Some u))
    \<and> (running s' = w \<longrightarrow> (\<forall>xs. \<exists>u. write_run w xs s' = Some u))
    \<and> (rd_asleep s' \<longrightarrow> p_rxwaiter s' \<noteq> None \<longrightarrow> fifo_list (p_fifo s') = [])"
proof -
  have I: "pipe_inv r w s'" by (rule pipe_steps_inv[OF assms(2) new_pipe_inv[OF assms(1)]])
  have "\<forall>xs. \<exists>u. write_run w xs s' = Some u" if "running s' = w"
    using pipe_calls(2)[OF I that] writer_blocked[OF I] that by blast
  moreover have "if rd_asleep s' then \<exists>u. read_resume r s' = Some u else \<forall>n. \<exists>u. read_run r n s' = Some u"
    if "running s' = r"
    using pipe_calls(1)[OF I that] read_resume_ok[OF I that] by (simp split: if_split) blast
  moreover have "fifo_list (p_fifo s') = []" if "rd_asleep s'" "p_rxwaiter s' \<noteq> None"
    using I that by (simp add: pipe_inv_def reader_ok_def)
  ultimately show ?thesis using I by (simp add: pipe_inv_def pipe_core_def)
qed

definition sample_pipe :: pipe_sys where
  "sample_pipe = sched.extend sample_sched \<lparr>p_fifo = fifo_init [0, 0] 2, p_rxwaiter = None, p_txwaiter = None,
     rd_asleep = False, rd_left = 0, rd_got = [], wr_asleep = False, wr_left = [], wr_sent = []\<rparr>"

lemma sample_new_pipe: "new_pipe 2 1 sample_pipe"
proof -
  have e: "get_task t sample_pipe = get_task t sample_sched" "queues sample_pipe = queues sample_sched"
    "running sample_pipe = running sample_sched" "idle_task sample_pipe = idle_task sample_sched"
    "intr sample_pipe = intr sample_sched" for t
    by (simp_all add: sample_pipe_def sched.defs get_task_def)
  have "sched_inv sample_pipe"
    using sample_sched_inv unfolding ok_tasks_def ok_task_def e .
  moreover have "length [0, 0 :: u8] = unat (2 :: u32) \<and> 1 < unat (2 :: u32) \<and> p_fifo sample_pipe = fifo_init [0, 0] 2"
    by (simp add: sample_pipe_def sched.defs)
  then have "\<exists>b len. length b = unat len \<and> 1 < unat len \<and> p_fifo sample_pipe = fifo_init b len" by blast
  moreover have "p_rxwaiter sample_pipe = None" "p_txwaiter sample_pipe = None" "\<not> rd_asleep sample_pipe"
    "\<not> wr_asleep sample_pipe" "rd_got sample_pipe = []" "wr_sent sample_pipe = []"
    by (simp_all add: sample_pipe_def sched.defs)
  ultimately show ?thesis unfolding new_pipe_def e(4) by simp
qed

lemma pipe_in_order_witness:
  "\<exists>s'. write_run 1 [7] sample_pipe = Some s' \<and> rd_got s' @ fifo_list (p_fifo s') = wr_sent s'"
proof -
  have r: "running sample_pipe = 1" "\<not> wr_asleep sample_pipe"
    by (simp_all add: sample_pipe_def sched.defs sample_sched_def)
  then obtain s' where s': "write_run 1 [7] sample_pipe = Some s'"
    using pipe_calls(2)[OF new_pipe_inv[OF sample_new_pipe], of "[7]"] by blast
  have "pipe_step 2 1 sample_pipe s'" by (rule pipe_step.writes[OF r s'])
  then show ?thesis using pipe_in_order[OF sample_new_pipe r_into_rtranclp] s' by blast
qed

text \<open>
  C37: a writer that finds the pipe full never runs again. \<^verbatim>\<open>pipe_write\<close> goes to sleep without
  setting \<^verbatim>\<open>txwaiter\<close>, so \<^verbatim>\<open>pipe_read\<close> has nobody to wake: whatever happens afterwards, even
  when the reader empties the pipe, the writer stays in the list of blocked tasks and the rest
  of its bytes is never written.
\<close>

theorem pipe_writer_never_woken:
  assumes "new_pipe r w s0" and "(pipe_step r w)\<^sup>*\<^sup>* s0 s" and "wr_asleep s" and "(pipe_step r w)\<^sup>*\<^sup>* s s'"
  shows "wr_asleep s' \<and> w \<in> set (queues s' Block_list) \<and> running s' \<noteq> w \<and> wr_left s' = wr_left s"
proof -
  have I: "pipe_inv r w s" by (rule pipe_steps_inv[OF assms(2) new_pipe_inv[OF assms(1)]])
  have "pipe_inv r w s' \<and> wr_asleep s' \<and> wr_left s' = wr_left s"
    using assms(4)
  proof induction
    case (step y z)
    then have y: "pipe_inv r w y" "wr_asleep y" "wr_left y = wr_left s" by simp_all
    have "wr_asleep z = wr_asleep y \<and> wr_left z = wr_left y"
      using step.hyps(2) pipe_step_keeps_writer writer_blocked[OF y(1,2)] by blast
    then show ?case using pipe_step_inv[OF y(1) step.hyps(2)] y by simp
  qed (use I assms(3) in simp)
  then show ?thesis using writer_blocked[of r w s'] by (auto simp: pipe_inv_def writer_ok_def)
qed

lemma pipe_writer_never_woken_witness:
  "\<exists>s. write_run 1 [7, 8] sample_pipe = Some s \<and> running s \<noteq> 1 \<and> wr_left s = [8]"
proof -
  have r: "running sample_pipe = 1" "\<not> wr_asleep sample_pipe"
    by (simp_all add: sample_pipe_def sched.defs sample_sched_def)
  then obtain s where s: "write_run 1 [7, 8] sample_pipe = Some s"
    using pipe_calls(2)[OF new_pipe_inv[OF sample_new_pipe], of "[7, 8]"] by blast
  define f where "f = \<lparr>f_buf = [7, 0], f_length = 2, f_head = 1, f_tail = 0\<rparr>"
  let ?u = "sample_pipe\<lparr>p_fifo := f, wr_sent := [7], p_rxwaiter := None\<rparr>"
  have p: "p_fifo sample_pipe = fifo_init [0, 0] 2" "p_rxwaiter sample_pipe = None" "wr_sent sample_pipe = []"
    by (simp_all add: sample_pipe_def sched.defs)
  have "\<not> fifo_full (fifo_init [0, 0] 2)" by (simp add: fifo_full_def fifo_next_def fifo_init_def)
  moreover from this have "fifo_put (fifo_init [0, 0] 2) 7 = Some f"
    by (subst fifo_put_def, subst fifo_drop.simps) (simp add: fifo_next_def fifo_init_def f_def)
  moreover have "fifo_full f" by (simp add: fifo_full_def fifo_next_def f_def)
  ultimately have b: "task_block 1 Block_list TASK_BLOCKED (?u\<lparr>wr_left := [8], wr_asleep := True\<rparr>) = Some s"
    using s p by (auto simp: write_byte_def wake_def elim!: bindE split: if_splits)
  from unscheduled_writer[OF conjunct1[OF task_block_rest[OF this]]] have w: "wr_asleep s" "wr_left s = [8]"
    by (simp_all add: writer_part_def)
  have "pipe_step 2 1 sample_pipe s" by (rule pipe_step.writes[OF r s])
  from pipe_writer_never_woken[OF sample_new_pipe r_into_rtranclp[of "pipe_step 2 1", OF this] w(1) rtranclp.rtrancl_refl]
  show ?thesis using s w by blast
qed

end
