(* ===== verification/Console.thy ===== *)
theory Console
  imports Prelude
begin

text \<open>
  \<^verbatim>\<open>kernel/console.c\<close>: the text console. The display memory is an array of 16-bit cells from
  \<^verbatim>\<open>MEM_BASE\<close> on (\<open>cells\<close>, by the index of the cell), of which the controller shows the 25 rows
  of 80 from \<open>screen\<close> on; \<open>crt\<close> are the registers of the controller. Interrupts are off in
  \<^verbatim>\<open>console_write\<close>.
\<close>

section \<open>State\<close>

abbreviation (input) WIDTH :: u32 where "WIDTH \<equiv> 80"
abbreviation (input) HEIGHT :: u32 where "HEIGHT \<equiv> 25"
abbreviation (input) ROW_SIZE :: u32 where "ROW_SIZE \<equiv> 160"
abbreviation (input) SCR_SIZE :: u32 where "SCR_SIZE \<equiv> 4000"
abbreviation (input) MEM_SIZE :: u32 where "MEM_SIZE \<equiv> 0x4000"
abbreviation (input) CONSOLE_PAGE_SIZE :: u32 where "CONSOLE_PAGE_SIZE \<equiv> 0x820"
abbreviation (input) CRT_BLOCK :: u16 where "CRT_BLOCK \<equiv> 0x3520"
abbreviation (input) CRT_ATTR :: u16 where "CRT_ATTR \<equiv> 0x07"

record console =
  cells :: "nat \<Rightarrow> u16"
  screen :: u32
  cursor :: u32
  con_x :: u32
  con_y :: u32
  crt :: "u8 \<Rightarrow> u8"

text \<open>Writing a register: its number to the index port, the value to the data port.\<close>

definition crt_write :: "u8 \<Rightarrow> u32 \<Rightarrow> console \<Rightarrow> console" where
  "crt_write reg v c = c\<lparr>crt := (crt c)(reg := ucast v)\<rparr>"

definition set_screen :: "console \<Rightarrow> console" where
  "set_screen c = (let c = crt_write 0xD (screen c AND 0xFF) c
     in crt_write 0xC (drop_bit 8 (screen c) AND 0xFF) c)"

definition set_cursor :: "console \<Rightarrow> console" where
  "set_cursor c = (let c = crt_write 0xE (drop_bit 8 (cursor c) AND 0xFF) c;
       c = crt_write 0xF (cursor c AND 0xFF) c;
       delta = cursor c - screen c
     in c\<lparr>con_x := delta mod WIDTH, con_y := delta div WIDTH\<rparr>)"

definition get_screen :: "console \<Rightarrow> console" where
  "get_screen c = c\<lparr>screen := push_bit 8 (ucast (crt c 0xC)) OR ucast (crt c 0xD)\<rparr>"

definition get_cursor :: "console \<Rightarrow> console" where
  "get_cursor c = (let c = c\<lparr>cursor := push_bit 8 (ucast (crt c 0xE)) OR ucast (crt c 0xF)\<rparr>;
       delta = cursor c - screen c
     in c\<lparr>con_x := delta mod WIDTH, con_y := delta div WIDTH\<rparr>)"

section \<open>The operations\<close>

text \<open>\<^verbatim>\<open>memcpy\<close> of whole cells, and the loop of \<^verbatim>\<open>console_clearline\<close>.\<close>

fun copy_cells :: "nat \<Rightarrow> nat \<Rightarrow> nat \<Rightarrow> (nat \<Rightarrow> u16) \<Rightarrow> nat \<Rightarrow> u16" where
  "copy_cells dst src 0 m = m"
| "copy_cells dst src (Suc n) m = copy_cells (dst + 1) (src + 1) n (m(dst := m src))"

fun fill_cells :: "nat \<Rightarrow> nat \<Rightarrow> u16 \<Rightarrow> (nat \<Rightarrow> u16) \<Rightarrow> nat \<Rightarrow> u16" where
  "fill_cells dst 0 v m = m"
| "fill_cells dst (Suc n) v m = fill_cells (dst + 1) n v (m(dst := v))"

definition console_clearline :: "console \<Rightarrow> console" where
  "console_clearline c = c\<lparr>cells := fill_cells (unat (cursor c)) 80 CRT_BLOCK (cells c)\<rparr>"

definition scroll_up :: "console \<Rightarrow> console" where
  "scroll_up c =
     (let c = (if CONSOLE_PAGE_SIZE * 2 + screen c * 2 + ROW_SIZE < MEM_SIZE then
                let c = c\<lparr>cells := copy_cells (unat (CONSOLE_PAGE_SIZE + screen c)) (unat (screen c) + 80)
                             (unat ((SCR_SIZE - ROW_SIZE) div 2)) (cells c)\<rparr>;
                    c = c\<lparr>screen := screen c + CONSOLE_PAGE_SIZE, cursor := cursor c + CONSOLE_PAGE_SIZE\<rparr>
                in console_clearline c
              else
                let c = c\<lparr>cells := copy_cells 0 (unat (screen c) + 80) (unat ((SCR_SIZE - ROW_SIZE) div 2)) (cells c)\<rparr>;
                    c = c\<lparr>cursor := cursor c - screen c\<rparr>;
                    c = c\<lparr>screen := 0\<rparr>
                in console_clearline c)
      in set_cursor (set_screen c))"

definition set_cell :: "u32 \<Rightarrow> u16 \<Rightarrow> console \<Rightarrow> console" where
  "set_cell i v c = c\<lparr>cells := (cells c)(unat i := v)\<rparr>"

definition command_bs :: "console \<Rightarrow> console" where
  "command_bs c =
     (if con_x c \<noteq> 0 then
        let c = c\<lparr>cursor := cursor c - 1\<rparr>;
            c = set_cell (cursor c) CRT_BLOCK c
        in set_cursor c
      else c)"

definition command_del :: "console \<Rightarrow> console" where
  "command_del c = set_cell (cursor c) CRT_BLOCK c"

definition command_cr :: "console \<Rightarrow> console" where
  "command_cr c = set_cursor (c\<lparr>cursor := cursor c - con_x c\<rparr>)"

definition command_lf :: "console \<Rightarrow> console" where
  "command_lf c =
     (if con_y c + 1 < HEIGHT then set_cursor (c\<lparr>cursor := cursor c + WIDTH\<rparr>)
      else scroll_up c)"

text \<open>The cell of a character: \<^verbatim>\<open>char\<close> is signed, so a byte from 0x80 on sets the attribute too.\<close>

definition cell_of :: "u8 \<Rightarrow> u16" where
  "cell_of ch = push_bit 8 CRT_ATTR OR scast ch"

definition console_put :: "u8 \<Rightarrow> console \<Rightarrow> console" where
  "console_put ch c =
     (if ch = 0x00 then c
      else if ch = 0x0A then command_lf (command_cr c)
      else if ch = 0x0D then command_cr c
      else if ch = 0x08 then command_bs c
      else if ch = 0x7F then command_del c
      else if ch = 0x0C then command_lf c
      else
        let c = set_cell (cursor c) (cell_of ch) c
        in if cursor c - screen c = 80 * 25 - 1 then command_lf (command_cr c)
           else set_cursor (c\<lparr>cursor := cursor c + 1\<rparr>))"

text \<open>The result is the loop counter, which \<^verbatim>\<open>nr++ < count\<close> has incremented once more.\<close>

definition console_write :: "u8 list \<Rightarrow> console \<Rightarrow> u32 \<times> console" where
  "console_write bs c = (of_nat (length bs) + 1, fold console_put bs c)"

definition console_clear :: "console \<Rightarrow> console" where
  "console_clear c =
     (let c = c\<lparr>screen := 0, cursor := 0, con_x := 0, con_y := 0\<rparr>;
          c = set_cursor (set_screen c)
      in c\<lparr>cells := fill_cells 0 0x2000 (CRT_BLOCK AND 0x00FF OR push_bit 8 CRT_ATTR) (cells c)\<rparr>)"

section \<open>The terminal\<close>

text \<open>
  What the console is meant to be: 25 rows of 80 cells and a position in them, as one list. A
  character goes to the position, a new line at the bottom drops the first row.
\<close>

record terminal =
  shown :: "u16 list"
  at :: nat

definition new_line :: "terminal \<Rightarrow> terminal" where
  "new_line t =
     (if at t div 80 + 1 < 25 then t\<lparr>at := at t + 80\<rparr>
      else t\<lparr>shown := drop 80 (shown t) @ replicate 80 CRT_BLOCK\<rparr>)"

definition line_start :: "terminal \<Rightarrow> terminal" where
  "line_start t = t\<lparr>at := at t - at t mod 80\<rparr>"

definition terminal_put :: "u8 \<Rightarrow> terminal \<Rightarrow> terminal" where
  "terminal_put ch t =
     (if ch = 0x00 then t
      else if ch = 0x0A then new_line (line_start t)
      else if ch = 0x0D then line_start t
      else if ch = 0x08 then (if at t mod 80 = 0 then t else t\<lparr>at := at t - 1, shown := (shown t)[at t - 1 := CRT_BLOCK]\<rparr>)
      else if ch = 0x7F then t\<lparr>shown := (shown t)[at t := CRT_BLOCK]\<rparr>
      else
        let t = t\<lparr>shown := (shown t)[at t := cell_of ch]\<rparr>
        in if at t + 1 < 2000 then t\<lparr>at := at t + 1\<rparr> else new_line (line_start t))"

definition terminal_of :: "console \<Rightarrow> terminal" where
  "terminal_of c = \<lparr>shown = map (\<lambda>i. cells c (unat (screen c) + i)) [0..<2000], at = unat (cursor c - screen c)\<rparr>"

definition console_ok :: "console \<Rightarrow> bool" where
  "console_ok c \<longleftrightarrow> screen c \<in> {0, 0x820, 0x1040, 0x1860} \<and> unat (screen c) \<le> unat (cursor c)
     \<and> unat (cursor c) < unat (screen c) + 2000
     \<and> unat (con_x c) = unat (cursor c - screen c) mod 80 \<and> unat (con_y c) = unat (cursor c - screen c) div 80
     \<and> crt c 0xC = ucast (drop_bit 8 (screen c)) \<and> crt c 0xD = ucast (screen c)
     \<and> crt c 0xE = ucast (drop_bit 8 (cursor c)) \<and> crt c 0xF = ucast (cursor c)"

section \<open>Lemmas\<close>

lemma copy_cells_eq:
  assumes "dst \<le> src \<or> src + n \<le> dst"
  shows "copy_cells dst src n m = (\<lambda>j. if dst \<le> j \<and> j < dst + n then m (src + (j - dst)) else m j)"
  using assms
proof (induction n arbitrary: dst src m)
  case (Suc n)
  have "copy_cells (dst + 1) (src + 1) n (m(dst := m src)) = (\<lambda>j. if dst + 1 \<le> j \<and> j < dst + 1 + n
      then (m(dst := m src)) (src + 1 + (j - (dst + 1))) else (m(dst := m src)) j)"
    using Suc.prems by (intro Suc.IH) auto
  then show ?case using Suc.prems by (auto simp: fun_eq_iff Suc_diff_Suc)
qed (auto simp: fun_eq_iff)

lemma fill_cells_eq: "fill_cells dst n v m = (\<lambda>j. if dst \<le> j \<and> j < dst + n then v else m j)"
  by (induction n arbitrary: dst m) (auto simp: fun_eq_iff)

text \<open>What must hold before \<^verbatim>\<open>set_cursor\<close> for the console to be in order after it.\<close>

definition window :: "console \<Rightarrow> bool" where
  "window c \<longleftrightarrow> screen c \<in> {0, 0x820, 0x1040, 0x1860} \<and> unat (screen c) \<le> unat (cursor c)
     \<and> unat (cursor c) < unat (screen c) + 2000
     \<and> crt c 0xC = ucast (drop_bit 8 (screen c)) \<and> crt c 0xD = ucast (screen c)"

lemma low_byte: "ucast (x AND 0xFF :: u32) = (ucast x :: u8)"
proof -
  have m: "(0xFF :: u32) = mask 8" by (simp add: mask_eq_exp_minus_1)
  show ?thesis unfolding m by (intro bit_eqI) (auto simp: bit_simps)
qed

lemma screen_bounds: "screen c \<in> {0, 0x820, 0x1040, 0x1860} \<Longrightarrow> unat (screen c) \<le> 6240"
  by auto

lemma window_at: "window c \<Longrightarrow> unat (cursor c - screen c) = unat (cursor c) - unat (screen c)"
  by (simp add: window_def unat_sub word_le_nat_alt)

lemma set_cursor_ok: "window c \<Longrightarrow> console_ok (set_cursor c)"
  by (simp add: window_def console_ok_def set_cursor_def crt_write_def Let_def unat_mod unat_div low_byte)

lemma set_cursor_same [simp]: "cells (set_cursor c) = cells c" "screen (set_cursor c) = screen c"
  "cursor (set_cursor c) = cursor c"
  by (simp_all add: set_cursor_def crt_write_def Let_def)

lemma set_screen_same [simp]: "cells (set_screen c) = cells c" "screen (set_screen c) = screen c"
  "cursor (set_screen c) = cursor c"
  by (simp_all add: set_screen_def crt_write_def Let_def)

lemma set_screen_window: "screen c \<in> {0, 0x820, 0x1040, 0x1860} \<Longrightarrow> unat (screen c) \<le> unat (cursor c) \<Longrightarrow>
    unat (cursor c) < unat (screen c) + 2000 \<Longrightarrow> window (set_screen c)"
  by (simp add: window_def set_screen_def crt_write_def Let_def low_byte)

lemma ok_window: "console_ok c \<Longrightarrow> window c"
  by (simp add: console_ok_def window_def)

lemma ok_xy: "console_ok c \<Longrightarrow> unat (con_x c) = at (terminal_of c) mod 80"
  "console_ok c \<Longrightarrow> unat (con_y c) = at (terminal_of c) div 80"
  by (simp_all add: console_ok_def terminal_of_def)

lemma terminal_set_cursor [simp]: "terminal_of (set_cursor c) = terminal_of c"
  by (simp add: terminal_of_def)

lemma at_bound: "window c \<Longrightarrow> at (terminal_of c) = unat (cursor c) - unat (screen c)"
  "window c \<Longrightarrow> at (terminal_of c) < 2000"
  using window_at[of c] by (auto simp: terminal_of_def window_def)

text \<open>The cursor moves inside the window.\<close>

lemma move_cursor:
  assumes "window c" "unat (screen c) \<le> unat k" "unat k < unat (screen c) + 2000"
  shows "console_ok (set_cursor (c\<lparr>cursor := k\<rparr>))"
    "terminal_of (c\<lparr>cursor := k\<rparr>) = (terminal_of c)\<lparr>at := unat k - unat (screen c)\<rparr>"
proof -
  have w: "window (c\<lparr>cursor := k\<rparr>)" using assms by (simp add: window_def)
  then show "console_ok (set_cursor (c\<lparr>cursor := k\<rparr>))" by (rule set_cursor_ok)
  show "terminal_of (c\<lparr>cursor := k\<rparr>) = (terminal_of c)\<lparr>at := unat k - unat (screen c)\<rparr>"
    using window_at[OF w] by (simp add: terminal_of_def)
qed

lemma set_cell_terminal:
  assumes "unat (screen c) \<le> unat i" "unat i < unat (screen c) + 2000"
  shows "terminal_of (set_cell i v c) = (terminal_of c)\<lparr>shown := (shown (terminal_of c))[unat i - unat (screen c) := v]\<rparr>"
proof -
  have "map (\<lambda>j. ((cells c)(unat i := v)) (unat (screen c) + j)) [0..<2000]
      = (map (\<lambda>j. cells c (unat (screen c) + j)) [0..<2000])[unat i - unat (screen c) := v]"
    using assms by (intro nth_equalityI) (auto simp: nth_list_update)
  then show ?thesis by (simp add: terminal_of_def set_cell_def)
qed

lemma set_cell_same [simp]: "screen (set_cell i v c) = screen c" "cursor (set_cell i v c) = cursor c"
  "con_x (set_cell i v c) = con_x c" "con_y (set_cell i v c) = con_y c"
  "console_ok (set_cell i v c) = console_ok c" "window (set_cell i v c) = window c"
  by (simp_all add: set_cell_def console_ok_def window_def)

lemma length_shown [simp]: "length (shown (terminal_of c)) = 2000"
  by (simp add: terminal_of_def)

lemma command_cr_ok:
  assumes "console_ok c"
  shows "console_ok (command_cr c)" "terminal_of (command_cr c) = line_start (terminal_of c)"
proof -
  note w = ok_window[OF assms]
  let ?x = "unat (con_x c)"
  have x: "?x = (unat (cursor c) - unat (screen c)) mod 80" using ok_xy(1)[OF assms] at_bound(1)[OF w] by simp
  have sc: "unat (screen c) \<le> unat (cursor c)" "unat (cursor c) < unat (screen c) + 2000"
    using w by (simp_all add: window_def)
  have le: "?x \<le> unat (cursor c) - unat (screen c)" unfolding x by (rule mod_less_eq_dividend)
  have u: "unat (cursor c - con_x c) = unat (cursor c) - ?x"
    using le by (intro unat_sub) (simp add: word_le_nat_alt)
  have b: "unat (screen c) \<le> unat (cursor c - con_x c)" "unat (cursor c - con_x c) < unat (screen c) + 2000"
    unfolding u using le sc by linarith+
  note m = move_cursor[OF w b]
  show "console_ok (command_cr c)" unfolding command_cr_def by (rule m(1))
  have "unat (cursor c) - ?x - unat (screen c) = unat (cursor c) - unat (screen c) - ?x" by simp
  then show "terminal_of (command_cr c) = line_start (terminal_of c)"
    using m(2) u x at_bound(1)[OF w] by (simp add: command_cr_def line_start_def)
qed

text \<open>Scrolling, from the last row: to the page behind, or back to the start of the memory.\<close>

lemma scroll_up_ok:
  assumes "console_ok c"
  shows "console_ok (scroll_up c)"
    "at (terminal_of c) = 1920 \<Longrightarrow> terminal_of (scroll_up c)
      = (terminal_of c)\<lparr>shown := drop 80 (shown (terminal_of c)) @ replicate 80 CRT_BLOCK\<rparr>"
proof -
  note w = ok_window[OF assms]
  have s: "screen c \<in> {0, 0x820, 0x1040, 0x1860}" and sc: "unat (screen c) \<le> unat (cursor c)"
    "unat (cursor c) < unat (screen c) + 2000" using w by (simp_all add: window_def)
  define s' where "s' = (if screen c = 0x1860 then 0 else screen c + 0x820)"
  define m where "m = copy_cells (unat s') (unat (screen c) + 80) 1920 (cells c)"
  define k where "k = cursor c - screen c + s'"
  define c1 where "c1 = c\<lparr>cells := fill_cells (unat k) 80 CRT_BLOCK m, screen := s', cursor := k\<rparr>"
  have s': "s' \<in> {0, 0x820, 0x1040, 0x1860}" using s by (auto simp: s'_def)
  have up: "scroll_up c = set_cursor (set_screen c1)"
  proof -
    have "(if CONSOLE_PAGE_SIZE * 2 + screen c * 2 + ROW_SIZE < MEM_SIZE then
           let c = c\<lparr>cells := copy_cells (unat (CONSOLE_PAGE_SIZE + screen c)) (unat (screen c) + 80)
                        (unat ((SCR_SIZE - ROW_SIZE) div 2)) (cells c)\<rparr>;
               c = c\<lparr>screen := screen c + CONSOLE_PAGE_SIZE, cursor := cursor c + CONSOLE_PAGE_SIZE\<rparr>
           in console_clearline c
         else
           let c = c\<lparr>cells := copy_cells 0 (unat (screen c) + 80) (unat ((SCR_SIZE - ROW_SIZE) div 2)) (cells c)\<rparr>;
               c = c\<lparr>cursor := cursor c - screen c\<rparr>;
               c = c\<lparr>screen := 0\<rparr>
           in console_clearline c) = c1"
      using s by (intro console.equality)
        (auto simp: c1_def s'_def m_def k_def console_clearline_def Let_def word_less_nat_alt)
    then show ?thesis by (simp only: scroll_up_def Let_def)
  qed
  have d: "unat (cursor c - screen c) = unat (cursor c) - unat (screen c)" by (rule window_at[OF w])
  have uk: "unat k = unat (cursor c - screen c) + unat s'"
    unfolding k_def using screen_bounds[of "c\<lparr>screen := s'\<rparr>"] s' sc d by (intro unat_add_u32) simp
  have w1: "window (set_screen c1)"
    using s' uk sc d by (intro set_screen_window) (simp_all add: c1_def)
  then show "console_ok (scroll_up c)" unfolding up by (rule set_cursor_ok)
  have apart: "unat s' \<le> unat (screen c) + 80 \<or> unat (screen c) + 80 + 1920 \<le> unat s'"
    using s by (auto simp: s'_def)
  show "terminal_of (scroll_up c) = (terminal_of c)\<lparr>shown := drop 80 (shown (terminal_of c)) @ replicate 80 CRT_BLOCK\<rparr>"
    if "at (terminal_of c) = 1920"
  proof -
    have k: "unat k = unat s' + 1920" using uk that by (simp add: terminal_of_def)
    have "map (\<lambda>i. fill_cells (unat k) 80 CRT_BLOCK m (unat s' + i)) [0..<2000]
        = drop 80 (map (\<lambda>i. cells c (unat (screen c) + i)) [0..<2000]) @ replicate 80 CRT_BLOCK"
    proof (rule nth_equalityI)
      fix i assume "i < length (map (\<lambda>i. fill_cells (unat k) 80 CRT_BLOCK m (unat s' + i)) [0..<2000])"
      then have i: "i < 2000" by simp
      show "map (\<lambda>i. fill_cells (unat k) 80 CRT_BLOCK m (unat s' + i)) [0..<2000] ! i
          = (drop 80 (map (\<lambda>i. cells c (unat (screen c) + i)) [0..<2000]) @ replicate 80 CRT_BLOCK) ! i"
        using i k by (simp add: fill_cells_eq m_def copy_cells_eq[OF apart] nth_append add.assoc)
    qed simp
    then show ?thesis using k that uk unfolding up
      by (simp add: terminal_of_def) (simp add: c1_def k_def add.commute)
  qed
qed

lemma rows: "(n :: nat) div 80 + 1 < 25 \<longleftrightarrow> n < 1920" "(n :: nat) < 2000 \<Longrightarrow> n mod 80 = 0 \<Longrightarrow> \<not> n < 1920 \<Longrightarrow> n = 1920"
proof -
  show "n div 80 + 1 < 25 \<longleftrightarrow> n < 1920" using div_less_iff_less_mult[of 80 n 24] by linarith
  assume "n < 2000" "n mod 80 = 0" "\<not> n < 1920"
  moreover from this obtain q where q: "n = 80 * q" by auto
  ultimately have "q < 25" "23 < q" by linarith+
  then show "n = 1920" using q by simp
qed

lemma command_lf_ok:
  assumes ok: "console_ok c"
  shows "console_ok (command_lf c)"
    "at (terminal_of c) mod 80 = 0 \<Longrightarrow> terminal_of (command_lf c) = new_line (terminal_of c)"
proof -
  note w = ok_window[OF ok]
  let ?a = "at (terminal_of c)"
  have y: "unat (con_y c) = ?a div 80" by (rule ok_xy(2)[OF ok])
  have a: "?a = unat (cursor c) - unat (screen c)" "?a < 2000" using at_bound[OF w] by simp_all
  have sc: "unat (screen c) \<le> unat (cursor c)" "unat (screen c) \<le> 6240"
    using w screen_bounds[of c] by (simp_all add: window_def)
  have y1: "con_y c + 1 < HEIGHT \<longleftrightarrow> ?a div 80 + 1 < 25"
    using y a(2) unat_Suc_u32[of "con_y c" 25] by (simp add: word_less_nat_alt)
  have "console_ok (command_lf c) \<and> (?a mod 80 = 0 \<longrightarrow> terminal_of (command_lf c) = new_line (terminal_of c))"
  proof (cases "?a div 80 + 1 < 25")
    case True
    have u: "unat (cursor c + WIDTH) = unat (cursor c) + 80"
      using a sc by (subst unat_add_u32) simp_all
    have b: "unat (screen c) \<le> unat (cursor c + WIDTH)" "unat (cursor c + WIDTH) < unat (screen c) + 2000"
      unfolding u using True[unfolded rows(1)] a sc by linarith+
    have "unat (cursor c) + 80 - unat (screen c) = ?a + 80" using a sc by simp
    with True y1 u move_cursor[OF w b] show ?thesis by (simp add: command_lf_def new_line_def)
  next
    case False
    then have "?a mod 80 = 0 \<Longrightarrow> ?a = 1920" using rows(2)[OF a(2)] unfolding rows(1) by simp
    with False y1 scroll_up_ok[OF ok] show ?thesis by (simp add: command_lf_def new_line_def)
  qed
  then show "console_ok (command_lf c)"
    "at (terminal_of c) mod 80 = 0 \<Longrightarrow> terminal_of (command_lf c) = new_line (terminal_of c)" by simp_all
qed

lemma console_put_ok:
  assumes ok: "console_ok c"
  shows "console_ok (console_put ch c)"
    "ch \<noteq> 0x0C \<Longrightarrow> terminal_of (console_put ch c) = terminal_put ch (terminal_of c)"
proof -
  note w = ok_window[OF ok]
  let ?a = "at (terminal_of c)"
  have a: "?a = unat (cursor c) - unat (screen c)" "?a < 2000" using at_bound[OF w] by simp_all
  have sc: "unat (screen c) \<le> unat (cursor c)" "unat (cursor c) < unat (screen c) + 2000" "unat (screen c) \<le> 6240"
    using w screen_bounds[of c] by (simp_all add: window_def)
  note cr = command_cr_ok[OF ok] and lf = command_lf_ok[OF ok]
  have start: "at (line_start t) mod 80 = 0" for t
    by (simp add: line_start_def minus_mod_eq_mult_div)
  have bs: "console_ok (command_bs c) \<and> terminal_of (command_bs c) = (if ?a mod 80 = 0 then terminal_of c
      else (terminal_of c)\<lparr>at := ?a - 1, shown := (shown (terminal_of c))[?a - 1 := CRT_BLOCK]\<rparr>)"
  proof (cases "?a mod 80 = 0")
    case True
    then have "con_x c = 0" using ok_xy(1)[OF ok] by (simp add: unat_eq_0)
    with True ok show ?thesis by (simp add: command_bs_def)
  next
    case False
    then have x: "con_x c \<noteq> 0" using ok_xy(1)[OF ok] by (metis unat_0)
    have pos: "0 < ?a" using False by (cases ?a) auto
    have u: "unat (cursor c - 1) = unat (cursor c) - 1"
      using pos a by (subst unat_sub) (simp_all add: word_le_nat_alt)
    have b: "unat (screen c) \<le> unat (cursor c - 1)" "unat (cursor c - 1) < unat (screen c) + 2000"
      unfolding u using pos a sc by linarith+
    let ?c = "set_cell (cursor c - 1) CRT_BLOCK c"
    have e: "command_bs c = set_cursor (?c\<lparr>cursor := cursor c - 1\<rparr>)"
      using x by (simp add: command_bs_def Let_def set_cell_def) (rule arg_cong[of _ _ set_cursor], rule console.equality; simp)
    have b': "unat (screen ?c) \<le> unat (cursor c - 1)" "unat (cursor c - 1) < unat (screen ?c) + 2000"
      using b by simp_all
    have "unat (cursor c - 1) - unat (screen c) = ?a - 1" using u a by simp
    with False move_cursor[OF _ b'] w set_cell_terminal[OF b, of CRT_BLOCK] show ?thesis unfolding e by simp
  qed
  have put: "console_ok (let c = set_cell (cursor c) (cell_of ch) c
        in if cursor c - screen c = 80 * 25 - 1 then command_lf (command_cr c)
           else set_cursor (c\<lparr>cursor := cursor c + 1\<rparr>))
      \<and> terminal_of (let c = set_cell (cursor c) (cell_of ch) c
        in if cursor c - screen c = 80 * 25 - 1 then command_lf (command_cr c)
           else set_cursor (c\<lparr>cursor := cursor c + 1\<rparr>))
      = (let t = (terminal_of c)\<lparr>shown := (shown (terminal_of c))[?a := cell_of ch]\<rparr>
        in if at t + 1 < 2000 then t\<lparr>at := at t + 1\<rparr> else new_line (line_start t))"
  proof -
    let ?c = "set_cell (cursor c) (cell_of ch) c"
    have ok': "console_ok ?c" using ok by simp
    have t: "terminal_of ?c = (terminal_of c)\<lparr>shown := (shown (terminal_of c))[?a := cell_of ch]\<rparr>"
      using set_cell_terminal[OF sc(1,2), of "cell_of ch"] a by simp
    have full: "cursor c - screen c = 80 * 25 - 1 \<longleftrightarrow> ?a = 1999"
      by (simp add: terminal_of_def word_unat_eq_iff)
    note cr' = command_cr_ok[OF ok']
    have lf': "console_ok (command_lf (command_cr ?c))"
      "terminal_of (command_lf (command_cr ?c)) = new_line (line_start (terminal_of ?c))"
      using command_lf_ok[OF cr'(1)] cr'(2) start by simp_all
    show ?thesis
    proof (cases "?a = 1999")
      case True
      then show ?thesis using lf' t full by (simp add: Let_def)
    next
      case False
      have u: "unat (cursor c + 1) = unat (cursor c) + 1" using sc by (subst unat_add_u32) simp_all
      have b: "unat (screen ?c) \<le> unat (cursor c + 1)" "unat (cursor c + 1) < unat (screen ?c) + 2000"
        unfolding u using False a sc by simp_all
      have "unat (cursor c + 1) - unat (screen c) = ?a + 1" using u a sc by simp
      with False full a(2) move_cursor[OF _ b] w t show ?thesis by (simp add: Let_def)
    qed
  qed
  have lfcr: "console_ok (command_lf (command_cr c))"
    "terminal_of (command_lf (command_cr c)) = new_line (line_start (terminal_of c))"
    using command_lf_ok[OF cr(1)] cr(2) start by simp_all
  have del: "console_ok (command_del c)"
    "terminal_of (command_del c) = (terminal_of c)\<lparr>shown := (shown (terminal_of c))[?a := CRT_BLOCK]\<rparr>"
    using ok set_cell_terminal[OF sc(1,2), of CRT_BLOCK] a by (simp_all add: command_del_def)
  show "console_ok (console_put ch c)"
    unfolding console_put_def using ok lfcr(1) cr(1) bs del(1) lf(1) put by (simp split: if_split)
  show "terminal_of (console_put ch c) = terminal_put ch (terminal_of c)" if "ch \<noteq> 0x0C"
    unfolding console_put_def terminal_put_def using that lfcr(2) cr(2) bs del(2) put by (simp split: if_split)
qed

lemma console_write_ok:
  assumes "console_ok c"
  shows "console_ok (fold console_put bs c)"
    "0x0C \<notin> set bs \<Longrightarrow> terminal_of (fold console_put bs c) = fold terminal_put bs (terminal_of c)"
  using assms by (induction bs arbitrary: c) (simp_all add: console_put_ok)

lemma console_clear_ok: "console_ok (console_clear c)"
proof -
  have w: "window (set_screen (c\<lparr>screen := 0, cursor := 0, con_x := 0, con_y := 0\<rparr>))"
    by (rule set_screen_window) simp_all
  have "console_ok (d\<lparr>cells := m\<rparr>) = console_ok d" for d m by (simp add: console_ok_def)
  then show ?thesis using set_cursor_ok[OF w] by (simp add: console_clear_def Let_def)
qed

section \<open>Properties\<close>

text \<open>
  C19: the console is a terminal of 25 rows and 80 columns. In a console that is in order
  (the cursor inside the visible window, which starts at one of the four pages of the display
  memory; the coordinates and the registers of the controller in step), \<^verbatim>\<open>console_write\<close> of
  any bytes other than form feeds has exactly the effect on the screen that writing them to
  the terminal has: characters advance and wrap, a new line in the last row scrolls, whether
  the window moves on in the display memory or back to its start. The console stays in order.
\<close>

theorem console_write_terminal:
  assumes "console_ok c" and "0x0C \<notin> set bs"
  shows "console_ok (snd (console_write bs c))
    \<and> terminal_of (snd (console_write bs c)) = fold terminal_put bs (terminal_of c)"
  using console_write_ok[OF assms(1), of bs] assms(2) by (simp add: console_write_def)

lemma console_write_terminal_witness:
  "console_ok (snd (console_write [72, 105, 10] (console_clear \<lparr>cells = (\<lambda>_. 0), screen = 5, cursor = 7, con_x = 1,
      con_y = 0, crt = (\<lambda>_. 0)\<rparr>)))"
  by (rule conjunct1[OF console_write_terminal[OF console_clear_ok]]) simp

end
