(* ===== verification/Diagnostics.thy ===== *)
theory Diagnostics
  imports Format Console Device
begin

text \<open>
  The text output of the kernel: \<^verbatim>\<open>lib/vsprintf.c\<close> (\<^verbatim>\<open>sprintf\<close>), \<^verbatim>\<open>kernel/printk.c\<close>, \<^verbatim>\<open>kernel/debug.c\<close> and
  \<^verbatim>\<open>kernel/assert.c\<close>. \<open>lit\<close> gives the address of a string constant, \<open>buf\<close> is the static buffer of the
  file, \<open>args\<close> the variable arguments.
\<close>

abbreviation (input) LOG_LV :: int where "LOG_LV \<equiv> 1"
abbreviation (input) DEV_CONSOLE :: int where "DEV_CONSOLE \<equiv> 1"
abbreviation (input) DEV_SERIAL :: int where "DEV_SERIAL \<equiv> 3"

definition sprintf :: "ptr \<Rightarrow> ptr \<Rightarrow> u32 list \<Rightarrow> mem \<Rightarrow> (nat \<times> mem) option" where
  "sprintf buf fmt args m = vsprintf buf fmt args m"

definition printk :: "ptr \<Rightarrow> ptr \<Rightarrow> u32 list \<Rightarrow> mem \<Rightarrow> console \<Rightarrow> (nat \<times> mem \<times> console) option" where
  "printk buf fmt args m c = do {
     (i, m) \<leftarrow> vsprintf buf fmt args m;
     Some (i, m, snd (console_write (map m [buf ..< buf + i]) c))
   }"

text \<open>What is on the screen when \<^verbatim>\<open>spin\<close> loops for ever, in \<^verbatim>\<open>assert_failure\<close> and in \<^verbatim>\<open>panic\<close>.\<close>

definition spin :: "(string \<Rightarrow> ptr) \<Rightarrow> ptr \<Rightarrow> ptr \<Rightarrow> mem \<Rightarrow> console \<Rightarrow> (mem \<times> console) option" where
  "spin lit kbuf name m c = do {
     (_, m, c) \<leftarrow> printk kbuf (lit ''\<newline>[ERROR]: spin in %s\<newline>'') [of_nat name] m c;
     Some (m, c)
   }"

definition assert_failure ::
    "(string \<Rightarrow> ptr) \<Rightarrow> ptr \<Rightarrow> ptr \<Rightarrow> ptr \<Rightarrow> ptr \<Rightarrow> int \<Rightarrow> mem \<Rightarrow> console \<Rightarrow> (mem \<times> console) option" where
  "assert_failure lit kbuf exp source base line m c = do {
     (_, m, c) \<leftarrow> printk kbuf (lit ''\<newline>[ERROR]: assert(%s) failed\<newline>[ERROR]: file: %s\<newline>[ERROR]: base: %s\<newline>[ERROR]: line: %d\<newline>'')
       [of_nat exp, of_nat source, of_nat base, of_int line] m c;
     spin lit kbuf (lit ''assert_failure'') m c
   }"

definition panic :: "(string \<Rightarrow> ptr) \<Rightarrow> ptr \<Rightarrow> ptr \<Rightarrow> ptr \<Rightarrow> u32 list \<Rightarrow> mem \<Rightarrow> console \<Rightarrow> (mem \<times> console) option" where
  "panic lit kbuf abuf fmt args m c = do {
     (_, m) \<leftarrow> vsprintf abuf fmt args m;
     (_, m, c) \<leftarrow> printk kbuf (lit ''\<newline>[ERROR]: panic\<newline>[ERROR]: %s\<newline>'') [of_nat abuf] m c;
     spin lit kbuf (lit ''panic'') m c
   }"

section \<open>The console as a device\<close>

definition console_init :: "console dstate \<Rightarrow> console dstate option" where
  "console_init D = do {
     (_, D) \<leftarrow> device_install DEV_CHAR DEV_CONSOLE ''console'' 0 None None
       (Some (\<lambda>buf count idx flags c. do {
          check (unat count \<le> length buf);
          Some (console_write (take (unat count) buf) c) }))
       (D\<lparr>world := console_clear (world D)\<rparr>);
     Some D
   }"

section \<open>The log\<close>

text \<open>The first serial line, or the console; when neither is installed yet a null pointer is dereferenced.\<close>

definition log_device :: "'w dstate \<Rightarrow> 'w device option" where
  "log_device D = (case device_find DEV_SERIAL 0 D of Some d \<Rightarrow> Some d | None \<Rightarrow> device_find DEV_CONSOLE 0 D)"

definition log_piece :: "'w device \<Rightarrow> ptr \<Rightarrow> ptr \<Rightarrow> u32 list \<Rightarrow> mem \<times> 'w dstate \<Rightarrow> (mem \<times> 'w dstate) option" where
  "log_piece dev buf fmt args = (\<lambda>(m, D). do {
     (i, m) \<leftarrow> vsprintf buf fmt args m;
     (_, D) \<leftarrow> device_write (dv_dev dev) (map m [buf ..< buf + i]) (of_nat i) 0 0 D;
     Some (m, D)
   })"

definition debugk :: "(string \<Rightarrow> ptr) \<Rightarrow> ptr \<Rightarrow> ptr \<Rightarrow> int \<Rightarrow> ptr \<Rightarrow> u32 list \<Rightarrow> mem \<times> 'w dstate \<Rightarrow> (mem \<times> 'w dstate) option" where
  "debugk lit buf source line fmt args s = do {
     dev \<leftarrow> log_device (snd s);
     s \<leftarrow> log_piece dev buf (lit ''[KERNEL]: [%s] [%d] '') [of_nat source, of_int line] s;
     log_piece dev buf fmt args s
   }"

text \<open>\<open>names\<close> is \<^verbatim>\<open>log_str\<close>; the level is its index before it is compared with its bounds.\<close>

definition logk :: "(string \<Rightarrow> ptr) \<Rightarrow> ptr \<Rightarrow> ptr list \<Rightarrow> int \<Rightarrow> ptr \<Rightarrow> u32 list \<Rightarrow> mem \<times> 'w dstate \<Rightarrow> (mem \<times> 'w dstate) option" where
  "logk lit buf names lv fmt args s = do {
     dev \<leftarrow> log_device (snd s);
     name \<leftarrow> rdi names lv;
     s \<leftarrow> log_piece dev buf (lit ''[%s]: '') [of_nat name] s;
     log_piece dev buf fmt args s
   }"

definition SYS_LOG :: "(string \<Rightarrow> ptr) \<Rightarrow> ptr \<Rightarrow> ptr list \<Rightarrow> int \<Rightarrow> ptr \<Rightarrow> u32 list \<Rightarrow> mem \<times> 'w dstate \<Rightarrow> (mem \<times> 'w dstate) option" where
  "SYS_LOG lit buf names lv fmt args s = (if lv \<le> LOG_LV then logk lit buf names lv fmt args s else Some s)"

section \<open>What is printed\<close>

text \<open>A text without directives is copied, so \<^verbatim>\<open>printk\<close> shows it on the terminal as it is.\<close>

lemma vsprintf_loop_plain:
  "cstr m fmt s \<Longrightarrow> 37 \<notin> set s \<Longrightarrow> fmt + length s < str \<Longrightarrow>
    vsprintf_loop buf fmt str args m = Some (str + length s, put_bytes m str s)"
proof (induction s arbitrary: m fmt str)
  case (Cons x s)
  have c: "m fmt = x" "x \<noteq> EOS" "cstr m (fmt + 1) s" using Cons.prems(1) by simp_all
  have "cstr (m(str := x)) (fmt + 1) s"
    by (rule cstr_cong[OF c(3)]) (use Cons.prems(3) in auto)
  then have "vsprintf_loop buf (fmt + 1) (str + 1) args (m(str := x)) = Some (str + 1 + length s, put_bytes (m(str := x)) (str + 1) s)"
    by (rule Cons.IH) (use Cons.prems in auto)
  then show ?case using c Cons.prems(2) by (subst vsprintf_loop.simps) (simp add: put_bytes_Cons)
next
  case Nil
  then show ?case by (subst vsprintf_loop.simps) simp
qed

lemma printk_plain:
  assumes "cstr m fmt s" and "set s \<inter> {37, 0x0C} = {}" and "fmt + length s < buf" and "length s < 1024" and "console_ok c"
  shows "\<exists>m' c'. printk buf fmt args m c = Some (length s, m', c') \<and> console_ok c'
    \<and> terminal_of c' = fold terminal_put s (terminal_of c)"
proof -
  let ?m = "(put_bytes m buf s)(buf + length s := EOS)"
  have "vsprintf_loop buf fmt buf args m = Some (buf + length s, put_bytes m buf s)"
    by (rule vsprintf_loop_plain[OF assms(1)]) (use assms in auto)
  then have "vsprintf buf fmt args m = Some (length s, ?m)" using assms(4) by (simp add: vsprintf_def Let_def)
  moreover have "map ?m [buf ..< buf + length s] = s"
    by (rule nth_equalityI) (auto simp: put_bytes_def)
  ultimately have "printk buf fmt args m c = Some (length s, ?m, snd (console_write s c))" by (simp add: printk_def)
  moreover have "console_ok (snd (console_write s c)) \<and> terminal_of (snd (console_write s c)) = fold terminal_put s (terminal_of c)"
    using console_write_ok[OF assms(5), of s] assms(2) by (simp add: console_write_def)
  ultimately show ?thesis by blast
qed

end
