(* ===== verification/Keyboard.thy ===== *)
theory Keyboard
  imports Tasks Fifo
begin

text \<open>
  \<^verbatim>\<open>kernel/keyboard.c\<close>: from scan codes to characters. \<open>keymap\<close> is the table of the source, one
  row of four bytes for each make code: the character, the character with shift, and whether
  the key (the one with the prefix 0xE0) is down. The controller is its register of the LEDs.
  The lock that \<^verbatim>\<open>keyboard_read\<close> takes around its loop is the one of the theory \<open>Mutex\<close>.
\<close>

section \<open>State\<close>

record keyboard = sched +
  keymap :: "u8 list list"
  capslock_state :: bool
  scrlock_state :: bool
  numlock_state :: bool
  extcode_state :: bool
  kb_fifo :: fifo
  kb_waiter :: "nat option"
  leds :: u8
  kb_left :: nat
  kb_got :: "u8 list"

definition bytes_of :: "string \<Rightarrow> u8 list" where
  "bytes_of s = map of_char s"

definition plain_keys :: "u8 list" where
  "plain_keys = [0, 0x1B] @ bytes_of ''1234567890-='' @ [8, 9] @ bytes_of ''qwertyuiop[]'' @ [10, 0]
     @ bytes_of ''asdfghjkl;'' @ [39] @ bytes_of ''`'' @ [0] @ [92] @ bytes_of ''zxcvbnm,./'' @ [0]
     @ bytes_of ''*'' @ [0] @ bytes_of '' '' @ replicate 13 0 @ bytes_of ''789-456+1230.'' @ replicate 12 0"

definition shift_keys :: "u8 list" where
  "shift_keys = [0, 0x1B] @ bytes_of ''!@#$%^&*()_+'' @ [8, 9] @ bytes_of ''QWERTYUIOP{}'' @ [10, 0]
     @ bytes_of ''ASDFGHJKL:'' @ [34] @ bytes_of ''~'' @ [0] @ bytes_of ''|ZXCVBNM<>?'' @ [0]
     @ bytes_of ''*'' @ [0] @ bytes_of '' '' @ replicate 13 0 @ [0, 0, 0, 45, 0, 0, 0, 43, 0, 0, 0, 0, 0x7F] @ replicate 12 0"

definition initial_keymap :: "u8 list list" where
  "initial_keymap = map (\<lambda>(a, b). [a, b, 0, 0]) (zip plain_keys shift_keys)"

abbreviation (input) INV :: u8 where "INV \<equiv> 0"
abbreviation (input) CODE_PRINT_SCREEN_DOWN :: u16 where "CODE_PRINT_SCREEN_DOWN \<equiv> 0xB7"
abbreviation (input) KEY_SLASH :: u16 where "KEY_SLASH \<equiv> 0x35"
abbreviation (input) KEY_SHIFT_L :: nat where "KEY_SHIFT_L \<equiv> 0x2A"
abbreviation (input) KEY_SHIFT_R :: nat where "KEY_SHIFT_R \<equiv> 0x36"
abbreviation (input) KEY_CAPSLOCK :: u16 where "KEY_CAPSLOCK \<equiv> 0x3A"
abbreviation (input) KEY_NUMLOCK :: u16 where "KEY_NUMLOCK \<equiv> 0x45"
abbreviation (input) KEY_SCRLOCK :: u16 where "KEY_SCRLOCK \<equiv> 0x46"
abbreviation (input) KEY_PRINT_SCREEN :: u16 where "KEY_PRINT_SCREEN \<equiv> 0x5F"

section \<open>The handler\<close>

definition key_get :: "nat \<Rightarrow> nat \<Rightarrow> keyboard \<Rightarrow> u8 option" where
  "key_get row col k = do { r \<leftarrow> rd (keymap k) row; rd r col }"

definition key_set :: "nat \<Rightarrow> nat \<Rightarrow> u8 \<Rightarrow> keyboard \<Rightarrow> keyboard option" where
  "key_set row col v k = do {
     r \<leftarrow> rd (keymap k) row;
     r \<leftarrow> wr r col v;
     Some (k\<lparr>keymap := (keymap k)[row := r]\<rparr>)
   }"

definition shift_state :: "keyboard \<Rightarrow> bool option" where
  "shift_state k = do {
     l \<leftarrow> key_get KEY_SHIFT_L 2 k;
     r \<leftarrow> key_get KEY_SHIFT_R 2 k;
     Some (l \<noteq> 0 \<or> r \<noteq> 0)
   }"

definition keyboard_setled :: "keyboard \<Rightarrow> keyboard" where
  "keyboard_setled k = k\<lparr>leds := push_bit 2 (of_bool (capslock_state k)) OR push_bit 1 (of_bool (numlock_state k))
     OR of_bool (scrlock_state k)\<rparr>"

text \<open>The part of \<^verbatim>\<open>keyboard_handler\<close> for a key that goes down.\<close>

definition key_locks :: "u16 \<Rightarrow> keyboard \<Rightarrow> keyboard" where
  "key_locks makecode k =
     (if makecode = KEY_NUMLOCK then keyboard_setled (k\<lparr>numlock_state := \<not> numlock_state k\<rparr>)
      else if makecode = KEY_CAPSLOCK then keyboard_setled (k\<lparr>capslock_state := \<not> capslock_state k\<rparr>)
      else if makecode = KEY_SCRLOCK then keyboard_setled (k\<lparr>scrlock_state := \<not> scrlock_state k\<rparr>)
      else k)"

text \<open>
  The character: the code works out \<open>shift\<close> from the lock and from the shift keys (the test for
  a letter compares a truth value with \<open>'z'\<close> and always holds), and then takes the column of the
  shift keys alone.
\<close>

definition key_char :: "u16 \<Rightarrow> nat \<Rightarrow> keyboard \<Rightarrow> (bool \<times> u8) option" where
  "key_char makecode ext k = do {
     let shift = False;
     let shift = (if capslock_state k then \<not> shift else shift);
     st \<leftarrow> shift_state k;
     let shift = (if st then \<not> shift else shift);
     ch \<leftarrow> (if ext = 3 \<and> makecode \<noteq> KEY_SLASH then key_get (unat makecode) 1 k
           else key_get (unat makecode) (of_bool st) k);
     Some (shift, ch)
   }"

definition key_deliver :: "u8 \<Rightarrow> keyboard \<Rightarrow> keyboard option" where
  "key_deliver ch k = do {
     f \<leftarrow> fifo_put (kb_fifo k) ch;
     let k = k\<lparr>kb_fifo := f\<rparr>;
     case kb_waiter k of
       None \<Rightarrow> Some k
     | Some t \<Rightarrow> do {
         k \<leftarrow> task_unblock t k;
         Some (k\<lparr>kb_waiter := None\<rparr>) }
   }"

definition key_down :: "u16 \<Rightarrow> nat \<Rightarrow> keyboard \<Rightarrow> keyboard option" where
  "key_down makecode ext k = do {
     k \<leftarrow> key_set (unat makecode) ext 1 k;
     let k = key_locks makecode k;
     (_, ch) \<leftarrow> key_char makecode ext k;
     if ch = INV then Some k else key_deliver ch k
   }"

definition keyboard_handler :: "u32 \<Rightarrow> u8 \<Rightarrow> keyboard \<Rightarrow> keyboard option" where
  "keyboard_handler vector byte k = do {
     check (vector = 0x21);
     let scancode = (ucast byte :: u16);
     if scancode = 0xE0 then Some (k\<lparr>extcode_state := True\<rparr>)
     else do {
       let (ext, scancode, k) = (if extcode_state k then (3, scancode OR 0xE000, k\<lparr>extcode_state := False\<rparr>)
                                 else (2, scancode, k));
       let makecode = scancode AND 0x7F;
       let makecode = (if makecode = CODE_PRINT_SCREEN_DOWN then KEY_PRINT_SCREEN else makecode);
       if makecode > KEY_PRINT_SCREEN then Some k
       else if scancode AND 0x80 \<noteq> 0 then key_set (unat makecode) ext 0 k
       else key_down makecode ext k
     }
   }"

text \<open>
  The loop of \<^verbatim>\<open>keyboard_read\<close>, for the bytes that are left: it sleeps while the ring is empty and
  tests again when it is woken, so that it is resumed with \<open>keyboard_read r (kb_left k)\<close>.
\<close>

fun keyboard_read :: "nat \<Rightarrow> nat \<Rightarrow> keyboard \<Rightarrow> keyboard option" where
  "keyboard_read r 0 k = Some (k\<lparr>kb_left := 0\<rparr>)"
| "keyboard_read r (Suc n) k =
     (if fifo_empty (kb_fifo k)
      then task_block r Block_list TASK_BLOCKED (k\<lparr>kb_waiter := Some r, kb_left := Suc n\<rparr>)
      else do {
        (byte, f) \<leftarrow> fifo_get (kb_fifo k);
        keyboard_read r n (k\<lparr>kb_fifo := f, kb_got := kb_got k @ [byte]\<rparr>) })"

definition keyboard_init :: "u8 list \<Rightarrow> keyboard \<Rightarrow> keyboard" where
  "keyboard_init ring k = keyboard_setled (k\<lparr>keymap := initial_keymap, numlock_state := False, scrlock_state := False,
     capslock_state := False, extcode_state := False, kb_fifo := fifo_init ring 64, kb_waiter := None\<rparr>)"

text \<open>A sequence of interrupts of the keyboard.\<close>

fun keys :: "u8 list \<Rightarrow> keyboard \<Rightarrow> keyboard option" where
  "keys [] k = Some k"
| "keys (c # cs) k = Option.bind (keyboard_handler 0x21 c k) (keys cs)"

section \<open>Lemmas\<close>

lemma keymap_size: "length initial_keymap = 96"
  by (simp add: initial_keymap_def plain_keys_def shift_keys_def bytes_of_def)

text \<open>The state without the caps lock and the LEDs.\<close>

definition no_caps :: "keyboard \<Rightarrow> keyboard" where
  "no_caps k = k\<lparr>capslock_state := False, leds := 0\<rparr>"

text \<open>Two results that are the same up to the caps lock.\<close>

abbreviation "same_keys a b \<equiv> map_option no_caps a = map_option no_caps b"

lemma no_caps_simps [simp]:
  "keymap (no_caps k) = keymap k" "numlock_state (no_caps k) = numlock_state k" "extcode_state (no_caps k) = extcode_state k"
  "scrlock_state (no_caps k) = scrlock_state k" "kb_fifo (no_caps k) = kb_fifo k" "kb_waiter (no_caps k) = kb_waiter k"
  "no_caps (no_caps k) = no_caps k" "key_get a b (no_caps k) = key_get a b k" "shift_state (no_caps k) = shift_state k"
  by (simp_all add: no_caps_def key_get_def shift_state_def)

lemma same_key_set: "map_option no_caps (key_set a b v (no_caps k)) = map_option no_caps (key_set a b v k)"
  by (cases "rd (keymap k) a") (auto simp: key_set_def no_caps_def bind_Some split: option.splits bind_splits)

lemma same_locks: "no_caps (key_locks m (no_caps k)) = no_caps (key_locks m k)"
  by (simp add: key_locks_def no_caps_def keyboard_setled_def)

lemma same_char: "map_option snd (key_char m e (no_caps k)) = map_option snd (key_char m e k)"
  by (cases "shift_state k") (auto simp: key_char_def map_option_case split: bind_splits)

lemma same_unblock: "same_keys (task_unblock t (no_caps k)) (task_unblock t k)"
  by (auto simp: task_unblock_def upd_task_def no_caps_def get_task_def check_def split: bind_splits)

text \<open>Operations that do not look at the caps lock compose.\<close>

definition caps_blind :: "(keyboard \<Rightarrow> keyboard option) \<Rightarrow> bool" where
  "caps_blind f \<longleftrightarrow> (\<forall>k. same_keys (f (no_caps k)) (f k))"

lemma caps_blindD: "caps_blind f \<Longrightarrow> no_caps a = no_caps b \<Longrightarrow> same_keys (f a) (f b)"
  unfolding caps_blind_def by metis

lemma caps_blind_bind:
  assumes "same_keys a b" "caps_blind g"
  shows "same_keys (Option.bind a g) (Option.bind b g)"
proof (cases a)
  case None
  then show ?thesis using assms(1) by simp
next
  case (Some x)
  then obtain y where y: "b = Some y" "no_caps x = no_caps y" using assms(1) by (cases b) simp_all
  show ?thesis unfolding Some y(1) bind.bind_lunit by (rule caps_blindD[OF assms(2) y(2)])
qed

lemma caps_blind_deliver: "caps_blind (key_deliver ch)"
  unfolding caps_blind_def
proof
  fix k
  have u: "no_caps (k\<lparr>kb_fifo := f\<rparr>) = (no_caps k)\<lparr>kb_fifo := f\<rparr>" for f by (simp add: no_caps_def)
  have w: "caps_blind (\<lambda>k. Some (k\<lparr>kb_waiter := None\<rparr>))" by (simp add: caps_blind_def no_caps_def)
  show "same_keys (key_deliver ch (no_caps k)) (key_deliver ch k)"
  proof (cases "fifo_put (kb_fifo k) ch")
    case (Some f)
    have "no_caps ((no_caps k)\<lparr>kb_fifo := f\<rparr>) = no_caps (k\<lparr>kb_fifo := f\<rparr>)" by (simp add: no_caps_def)
    moreover have "same_keys (Option.bind (task_unblock t ((no_caps k)\<lparr>kb_fifo := f\<rparr>)) (\<lambda>k. Some (k\<lparr>kb_waiter := None\<rparr>)))
        (Option.bind (task_unblock t (k\<lparr>kb_fifo := f\<rparr>)) (\<lambda>k. Some (k\<lparr>kb_waiter := None\<rparr>)))" for t
      unfolding u[symmetric] by (rule caps_blind_bind[OF same_unblock w])
    ultimately show ?thesis using Some by (simp add: key_deliver_def Let_def split: option.split)
  qed (simp add: key_deliver_def)
qed

lemma caps_blind_down: "caps_blind (key_down m e)"
  unfolding caps_blind_def
proof
  fix k
  have "caps_blind (\<lambda>k. Option.bind (key_char m e (key_locks m k))
      (\<lambda>(_, ch). if ch = INV then Some (key_locks m k) else key_deliver ch (key_locks m k)))"
    unfolding caps_blind_def
  proof
    fix k
    define a b where "a = key_locks m (no_caps k)" and "b = key_locks m k"
    have ab: "no_caps a = no_caps b" by (simp add: a_def b_def same_locks)
    have "map_option snd (key_char m e a) = map_option snd (key_char m e b)"
      using same_char[of m e a] same_char[of m e b] ab by simp
    then show "same_keys (Option.bind (key_char m e a) (\<lambda>(_, ch). if ch = INV then Some a else key_deliver ch a))
        (Option.bind (key_char m e b) (\<lambda>(_, ch). if ch = INV then Some b else key_deliver ch b))"
      using ab caps_blindD[OF caps_blind_deliver ab]
      by (cases "key_char m e a"; cases "key_char m e b") auto
  qed
  from caps_blind_bind[OF same_key_set this] show "same_keys (key_down m e (no_caps k)) (key_down m e k)"
    by (simp add: key_down_def Let_def)
qed

lemma caps_blind_handler: "caps_blind (keyboard_handler v c)"
  unfolding caps_blind_def
proof
  fix k :: keyboard
  let ?e = "k\<lparr>extcode_state := False\<rparr>"
  have e: "no_caps ?e = (no_caps k)\<lparr>extcode_state := False\<rparr>"
    "no_caps (k\<lparr>extcode_state := True\<rparr>) = no_caps ((no_caps k)\<lparr>extcode_state := True\<rparr>)"
    by (simp_all add: no_caps_def)
  have down: "same_keys (key_down m x (no_caps k)) (key_down m x k)" for m x k
    using caps_blind_down by (simp add: caps_blind_def)
  show "same_keys (keyboard_handler v c (no_caps k)) (keyboard_handler v c k)"
  proof (cases "extcode_state k")
    case True
    then show ?thesis
      unfolding keyboard_handler_def Let_def using e down[of _ _ ?e] same_key_set[of _ _ _ ?e]
      by (simp add: check_def flip: e(1))
  next
    case False
    then show ?thesis
      unfolding keyboard_handler_def Let_def using e down same_key_set by (simp add: check_def)
  qed
qed

lemma caps_blind_keys: "caps_blind (keys cs)"
proof (induction cs)
  case (Cons c cs)
  have "same_keys (keyboard_handler 0x21 c (no_caps k)) (keyboard_handler 0x21 c k)" for k
    using caps_blind_handler by (simp add: caps_blind_def)
  from caps_blind_bind[OF this Cons.IH] show ?case by (simp add: caps_blind_def)
qed (simp add: caps_blind_def)

section \<open>Properties\<close>

text \<open>
  The caps lock key does nothing but switch its LED. Whatever keys are pressed and
  released, in whatever state of the keyboard, the characters delivered are the same with the
  caps lock on and off: the handler works out the effect of the lock and then looks only at the
  shift keys.
\<close>

lemma caps_lock_no_effect:
  "map_option kb_fifo (keys codes (k\<lparr>capslock_state := b\<rparr>)) = map_option kb_fifo (keys codes k)"
proof -
  have "no_caps (k\<lparr>capslock_state := b\<rparr>) = no_caps k" by (simp add: no_caps_def)
  from caps_blindD[OF caps_blind_keys this, of codes]
  have "map_option kb_fifo (map_option no_caps (keys codes (k\<lparr>capslock_state := b\<rparr>)))
      = map_option kb_fifo (map_option no_caps (keys codes k))" by simp
  then show ?thesis by (simp add: option.map_comp comp_def)
qed

end
