(* ===== verification/Keyboard_Ports.thy ===== *)
theory Keyboard_Ports
  imports Interrupt Keyboard Device
begin

text \<open>
  The ports of \<^verbatim>\<open>kernel/keyboard.c\<close>: the handshake with the controller by which \<open>keyboard_setled\<close> of
  \<open>Keyboard\<close> sets the lights, and the registration of the driver.
\<close>

abbreviation (input) KEYBOARD_DATA_PORT :: u16 where "KEYBOARD_DATA_PORT \<equiv> 0x60"
abbreviation (input) KEYBOARD_CTRL_PORT :: u16 where "KEYBOARD_CTRL_PORT \<equiv> 0x64"
abbreviation (input) KEYBOARD_CMD_LED :: u8 where "KEYBOARD_CMD_LED \<equiv> 0xED"
abbreviation (input) KEYBOARD_CMD_ACK :: u8 where "KEYBOARD_CMD_ACK \<equiv> 0xFA"
abbreviation (input) IRQ_KEYBOARD :: u32 where "IRQ_KEYBOARD \<equiv> 1"

partial_function (option) keyboard_wait :: "'w ports \<Rightarrow> 'w \<Rightarrow> 'w option" where
  "keyboard_wait P w =
     (let (state, w) = inb P KEYBOARD_CTRL_PORT w in if state AND 2 \<noteq> 0 then keyboard_wait P w else Some w)"

partial_function (option) keyboard_ack :: "'w ports \<Rightarrow> 'w \<Rightarrow> 'w option" where
  "keyboard_ack P w =
     (let (state, w) = inb P KEYBOARD_DATA_PORT w in if state \<noteq> KEYBOARD_CMD_ACK then keyboard_ack P w else Some w)"

definition led_byte :: "keyboard \<Rightarrow> u8" where
  "led_byte k = push_bit 2 (of_bool (capslock_state k)) OR push_bit 1 (of_bool (numlock_state k))
     OR of_bool (scrlock_state k)"

definition setled_ports :: "'w ports \<Rightarrow> keyboard \<Rightarrow> 'w \<Rightarrow> 'w option" where
  "setled_ports P k w = do {
     let led = led_byte k;
     w \<leftarrow> keyboard_wait P w;
     w \<leftarrow> keyboard_ack P (outb P KEYBOARD_DATA_PORT KEYBOARD_CMD_LED w);
     w \<leftarrow> keyboard_wait P w;
     keyboard_ack P (outb P KEYBOARD_DATA_PORT led w)
   }"

text \<open>
  The registration in \<^verbatim>\<open>keyboard_init\<close>; \<open>reader\<close> is \<^verbatim>\<open>keyboard_read\<close> as the device table calls it.
\<close>

definition keyboard_install :: "'w ports \<Rightarrow> 'w intr read_fn \<Rightarrow> 'w intr dstate \<Rightarrow> 'w intr dstate option" where
  "keyboard_install P reader D = do {
     s \<leftarrow> interrupt_register IRQ_KEYBOARD Keyboard_Handler (world D);
     s \<leftarrow> interrupt_mask P IRQ_KEYBOARD True s;
     (_, D) \<leftarrow> device_install DEV_CHAR 2 ''keyboard'' 0 None (Some reader) None (D\<lparr>world := s\<rparr>);
     Some D
   }"

section \<open>The controller\<close>

text \<open>
  The controller is busy for some polls after a byte was written; it answers a command and its
  argument with an acknowledgement, which queues behind the bytes not read yet.
\<close>

record kbd =
  kd_busy :: nat
  kd_queue :: "u8 list"
  kd_argument :: bool
  kd_led :: u8

definition kbd_take :: "u8 \<Rightarrow> kbd \<Rightarrow> kbd" where
  "kbd_take v c = (if kd_argument c then c\<lparr>kd_led := v, kd_argument := False, kd_queue := kd_queue c @ [KEYBOARD_CMD_ACK]\<rparr>
     else if v = KEYBOARD_CMD_LED then c\<lparr>kd_argument := True, kd_queue := kd_queue c @ [KEYBOARD_CMD_ACK]\<rparr> else c)"

definition kbd_ctrl :: "'w ports \<Rightarrow> ('w \<Rightarrow> kbd) \<Rightarrow> bool" where
  "kbd_ctrl P view \<longleftrightarrow>
     (\<forall>w. fst (inb P KEYBOARD_CTRL_PORT w) AND 2 \<noteq> 0 \<longleftrightarrow> 0 < kd_busy (view w))
     \<and> (\<forall>w. view (snd (inb P KEYBOARD_CTRL_PORT w)) = (view w)\<lparr>kd_busy := kd_busy (view w) - 1\<rparr>)
     \<and> (\<forall>w x xs. kd_queue (view w) = x # xs \<longrightarrow> fst (inb P KEYBOARD_DATA_PORT w) = x
          \<and> view (snd (inb P KEYBOARD_DATA_PORT w)) = (view w)\<lparr>kd_queue := xs\<rparr>)
     \<and> (\<forall>w v. kd_busy (view w) = 0 \<longrightarrow> (\<exists>b. view (outb P KEYBOARD_DATA_PORT v w) = (kbd_take v (view w))\<lparr>kd_busy := b\<rparr>))"

lemma kbd_status:
  assumes "kbd_ctrl P view"
  shows "fst (inb P KEYBOARD_CTRL_PORT w) AND 2 = 0 \<longleftrightarrow> kd_busy (view w) = 0"
    and "view (snd (inb P KEYBOARD_CTRL_PORT w)) = (view w)\<lparr>kd_busy := kd_busy (view w) - 1\<rparr>"
proof -
  have "(fst (inb P KEYBOARD_CTRL_PORT w) AND 2 \<noteq> 0) = (0 < kd_busy (view w))"
    using assms unfolding kbd_ctrl_def by blast
  then show "fst (inb P KEYBOARD_CTRL_PORT w) AND 2 = 0 \<longleftrightarrow> kd_busy (view w) = 0" by auto
  show "view (snd (inb P KEYBOARD_CTRL_PORT w)) = (view w)\<lparr>kd_busy := kd_busy (view w) - 1\<rparr>"
    using assms unfolding kbd_ctrl_def by blast
qed

lemma keyboard_wait_law:
  assumes C: "kbd_ctrl P view"
  shows "\<exists>w'. keyboard_wait P w = Some w' \<and> view w' = (view w)\<lparr>kd_busy := 0\<rparr>"
proof (induction "kd_busy (view w)" arbitrary: w)
  case 0
  obtain st w1 where p: "inb P KEYBOARD_CTRL_PORT w = (st, w1)" by fastforce
  have "fst (inb P KEYBOARD_CTRL_PORT w) AND 2 = 0" "view (snd (inb P KEYBOARD_CTRL_PORT w)) = (view w)\<lparr>kd_busy := 0\<rparr>"
    using kbd_status[OF C, of w] 0 by simp_all
  then show ?case using p by (subst keyboard_wait.simps) simp
next
  case (Suc n)
  obtain st w1 where p: "inb P KEYBOARD_CTRL_PORT w = (st, w1)" by fastforce
  have "fst (inb P KEYBOARD_CTRL_PORT w) AND 2 \<noteq> 0" "view (snd (inb P KEYBOARD_CTRL_PORT w)) = (view w)\<lparr>kd_busy := n\<rparr>"
    using kbd_status[OF C, of w] Suc(2)[symmetric] by simp_all
  then show ?case using p Suc(1)[of w1] by (subst keyboard_wait.simps) simp
qed

text \<open>Bytes in front of the acknowledgement are thrown away.\<close>

lemma keyboard_ack_law:
  assumes C: "kbd_ctrl P view"
  shows "kd_queue (view w) = xs @ KEYBOARD_CMD_ACK # ys \<Longrightarrow> KEYBOARD_CMD_ACK \<notin> set xs \<Longrightarrow>
    \<exists>w'. keyboard_ack P w = Some w' \<and> view w' = (view w)\<lparr>kd_queue := ys\<rparr>"
proof (induction xs arbitrary: w)
  case Nil
  obtain st w1 where p: "inb P KEYBOARD_DATA_PORT w = (st, w1)" by fastforce
  have "fst (inb P KEYBOARD_DATA_PORT w) = KEYBOARD_CMD_ACK" "view (snd (inb P KEYBOARD_DATA_PORT w)) = (view w)\<lparr>kd_queue := ys\<rparr>"
    using C Nil unfolding kbd_ctrl_def by simp_all
  then show ?case using p by (subst keyboard_ack.simps) simp
next
  case (Cons x xs)
  obtain st w1 where p: "inb P KEYBOARD_DATA_PORT w = (st, w1)" by fastforce
  have "fst (inb P KEYBOARD_DATA_PORT w) = x"
    "view (snd (inb P KEYBOARD_DATA_PORT w)) = (view w)\<lparr>kd_queue := xs @ KEYBOARD_CMD_ACK # ys\<rparr>"
    using C Cons.prems unfolding kbd_ctrl_def by simp_all
  then show ?case using p Cons.IH[of w1] Cons.prems(2) by (subst keyboard_ack.simps) auto
qed

text \<open>
  The handshake returns and sets the lights that \<open>keyboard_setled\<close> of the handler's model sets;
  what was queued is lost, which may be scan codes.
\<close>

lemma setled_ports_law:
  assumes C: "kbd_ctrl P view" and q: "KEYBOARD_CMD_ACK \<notin> set (kd_queue (view w))" and a: "\<not> kd_argument (view w)"
  shows "\<exists>w'. setled_ports P k w = Some w' \<and> kd_led (view w') = leds (keyboard_setled k) \<and> kd_queue (view w') = []
    \<and> \<not> kd_argument (view w')"
proof -
  have out: "kd_busy (view w) = 0 \<Longrightarrow> \<exists>b. view (outb P KEYBOARD_DATA_PORT v w) = (kbd_take v (view w))\<lparr>kd_busy := b\<rparr>" for v w
    using C unfolding kbd_ctrl_def by blast
  obtain w1 where w1: "keyboard_wait P w = Some w1" "view w1 = (view w)\<lparr>kd_busy := 0\<rparr>"
    using keyboard_wait_law[OF C] by blast
  let ?w2 = "outb P KEYBOARD_DATA_PORT KEYBOARD_CMD_LED w1"
  obtain b where w2: "view ?w2 = (kbd_take KEYBOARD_CMD_LED (view w1))\<lparr>kd_busy := b\<rparr>" using out[of w1] w1(2) by auto
  have "kd_queue (view ?w2) = kd_queue (view w) @ KEYBOARD_CMD_ACK # []" using w2 w1(2) a by (simp add: kbd_take_def)
  then obtain w3 where w3: "keyboard_ack P ?w2 = Some w3" "view w3 = (view ?w2)\<lparr>kd_queue := []\<rparr>"
    using keyboard_ack_law[OF C] q by blast
  obtain w4 where w4: "keyboard_wait P w3 = Some w4" "view w4 = (view w3)\<lparr>kd_busy := 0\<rparr>"
    using keyboard_wait_law[OF C] by blast
  let ?w5 = "outb P KEYBOARD_DATA_PORT (led_byte k) w4"
  obtain b' where w5: "view ?w5 = (kbd_take (led_byte k) (view w4))\<lparr>kd_busy := b'\<rparr>" using out[of w4] w4(2) by auto
  have arg: "kd_argument (view w4)" "kd_queue (view w4) = []" using w4(2) w3(2) w2 w1(2) a by (simp_all add: kbd_take_def)
  then have q5: "kd_queue (view ?w5) = [] @ KEYBOARD_CMD_ACK # []" using w5 by (simp add: kbd_take_def)
  obtain w6 where w6: "keyboard_ack P ?w5 = Some w6" "view w6 = (view ?w5)\<lparr>kd_queue := []\<rparr>"
    using keyboard_ack_law[OF C q5] by auto
  have "setled_ports P k w = Some w6"
    using w1(1) w3(1) w4(1) w6(1) by (simp add: setled_ports_def Let_def)
  moreover have "led_byte k = leds (keyboard_setled k)" by (simp add: led_byte_def keyboard_setled_def)
  ultimately show ?thesis using w6(2) w5 arg by (simp add: kbd_take_def)
qed

end
