(* ===== verification/Arena.thy ===== *)
theory Arena
  imports Paging
begin

text \<open>
  \<^verbatim>\<open>kernel/arena.c\<close>: the kernel heap. Blocks of up to 1024 bytes come from pages that are cut
  into blocks of one of seven sizes, larger ones are runs of pages of their own. \<open>arenas\<close>
  holds the header at the start of a page, \<open>d_free\<close> the blocks of the free list of a
  descriptor, newest first. A double \<^verbatim>\<open>kfree\<close> would link a node that is already in the list
  and is left outside the model: the result is \<open>None\<close>.
\<close>

section \<open>State\<close>

abbreviation (input) DESC_COUNT :: nat where "DESC_COUNT \<equiv> 7"
abbreviation (input) ARENA_MAGIC :: u32 where "ARENA_MAGIC \<equiv> 0xAA5555AA"
abbreviation (input) ARENA_SIZE :: u32 where "ARENA_SIZE \<equiv> 16"

record arena =
  a_desc :: "nat option"
  a_count :: u32
  a_large :: u32
  a_magic :: u32

record arena_descriptor =
  d_total :: u32
  d_size :: u32
  d_free :: "u32 list"

record heap = vm +
  arenas :: "u32 \<Rightarrow> arena option"
  descriptors :: "arena_descriptor list"

fun init_descriptors :: "nat \<Rightarrow> u32 \<Rightarrow> arena_descriptor list" where
  "init_descriptors 0 block_size = []"
| "init_descriptors (Suc n) block_size =
     \<lparr>d_total = (MEMORY_PAGE_SIZE - ARENA_SIZE) div block_size, d_size = block_size, d_free = []\<rparr>
       # init_descriptors n (push_bit 1 block_size)"

definition arena_init :: "heap \<Rightarrow> heap" where
  "arena_init h = h\<lparr>descriptors := init_descriptors DESC_COUNT 16\<rparr>"

section \<open>The operations\<close>

definition get_arena :: "u32 \<Rightarrow> heap \<Rightarrow> arena option" where
  "get_arena a h = arenas h a"

definition put_arena :: "u32 \<Rightarrow> arena \<Rightarrow> heap \<Rightarrow> heap" where
  "put_arena a ar h = h\<lparr>arenas := (arenas h)(a \<mapsto> ar)\<rparr>"

definition upd_desc :: "nat \<Rightarrow> (arena_descriptor \<Rightarrow> arena_descriptor) \<Rightarrow> heap \<Rightarrow> heap option" where
  "upd_desc i f h = do {
     d \<leftarrow> rd (descriptors h) i;
     Some (h\<lparr>descriptors := (descriptors h)[i := f d]\<rparr>)
   }"

definition arena_get_block :: "u32 \<Rightarrow> u32 \<Rightarrow> heap \<Rightarrow> u32 option" where
  "arena_get_block a idx h = do {
     ar \<leftarrow> get_arena a h;
     i \<leftarrow> a_desc ar;
     d \<leftarrow> rd (descriptors h) i;
     check (d_total d > idx);
     Some (a + ARENA_SIZE + idx * d_size d)
   }"

definition arena_get_arena :: "u32 \<Rightarrow> u32" where
  "arena_get_arena block = block AND 0xFFFFF000"

text \<open>The loop that puts the blocks of a new page into the free list, from block \<open>i\<close> on.\<close>

fun push_blocks :: "u32 \<Rightarrow> nat \<Rightarrow> u32 \<Rightarrow> nat \<Rightarrow> heap \<Rightarrow> heap option" where
  "push_blocks a desc i 0 h = Some h"
| "push_blocks a desc i (Suc left) h = do {
     block \<leftarrow> arena_get_block a i h;
     d \<leftarrow> rd (descriptors h) desc;
     check (block \<notin> set (d_free d));
     h \<leftarrow> upd_desc desc (\<lambda>d. d\<lparr>d_free := block # d_free d\<rparr>) h;
     push_blocks a desc (i + 1) left h
   }"

fun pick_desc :: "arena_descriptor list \<Rightarrow> nat \<Rightarrow> u32 \<Rightarrow> nat \<Rightarrow> nat" where
  "pick_desc [] i sz prev = prev"
| "pick_desc (d # ds) i sz prev = (if d_size d \<ge> sz then i else pick_desc ds (Suc i) sz i)"

definition kmalloc_large :: "u32 \<Rightarrow> heap \<Rightarrow> (u32 \<times> heap) option" where
  "kmalloc_large sz h = do {
     let asize = sz + ARENA_SIZE;
     let count = div_round_up asize MEMORY_PAGE_SIZE;
     (a, h) \<leftarrow> alloc_kpage count h;
     let h = put_arena a \<lparr>a_desc = None, a_count = count, a_large = 1, a_magic = ARENA_MAGIC\<rparr> h;
     Some (a + ARENA_SIZE, h)
   }"

definition new_arena :: "nat \<Rightarrow> heap \<Rightarrow> heap option" where
  "new_arena desc h = do {
     (a, h) \<leftarrow> alloc_kpage 1 h;
     d \<leftarrow> rd (descriptors h) desc;
     let h = put_arena a \<lparr>a_desc = Some desc, a_count = d_total d, a_large = 0, a_magic = ARENA_MAGIC\<rparr> h;
     push_blocks a desc 0 (unat (d_total d)) h
   }"

definition kmalloc :: "u32 \<Rightarrow> heap \<Rightarrow> (u32 \<times> heap) option" where
  "kmalloc sz h =
     (if sz > 1024 then kmalloc_large sz h
      else do {
        let desc = pick_desc (descriptors h) 0 sz 0;
        d \<leftarrow> rd (descriptors h) desc;
        h \<leftarrow> (if d_free d = [] then new_arena desc h else Some h);
        d \<leftarrow> rd (descriptors h) desc;
        check (d_free d \<noteq> []);
        let block = hd (d_free d);
        h \<leftarrow> upd_desc desc (\<lambda>d. d\<lparr>d_free := tl (d_free d)\<rparr>) h;
        let a = arena_get_arena block;
        ar \<leftarrow> get_arena a h;
        check (a_magic ar = ARENA_MAGIC \<and> a_large ar = 0);
        Some (block, put_arena a (ar\<lparr>a_count := a_count ar - 1\<rparr>) h)
      })"

text \<open>The loop that takes the blocks of an unused page out of the free list.\<close>

fun remove_blocks :: "u32 \<Rightarrow> nat \<Rightarrow> u32 \<Rightarrow> nat \<Rightarrow> heap \<Rightarrow> heap option" where
  "remove_blocks a desc i 0 h = Some h"
| "remove_blocks a desc i (Suc left) h = do {
     block \<leftarrow> arena_get_block a i h;
     d \<leftarrow> rd (descriptors h) desc;
     check (block \<in> set (d_free d));
     h \<leftarrow> upd_desc desc (\<lambda>d. d\<lparr>d_free := removeAll block (d_free d)\<rparr>) h;
     remove_blocks a desc (i + 1) left h
   }"

definition kfree :: "u32 \<Rightarrow> heap \<Rightarrow> heap option" where
  "kfree ptr h = do {
     check (ptr \<noteq> 0);
     let a = arena_get_arena ptr;
     ar \<leftarrow> get_arena a h;
     check (a_large ar = 1 \<or> a_large ar = 0);
     check (a_magic ar = ARENA_MAGIC);
     if a_large ar \<noteq> 0 then free_kpage a (a_count ar) h
     else do {
       desc \<leftarrow> a_desc ar;
       d \<leftarrow> rd (descriptors h) desc;
       check (ptr \<notin> set (d_free d));
       h \<leftarrow> upd_desc desc (\<lambda>d. d\<lparr>d_free := ptr # d_free d\<rparr>) h;
       let ar = ar\<lparr>a_count := a_count ar + 1\<rparr>;
       let h = put_arena a ar h;
       if a_count ar = d_total d then do {
         h \<leftarrow> remove_blocks a desc 0 (unat (d_total d)) h;
         free_kpage a 1 h }
       else Some h
     }
   }"

end
