(* ===== verification/Heap.thy ===== *)
theory Heap
  imports Arena
begin

text \<open>
  The memory safety of the kernel heap \<^verbatim>\<open>kernel/arena.c\<close>, in any order of \<^verbatim>\<open>kmalloc\<close>,
  \<^verbatim>\<open>kfree\<close> and the page allocations of the rest of the kernel: blocks in use never overlap each
  other, the headers of the pages or the nodes of the free lists, and \<^verbatim>\<open>kfree\<close> of a block in use
  returns. The proof follows who owns every page.
\<close>

section \<open>Blocks of a page\<close>

definition block_size :: "nat \<Rightarrow> nat" where
  "block_size i = 16 * 2 ^ i"

definition block_total :: "nat \<Rightarrow> nat" where
  "block_total i = 4080 div block_size i"

definition block_at :: "u32 \<Rightarrow> nat \<Rightarrow> nat \<Rightarrow> u32" where
  "block_at a i k = a + 16 + of_nat (k * block_size i)"

definition page_blocks :: "u32 \<Rightarrow> nat \<Rightarrow> u32 set" where
  "page_blocks a i = block_at a i ` {..< block_total i}"

lemma block_size_pos [simp]: "0 < block_size i"
  by (simp add: block_size_def)

lemma block_size_nonzero [simp]: "block_size i \<noteq> 0"
  by (simp add: block_size_def)

lemma block_size_min: "16 \<le> block_size i"
  by (simp add: block_size_def)

lemma block_fits: "k < block_total i \<Longrightarrow> k * block_size i + block_size i \<le> 4080"
proof -
  assume "k < block_total i"
  then have "Suc k \<le> 4080 div block_size i" by (simp add: block_total_def)
  then have "Suc k * block_size i \<le> 4080" by (simp only: less_eq_div_iff_mult_less_eq block_size_pos)
  then show ?thesis by (simp add: add.commute)
qed

lemma seven: "i < (7 :: nat) \<longleftrightarrow> i = 0 \<or> i = 1 \<or> i = 2 \<or> i = 3 \<or> i = 4 \<or> i = 5 \<or> i = 6"
  by auto

lemma block_total_bounds: "i < 7 \<Longrightarrow> 0 < block_total i \<and> block_total i < 256"
  by (auto simp: seven block_total_def block_size_def)

lemma unat_block_at:
  assumes "page_aligned a" "k < block_total i"
  shows "unat (block_at a i k) = unat a + 16 + k * block_size i"
proof -
  have f: "unat (IDX a) < 1048576" "4096 * unat (IDX a) + k * block_size i < 4294967280"
  proof -
    show "unat (IDX a) < 1048576" using aligned_nat(2)[of a] by simp
    moreover have "k * block_size i < 4080" using block_fits[OF assms(2)] block_size_pos[of i] by linarith
    ultimately show "4096 * unat (IDX a) + k * block_size i < 4294967280" by linarith
  qed
  have "unat a + 16 + k * block_size i < 2 ^ 32"
    using aligned_nat(1)[OF assms(1)] f(2) by simp
  then have "unat (of_nat (unat a + 16 + k * block_size i) :: u32) = unat a + 16 + k * block_size i"
    by (simp only: unat_of_nat) simp
  then show ?thesis by (simp add: block_at_def add.assoc)
qed

lemma arena_get_arena_nat: "unat (arena_get_arena b) = unat b div 4096 * 4096"
proof -
  have m: "(0xFFFFF000 :: u32) = NOT (mask 12)" by (simp add: mask_eq_exp_minus_1)
  have "b AND 0xFFFFF000 = push_bit 12 (drop_bit 12 b)"
    unfolding m by (rule bit_word_eqI) (auto simp: bit_simps)
  moreover have "unat (push_bit 12 (drop_bit 12 b)) = (unat b div 4096 * 4096) mod 2 ^ 32"
    by (simp only: unsigned_push_bit_eq) (simp add: push_bit_eq_mult take_bit_eq_mod unat_drop_bit)
  moreover have "unat b div 4096 * 4096 < 2 ^ 32"
  proof -
    have "unat b < 2 ^ LENGTH(32)" by (rule unsigned_less)
    then show ?thesis using div_times_less_eq_dividend[of "unat b" 4096] by simp
  qed
  ultimately show ?thesis by (simp only: arena_get_arena_def) simp
qed

lemma arena_of_block:
  assumes "page_aligned a" "k < block_total i"
  shows "arena_get_arena (block_at a i k) = a"
proof -
  have r: "16 + k * block_size i < 4096" using block_fits[OF assms(2)] block_size_pos[of i] by linarith
  have "unat (block_at a i k) = 4096 * unat (IDX a) + (16 + k * block_size i)"
    using unat_block_at[OF assms] aligned_nat(1)[OF assms(1)] by simp
  then have "unat (block_at a i k) div 4096 = unat (IDX a)" using r by simp
  then show ?thesis
    using aligned_nat(1)[OF assms(1)] by (simp add: unsigned_word_eqI[where ?'a = nat] arena_get_arena_nat)
qed

lemma arena_of_large: "page_aligned a \<Longrightarrow> arena_get_arena (a + 16) = a"
  using arena_of_block[of a 0 0] by (simp add: block_at_def block_total_def block_size_def)

lemma block_at_eq:
  assumes "page_aligned a" "k < block_total i" "page_aligned b" "l < block_total j" "block_at a i k = block_at b j l"
  shows "a = b"
  using arena_of_block[OF assms(1,2)] arena_of_block[OF assms(3,4)] assms(5) by simp

lemma block_at_inj: "page_aligned a \<Longrightarrow> inj_on (block_at a i) {..< block_total i}"
proof (rule inj_onI)
  fix k l assume a: "page_aligned a" "k \<in> {..< block_total i}" "l \<in> {..< block_total i}" "block_at a i k = block_at a i l"
  have "unat a + 16 + k * block_size i = unat a + 16 + l * block_size i"
    using unat_block_at[OF a(1), of k i] unat_block_at[OF a(1), of l i] a(2-4) by (simp only: lessThan_iff)
  then have "k * block_size i = l * block_size i" by (rule add_left_imp_eq)
  then show "k = l" by (simp only: mult_cancel2 block_size_nonzero simp_thms)
qed

section \<open>Who owns the kernel pages\<close>

datatype page_use = Small nat | Large u32

fun span :: "page_use \<Rightarrow> u32" where
  "span (Small i) = 1"
| "span (Large c) = c"

record owners =
  uses :: "u32 \<Rightarrow> page_use option"
  live :: "(u32 \<times> u32) list"
  foreign :: "nat set"

definition free_blocks :: "nat \<Rightarrow> heap \<Rightarrow> u32 set" where
  "free_blocks i h = set (d_free (descriptors h ! i))"

definition desc_ok :: "owners \<Rightarrow> heap \<Rightarrow> bool" where
  "desc_ok w h \<longleftrightarrow> length (descriptors h) = 7 \<and> (\<forall>i < 7. d_total (descriptors h ! i) = of_nat (block_total i)
     \<and> d_size (descriptors h ! i) = of_nat (block_size i) \<and> distinct (d_free (descriptors h ! i))
     \<and> free_blocks i h \<subseteq> (\<Union>a \<in> {a. uses w a = Some (Small i)}. page_blocks a i))"

fun page_ok :: "heap \<Rightarrow> u32 \<Rightarrow> page_use \<Rightarrow> bool" where
  "page_ok h a (Small i) \<longleftrightarrow> i < 7 \<and> arenas h a = Some \<lparr>a_desc = Some i,
     a_count = of_nat (card (page_blocks a i \<inter> free_blocks i h)), a_large = 0, a_magic = ARENA_MAGIC\<rparr>"
| "page_ok h a (Large c) \<longleftrightarrow> 0 < c \<and> arenas h a = Some \<lparr>a_desc = None, a_count = c, a_large = 1, a_magic = ARENA_MAGIC\<rparr>"

definition pages_ok :: "owners \<Rightarrow> heap \<Rightarrow> bool" where
  "pages_ok w h \<longleftrightarrow> kpages_wf h \<and> foreign w \<subseteq> kpages h
     \<and> (\<forall>a u. uses w a = Some u \<longrightarrow> page_aligned a \<and> page_ok h a u \<and> kregion a (span u) \<subseteq> kpages h - foreign w)
     \<and> (\<forall>a u b v. uses w a = Some u \<longrightarrow> uses w b = Some v \<longrightarrow> a \<noteq> b \<longrightarrow> kregion a (span u) \<inter> kregion b (span v) = {})"

fun block_ok :: "heap \<Rightarrow> u32 \<Rightarrow> page_use \<Rightarrow> u32 \<Rightarrow> u32 \<Rightarrow> bool" where
  "block_ok h a (Small i) p sz \<longleftrightarrow> p \<in> page_blocks a i - free_blocks i h \<and> unat sz \<le> block_size i"
| "block_ok h a (Large c) p sz \<longleftrightarrow> p = a + 16 \<and> unat sz + 16 \<le> 4096 * unat c"

definition live_ok :: "owners \<Rightarrow> heap \<Rightarrow> bool" where
  "live_ok w h \<longleftrightarrow> distinct (map fst (live w))
     \<and> (\<forall>(p, sz) \<in> set (live w). \<exists>u. uses w (arena_get_arena p) = Some u \<and> block_ok h (arena_get_arena p) u p sz)"

definition heap_inv :: "owners \<Rightarrow> heap \<Rightarrow> bool" where
  "heap_inv w h \<longleftrightarrow> desc_ok w h \<and> pages_ok w h \<and> live_ok w h"

section \<open>Facts about the invariant\<close>

lemma heap_invD:
  assumes "heap_inv w h"
  shows "length (descriptors h) = 7" "kpages_wf h" "foreign w \<subseteq> kpages h" "distinct (map fst (live w))"
    "i < 7 \<Longrightarrow> d_total (descriptors h ! i) = of_nat (block_total i) \<and> d_size (descriptors h ! i) = of_nat (block_size i)
       \<and> distinct (d_free (descriptors h ! i))"
    "i < 7 \<Longrightarrow> b \<in> free_blocks i h \<Longrightarrow> \<exists>a. uses w a = Some (Small i) \<and> b \<in> page_blocks a i"
    "uses w a = Some u \<Longrightarrow> page_aligned a \<and> page_ok h a u \<and> kregion a (span u) \<subseteq> kpages h - foreign w"
    "uses w a = Some u \<Longrightarrow> uses w c = Some v \<Longrightarrow> a \<noteq> c \<Longrightarrow> kregion a (span u) \<inter> kregion c (span v) = {}"
    "(p, sz) \<in> set (live w) \<Longrightarrow> \<exists>u. uses w (arena_get_arena p) = Some u \<and> block_ok h (arena_get_arena p) u p sz"
  using assms unfolding heap_inv_def desc_ok_def pages_ok_def live_ok_def by blast+

lemma heap_invI:
  assumes "length (descriptors h) = 7" "kpages_wf h" "foreign w \<subseteq> kpages h" "distinct (map fst (live w))"
    "\<And>i. i < 7 \<Longrightarrow> d_total (descriptors h ! i) = of_nat (block_total i) \<and> d_size (descriptors h ! i) = of_nat (block_size i)
       \<and> distinct (d_free (descriptors h ! i))"
    "\<And>i b. i < 7 \<Longrightarrow> b \<in> free_blocks i h \<Longrightarrow> \<exists>a. uses w a = Some (Small i) \<and> b \<in> page_blocks a i"
    "\<And>a u. uses w a = Some u \<Longrightarrow> page_aligned a \<and> page_ok h a u \<and> kregion a (span u) \<subseteq> kpages h - foreign w"
    "\<And>a u c v. uses w a = Some u \<Longrightarrow> uses w c = Some v \<Longrightarrow> a \<noteq> c \<Longrightarrow> kregion a (span u) \<inter> kregion c (span v) = {}"
    "\<And>p sz. (p, sz) \<in> set (live w) \<Longrightarrow> \<exists>u. uses w (arena_get_arena p) = Some u \<and> block_ok h (arena_get_arena p) u p sz"
  shows "heap_inv w h"
  unfolding heap_inv_def
proof (intro conjI)
  show "desc_ok w h" unfolding desc_ok_def
  proof (intro conjI allI impI)
    show "free_blocks i h \<subseteq> (\<Union>a \<in> {a. uses w a = Some (Small i)}. page_blocks a i)" if "i < 7" for i
      using assms(6)[OF that] by auto
  qed (use assms(1,5) in simp_all)
  show "pages_ok w h" unfolding pages_ok_def using assms(2,3,7,8) by blast
  show "live_ok w h" unfolding live_ok_def using assms(4,9) by blast
qed

lemma page_block_page: "page_aligned a \<Longrightarrow> b \<in> page_blocks a i \<Longrightarrow> arena_get_arena b = a"
  by (auto simp: page_blocks_def arena_of_block)

lemma finite_page_blocks [simp]: "finite (page_blocks a i)"
  by (simp add: page_blocks_def)

lemma page_ok_cong:
  assumes "page_ok h a u" "arenas h' a = arenas h a"
    "\<And>i. u = Small i \<Longrightarrow> page_blocks a i \<inter> free_blocks i h' = page_blocks a i \<inter> free_blocks i h"
  shows "page_ok h' a u"
  using assms by (cases u) auto

lemma block_ok_cong:
  "block_ok h a u p sz \<Longrightarrow> (\<And>i. u = Small i \<Longrightarrow> p \<notin> free_blocks i h') \<Longrightarrow> block_ok h' a u p sz"
  by (cases u) auto

lemma alloc_kpage_rest:
  "alloc_kpage c h = Some (v, h') \<Longrightarrow> arenas h' = arenas h \<and> descriptors h' = descriptors h"
  by (auto simp: alloc_kpage_def bind_Some split: if_splits)

lemma free_kpage_rest:
  "free_kpage v c h = Some h' \<Longrightarrow> arenas h' = arenas h \<and> descriptors h' = descriptors h"
  by (auto simp: free_kpage_def bind_Some split: if_splits)

lemma kregion_self: "0 < c \<Longrightarrow> unat (IDX a) \<in> kregion a c"
  by (simp add: kregion_def unat_gt_0)

text \<open>A page the allocator just returned is nobody's.\<close>

lemma fresh_page:
  assumes inv: "heap_inv w h" and a: "alloc_kpage c h = Some (a, h')"
  shows "uses w a = None" "uses w b = Some u \<Longrightarrow> kregion a c \<inter> kregion b (span u) = {}"
    "kregion a c \<inter> foreign w = {}" "page_aligned a" "0 < c"
    "kpages_wf h'" "kpages h' = kpages h \<union> kregion a c"
proof -
  note law = alloc_kpage_law[OF heap_invD(2)[OF inv] a]
  show "page_aligned a" "0 < c" "kpages_wf h'" "kpages h' = kpages h \<union> kregion a c" using law by auto
  show "kregion a c \<inter> foreign w = {}" using law heap_invD(3)[OF inv] by blast
  show d: "uses w b = Some u \<Longrightarrow> kregion a c \<inter> kregion b (span u) = {}" for b u
    using law heap_invD(7)[OF inv, of b u] by blast
  show "uses w a = None"
  proof (rule ccontr)
    assume "uses w a \<noteq> None"
    then obtain u where u: "uses w a = Some u" by auto
    have "page_ok h a u" using heap_invD(7)[OF inv u] by blast
    then have "0 < span u" by (cases u) auto
    then have "unat (IDX a) \<in> kregion a c \<inter> kregion a (span u)" using kregion_self law by blast
    then show False using d[OF u] by blast
  qed
qed

section \<open>The steps of kmalloc\<close>

definition set_free :: "nat \<Rightarrow> u32 list \<Rightarrow> heap \<Rightarrow> heap" where
  "set_free i bs h = h\<lparr>descriptors := (descriptors h)[i := (descriptors h ! i)\<lparr>d_free := bs\<rparr>]\<rparr>"

lemma set_free_simps [simp]:
  "arenas (set_free i bs h) = arenas h" "length (descriptors (set_free i bs h)) = length (descriptors h)"
  "kernel_map (set_free i bs h) = kernel_map h"
  "kpages_wf (set_free i bs h) = kpages_wf h" "kpages (set_free i bs h) = kpages h"
  by (simp_all add: set_free_def kpages_wf_def kpages_def)

lemma set_free_nth [simp]:
  "i < length (descriptors h) \<Longrightarrow> descriptors (set_free i bs h) ! j =
     (if j = i then (descriptors h ! i)\<lparr>d_free := bs\<rparr> else descriptors h ! j)"
  by (simp add: set_free_def)

lemma set_free_blocks [simp]:
  "i < length (descriptors h) \<Longrightarrow> free_blocks j (set_free i bs h) = (if j = i then set bs else free_blocks j h)"
  by (simp add: free_blocks_def)

lemma set_free_twice [simp]:
  "i < length (descriptors h) \<Longrightarrow> set_free i bs (set_free i cs h) = set_free i bs h"
  by (simp add: set_free_def)

lemma upd_desc_free: "i < length (descriptors h) \<Longrightarrow> upd_desc i (\<lambda>d. d\<lparr>d_free := f d\<rparr>) h = Some (set_free i (f (descriptors h ! i)) h)"
  by (simp add: upd_desc_def set_free_def)

lemma put_arena_simps [simp]:
  "descriptors (put_arena a ar h) = descriptors h" "kernel_map (put_arena a ar h) = kernel_map h"
  "arenas (put_arena a ar h) b = (if b = a then Some ar else arenas h b)"
  "free_blocks i (put_arena a ar h) = free_blocks i h"
  "kpages_wf (put_arena a ar h) = kpages_wf h" "kpages (put_arena a ar h) = kpages h"
  by (simp_all add: put_arena_def free_blocks_def kpages_wf_def kpages_def)

lemma get_block:
  assumes "arenas h a = Some ar" "a_desc ar = Some i" "i < length (descriptors h)" "k < block_total i" "block_total i < 256"
    "d_total (descriptors h ! i) = of_nat (block_total i)" "d_size (descriptors h ! i) = of_nat (block_size i)"
  shows "arena_get_block a (of_nat k) h = Some (block_at a i k)"
proof -
  have "(of_nat k :: u32) < of_nat (block_total i)"
    using assms(4,5) by (simp add: word_less_nat_alt unat_of_nat)
  then show ?thesis using assms by (simp add: arena_get_block_def get_arena_def block_at_def)
qed

lemma push_blocks_run:
  assumes "arenas h a = Some ar" "a_desc ar = Some i" "i < length (descriptors h)" "block_total i < 256"
    "d_total (descriptors h ! i) = of_nat (block_total i)" "d_size (descriptors h ! i) = of_nat (block_size i)"
    "inj_on (block_at a i) {..< block_total i}" "k + n \<le> block_total i"
    "block_at a i ` {k ..< k + n} \<inter> free_blocks i h = {}"
  shows "push_blocks a i (of_nat k) n h
    = Some (set_free i (rev (map (block_at a i) [k ..< k + n]) @ d_free (descriptors h ! i)) h)"
  using assms
proof (induction n arbitrary: k h)
  case 0
  have "set_free i (d_free (descriptors h ! i)) h = h" by (simp add: set_free_def)
  then show ?case by simp
next
  case (Suc n)
  define h1 where "h1 = set_free i (block_at a i k # d_free (descriptors h ! i)) h"
  have "arena_get_block a (of_nat k) h = Some (block_at a i k)"
    by (rule get_block) (use Suc.prems in simp_all)
  moreover have "block_at a i k \<in> block_at a i ` {k ..< k + Suc n}" by simp
  then have "block_at a i k \<notin> set (d_free (descriptors h ! i))"
    using Suc.prems(9) unfolding free_blocks_def by blast
  ultimately have b: "arena_get_block a (of_nat k) h = Some (block_at a i k)"
    "block_at a i k \<notin> set (d_free (descriptors h ! i))" by blast+
  have "block_at a i k \<notin> block_at a i ` {Suc k ..< Suc k + n}"
  proof
    assume "block_at a i k \<in> block_at a i ` {Suc k ..< Suc k + n}"
    then obtain j where "Suc k \<le> j" "j < Suc k + n" "block_at a i k = block_at a i j" by auto
    then show False using inj_onD[OF Suc.prems(7), of k j] Suc.prems(8) by auto
  qed
  moreover have "block_at a i ` {Suc k ..< Suc k + n} \<subseteq> block_at a i ` {k ..< k + Suc n}" by (rule image_mono) auto
  then have "block_at a i ` {Suc k ..< Suc k + n} \<inter> free_blocks i h = {}" using Suc.prems(9) by blast
  ultimately have "block_at a i ` {Suc k ..< Suc k + n} \<inter> free_blocks i h1 = {}"
    using Suc.prems(3) by (auto simp: h1_def free_blocks_def)
  then have "push_blocks a i (of_nat (Suc k)) n h1
      = Some (set_free i (rev (map (block_at a i) [Suc k ..< Suc k + n]) @ d_free (descriptors h1 ! i)) h1)"
    using Suc.prems by (intro Suc.IH) (simp_all add: h1_def)
  moreover have "push_blocks a i (of_nat k) (Suc n) h = push_blocks a i (of_nat (Suc k)) n h1"
    using b Suc.prems(3) by (simp add: upd_desc_free h1_def add.commute)
  moreover have "rev (map (block_at a i) [Suc k ..< Suc k + n]) @ d_free (descriptors h1 ! i)
      = rev (map (block_at a i) [k ..< k + Suc n]) @ d_free (descriptors h ! i)"
    using Suc.prems(3) by (simp add: h1_def upt_conv_Cons del: upt_Suc)
  moreover have "set_free i bs h1 = set_free i bs h" for bs using Suc.prems(3) by (simp add: h1_def)
  ultimately show ?case by (simp only:)
qed

lemma new_arena_inv:
  assumes inv: "heap_inv w h" and i: "i < 7" and a: "alloc_kpage 1 h = Some (a, h1)"
  shows "\<exists>h'. new_arena i h = Some h' \<and> heap_inv (w\<lparr>uses := (uses w)(a \<mapsto> Small i)\<rparr>) h'
    \<and> d_free (descriptors h' ! i) \<noteq> []"
proof -
  note fp = fresh_page[OF inv a] and r = alloc_kpage_rest[OF a] and D = heap_invD[OF inv] and bt = block_total_bounds[OF i]
  define ar where "ar = \<lparr>a_desc = Some i, a_count = of_nat (block_total i), a_large = 0, a_magic = ARENA_MAGIC\<rparr>"
  define h2 where "h2 = put_arena a ar h1"
  define new where "new = rev (map (block_at a i) [0 ..< block_total i])"
  have setnew: "set new = page_blocks a i" by (auto simp: new_def page_blocks_def)
  have fb: "free_blocks j h1 = free_blocks j h" for j using r by (simp add: free_blocks_def)
  have old: "arena_get_arena b \<noteq> a" if b: "b \<in> free_blocks j h" and j: "j < 7" for b j
  proof -
    obtain c where c: "uses w c = Some (Small j)" "b \<in> page_blocks c j" using D(6)[OF j b] by auto
    then have "arena_get_arena b = c" using D(7)[OF c(1)] page_block_page by blast
    then show ?thesis using c(1) fp(1) by auto
  qed
  have pb: "arena_get_arena b = a" if "b \<in> page_blocks a j" for b j using page_block_page[OF fp(4) that] .
  have dis: "page_blocks a i \<inter> free_blocks i h = {}" using old[OF _ i] pb by blast
  define h' where "h' = set_free i (new @ d_free (descriptors h ! i)) h2"
  have "push_blocks a i (of_nat 0) (block_total i) h2
      = Some (set_free i (rev (map (block_at a i) [0 ..< 0 + block_total i]) @ d_free (descriptors h2 ! i)) h2)"
  proof (rule push_blocks_run[of _ _ ar])
    show "block_at a i ` {0 ..< 0 + block_total i} \<inter> free_blocks i h2 = {}"
      using dis by (simp add: h2_def fb page_blocks_def atLeast0LessThan)
  qed (use D(1,5) r i bt block_at_inj[OF fp(4)] in \<open>simp_all add: h2_def ar_def\<close>)
  moreover have "unat (of_nat (block_total i) :: u32) = block_total i" using bt by (simp add: unat_of_nat)
  ultimately have "new_arena i h = Some h'"
    using a i D(1,5) r by (simp add: new_arena_def h'_def h2_def new_def ar_def)
  moreover have "heap_inv (w\<lparr>uses := (uses w)(a \<mapsto> Small i)\<rparr>) h'"
  proof (rule heap_invI)
    have l: "i < length (descriptors h2)" using i D(1) r by (simp add: h2_def)
    have fb': "free_blocks j h' = (if j = i then page_blocks a i \<union> free_blocks i h else free_blocks j h)" for j
      using l r by (simp add: h'_def h2_def setnew free_blocks_def)
    show "length (descriptors h') = 7" using D(1) r by (simp add: h'_def h2_def)
    show "kpages_wf h'" using fp by (simp add: h'_def h2_def)
    have kp: "kpages h' = kpages h \<union> kregion a 1" using fp by (simp add: h'_def h2_def)
    then show "foreign (w\<lparr>uses := (uses w)(a \<mapsto> Small i)\<rparr>) \<subseteq> kpages h'" using D(3) by auto
    show "d_total (descriptors h' ! j) = of_nat (block_total j) \<and> d_size (descriptors h' ! j) = of_nat (block_size j)
        \<and> distinct (d_free (descriptors h' ! j))" if "j < 7" for j
    proof -
      have "distinct (map (block_at a i) [0 ..< block_total i])"
        using block_at_inj[OF fp(4)] by (simp add: distinct_map atLeast0LessThan)
      then have "distinct (new @ d_free (descriptors h ! i))"
        using D(5)[OF i] dis setnew by (simp add: new_def free_blocks_def)
      then show ?thesis using D(5)[OF that] D(5)[OF i] l r by (simp add: h'_def h2_def)
    qed
    show "\<exists>c. uses (w\<lparr>uses := (uses w)(a \<mapsto> Small i)\<rparr>) c = Some (Small j) \<and> b \<in> page_blocks c j"
      if j: "j < 7" and b: "b \<in> free_blocks j h'" for j b
    proof (cases "j = i \<and> b \<in> page_blocks a i")
      case False
      then have "b \<in> free_blocks j h" using b fb'[of j] by (auto split: if_splits)
      then obtain c where c: "uses w c = Some (Small j)" "b \<in> page_blocks c j" using D(6)[OF j] by blast
      then have "c \<noteq> a" using fp(1) by auto
      then show ?thesis using c by auto
    qed auto
    show "page_aligned c \<and> page_ok h' c u \<and> kregion c (span u) \<subseteq> kpages h' - foreign (w\<lparr>uses := (uses w)(a \<mapsto> Small i)\<rparr>)"
      if u: "uses (w\<lparr>uses := (uses w)(a \<mapsto> Small i)\<rparr>) c = Some u" for c u
    proof (cases "c = a")
      case True
      moreover have "card (page_blocks a i) = block_total i"
        using block_at_inj[OF fp(4)] by (simp add: page_blocks_def card_image)
      moreover have "arenas h' a = Some ar" by (simp add: h'_def h2_def)
      moreover have "page_blocks a i \<inter> free_blocks i h' = page_blocks a i" using fb'[of i] by auto
      ultimately have "page_ok h' a (Small i)" using i by (simp add: ar_def)
      then show ?thesis using u True fp(3,4) kp by auto
    next
      case False
      then have u: "uses w c = Some u" using u by simp
      have "page_ok h' c u"
      proof (rule page_ok_cong)
        show "page_ok h c u" using D(7)[OF u] by blast
        show "arenas h' c = arenas h c" using False r by (simp add: h'_def h2_def)
        have "page_blocks c i \<inter> page_blocks a i = {}"
          using pb page_block_page[of c _ i] D(7)[OF u] False by blast
        then show "page_blocks c j \<inter> free_blocks j h' = page_blocks c j \<inter> free_blocks j h" for j
          by (auto simp: fb')
      qed
      then show ?thesis using D(7)[OF u] kp by auto
    qed
    show "kregion c (span u) \<inter> kregion d (span v) = {}"
      if "uses (w\<lparr>uses := (uses w)(a \<mapsto> Small i)\<rparr>) c = Some u" "uses (w\<lparr>uses := (uses w)(a \<mapsto> Small i)\<rparr>) d = Some v" "c \<noteq> d"
      for c u d v
      using that fp(2)[of c u] fp(2)[of d v] D(8)[of c u d v] by (auto split: if_splits)
    show "\<exists>u. uses (w\<lparr>uses := (uses w)(a \<mapsto> Small i)\<rparr>) (arena_get_arena p) = Some u \<and> block_ok h' (arena_get_arena p) u p sz"
      if "(p, sz) \<in> set (live (w\<lparr>uses := (uses w)(a \<mapsto> Small i)\<rparr>))" for p sz
    proof -
      obtain u where u: "uses w (arena_get_arena p) = Some u" "block_ok h (arena_get_arena p) u p sz"
        using D(9)[of p sz] \<open>(p, sz) \<in> _\<close> by auto
      then have n: "arena_get_arena p \<noteq> a" using fp(1) by auto
      have "block_ok h' (arena_get_arena p) u p sz"
        by (rule block_ok_cong[OF u(2)]) (use u(2) n pb in \<open>auto simp: fb'\<close>)
      then show ?thesis using u(1) n by auto
    qed
  qed (simp add: D(4))
  moreover have "d_free (descriptors h' ! i) \<noteq> []"
    using bt D(1) i r by (simp add: h'_def h2_def new_def)
  ultimately show ?thesis by blast
qed

text \<open>The free list of a page changes, and with it the blocks in use.\<close>

lemma free_list_change:
  assumes inv: "heap_inv w h" and u: "uses w a = Some (Small i)" and d: "distinct bs"
    and F: "set bs - page_blocks a i = free_blocks i h - page_blocks a i"
    and L: "distinct (map fst L)" "\<forall>(p, sz) \<in> set L. (p, sz) \<in> set (live w) \<and> p \<notin> set bs - free_blocks i h
      \<or> p \<in> page_blocks a i - set bs \<and> unat sz \<le> block_size i"
  shows "heap_inv (w\<lparr>live := L\<rparr>) (put_arena a \<lparr>a_desc = Some i, a_count = of_nat (card (page_blocks a i \<inter> set bs)),
    a_large = 0, a_magic = ARENA_MAGIC\<rparr> (set_free i bs h))" (is "heap_inv _ ?h")
proof -
  note D = heap_invD[OF inv]
  note pa = D(7)[OF u]
  have i: "i < 7" using pa by simp
  have l: "i < length (descriptors h)" using i D(1) by simp
  have fb: "free_blocks j ?h = (if j = i then set bs else free_blocks j h)" for j using l by simp
  have pb: "arena_get_arena b = a" if "b \<in> page_blocks a j" for b j using page_block_page[OF _ that] pa by blast
  show ?thesis
  proof (rule heap_invI)
    show "d_total (descriptors ?h ! j) = of_nat (block_total j) \<and> d_size (descriptors ?h ! j) = of_nat (block_size j)
        \<and> distinct (d_free (descriptors ?h ! j))" if "j < 7" for j
      using D(5)[OF that] D(5)[OF i] l d by simp
    show "\<exists>c. uses (w\<lparr>live := L\<rparr>) c = Some (Small j) \<and> b \<in> page_blocks c j"
      if j: "j < 7" and b: "b \<in> free_blocks j ?h" for j b
    proof (cases "j = i \<and> b \<in> page_blocks a i")
      case False
      then have "b \<in> free_blocks j h" using b F fb[of j] by (auto split: if_splits)
      then show ?thesis using D(6)[OF j] by simp
    qed (use u in auto)
    show "page_aligned c \<and> page_ok ?h c v \<and> kregion c (span v) \<subseteq> kpages ?h - foreign (w\<lparr>live := L\<rparr>)"
      if "uses (w\<lparr>live := L\<rparr>) c = Some v" for c v
    proof (cases "c = a")
      case True
      then have "v = Small i" using u that by simp
      then show ?thesis using True pa i l by simp
    next
      case False
      have v: "uses w c = Some v" using that by simp
      have "page_ok ?h c v"
      proof (rule page_ok_cong)
        show "page_ok h c v" using D(7)[OF v] by blast
        show "arenas ?h c = arenas h c" using False by simp
        have "page_blocks c i \<inter> page_blocks a i = {}"
          using pb page_block_page[of c _ i] D(7)[OF v] False by blast
        then show "page_blocks c j \<inter> free_blocks j ?h = page_blocks c j \<inter> free_blocks j h" for j
          using F fb[of j] by (cases "j = i") auto
      qed
      then show ?thesis using D(7)[OF v] by simp
    qed
    show "\<exists>v. uses (w\<lparr>live := L\<rparr>) (arena_get_arena p) = Some v \<and> block_ok ?h (arena_get_arena p) v p sz"
      if "(p, sz) \<in> set (live (w\<lparr>live := L\<rparr>))" for p sz
    proof -
      have "(p, sz) \<in> set L" using that by simp
      then consider (old) "(p, sz) \<in> set (live w)" "p \<notin> set bs - free_blocks i h"
        | (new) "p \<in> page_blocks a i" "p \<notin> set bs" "unat sz \<le> block_size i" using L(2) by blast
      then show ?thesis
      proof cases
        case old
        then obtain v where v: "uses w (arena_get_arena p) = Some v" "block_ok h (arena_get_arena p) v p sz"
          using D(9) by blast
        have "block_ok ?h (arena_get_arena p) v p sz"
          by (rule block_ok_cong[OF v(2)]) (use v(2) old(2) fb in \<open>auto split: if_splits\<close>)
        then show ?thesis using v(1) by simp
      next
        case new
        then have "block_ok ?h a (Small i) p sz" using l by simp
        then show ?thesis using pb[OF new(1)] u by simp
      qed
    qed
  qed (use D(1,2,3,8) L(1) in simp_all)
qed

lemma kmalloc_take:
  assumes inv: "heap_inv w h" and i: "i < 7" and f: "d_free (descriptors h ! i) = b # bs" and sz: "unat sz \<le> block_size i"
  shows "\<exists>ar. arenas h (arena_get_arena b) = Some ar \<and> a_magic ar = ARENA_MAGIC \<and> a_large ar = 0
    \<and> heap_inv (w\<lparr>live := (b, sz) # live w\<rparr>)
        (put_arena (arena_get_arena b) (ar\<lparr>a_count := a_count ar - 1\<rparr>) (set_free i bs h))"
proof -
  note D = heap_invD[OF inv]
  have fr: "free_blocks i h = insert b (set bs)" using f by (simp add: free_blocks_def)
  then obtain a where a: "uses w a = Some (Small i)" "b \<in> page_blocks a i" using D(6)[OF i, of b] by auto
  have ba: "arena_get_arena b = a" using page_block_page[OF _ a(2)] D(7)[OF a(1)] by blast
  have db: "b \<notin> set bs" "distinct bs" using D(5)[OF i] f by simp_all
  have "p \<noteq> b" if "(p, sz') \<in> set (live w)" for p sz'
  proof
    assume "p = b"
    then have "block_ok h a (Small i) b sz'" using D(9)[OF that] a(1) ba by simp
    then show False using fr by simp
  qed
  then have "b \<notin> fst ` set (live w)" by force
  then have L: "distinct (map fst ((b, sz) # live w))" using D(4) by simp
  have "heap_inv (w\<lparr>live := (b, sz) # live w\<rparr>) (put_arena a \<lparr>a_desc = Some i,
      a_count = of_nat (card (page_blocks a i \<inter> set bs)), a_large = 0, a_magic = ARENA_MAGIC\<rparr> (set_free i bs h))"
    by (rule free_list_change[OF inv a(1) db(2) _ L]) (use fr a(2) db(1) sz in auto)
  moreover have "page_blocks a i \<inter> free_blocks i h = insert b (page_blocks a i \<inter> set bs)" using fr a(2) by auto
  then have "card (page_blocks a i \<inter> free_blocks i h) = Suc (card (page_blocks a i \<inter> set bs))" using db(1) by simp
  ultimately show ?thesis using D(7)[OF a(1)] ba by simp
qed

lemma pick_desc_fits:
  "j < length ds \<Longrightarrow> sz \<le> d_size (ds ! j) \<Longrightarrow>
    \<exists>r < length ds. pick_desc ds i sz prev = i + r \<and> sz \<le> d_size (ds ! r)"
proof (induction ds arbitrary: i prev j)
  case (Cons d ds)
  show ?case
  proof (cases "d_size d \<ge> sz")
    case True
    then show ?thesis by (intro exI[of _ 0]) simp
  next
    case False
    then obtain j' where "j = Suc j'" using Cons.prems(2) by (cases j) auto
    then obtain r where "r < length ds" "pick_desc ds (Suc i) sz i = Suc i + r" "sz \<le> d_size (ds ! r)"
      using Cons.IH[of j' "Suc i" i] Cons.prems by auto
    then show ?thesis using False by (intro exI[of _ "Suc r"]) simp
  qed
qed simp

lemma kmalloc_small:
  assumes inv: "heap_inv w h" and sz: "sz \<le> 1024"
  shows "(\<exists>w' p h'. kmalloc sz h = Some (p, h') \<and> heap_inv w' h' \<and> live w' = (p, sz) # live w \<and> foreign w' = foreign w)
    \<or> kmalloc sz h = None \<and> alloc_kpage 1 h = None"
proof -
  note D = heap_invD[OF inv]
  define i where "i = pick_desc (descriptors h) 0 sz 0"
  have "sz \<le> d_size (descriptors h ! 6)" using D(5)[of 6] sz by (simp add: block_size_def)
  then have i: "i < 7" "sz \<le> d_size (descriptors h ! i)"
    using pick_desc_fits[of 6 "descriptors h" sz 0 0] D(1) by (auto simp: i_def)
  have fits: "unat sz \<le> block_size i"
  proof -
    have "d_size (descriptors h ! i) = of_nat (block_size i)" using D(5)[OF i(1)] by blast
    then have "unat sz \<le> unat (of_nat (block_size i) :: u32)" using i(2) by (simp add: word_le_nat_alt)
    also have "\<dots> \<le> block_size i" by (simp add: unat_of_nat)
    finally show ?thesis .
  qed
  have small: "\<not> 1024 < sz" using sz by simp
  have rest: "kmalloc sz h = Some (b, put_arena (arena_get_arena b) (ar\<lparr>a_count := a_count ar - 1\<rparr>) (set_free i bs h1))"
    if "(if d_free (descriptors h ! i) = [] then new_arena i h else Some h) = Some h1" "length (descriptors h1) = 7"
      "d_free (descriptors h1 ! i) = b # bs" "arenas h1 (arena_get_arena b) = Some ar" "a_magic ar = ARENA_MAGIC" "a_large ar = 0"
    for b bs h1 ar
    using that small i(1) D(1)
    by (simp add: kmalloc_def upd_desc_free get_arena_def flip: i_def)
  show ?thesis
  proof (cases "d_free (descriptors h ! i)")
    case (Cons b bs)
    show ?thesis using kmalloc_take[OF inv i(1) Cons fits] rest[of h b bs] Cons D(1)
      by (intro disjI1) (fastforce intro: exI[of _ "w\<lparr>live := (b, sz) # live w\<rparr>"])
  next
    case Nil
    show ?thesis
    proof (cases "alloc_kpage 1 h")
      case None
      then have "new_arena i h = None" by (simp add: new_arena_def)
      then show ?thesis using None Nil small D(1) i(1) by (simp add: kmalloc_def flip: i_def)
    next
      case (Some r)
      obtain a h0 where r: "r = (a, h0)" by (cases r)
      obtain h1 where h1: "new_arena i h = Some h1" "heap_inv (w\<lparr>uses := (uses w)(a \<mapsto> Small i)\<rparr>) h1"
        "d_free (descriptors h1 ! i) \<noteq> []"
        using new_arena_inv[OF inv i(1)] Some r by blast
      then obtain b bs where bs: "d_free (descriptors h1 ! i) = b # bs" by (meson neq_Nil_conv)
      show ?thesis using kmalloc_take[OF h1(2) i(1) bs fits] rest[of h1 b bs] bs h1(1) Nil heap_invD(1)[OF h1(2)]
        by (intro disjI1)
          (fastforce intro: exI[of _ "w\<lparr>uses := (uses w)(a \<mapsto> Small i), live := (b, sz) # live w\<rparr>"])
    qed
  qed
qed

section \<open>Large blocks and other pages\<close>

text \<open>Sizes for which the size of the run of pages does not wrap around.\<close>

abbreviation (input) MAX_ALLOC :: u32 where "MAX_ALLOC \<equiv> 0xFFFFEFF0"

lemma large_count:
  "sz \<le> MAX_ALLOC \<Longrightarrow> unat sz + 16 \<le> 4096 * unat (div_round_up (sz + ARENA_SIZE) MEMORY_PAGE_SIZE)"
proof -
  assume "sz \<le> MAX_ALLOC"
  then have "unat sz \<le> 4294963184" by (simp add: word_le_nat_alt)
  then have n: "unat (sz + 0x100F) = unat sz + 4111" by (simp add: unat_word_ariths)
  have "sz + ARENA_SIZE + MEMORY_PAGE_SIZE - 1 = sz + 0x100F" by simp
  then have "unat (div_round_up (sz + ARENA_SIZE) MEMORY_PAGE_SIZE) = unat (sz + 0x100F) div unat (0x1000 :: u32)"
    by (simp only: div_round_up_def unat_div)
  also have "\<dots> = (unat sz + 4111) div 4096" by (simp only: n unat_numeral) simp
  finally have "unat (div_round_up (sz + ARENA_SIZE) MEMORY_PAGE_SIZE) = (unat sz + 4111) div 4096" .
  then show ?thesis using mult_div_mod_eq[of 4096 "unat sz + 4111"] mod_less_divisor[of 4096 "unat sz + 4111"] by simp
qed

lemma page_ok_frames:
  "arenas h' = arenas h \<Longrightarrow> descriptors h' = descriptors h \<Longrightarrow> page_ok h' a u = page_ok h a u"
  "arenas h' = arenas h \<Longrightarrow> descriptors h' = descriptors h \<Longrightarrow> block_ok h' a u p sz = block_ok h a u p sz"
  "descriptors h' = descriptors h \<Longrightarrow> free_blocks i h' = free_blocks i h"
  by (cases u; simp add: free_blocks_def)+

lemma kmalloc_large_inv:
  assumes inv: "heap_inv w h" and sz: "1024 < sz" "sz \<le> MAX_ALLOC" and m: "kmalloc sz h = Some (p, h')"
  shows "\<exists>w'. heap_inv w' h' \<and> live w' = (p, sz) # live w \<and> foreign w' = foreign w"
proof -
  note D = heap_invD[OF inv]
  define c where "c = div_round_up (sz + ARENA_SIZE) MEMORY_PAGE_SIZE"
  obtain a h1 where a: "alloc_kpage c h = Some (a, h1)" and p: "p = a + 16"
    and h': "h' = put_arena a \<lparr>a_desc = None, a_count = c, a_large = 1, a_magic = ARENA_MAGIC\<rparr> h1"
    using m sz(1) by (auto simp: kmalloc_def kmalloc_large_def bind_Some c_def Let_def)
  note fp = fresh_page[OF inv a] and r = alloc_kpage_rest[OF a]
  have r': "descriptors h' = descriptors h" "\<And>b. b \<noteq> a \<Longrightarrow> arenas h' b = arenas h b" using r h' by simp_all
  note fb = page_ok_frames(3)[OF r'(1)]
  have kp: "kpages h' = kpages h \<union> kregion a c" using fp h' by simp
  have pa: "arena_get_arena p = a" using arena_of_large[OF fp(4)] p by simp
  let ?w = "w\<lparr>uses := (uses w)(a \<mapsto> Large c), live := (p, sz) # live w\<rparr>"
  have "heap_inv ?w h'"
  proof (rule heap_invI)
    show "kpages_wf h'" using fp h' by simp
    have "p \<notin> fst ` set (live w)" using D(9) fp(1) pa by fastforce
    then show "distinct (map fst (live ?w))" using D(4) by simp
    show "\<exists>b. uses ?w b = Some (Small i) \<and> x \<in> page_blocks b i" if i: "i < 7" and x: "x \<in> free_blocks i h'" for i x
    proof -
      obtain b where b: "uses w b = Some (Small i)" "x \<in> page_blocks b i" using D(6)[OF i] x fb by blast
      then show ?thesis using fp(1) by (intro exI[of _ b]) auto
    qed
    show "page_aligned b \<and> page_ok h' b u \<and> kregion b (span u) \<subseteq> kpages h' - foreign ?w"
      if "uses ?w b = Some u" for b u
    proof (cases "b = a")
      case True
      then show ?thesis using that fp kp h' by auto
    next
      case False
      then have u: "uses w b = Some u" using that by simp
      have "page_ok h' b u" by (rule page_ok_cong) (use D(7)[OF u] r'(2)[OF False] fb in auto)
      then show ?thesis using D(7)[OF u] kp by auto
    qed
    show "kregion b (span u) \<inter> kregion d (span v) = {}"
      if "uses ?w b = Some u" "uses ?w d = Some v" "b \<noteq> d" for b u d v
      using that fp(2)[of b u] fp(2)[of d v] D(8)[of b u d v] by (auto split: if_splits)
    show "\<exists>u. uses ?w (arena_get_arena q) = Some u \<and> block_ok h' (arena_get_arena q) u q s"
      if "(q, s) \<in> set (live ?w)" for q s
    proof (cases "q = p \<and> s = sz")
      case True
      then show ?thesis using pa large_count[OF sz(2)] p by (simp add: c_def)
    next
      case False
      then have q: "(q, s) \<in> set (live w)" using that by auto
      obtain u where u: "uses w (arena_get_arena q) = Some u" "block_ok h (arena_get_arena q) u q s"
        using D(9)[OF q] by blast
      have "block_ok h' (arena_get_arena q) u q s"
        by (rule block_ok_cong[OF u(2)]) (use u(2) fb in auto)
      moreover have "arena_get_arena q \<noteq> a" using u(1) fp(1) by auto
      ultimately show ?thesis using u(1) by simp
    qed
  qed (use D(1,3,5) r' kp in auto)
  then show ?thesis by (intro exI[of _ ?w]) simp
qed

text \<open>A page that holds no block in use goes back to the other pages.\<close>

lemma release_page:
  assumes inv: "heap_inv w (put_arena a ar h)" and u: "uses w a = Some u"
    and f: "\<And>i. u = Small i \<Longrightarrow> page_blocks a i \<inter> free_blocks i h = {}"
    and L: "\<forall>(p, sz) \<in> set (live w). arena_get_arena p \<noteq> a"
  shows "\<exists>h'. free_kpage a (span u) h = Some h' \<and> heap_inv (w\<lparr>uses := (uses w)(a := None)\<rparr>) h'"
proof -
  let ?g = "put_arena a ar h"
  note D = heap_invD[OF inv]
  note pa = D(7)[OF u]
  have span: "0 < span u" using pa by (cases u) auto
  have "kregion a (span u) \<subseteq> kpages h" using pa by auto
  then obtain h' where h': "free_kpage a (span u) h = Some h'" "kpages_wf h'" "kpages h' = kpages h - kregion a (span u)"
    using free_kpage_law[of h a "span u"] D(2) pa span by auto
  note r = free_kpage_rest[OF h'(1)]
  have fb: "free_blocks i h' = free_blocks i ?g" for i using r by (simp add: free_blocks_def)
  have ar: "arenas h' b = arenas ?g b" if "b \<noteq> a" for b using r that by simp
  let ?w = "w\<lparr>uses := (uses w)(a := None)\<rparr>"
  have "heap_inv ?w h'"
  proof (rule heap_invI)
    show "foreign ?w \<subseteq> kpages h'" using D(3) pa h'(3) by auto
    show "\<exists>b. uses ?w b = Some (Small i) \<and> x \<in> page_blocks b i" if i: "i < 7" and x: "x \<in> free_blocks i h'" for i x
    proof -
      have x: "x \<in> free_blocks i ?g" using x fb by simp
      then obtain b where b: "uses w b = Some (Small i)" "x \<in> page_blocks b i" using D(6)[OF i] by blast
      then have "b \<noteq> a" using f[of i] u x by auto
      then show ?thesis using b by (intro exI[of _ b]) simp
    qed
    show "page_aligned b \<and> page_ok h' b v \<and> kregion b (span v) \<subseteq> kpages h' - foreign ?w"
      if "uses ?w b = Some v" for b v
    proof -
      have b: "b \<noteq> a" "uses w b = Some v" using that by (auto split: if_splits)
      have "page_ok h' b v" by (rule page_ok_cong[of ?g]) (use D(7)[OF b(2)] ar[OF b(1)] fb in simp_all)
      then show ?thesis using D(7)[OF b(2)] D(8)[OF b(2) u b(1)] h'(3) by auto
    qed
    show "kregion b (span x) \<inter> kregion d (span y) = {}" if "uses ?w b = Some x" "uses ?w d = Some y" "b \<noteq> d" for b x d y
      using that D(8)[of b x d y] by (auto split: if_splits)
    show "\<exists>x. uses ?w (arena_get_arena q) = Some x \<and> block_ok h' (arena_get_arena q) x q s"
      if "(q, s) \<in> set (live ?w)" for q s
    proof -
      have q: "(q, s) \<in> set (live w)" using that by simp
      obtain x where x: "uses w (arena_get_arena q) = Some x" "block_ok ?g (arena_get_arena q) x q s"
        using D(9)[OF q] by blast
      have "block_ok h' (arena_get_arena q) x q s"
        by (rule block_ok_cong[OF x(2)]) (use x(2) fb in auto)
      moreover have "arena_get_arena q \<noteq> a" using L q by auto
      ultimately show ?thesis using x(1) by simp
    qed
  qed (use D(1,4,5) r h'(2) in simp_all)
  then show ?thesis using h'(1) by blast
qed

lemma foreign_change:
  assumes inv: "heap_inv w h" and r: "arenas h' = arenas h \<and> descriptors h' = descriptors h"
    and k: "kpages_wf h'" "X \<subseteq> kpages h'" "\<And>a u. uses w a = Some u \<Longrightarrow> kregion a (span u) \<subseteq> kpages h' - X"
  shows "heap_inv (w\<lparr>foreign := X\<rparr>) h'"
proof -
  note D = heap_invD[OF inv]
  note P = page_ok_frames(1,2)[OF r[THEN conjunct1] r[THEN conjunct2]] page_ok_frames(3)[OF r[THEN conjunct2]]
  show ?thesis
  proof (rule heap_invI)
    show "page_aligned a \<and> page_ok h' a u \<and> kregion a (span u) \<subseteq> kpages h' - foreign (w\<lparr>foreign := X\<rparr>)"
      if "uses (w\<lparr>foreign := X\<rparr>) a = Some u" for a u
      using D(7)[of a u] k(3)[of a u] that P(1) by simp
  qed (use D(1,4-6,8,9) k(1,2) r P in simp_all)
qed

lemma foreign_alloc:
  assumes inv: "heap_inv w h" and a: "alloc_kpage c h = Some (v, h')"
  shows "heap_inv (w\<lparr>foreign := foreign w \<union> kregion v c\<rparr>) h'"
proof (rule foreign_change[OF inv alloc_kpage_rest[OF a]])
  note D = heap_invD[OF inv] and fp = fresh_page[OF inv a]
  show "kpages_wf h'" by (rule fp(6))
  show "foreign w \<union> kregion v c \<subseteq> kpages h'" using D(3) fp(7) by auto
  show "kregion b (span u) \<subseteq> kpages h' - (foreign w \<union> kregion v c)" if "uses w b = Some u" for b u
    using D(7)[OF that] fp(2)[OF that] fp(7) by blast
qed

lemma foreign_free:
  assumes inv: "heap_inv w h" and v: "page_aligned v" "0 < c" "kregion v c \<subseteq> foreign w"
  shows "\<exists>h'. free_kpage v c h = Some h' \<and> heap_inv (w\<lparr>foreign := foreign w - kregion v c\<rparr>) h'"
proof -
  note D = heap_invD[OF inv]
  obtain h' where h': "free_kpage v c h = Some h'" "kpages_wf h'" "kpages h' = kpages h - kregion v c"
    using free_kpage_law[of h v c] D(2,3) v by blast
  have "heap_inv (w\<lparr>foreign := foreign w - kregion v c\<rparr>) h'"
  proof (rule foreign_change[OF inv free_kpage_rest[OF h'(1)] h'(2)])
    show "foreign w - kregion v c \<subseteq> kpages h'" using D(3) h'(3) by auto
    show "kregion b (span u) \<subseteq> kpages h' - (foreign w - kregion v c)" if "uses w b = Some u" for b u
      using D(7)[OF that] h'(3) v(3) by blast
  qed
  then show ?thesis using h'(1) by blast
qed

section \<open>kfree\<close>

abbreviation (input) without :: "u32 \<Rightarrow> owners \<Rightarrow> (u32 \<times> u32) list" where
  "without p w \<equiv> filter (\<lambda>b. fst b \<noteq> p) (live w)"

lemma filter_removeAll: "filter P (removeAll x xs) = filter (\<lambda>b. b \<noteq> x \<and> P b) xs"
  by (induction xs) auto

lemma remove_blocks_run:
  assumes "arenas h a = Some ar" "a_desc ar = Some i" "i < length (descriptors h)" "block_total i < 256"
    "d_total (descriptors h ! i) = of_nat (block_total i)" "d_size (descriptors h ! i) = of_nat (block_size i)"
    "inj_on (block_at a i) {..< block_total i}" "k + n \<le> block_total i"
    "block_at a i ` {k ..< k + n} \<subseteq> free_blocks i h"
  shows "remove_blocks a i (of_nat k) n h
    = Some (set_free i (filter (\<lambda>b. b \<notin> block_at a i ` {k ..< k + n}) (d_free (descriptors h ! i))) h)"
  using assms
proof (induction n arbitrary: k h)
  case 0
  have "set_free i (d_free (descriptors h ! i)) h = h" by (simp add: set_free_def)
  then show ?case by simp
next
  case (Suc n)
  define h1 where "h1 = set_free i (removeAll (block_at a i k) (d_free (descriptors h ! i))) h"
  have "arena_get_block a (of_nat k) h = Some (block_at a i k)"
    by (rule get_block) (use Suc.prems in simp_all)
  moreover have "block_at a i k \<in> set (d_free (descriptors h ! i))"
    using Suc.prems(9) unfolding free_blocks_def by auto
  ultimately have run: "remove_blocks a i (of_nat k) (Suc n) h = remove_blocks a i (of_nat (Suc k)) n h1"
    using Suc.prems(3) by (simp add: upd_desc_free h1_def add.commute)
  have "block_at a i k \<notin> block_at a i ` {Suc k ..< Suc k + n}"
  proof
    assume "block_at a i k \<in> block_at a i ` {Suc k ..< Suc k + n}"
    then obtain j where "Suc k \<le> j" "j < Suc k + n" "block_at a i k = block_at a i j" by auto
    then show False using inj_onD[OF Suc.prems(7), of k j] Suc.prems(8) by auto
  qed
  moreover have ins: "block_at a i ` {k ..< k + Suc n} = insert (block_at a i k) (block_at a i ` {Suc k ..< Suc k + n})"
  proof -
    have "{k ..< k + Suc n} = insert k {Suc k ..< Suc k + n}" by auto
    then show ?thesis by simp
  qed
  moreover have "free_blocks i h1 = free_blocks i h - {block_at a i k}"
    using Suc.prems(3) by (simp add: h1_def free_blocks_def)
  ultimately have "block_at a i ` {Suc k ..< Suc k + n} \<subseteq> free_blocks i h1"
    using Suc.prems(9) ins by (simp only: subset_Diff_insert Diff_empty insert_subset simp_thms)
  then have e1: "remove_blocks a i (of_nat (Suc k)) n h1
      = Some (set_free i (filter (\<lambda>b. b \<notin> block_at a i ` {Suc k ..< Suc k + n}) (d_free (descriptors h1 ! i))) h1)"
    using Suc.prems by (intro Suc.IH) (simp_all add: h1_def)
  have e2: "filter (\<lambda>b. b \<notin> block_at a i ` {Suc k ..< Suc k + n}) (d_free (descriptors h1 ! i))
      = filter (\<lambda>b. b \<notin> block_at a i ` {k ..< k + Suc n}) (d_free (descriptors h ! i))"
    unfolding ins using Suc.prems(3) by (simp add: h1_def filter_removeAll)
  have e3: "set_free i bs h1 = set_free i bs h" for bs using Suc.prems(3) by (simp add: h1_def)
  show ?case unfolding run e1 e2 e3 ..
qed


lemma live_block:
  assumes inv: "heap_inv w h" and p: "(p, sz) \<in> set (live w)"
  obtains (small) a i where "arena_get_arena p = a" "uses w a = Some (Small i)" "i < 7" "page_aligned a"
      "p \<in> page_blocks a i" "p \<notin> free_blocks i h" "unat sz \<le> block_size i"
  | (large) a c where "arena_get_arena p = a" "uses w a = Some (Large c)" "page_aligned a" "p = a + 16"
      "unat sz + 16 \<le> 4096 * unat c"
proof -
  obtain u where u: "uses w (arena_get_arena p) = Some u" "block_ok h (arena_get_arena p) u p sz"
    using heap_invD(9)[OF inv p] by blast
  note pa = heap_invD(7)[OF inv u(1)]
  show thesis
  proof (cases u)
    case (Small i)
    then show thesis using small[of "arena_get_arena p" i] u pa by simp
  next
    case (Large c)
    then show thesis using large[of "arena_get_arena p" c] u pa by simp
  qed
qed

lemma block_nonzero: "page_aligned a \<Longrightarrow> p \<in> page_blocks a i \<Longrightarrow> p \<noteq> 0"
  using unat_block_at by (fastforce simp: page_blocks_def)

lemma kfree_small:
  assumes inv: "heap_inv w h" and p: "(p, sz) \<in> set (live w)"
    and a: "arena_get_arena p = a" "uses w a = Some (Small i)" "i < 7" "page_aligned a" "p \<in> page_blocks a i" "p \<notin> free_blocks i h"
  shows "\<exists>w' h'. kfree p h = Some h' \<and> heap_inv w' h' \<and> live w' = without p w \<and> foreign w' = foreign w"
proof -
  note D = heap_invD[OF inv] and bt = block_total_bounds[OF a(3)]
  have l: "i < length (descriptors h)" using D(1) a(3) by simp
  define bs where "bs = p # d_free (descriptors h ! i)"
  define F where "F = page_blocks a i \<inter> set bs"
  define ar where "ar = \<lparr>a_desc = Some i, a_count = of_nat (card F), a_large = 0, a_magic = ARENA_MAGIC\<rparr>"
  have Fp: "F = insert p (page_blocks a i \<inter> free_blocks i h)" using a(5) by (auto simp: F_def bs_def free_blocks_def)
  have cF: "card F = Suc (card (page_blocks a i \<inter> free_blocks i h))" unfolding Fp using a(6) by simp
  have d: "distinct bs" using D(5)[OF a(3)] a(6) by (simp add: bs_def free_blocks_def)
  have cb: "card (page_blocks a i) = block_total i" using block_at_inj[OF a(4)] by (simp add: page_blocks_def card_image)
  have cle: "card F \<le> block_total i" unfolding cb[symmetric] by (rule card_mono) (auto simp: F_def)
  have tot: "d_total (descriptors h ! i) = of_nat (block_total i)" "d_size (descriptors h ! i) = of_nat (block_size i)"
    using D(5)[OF a(3)] by auto
  have small: "unat (of_nat n :: u32) = n" if "n \<le> block_total i" for n
    using that bt by (simp add: unat_of_nat)
  have full: "(of_nat (card F) :: u32) = of_nat (block_total i) \<longleftrightarrow> card F = block_total i"
    using small[OF cle] small[OF order_refl] by metis
  define h1 where "h1 = put_arena a ar (set_free i bs h)"
  let ?w = "w\<lparr>live := without p w\<rparr>"
  have L: "distinct (map fst (without p w))" using D(4) by (simp add: distinct_map_filter)
  have L2: "(q, s) \<in> set (live w) \<and> q \<noteq> p" if "(q, s) \<in> set (without p w)" for q s using that by simp
  have p0: "p \<noteq> 0" using block_nonzero[OF a(4,5)] .
  define n0 :: u32 where "n0 = of_nat (card (page_blocks a i \<inter> free_blocks i h))"
  have hd: "arenas h a = Some \<lparr>a_desc = Some i, a_count = n0, a_large = 0, a_magic = ARENA_MAGIC\<rparr>"
    using D(7)[OF a(2)] by (simp add: n0_def)
  have n0: "n0 + 1 = of_nat (card F)" by (simp add: n0_def cF)
  have notin: "p \<notin> set (d_free (descriptors h ! i))" using a(6) by (simp add: free_blocks_def)
  have run: "kfree p h = (if card F = block_total i then do {
      h2 \<leftarrow> remove_blocks a i 0 (block_total i) h1; free_kpage a 1 h2 } else Some h1)"
    using hd p0 notin l tot small[OF order_refl] full n0
    by (simp add: kfree_def a(1) get_arena_def upd_desc_free h1_def bs_def ar_def)
  show ?thesis
  proof (cases "card F = block_total i")
    case False
    have "heap_inv ?w h1"
      unfolding h1_def ar_def F_def
    proof (rule free_list_change[OF inv a(2) d _ L])
      show "set bs - page_blocks a i = free_blocks i h - page_blocks a i"
        using a(5) by (auto simp: bs_def free_blocks_def)
      show "\<forall>(q, s) \<in> set (without p w). (q, s) \<in> set (live w) \<and> q \<notin> set bs - free_blocks i h
          \<or> q \<in> page_blocks a i - set bs \<and> unat s \<le> block_size i"
        by (auto simp: bs_def free_blocks_def)
    qed
    then show ?thesis using run False by (intro exI[of _ ?w] exI[of _ h1]) simp
  next
    case True
    define cs where "cs = filter (\<lambda>b. b \<notin> page_blocks a i) bs"
    have "F = page_blocks a i" using True cb by (intro card_subset_eq) (auto simp: F_def)
    then have sub: "page_blocks a i \<subseteq> set bs" by (auto simp: F_def)
    have im: "block_at a i ` {0 ..< 0 + block_total i} = page_blocks a i" by (simp add: page_blocks_def atLeast0LessThan)
    have "remove_blocks a i (of_nat 0) (block_total i) h1
        = Some (set_free i (filter (\<lambda>b. b \<notin> block_at a i ` {0 ..< 0 + block_total i}) (d_free (descriptors h1 ! i))) h1)"
    proof (rule remove_blocks_run[of _ _ ar])
      show "block_at a i ` {0 ..< 0 + block_total i} \<subseteq> free_blocks i h1"
        unfolding im using sub l by (simp add: h1_def)
    qed (use l tot bt block_at_inj[OF a(4)] in \<open>simp_all add: h1_def ar_def\<close>)
    then have rb: "remove_blocks a i 0 (block_total i) h1 = Some (set_free i cs h1)"
      unfolding im using l by (simp add: h1_def cs_def)
    define ar0 where "ar0 = \<lparr>a_desc = Some i, a_count = of_nat (card (page_blocks a i \<inter> set cs)), a_large = 0, a_magic = ARENA_MAGIC\<rparr>"
    have "heap_inv ?w (put_arena a ar0 (set_free i cs h))"
      unfolding ar0_def
    proof (rule free_list_change[OF inv a(2) _ _ L])
      show "distinct cs" using d by (simp add: cs_def)
      show "set cs - page_blocks a i = free_blocks i h - page_blocks a i"
        using a(5) by (auto simp: cs_def bs_def free_blocks_def)
      show "\<forall>(q, s) \<in> set (without p w). (q, s) \<in> set (live w) \<and> q \<notin> set cs - free_blocks i h
          \<or> q \<in> page_blocks a i - set cs \<and> unat s \<le> block_size i"
        by (auto simp: cs_def bs_def free_blocks_def)
    qed
    moreover have "put_arena a ar0 (set_free i cs h) = put_arena a ar0 (set_free i cs h1)"
      using l by (simp add: h1_def put_arena_def set_free_def)
    ultimately have inv': "heap_inv ?w (put_arena a ar0 (set_free i cs h1))" by simp
    have "\<exists>h'. free_kpage a (span (Small i)) (set_free i cs h1) = Some h' \<and> heap_inv (?w\<lparr>uses := (uses ?w)(a := None)\<rparr>) h'"
    proof (rule release_page[OF inv'])
      show "uses ?w a = Some (Small i)" using a(2) by simp
      show "page_blocks a j \<inter> free_blocks j (set_free i cs h1) = {}" if "Small i = Small j" for j
        using that l by (auto simp: h1_def cs_def)
      show "\<forall>(q, s) \<in> set (live ?w). arena_get_arena q \<noteq> a"
      proof (intro ballI)
        fix z assume m: "z \<in> set (live ?w)"
        obtain q s where zz: "z = (q, s)" by (cases z)
        then have z: "z = (q, s)" "(q, s) \<in> set (live w)" "q \<noteq> p" using m by simp_all
        have "arena_get_arena q \<noteq> a"
        proof
          assume q: "arena_get_arena q = a"
          from inv z(2) show False
          proof (cases rule: live_block)
            case (small b j)
            then have "q \<in> page_blocks a i" "q \<notin> free_blocks i h" using q a(2) by auto
            then show False using sub z(3) by (auto simp: bs_def free_blocks_def)
          next
            case (large b c)
            then show False using q a(2) by simp
          qed
        qed
        then show "case z of (q, s) \<Rightarrow> arena_get_arena q \<noteq> a" using z(1) by simp
      qed
    qed
    then obtain h' where "free_kpage a 1 (set_free i cs h1) = Some h'" "heap_inv (?w\<lparr>uses := (uses ?w)(a := None)\<rparr>) h'"
      by auto
    then show ?thesis using run True rb
      by (intro exI[of _ "?w\<lparr>uses := (uses ?w)(a := None)\<rparr>"] exI[of _ h']) simp
  qed
qed

lemma kfree_live:
  assumes inv: "heap_inv w h" and p: "(p, sz) \<in> set (live w)"
  shows "\<exists>w' h'. kfree p h = Some h' \<and> heap_inv w' h' \<and> live w' = without p w \<and> foreign w' = foreign w"
  using inv p
proof (cases rule: live_block)
  case (small a i)
  then show ?thesis using kfree_small[OF inv p] by blast
next
  case (large a c)
  note D = heap_invD[OF inv]
  have L: "distinct (map fst (without p w))" using D(4) by (simp add: distinct_map_filter)
  have inv': "heap_inv (w\<lparr>live := without p w\<rparr>) h"
    by (rule heap_invI) (use D L in \<open>auto 0 3\<close>)
  have hd: "arenas h a = Some \<lparr>a_desc = None, a_count = c, a_large = 1, a_magic = ARENA_MAGIC\<rparr>"
    using D(7)[OF large(2)] by simp
  have same: "put_arena a \<lparr>a_desc = None, a_count = c, a_large = 1, a_magic = ARENA_MAGIC\<rparr> h = h"
    using hd by (simp add: put_arena_def fun_upd_idem)
  let ?w = "w\<lparr>live := without p w\<rparr>"
  have "\<exists>h'. free_kpage a (span (Large c)) h = Some h' \<and> heap_inv (?w\<lparr>uses := (uses ?w)(a := None)\<rparr>) h'"
  proof (rule release_page[of ?w a _ h])
    show "heap_inv ?w (put_arena a \<lparr>a_desc = None, a_count = c, a_large = 1, a_magic = ARENA_MAGIC\<rparr> h)"
      using inv' same by simp
    show "\<forall>(q, s) \<in> set (live ?w). arena_get_arena q \<noteq> a"
    proof (intro ballI)
      fix z assume m: "z \<in> set (live ?w)"
      obtain q s where zz: "z = (q, s)" by (cases z)
      then have z: "z = (q, s)" "(q, s) \<in> set (live w)" "q \<noteq> p" using m by simp_all
      from inv z(2) have "arena_get_arena q \<noteq> a"
      proof (cases rule: live_block)
        case (small b j)
        then show ?thesis using large(2) by auto
      next
        case (large b d)
        then show ?thesis using z(3) \<open>p = a + 16\<close> by auto
      qed
      then show "case z of (q, s) \<Rightarrow> arena_get_arena q \<noteq> a" using z(1) by simp
    qed
  qed (use large(2) in simp_all)
  then obtain h' where h': "free_kpage a c h = Some h'" "heap_inv (?w\<lparr>uses := (uses ?w)(a := None)\<rparr>) h'" by auto
  have "p = block_at a 0 0" using large(4) by (simp add: block_at_def)
  then have "p \<in> page_blocks a 0"
    unfolding page_blocks_def using block_total_bounds[of 0] by (intro image_eqI[of _ _ 0]) simp_all
  then have "p \<noteq> 0" using block_nonzero large(3) by blast
  then have "kfree p h = Some h'" using hd h'(1) by (simp add: kfree_def large(1) get_arena_def)
  then show ?thesis using h'(2) by (intro exI[of _ "?w\<lparr>uses := (uses ?w)(a := None)\<rparr>"] exI[of _ h']) simp
qed


section \<open>Every run of the heap\<close>

text \<open>
  The steps of the kernel, with the blocks in use as a list of pointers and sizes: \<^verbatim>\<open>kmalloc\<close>,
  \<^verbatim>\<open>kfree\<close> of a block in use, and \<^verbatim>\<open>alloc_kpage\<close> and \<^verbatim>\<open>free_kpage\<close> by all other code, which gives back
  only pages it has.
\<close>

type_synonym heap_run = "heap \<times> (u32 \<times> u32) list \<times> nat set"

inductive heap_step :: "heap_run \<Rightarrow> heap_run \<Rightarrow> bool" where
  malloc: "kmalloc sz h = Some (p, h') \<Longrightarrow> sz \<le> MAX_ALLOC \<Longrightarrow> heap_step (h, L, X) (h', (p, sz) # L, X)"
| free: "(p, sz) \<in> set L \<Longrightarrow> kfree p h = Some h' \<Longrightarrow> heap_step (h, L, X) (h', filter (\<lambda>b. fst b \<noteq> p) L, X)"
| take_pages: "alloc_kpage c h = Some (v, h') \<Longrightarrow> heap_step (h, L, X) (h', L, X \<union> kregion v c)"
| give_pages: "free_kpage v c h = Some h' \<Longrightarrow> kregion v c \<subseteq> X \<Longrightarrow> heap_step (h, L, X) (h', L, X - kregion v c)"

inductive_cases heap_stepE: "heap_step (h, L, X) r"

definition booted_heap :: "heap \<Rightarrow> bool" where
  "booted_heap h \<longleftrightarrow> kpages_wf h \<and> descriptors h = descriptors (arena_init h)"

definition run_ok :: "heap_run \<Rightarrow> bool" where
  "run_ok r \<longleftrightarrow> (\<exists>w. heap_inv w (fst r) \<and> live w = fst (snd r) \<and> foreign w = snd (snd r))"

lemma init_descriptors_nth:
  "i < n \<Longrightarrow> init_descriptors n b ! i =
    \<lparr>d_total = 4080 div push_bit i b, d_size = push_bit i b, d_free = []\<rparr>"
proof (induction n arbitrary: i b)
  case (Suc n)
  then show ?case by (cases i) (simp_all add: push_bit_push_bit)
qed simp

lemma init_descriptors_length [simp]: "length (init_descriptors n b) = n"
  by (induction n arbitrary: b) simp_all

lemma run_ok_init:
  assumes "booted_heap h"
  shows "run_ok (h, [], kpages h)"
proof -
  let ?w = "\<lparr>uses = (\<lambda>_. None), live = [], foreign = kpages h\<rparr>"
  have d: "descriptors h = init_descriptors 7 16" using assms by (simp add: booted_heap_def arena_init_def)
  have "heap_inv ?w h"
  proof (rule heap_invI)
    show "d_total (descriptors h ! i) = of_nat (block_total i) \<and> d_size (descriptors h ! i) = of_nat (block_size i)
        \<and> distinct (d_free (descriptors h ! i))" if "i < 7" for i
      using that unfolding d
      by (auto simp: init_descriptors_nth seven block_total_def block_size_def)
    show "\<exists>a. uses ?w a = Some (Small i) \<and> b \<in> page_blocks a i" if "i < 7" "b \<in> free_blocks i h" for i b
      using that by (simp add: free_blocks_def d init_descriptors_nth)
    show "length (descriptors h) = 7" by (simp add: d)
    show "kpages_wf h" using assms by (simp add: booted_heap_def)
  qed simp_all
  then show ?thesis unfolding run_ok_def by (intro exI[of _ ?w]) simp
qed

lemma run_ok_step:
  assumes "run_ok r" "heap_step r r'"
  shows "run_ok r'"
  using assms(2,1)
proof (induction rule: heap_step.induct)
  case (malloc sz h p h' L X)
  then obtain w where w: "heap_inv w h" "live w = L" "foreign w = X" by (auto simp: run_ok_def)
  show ?case
  proof (cases "sz \<le> 1024")
    case True
    then show ?thesis using kmalloc_small[OF w(1) True] malloc(1) w(2,3) by (auto simp: run_ok_def)
  next
    case False
    then show ?thesis using kmalloc_large_inv[OF w(1) _ malloc(2,1)] w(2,3) by (auto simp: run_ok_def)
  qed
next
  case (free p sz L h h' X)
  then obtain w where w: "heap_inv w h" "live w = L" "foreign w = X" by (auto simp: run_ok_def)
  then show ?case using kfree_live[OF w(1), of p sz] free(1,2) by (auto simp: run_ok_def)
next
  case (take_pages c h v h' L X)
  then obtain w where w: "heap_inv w h" "live w = L" "foreign w = X" by (auto simp: run_ok_def)
  then show ?case unfolding run_ok_def
    using foreign_alloc[OF w(1) take_pages(1)] by (intro exI[of _ "w\<lparr>foreign := foreign w \<union> kregion v c\<rparr>"]) simp
next
  case (give_pages v c h h' X L)
  then obtain w where w: "heap_inv w h" "live w = L" "foreign w = X" by (auto simp: run_ok_def)
  have v: "page_aligned v" "0 < c" using give_pages(1) by (auto simp: free_kpage_def split: if_splits)
  obtain h2 where "free_kpage v c h = Some h2" "heap_inv (w\<lparr>foreign := foreign w - kregion v c\<rparr>) h2"
    using foreign_free[OF w(1) v] give_pages(2) w(3) by blast
  then show ?case unfolding run_ok_def
    using give_pages(1) w by (intro exI[of _ "w\<lparr>foreign := foreign w - kregion v c\<rparr>"]) simp
qed


section \<open>Bytes\<close>

definition block_bytes :: "u32 \<Rightarrow> u32 \<Rightarrow> nat set" where
  "block_bytes p sz = {unat p ..< unat p + unat sz}"

text \<open>What the heap itself keeps in memory: the nodes of the free lists and the headers of the pages.\<close>

definition heap_bytes :: "heap \<Rightarrow> (u32 \<times> u32) list \<Rightarrow> nat set" where
  "heap_bytes h L = (\<Union>d \<in> set (descriptors h). \<Union>b \<in> set (d_free d). {unat b ..< unat b + 8})
     \<union> (\<Union>(p, sz) \<in> set L. {unat (arena_get_arena p) ..< unat (arena_get_arena p) + 16})"

definition heap_safe :: "heap \<Rightarrow> (u32 \<times> u32) list \<Rightarrow> bool" where
  "heap_safe h L \<longleftrightarrow> separate block_bytes L \<and> regions block_bytes L \<inter> heap_bytes h L = {}
     \<and> (\<forall>(p, sz) \<in> set L. kfree p h \<noteq> None)"

definition span_bytes :: "u32 \<Rightarrow> page_use \<Rightarrow> nat set" where
  "span_bytes a u = {unat a ..< unat a + 4096 * unat (span u)}"

lemma span_bytes_disjoint:
  assumes inv: "heap_inv w h" and u: "uses w a = Some u" "uses w b = Some v" "a \<noteq> b"
  shows "span_bytes a u \<inter> span_bytes b v = {}"
proof -
  note D = heap_invD[OF inv]
  have "unat a = 4096 * unat (IDX a)" "unat b = 4096 * unat (IDX b)"
    using D(7)[OF u(1)] D(7)[OF u(2)] aligned_nat(1) by blast+
  moreover have "0 < unat (span u)" "0 < unat (span v)"
    using D(7)[OF u(1)] D(7)[OF u(2)] by (cases u; cases v; auto simp: unat_gt_0)+
  ultimately have "unat a + 4096 * unat (span u) \<le> unat b \<or> unat b + 4096 * unat (span v) \<le> unat a"
    using kregion_addresses[OF D(8)[OF u]] by blast
  then show ?thesis by (auto simp: span_bytes_def)
qed

lemma slot_bytes:
  assumes "page_aligned a" "b \<in> page_blocks a i"
  obtains k where "b = block_at a i k" "k < block_total i" "unat b = unat a + 16 + k * block_size i"
    "unat b + block_size i \<le> unat a + 4096"
proof -
  obtain k where k: "b = block_at a i k" "k < block_total i" using assms(2) by (auto simp: page_blocks_def)
  show thesis using that[OF k] unat_block_at[OF assms(1) k(2)] block_fits[OF k(2)] k(1) by simp
qed

lemma slots_apart:
  assumes a: "page_aligned a" and b: "b \<in> page_blocks a i" "c \<in> page_blocks a i" "b \<noteq> c"
  shows "unat b + block_size i \<le> unat c \<or> unat c + block_size i \<le> unat b"
proof -
  obtain k where k: "b = block_at a i k" "unat b = unat a + 16 + k * block_size i" using slot_bytes[OF a b(1)] by metis
  obtain l where l: "c = block_at a i l" "unat c = unat a + 16 + l * block_size i" using slot_bytes[OF a b(2)] by metis
  have "k \<noteq> l" using b(3) k(1) l(1) by blast
  then have "k < l \<or> l < k" by linarith
  then show ?thesis
  proof
    assume "k < l"
    then have "Suc k * block_size i \<le> l * block_size i" by (intro mult_le_mono1) simp
    then show ?thesis using k(2) l(2) by simp
  next
    assume "l < k"
    then have "Suc l * block_size i \<le> k * block_size i" by (intro mult_le_mono1) simp
    then show ?thesis using k(2) l(2) by simp
  qed
qed

lemma live_bytes:
  assumes inv: "heap_inv w h" and p: "(p, sz) \<in> set (live w)"
  obtains u where "uses w (arena_get_arena p) = Some u" "page_aligned (arena_get_arena p)"
    "block_bytes p sz \<subseteq> span_bytes (arena_get_arena p) u - {unat (arena_get_arena p) ..< unat (arena_get_arena p) + 16}"
  using inv p
proof (cases rule: live_block)
  case (small a i)
  obtain k where "unat p = unat a + 16 + k * block_size i" "unat p + block_size i \<le> unat a + 4096"
    using slot_bytes[OF small(4,5)] by metis
  then show ?thesis using that[of "Small i"] small by (auto simp: block_bytes_def span_bytes_def)
next
  case (large a c)
  have "p = block_at a 0 0" using large(4) by (simp add: block_at_def)
  then have "unat p = unat a + 16" using unat_block_at[OF large(3), of 0 0] block_total_bounds[of 0] by simp
  then show ?thesis using that[of "Large c"] large by (auto simp: block_bytes_def span_bytes_def)
qed

lemma live_apart:
  assumes inv: "heap_inv w h" and p: "(p, s) \<in> set (live w)" and q: "(q, t) \<in> set (live w)" and pq: "p \<noteq> q"
  shows "block_bytes p s \<inter> block_bytes q t = {}"
proof (cases "arena_get_arena p = arena_get_arena q")
  case False
  obtain u where u: "uses w (arena_get_arena p) = Some u" "block_bytes p s \<subseteq> span_bytes (arena_get_arena p) u
      - {unat (arena_get_arena p) ..< unat (arena_get_arena p) + 16}"
    using live_bytes[OF inv p] by metis
  obtain v where v: "uses w (arena_get_arena q) = Some v" "block_bytes q t \<subseteq> span_bytes (arena_get_arena q) v
      - {unat (arena_get_arena q) ..< unat (arena_get_arena q) + 16}"
    using live_bytes[OF inv q] by metis
  show ?thesis using span_bytes_disjoint[OF inv u(1) v(1) False] u(2) v(2) by blast
next
  case True
  from inv p show ?thesis
  proof (cases rule: live_block)
    case small: (small a i)
    from inv q show ?thesis
    proof (cases rule: live_block)
      case (small b j)
      have ji: "j = i" and q: "q \<in> page_blocks a i"
        using True small(1,2,5) \<open>arena_get_arena p = a\<close> \<open>uses w a = Some (Small i)\<close> by auto
      have "unat p + block_size i \<le> unat q \<or> unat q + block_size i \<le> unat p"
        by (rule slots_apart[OF \<open>page_aligned a\<close> \<open>p \<in> page_blocks a i\<close> q pq])
      then show ?thesis using \<open>unat s \<le> block_size i\<close> small(7) ji
        by (auto simp: block_bytes_def)
    next
      case (large b c)
      then show ?thesis using True small by simp
    qed
  next
    case large: (large a c)
    from inv q show ?thesis
    proof (cases rule: live_block)
      case (small b j)
      then show ?thesis using True large by simp
    next
      case (large b d)
      then show ?thesis using True \<open>arena_get_arena p = a\<close> \<open>p = a + 16\<close> pq by simp
    qed
  qed
qed

lemma separate_live:
  "distinct (map fst L) \<Longrightarrow> (\<And>p s q t. (p, s) \<in> set L \<Longrightarrow> (q, t) \<in> set L \<Longrightarrow> p \<noteq> q \<Longrightarrow> r p s \<inter> r q t = {})
    \<Longrightarrow> separate r L"
proof (induction L)
  case (Cons x L)
  obtain p s where x: "x = (p, s)" by (cases x)
  have "r p s \<inter> r q t = {}" if "(q, t) \<in> set L" for q t
  proof (rule Cons.prems(2))
    show "p \<noteq> q" using Cons.prems(1) that x by (force simp: image_iff)
  qed (use x that in simp_all)
  then have "r p s \<inter> regions r L = {}" by (auto simp: regions_def)
  moreover have "separate r L" using Cons by (intro Cons.IH) auto
  ultimately show ?case using x by simp
qed simp

lemma free_apart:
  assumes inv: "heap_inv w h" and p: "(p, s) \<in> set (live w)" and b: "b \<in> free_blocks i h" "i < 7"
  shows "block_bytes p s \<inter> {unat b ..< unat b + 8} = {}"
proof -
  obtain a where a: "uses w a = Some (Small i)" "b \<in> page_blocks a i" using heap_invD(6)[OF inv b(2,1)] by blast
  have al: "page_aligned a" using heap_invD(7)[OF inv a(1)] by blast
  obtain k where "unat b = unat a + 16 + k * block_size i" "unat b + block_size i \<le> unat a + 4096"
    using slot_bytes[OF al a(2)] by metis
  then have sub: "{unat b ..< unat b + 8} \<subseteq> span_bytes a (Small i)"
    using block_size_min[of i] by (auto simp: span_bytes_def)
  show ?thesis
  proof (cases "arena_get_arena p = a")
    case False
    obtain u where u: "uses w (arena_get_arena p) = Some u" "block_bytes p s \<subseteq> span_bytes (arena_get_arena p) u
      - {unat (arena_get_arena p) ..< unat (arena_get_arena p) + 16}"
      using live_bytes[OF inv p] by metis
    show ?thesis using span_bytes_disjoint[OF inv u(1) a(1) False] u(2) sub by blast
  next
    case True
    from inv p show ?thesis
    proof (cases rule: live_block)
      case (small c j)
      have ji: "j = i" using True small(1,2) a(1) by auto
      have pm: "p \<in> page_blocks a i" using True small(1,5) ji by auto
      have pb: "p \<noteq> b" using small(6) ji b(1) by auto
      have "unat p + block_size i \<le> unat b \<or> unat b + block_size i \<le> unat p"
        by (rule slots_apart[OF al pm a(2) pb])
      then show ?thesis using small(7) ji block_size_min[of i] by (auto simp: block_bytes_def)
    next
      case (large c d)
      then show ?thesis using True a(1) by simp
    qed
  qed
qed

lemma header_apart:
  assumes inv: "heap_inv w h" and p: "(p, s) \<in> set (live w)" and q: "(q, t) \<in> set (live w)"
  shows "block_bytes p s \<inter> {unat (arena_get_arena q) ..< unat (arena_get_arena q) + 16} = {}"
proof -
  obtain u where u: "uses w (arena_get_arena p) = Some u" "block_bytes p s \<subseteq> span_bytes (arena_get_arena p) u
      - {unat (arena_get_arena p) ..< unat (arena_get_arena p) + 16}"
    using live_bytes[OF inv p] by metis
  obtain v where v: "uses w (arena_get_arena q) = Some v" using live_bytes[OF inv q] by metis
  have "0 < span v" using heap_invD(7)[OF inv v] by (cases v) auto
  then have "1 \<le> unat (span v)" by (simp add: unat_gt_0 Suc_le_eq)
  then have h: "{unat (arena_get_arena q) ..< unat (arena_get_arena q) + 16} \<subseteq> span_bytes (arena_get_arena q) v"
    by (auto simp: span_bytes_def)
  show ?thesis
  proof (cases "arena_get_arena p = arena_get_arena q")
    case True
    then show ?thesis using u(2) by auto
  next
    case False
    show ?thesis using span_bytes_disjoint[OF inv u(1) v False] u(2) h by blast
  qed
qed

section \<open>Property\<close>

text \<open>
  C17: the kernel heap is memory safe. However \<^verbatim>\<open>kmalloc\<close>, \<^verbatim>\<open>kfree\<close> and the page allocator are
  called after \<^verbatim>\<open>arena_init\<close>, as long as only blocks in use are freed and no size comes within a
  page of 2^32, the blocks in use never overlap each other, the headers of their pages or a
  node of a free list, and \<^verbatim>\<open>kfree\<close> of every block in use returns.
\<close>

theorem heap_blocks_safe:
  assumes "booted_heap h0" and "heap_step\<^sup>*\<^sup>* (h0, [], kpages h0) (h, L, X)"
  shows "heap_safe h L"
proof -
  from assms(2) have "run_ok (h, L, X)"
    by (induction rule: rtranclp_induct) (use run_ok_init[OF assms(1)] run_ok_step in blast)+
  then obtain w where inv: "heap_inv w h" and L: "live w = L" by (auto simp: run_ok_def)
  note D = heap_invD[OF inv]
  have "separate block_bytes L"
    by (rule separate_live) (use D(4) L live_apart[OF inv] in auto)
  moreover have "block_bytes p s \<inter> heap_bytes h L = {}" if p: "(p, s) \<in> set L" for p s
  proof -
    have p': "(p, s) \<in> set (live w)" using p L by simp
    have "block_bytes p s \<inter> {unat b ..< unat b + 8} = {}" if d: "d \<in> set (descriptors h)" and b: "b \<in> set (d_free d)" for d b
    proof -
      obtain i where "i < length (descriptors h)" "descriptors h ! i = d" using d by (meson in_set_conv_nth)
      then have "i < 7" "b \<in> free_blocks i h" using b D(1) by (simp_all add: free_blocks_def)
      then show ?thesis using free_apart[OF inv p'] by blast
    qed
    moreover have "block_bytes p s \<inter> {unat (arena_get_arena q) ..< unat (arena_get_arena q) + 16} = {}"
      if "(q, t) \<in> set L" for q t
      using header_apart[OF inv p'] that L by blast
    ultimately show ?thesis unfolding heap_bytes_def by blast
  qed
  then have "regions block_bytes L \<inter> heap_bytes h L = {}" by (auto simp: regions_def)
  moreover have "\<forall>(p, sz) \<in> set L. kfree p h \<noteq> None" using kfree_live[OF inv] L by fastforce
  ultimately show ?thesis by (simp add: heap_safe_def)
qed


definition sample_heap :: heap where
  "sample_heap = vm.extend (frames.extend (sample_frames\<lparr>kernel_map := bitmap_make [0xF] 1 256\<rparr>)
     \<lparr>cr3 = 0x1000, phys = \<lambda>_ _. 0\<rparr>) \<lparr>arenas = \<lambda>_. None, descriptors = init_descriptors 7 16\<rparr>"

lemma sample_heap_booted: "booted_heap sample_heap"
  by (simp add: booted_heap_def sample_heap_def arena_init_def kpages_wf_def bm_wf_def bitmap_make_def vm.defs frames.defs)

lemma heap_blocks_safe_witness:
  "\<exists>p q h. heap_step\<^sup>*\<^sup>* (sample_heap, [], kpages sample_heap) (h, [(q, 40), (p, 2000)], kpages sample_heap)
    \<and> heap_safe h [(q, 40), (p, 2000)]"
proof -
  let ?X = "kpages sample_heap"
  have m: "kernel_map sample_heap = bitmap_make [0xF] 1 256"
    by (simp add: sample_heap_def vm.defs frames.defs)
  have s: "scan_page (bitmap_make [0xF] 1 256) 1 = Some (0x104000, bitmap_make [0x1F] 1 256)"
    "scan_page (bitmap_make [0x1F] 1 256) 1 = Some (0x105000, bitmap_make [0x3F] 1 256)" by code_simp+
  have c: "div_round_up (2000 + ARENA_SIZE) MEMORY_PAGE_SIZE = 1" by code_simp
  define h1 where "h1 = put_arena 0x104000 \<lparr>a_desc = None, a_count = 1, a_large = 1, a_magic = ARENA_MAGIC\<rparr>
     (sample_heap\<lparr>kernel_map := bitmap_make [0x1F] 1 256\<rparr>)"
  have k1: "kmalloc 2000 sample_heap = Some (0x104010, h1)"
    by (simp add: kmalloc_def kmalloc_large_def alloc_kpage_def m s c h1_def del: One_nat_def)
      (use c in \<open>simp add: alloc_kpage_def m s h1_def\<close>)
  have st1: "heap_step (sample_heap, [], ?X) (h1, [(0x104010, 2000)], ?X)"
    by (rule heap_step.malloc[OF k1]) simp
  obtain w where w: "heap_inv w h1" using run_ok_step[OF run_ok_init[OF sample_heap_booted] st1] by (auto simp: run_ok_def)
  have "alloc_kpage 1 h1 \<noteq> None" by (simp add: alloc_kpage_def h1_def s)
  then obtain q h2 where k2: "kmalloc 40 h1 = Some (q, h2)" using kmalloc_small[OF w, of 40] by auto
  have st2: "heap_step (h1, [(0x104010, 2000)], ?X) (h2, [(q, 40), (0x104010, 2000)], ?X)"
    by (rule heap_step.malloc[OF k2]) simp
  have r: "heap_step\<^sup>*\<^sup>* (sample_heap, [], ?X) (h2, [(q, 40), (0x104010, 2000)], ?X)"
    using st1 st2 by (meson r_into_rtranclp rtranclp.rtrancl_into_rtrancl)
  from heap_blocks_safe[OF sample_heap_booted r] r show ?thesis by blast
qed

end
