(* ===== verification/Fs_State.thy ===== *)
theory Fs_State
  imports Buffer Tasks Arena Fifo
begin

text \<open>
  The data of the file system (\<^verbatim>\<open>include/onixs/fs.h\<close>) and the state its operations share: the
  block cache, the kernel heap, the task table, and the tables of inodes, super blocks and
  open files. Inodes, super blocks and files are known by their index in the table. The
  descriptor of an inode lies in the block cache: \<open>i_buf\<close> is the buffer and \<open>i_off\<close> the
  position of the descriptor in it, so that two inodes of one block share the buffer as they
  do in the code. Fields are read from the bytes of the buffer, low byte first.
\<close>

section \<open>Constants\<close>

abbreviation (input) INODE_NR :: nat where "INODE_NR \<equiv> 64"
abbreviation (input) SUPER_NR :: nat where "SUPER_NR \<equiv> 16"
abbreviation (input) FILE_NR :: nat where "FILE_NR \<equiv> 128"
abbreviation (input) MINIX1_MAGIC :: u16 where "MINIX1_MAGIC \<equiv> 0x137F"
abbreviation (input) NAME_LEN :: nat where "NAME_LEN \<equiv> 14"
abbreviation (input) BLOCK_BITS :: u32 where "BLOCK_BITS \<equiv> 8192"
abbreviation (input) BLOCK_INODES :: u32 where "BLOCK_INODES \<equiv> 32"
abbreviation (input) BLOCK_DENTRIES :: u32 where "BLOCK_DENTRIES \<equiv> 64"
abbreviation (input) BLOCK_INDEXES :: u32 where "BLOCK_INDEXES \<equiv> 512"
abbreviation (input) DIRECT_BLOCK :: u32 where "DIRECT_BLOCK \<equiv> 7"
abbreviation (input) INDIRECT2_BLOCK :: u32 where "INDIRECT2_BLOCK \<equiv> 512 * 512"
abbreviation (input) TOTAL_BLOCK :: u32 where "TOTAL_BLOCK \<equiv> 7 + 512 + 512 * 512"
abbreviation (input) IMAP_NR :: nat where "IMAP_NR \<equiv> 8"
abbreviation (input) ZMAP_NR :: nat where "ZMAP_NR \<equiv> 8"

abbreviation (input) P_EXEC :: u16 where "P_EXEC \<equiv> 1"
abbreviation (input) P_WRITE :: u16 where "P_WRITE \<equiv> 2"
abbreviation (input) P_READ :: u16 where "P_READ \<equiv> 4"

abbreviation (input) O_RDONLY :: u32 where "O_RDONLY \<equiv> 0"
abbreviation (input) O_WRONLY :: u32 where "O_WRONLY \<equiv> 1"
abbreviation (input) O_RDWR :: u32 where "O_RDWR \<equiv> 2"
abbreviation (input) O_ACCMODE :: u32 where "O_ACCMODE \<equiv> 3"
abbreviation (input) O_CREAT :: u32 where "O_CREAT \<equiv> 64"
abbreviation (input) O_TRUNC :: u32 where "O_TRUNC \<equiv> 512"
abbreviation (input) O_APPEND :: u32 where "O_APPEND \<equiv> 1024"

abbreviation (input) IFREG :: u16 where "IFREG \<equiv> 0x8000"
abbreviation (input) IFBLK :: u16 where "IFBLK \<equiv> 0x6000"
abbreviation (input) IFDIR :: u16 where "IFDIR \<equiv> 0x4000"
abbreviation (input) IFCHR :: u16 where "IFCHR \<equiv> 0x2000"
abbreviation (input) ISVTX :: u16 where "ISVTX \<equiv> 0x200"

definition file_type :: "u16 \<Rightarrow> u16" where
  "file_type m = m AND 0xF000"

abbreviation "ISFILE m \<equiv> file_type m = IFREG"
abbreviation "ISDIR m \<equiv> file_type m = IFDIR"
abbreviation "ISCHR m \<equiv> file_type m = IFCHR"
abbreviation "ISBLK m \<equiv> file_type m = IFBLK"

text \<open>\<^verbatim>\<open>ACC_MODE\<close> reads the literal \<open>"\004\002\006\007"\<close> at the access bits of the flags.\<close>

definition ACC_MODE :: "u32 \<Rightarrow> u16" where
  "ACC_MODE flag = [4, 2, 6, 7] ! unat (flag AND O_ACCMODE)"

section \<open>State\<close>

record inode =
  i_buf :: "nat option"
  i_off :: nat
  i_dev :: u32
  i_nr :: u32
  i_count :: u32
  i_atime :: u32
  i_ctime :: u32
  i_mount :: u32
  i_rxwaiter :: "nat option"
  i_txwaiter :: "nat option"
  i_pipi :: bool
  i_fifo :: fifo
  i_desc_ptr :: u32
  i_page :: u32

record super_block =
  s_buf :: "nat option"
  s_imaps :: "nat option list"
  s_zmaps :: "nat option list"
  s_dev :: u32
  s_count :: u32
  s_inodes :: "nat list"
  s_iroot :: "nat option"
  s_imount :: "nat option"

record file_t =
  f_inode :: "nat option"
  f_count :: u32
  f_offset :: u32
  f_flags :: u32
  f_mode :: u32

record 'w kernel = "'w cache" +
  umem :: mem
  kheap :: heap
  sch :: sched
  inode_table :: "inode list"
  super_table :: "super_block list"
  root_super :: "nat option"
  file_table :: "file_t list"
  startup_time :: u32

definition get_inode :: "nat \<Rightarrow> 'w kernel \<Rightarrow> inode option" where
  "get_inode i k = rd (inode_table k) i"

definition upd_inode :: "nat \<Rightarrow> (inode \<Rightarrow> inode) \<Rightarrow> 'w kernel \<Rightarrow> 'w kernel option" where
  "upd_inode i f k = do {
     n \<leftarrow> get_inode i k;
     Some (k\<lparr>inode_table := (inode_table k)[i := f n]\<rparr>)
   }"

definition get_sb :: "nat \<Rightarrow> 'w kernel \<Rightarrow> super_block option" where
  "get_sb b k = rd (super_table k) b"

definition upd_sb :: "nat \<Rightarrow> (super_block \<Rightarrow> super_block) \<Rightarrow> 'w kernel \<Rightarrow> 'w kernel option" where
  "upd_sb b f k = do {
     sb \<leftarrow> get_sb b k;
     Some (k\<lparr>super_table := (super_table k)[b := f sb]\<rparr>)
   }"

definition current_task :: "'w kernel \<Rightarrow> task option" where
  "current_task k = get_task (running (sch k)) (sch k)"

definition upd_current :: "(task \<Rightarrow> task) \<Rightarrow> 'w kernel \<Rightarrow> 'w kernel option" where
  "upd_current f k = do {
     s \<leftarrow> upd_task (running (sch k)) f (sch k);
     Some (k\<lparr>sch := s\<rparr>)
   }"

definition sys_time :: "'w kernel \<Rightarrow> u32" where
  "sys_time k = startup_time k + (jiffies (sch k) * 10) div 1000"

section \<open>Bytes of a buffer\<close>

definition peek8 :: "nat \<Rightarrow> nat \<Rightarrow> 'w kernel \<Rightarrow> u8 option" where
  "peek8 b off k = do { bf \<leftarrow> rd (buffers k) b; rd (b_data bf) off }"

definition peek16 :: "nat \<Rightarrow> nat \<Rightarrow> 'w kernel \<Rightarrow> u16 option" where
  "peek16 b off k = do {
     lo \<leftarrow> peek8 b off k;
     hi \<leftarrow> peek8 b (off + 1) k;
     Some (ucast lo + push_bit 8 (ucast hi))
   }"

definition peek32 :: "nat \<Rightarrow> nat \<Rightarrow> 'w kernel \<Rightarrow> u32 option" where
  "peek32 b off k = do {
     lo \<leftarrow> peek16 b off k;
     hi \<leftarrow> peek16 b (off + 2) k;
     Some (ucast lo + push_bit 16 (ucast hi))
   }"

definition poke8 :: "nat \<Rightarrow> nat \<Rightarrow> u8 \<Rightarrow> 'w kernel \<Rightarrow> 'w kernel option" where
  "poke8 b off v k = do {
     bf \<leftarrow> rd (buffers k) b;
     bs \<leftarrow> wr (b_data bf) off v;
     upd_buffer b (\<lambda>bf. bf\<lparr>b_data := bs\<rparr>) k
   }"

definition poke16 :: "nat \<Rightarrow> nat \<Rightarrow> u16 \<Rightarrow> 'w kernel \<Rightarrow> 'w kernel option" where
  "poke16 b off v k = Option.bind (poke8 b off (ucast v) k) (poke8 b (off + 1) (ucast (drop_bit 8 v)))"

definition poke32 :: "nat \<Rightarrow> nat \<Rightarrow> u32 \<Rightarrow> 'w kernel \<Rightarrow> 'w kernel option" where
  "poke32 b off v k = Option.bind (poke16 b off (ucast v) k) (poke16 b (off + 2) (ucast (drop_bit 16 v)))"

text \<open>\<open>put_data\<close> overwrites bytes of a buffer from a position on (\<^verbatim>\<open>memcpy\<close>, \<^verbatim>\<open>memset\<close> into a block).\<close>

definition overwrite :: "'a list \<Rightarrow> nat \<Rightarrow> 'a list \<Rightarrow> 'a list" where
  "overwrite xs off ys = take off xs @ ys @ drop (off + length ys) xs"

definition put_data :: "nat \<Rightarrow> nat \<Rightarrow> u8 list \<Rightarrow> 'w kernel \<Rightarrow> 'w kernel option" where
  "put_data b off ys k = do {
     bf \<leftarrow> rd (buffers k) b;
     check (off + length ys \<le> length (b_data bf));
     upd_buffer b (\<lambda>bf. bf\<lparr>b_data := overwrite (b_data bf) off ys\<rparr>) k
   }"

definition mark_dirty :: "nat \<Rightarrow> 'w kernel \<Rightarrow> 'w kernel option" where
  "mark_dirty b k = upd_buffer b (\<lambda>bf. bf\<lparr>b_dirty := True\<rparr>) k"

section \<open>The descriptor of an inode\<close>

definition desc_at :: "nat \<Rightarrow> 'w kernel \<Rightarrow> (nat \<times> nat) option" where
  "desc_at i k = do { n \<leftarrow> get_inode i k; b \<leftarrow> i_buf n; Some (b, i_off n) }"

definition mode_of :: "nat \<Rightarrow> 'w kernel \<Rightarrow> u16 option" where
  "mode_of i k = do { (b, off) \<leftarrow> desc_at i k; peek16 b off k }"

definition uid_of :: "nat \<Rightarrow> 'w kernel \<Rightarrow> u16 option" where
  "uid_of i k = do { (b, off) \<leftarrow> desc_at i k; peek16 b (off + 2) k }"

definition size_of :: "nat \<Rightarrow> 'w kernel \<Rightarrow> u32 option" where
  "size_of i k = do { (b, off) \<leftarrow> desc_at i k; peek32 b (off + 4) k }"

definition mtime_of :: "nat \<Rightarrow> 'w kernel \<Rightarrow> u32 option" where
  "mtime_of i k = do { (b, off) \<leftarrow> desc_at i k; peek32 b (off + 8) k }"

definition gid_of :: "nat \<Rightarrow> 'w kernel \<Rightarrow> u8 option" where
  "gid_of i k = do { (b, off) \<leftarrow> desc_at i k; peek8 b (off + 12) k }"

definition nlinks_of :: "nat \<Rightarrow> 'w kernel \<Rightarrow> u8 option" where
  "nlinks_of i k = do { (b, off) \<leftarrow> desc_at i k; peek8 b (off + 13) k }"

definition zone_of :: "nat \<Rightarrow> nat \<Rightarrow> 'w kernel \<Rightarrow> u16 option" where
  "zone_of i j k = do { (b, off) \<leftarrow> desc_at i k; check (j < 9); peek16 b (off + 14 + 2 * j) k }"

definition set_mode :: "nat \<Rightarrow> u16 \<Rightarrow> 'w kernel \<Rightarrow> 'w kernel option" where
  "set_mode i v k = do { (b, off) \<leftarrow> desc_at i k; poke16 b off v k }"

definition set_uid :: "nat \<Rightarrow> u16 \<Rightarrow> 'w kernel \<Rightarrow> 'w kernel option" where
  "set_uid i v k = do { (b, off) \<leftarrow> desc_at i k; poke16 b (off + 2) v k }"

definition set_size :: "nat \<Rightarrow> u32 \<Rightarrow> 'w kernel \<Rightarrow> 'w kernel option" where
  "set_size i v k = do { (b, off) \<leftarrow> desc_at i k; poke32 b (off + 4) v k }"

definition set_mtime :: "nat \<Rightarrow> u32 \<Rightarrow> 'w kernel \<Rightarrow> 'w kernel option" where
  "set_mtime i v k = do { (b, off) \<leftarrow> desc_at i k; poke32 b (off + 8) v k }"

definition set_gid :: "nat \<Rightarrow> u8 \<Rightarrow> 'w kernel \<Rightarrow> 'w kernel option" where
  "set_gid i v k = do { (b, off) \<leftarrow> desc_at i k; poke8 b (off + 12) v k }"

definition set_nlinks :: "nat \<Rightarrow> u8 \<Rightarrow> 'w kernel \<Rightarrow> 'w kernel option" where
  "set_nlinks i v k = do { (b, off) \<leftarrow> desc_at i k; poke8 b (off + 13) v k }"

definition set_zone :: "nat \<Rightarrow> nat \<Rightarrow> u16 \<Rightarrow> 'w kernel \<Rightarrow> 'w kernel option" where
  "set_zone i j v k = do { (b, off) \<leftarrow> desc_at i k; check (j < 9); poke16 b (off + 14 + 2 * j) v k }"

definition inode_dirty :: "nat \<Rightarrow> 'w kernel \<Rightarrow> 'w kernel option" where
  "inode_dirty i k = do { n \<leftarrow> get_inode i k; b \<leftarrow> i_buf n; mark_dirty b k }"

section \<open>The super block of a device\<close>

definition get_super :: "u32 \<Rightarrow> 'w kernel \<Rightarrow> nat option" where
  "get_super dev k = List.find (\<lambda>b. map_option s_dev (get_sb b k) = Some dev) [0..<SUPER_NR]"

text \<open>The fields of the super block's descriptor, 16 bits each, by their position.\<close>

definition sb_field :: "nat \<Rightarrow> nat \<Rightarrow> 'w kernel \<Rightarrow> u16 option" where
  "sb_field sb pos k = do { s \<leftarrow> get_sb sb k; b \<leftarrow> s_buf s; peek16 b pos k }"

definition inodes_of :: "nat \<Rightarrow> 'w kernel \<Rightarrow> u16 option" where
  "inodes_of sb k = sb_field sb 0 k"

definition zones_of :: "nat \<Rightarrow> 'w kernel \<Rightarrow> u16 option" where
  "zones_of sb k = sb_field sb 2 k"

definition imap_blocks_of :: "nat \<Rightarrow> 'w kernel \<Rightarrow> u16 option" where
  "imap_blocks_of sb k = sb_field sb 4 k"

definition zmap_blocks_of :: "nat \<Rightarrow> 'w kernel \<Rightarrow> u16 option" where
  "zmap_blocks_of sb k = sb_field sb 6 k"

definition firstdatazone_of :: "nat \<Rightarrow> 'w kernel \<Rightarrow> u16 option" where
  "firstdatazone_of sb k = sb_field sb 8 k"

definition magic_of :: "nat \<Rightarrow> 'w kernel \<Rightarrow> u16 option" where
  "magic_of sb k = sb_field sb 16 k"

end
