(* ===== verification/Fs_Bitmap.thy ===== *)
theory Fs_Bitmap
  imports Fs_State
begin

text \<open>
  \<^verbatim>\<open>fs/bitmap.c\<close>: allocation of blocks and inodes in the bitmaps of a device, and the map from
  the blocks of a file to the blocks of the device. The bitmaps are the buffers the super
  block holds; a map that is not there is the failed \<^verbatim>\<open>assert(buf)\<close>.
\<close>

section \<open>Blocks and inodes\<close>

text \<open>
  One turn of the loop over the maps of a kind: the bitmap of buffer \<open>b\<close> with the given offset
  is searched, and on success the number is checked against the limit.
\<close>

definition scan_map :: "nat \<Rightarrow> u32 \<Rightarrow> u32 \<Rightarrow> 'w kernel \<Rightarrow> (u32 \<times> 'w kernel) option" where
  "scan_map b offset limit k = do {
     bf \<leftarrow> rd (buffers k) b;
     (bit, mp) \<leftarrow> bitmap_scan (bitmap_make (b_data bf) (of_nat BLOCK_SIZE) offset) 1;
     k \<leftarrow> upd_buffer b (\<lambda>bf. bf\<lparr>b_data := bm_bits mp\<rparr>) k;
     if bit \<noteq> EOF then do {
       check (bit < limit);
       k \<leftarrow> mark_dirty b k;
       Some (bit, k) }
     else Some (bit, k)
   }"

fun balloc_loop :: "nat list \<Rightarrow> nat \<Rightarrow> 'w kernel \<Rightarrow> (u32 \<times> nat \<times> 'w kernel) option" where
  "balloc_loop [] sb k = None"
| "balloc_loop (i # is) sb k = do {
     s \<leftarrow> get_sb sb k;
     buf \<leftarrow> rd (s_zmaps s) i;
     b \<leftarrow> buf;
     first \<leftarrow> firstdatazone_of sb k;
     zones \<leftarrow> zones_of sb k;
     (bit, k) \<leftarrow> scan_map b (of_nat i * BLOCK_BITS + ucast first - 1) (ucast zones) k;
     if bit \<noteq> EOF \<or> is = [] then Some (bit, b, k) else balloc_loop is sb k
   }"

definition balloc :: "u32 \<Rightarrow> 'w kernel \<Rightarrow> (u32 \<times> 'w kernel) option" where
  "balloc dev k = do {
     sb \<leftarrow> get_super dev k;
     (bit, b, k) \<leftarrow> balloc_loop [0..<ZMAP_NR] sb k;
     k \<leftarrow> bwrite b k;
     Some (bit, k)
   }"

definition clear_bit :: "nat \<Rightarrow> u32 \<Rightarrow> u32 \<Rightarrow> u32 \<Rightarrow> 'w kernel \<Rightarrow> 'w kernel option" where
  "clear_bit b len offset idx k = do {
     bf \<leftarrow> rd (buffers k) b;
     let mp = bitmap_make (b_data bf) len offset;
     used \<leftarrow> bitmap_test mp idx;
     check used;
     mp \<leftarrow> bitmap_set mp idx False;
     k \<leftarrow> upd_buffer b (\<lambda>bf. bf\<lparr>b_data := bm_bits mp\<rparr>) k;
     mark_dirty b k
   }"

definition map_of_bit :: "nat \<Rightarrow> u32 \<Rightarrow> nat option" where
  "map_of_bit nr idx = List.find (\<lambda>i. \<not> idx > BLOCK_BITS * (of_nat i + 1)) [0..<nr]"

definition bfree :: "u32 \<Rightarrow> u32 \<Rightarrow> 'w kernel \<Rightarrow> 'w kernel option" where
  "bfree dev idx k = do {
     sb \<leftarrow> get_super dev k;
     zones \<leftarrow> zones_of sb k;
     check (idx < ucast zones);
     i \<leftarrow> map_of_bit ZMAP_NR idx;
     s \<leftarrow> get_sb sb k;
     buf \<leftarrow> rd (s_zmaps s) i;
     b \<leftarrow> buf;
     first \<leftarrow> firstdatazone_of sb k;
     k \<leftarrow> clear_bit b (of_nat BLOCK_SIZE) (BLOCK_BITS * of_nat i + ucast first - 1) idx k;
     bwrite b k
   }"

fun ialloc_loop :: "nat list \<Rightarrow> nat \<Rightarrow> 'w kernel \<Rightarrow> (u32 \<times> nat \<times> 'w kernel) option" where
  "ialloc_loop [] sb k = None"
| "ialloc_loop (i # is) sb k = do {
     s \<leftarrow> get_sb sb k;
     buf \<leftarrow> rd (s_imaps s) i;
     b \<leftarrow> buf;
     inodes \<leftarrow> inodes_of sb k;
     (bit, k) \<leftarrow> scan_map b (of_nat i * of_nat BLOCK_SIZE) (ucast inodes) k;
     if bit \<noteq> EOF \<or> is = [] then Some (bit, b, k) else ialloc_loop is sb k
   }"

definition ialloc :: "u32 \<Rightarrow> 'w kernel \<Rightarrow> (u32 \<times> 'w kernel) option" where
  "ialloc dev k = do {
     sb \<leftarrow> get_super dev k;
     (bit, b, k) \<leftarrow> ialloc_loop [0..<IMAP_NR] sb k;
     k \<leftarrow> bwrite b k;
     Some (bit, k)
   }"

definition ifree :: "u32 \<Rightarrow> u32 \<Rightarrow> 'w kernel \<Rightarrow> 'w kernel option" where
  "ifree dev idx k = do {
     sb \<leftarrow> get_super dev k;
     inodes \<leftarrow> inodes_of sb k;
     check (idx < ucast inodes);
     i \<leftarrow> map_of_bit IMAP_NR idx;
     s \<leftarrow> get_sb sb k;
     buf \<leftarrow> rd (s_imaps s) i;
     b \<leftarrow> buf;
     k \<leftarrow> clear_bit b BLOCK_BITS (of_nat i * of_nat BLOCK_SIZE) idx k;
     bwrite b k
   }"

section \<open>The block map of a file\<close>

text \<open>
  The loop of \<^verbatim>\<open>bmap\<close>, for the levels that are left: \<open>b\<close> is the buffer that holds the current
  array of block numbers, \<open>base\<close> where it starts in the buffer, \<open>index\<close> the entry looked at.
  The entry is read again after \<^verbatim>\<open>brelse\<close>, as the code does.
\<close>

fun bmap_walk :: "nat \<Rightarrow> u32 \<Rightarrow> nat \<Rightarrow> nat \<Rightarrow> u16 \<Rightarrow> u32 \<Rightarrow> u32 \<Rightarrow> bool \<Rightarrow> 'w kernel \<Rightarrow> (u32 \<times> 'w kernel) option" where
  "bmap_walk level dev b base index block divider create k = do {
     z \<leftarrow> peek16 b (base + 2 * unat index) k;
     k \<leftarrow> (if z = 0 \<and> create then do {
             (nr, k) \<leftarrow> balloc dev k;
             k \<leftarrow> poke16 b (base + 2 * unat index) (ucast nr) k;
             mark_dirty b k }
           else Some k);
     k \<leftarrow> brelse (Some b) k;
     z \<leftarrow> peek16 b (base + 2 * unat index) k;
     case level of
       0 \<Rightarrow> Some (ucast z, k)
     | Suc level' \<Rightarrow>
         if z = 0 then Some (ucast z, k)
         else do {
           (b, k) \<leftarrow> bread dev (ucast z) k;
           bmap_walk level' dev b 0 (ucast (block div divider)) (block mod divider) (divider div BLOCK_INDEXES) create k
         }
   }"

definition bmap :: "nat \<Rightarrow> u32 \<Rightarrow> bool \<Rightarrow> 'w kernel \<Rightarrow> (u32 \<times> 'w kernel) option" where
  "bmap inode block create k = do {
     check (block < TOTAL_BLOCK);
     n \<leftarrow> get_inode inode k;
     (b, off) \<leftarrow> desc_at inode k;
     k \<leftarrow> upd_buffer b (\<lambda>bf. bf\<lparr>b_count := b_count bf + 1\<rparr>) k;
     let array = off + 14;
     if block < DIRECT_BLOCK then bmap_walk 0 (i_dev n) b array (ucast block) block 1 create k
     else do {
       let block = block - DIRECT_BLOCK;
       if block < BLOCK_INDEXES then bmap_walk 1 (i_dev n) b array (ucast DIRECT_BLOCK) block 1 create k
       else do {
         let block = block - BLOCK_INDEXES;
         check (block < INDIRECT2_BLOCK);
         bmap_walk 2 (i_dev n) b array (ucast (DIRECT_BLOCK + 1)) block BLOCK_INDEXES create k
       }
     }
   }"

end
