(* ===== verification/Inode.thy ===== *)
theory Inode
  imports Fs_Bitmap "HOL-Library.Signed_Division"
begin

text \<open>
  \<^verbatim>\<open>fs/inode.c\<close>: the inode table, reading and writing the bytes of a file, and releasing its
  blocks. \<open>umem\<close> is the memory of the caller's buffers. A pipe is an inode without a
  descriptor; its ring buffer starts with whatever the page held.
\<close>

section \<open>The inode table\<close>

definition get_free_inode :: "'w kernel \<Rightarrow> nat option" where
  "get_free_inode k = List.find (\<lambda>i. map_option i_dev (get_inode i k) = Some EOF) [0..<INODE_NR]"

definition put_free_inode :: "nat \<Rightarrow> 'w kernel \<Rightarrow> 'w kernel option" where
  "put_free_inode i k = do {
     check (i \<noteq> 0);
     n \<leftarrow> get_inode i k;
     check (i_count n = 0);
     upd_inode i (\<lambda>n. n\<lparr>i_dev := EOF\<rparr>) k
   }"

definition get_root_inode :: nat where
  "get_root_inode = 0"

fun find_nr :: "nat list \<Rightarrow> u32 \<Rightarrow> 'w kernel \<Rightarrow> nat option option" where
  "find_nr [] nr k = Some None"
| "find_nr (i # is) nr k = do {
     n \<leftarrow> get_inode i k;
     if i_nr n = nr then Some (Some i) else find_nr is nr k
   }"

definition find_inode :: "u32 \<Rightarrow> u32 \<Rightarrow> 'w kernel \<Rightarrow> nat option option" where
  "find_inode dev nr k = do {
     sb \<leftarrow> get_super dev k;
     s \<leftarrow> get_sb sb k;
     find_nr (s_inodes s) nr k
   }"

definition inode_block :: "nat \<Rightarrow> u32 \<Rightarrow> 'w kernel \<Rightarrow> u32 option" where
  "inode_block sb nr k = do {
     imaps \<leftarrow> imap_blocks_of sb k;
     zmaps \<leftarrow> zmap_blocks_of sb k;
     Some (2 + ucast imaps + ucast zmaps + (nr - 1) div BLOCK_INODES)
   }"

definition put_pipe_inode :: "nat \<Rightarrow> 'w kernel \<Rightarrow> 'w kernel option" where
  "put_pipe_inode i k = do {
     k \<leftarrow> upd_inode i (\<lambda>n. n\<lparr>i_count := i_count n - 1\<rparr>) k;
     n \<leftarrow> get_inode i k;
     if i_count n \<noteq> 0 then Some k
     else do {
       k \<leftarrow> upd_inode i (\<lambda>n. n\<lparr>i_pipi := False\<rparr>) k;
       check (i_rxwaiter n = None);
       check (i_txwaiter n = None);
       h \<leftarrow> free_kpage (i_page n) 1 (kheap k);
       put_free_inode i (k\<lparr>kheap := h\<rparr>)
     }
   }"

text \<open>\<^verbatim>\<open>list_remove\<close> of the inode's node: it takes the inode out of whichever list holds it.\<close>

definition unlink_inode :: "nat \<Rightarrow> 'w kernel \<Rightarrow> 'w kernel option" where
  "unlink_inode i k = do {
     check (\<exists>s \<in> set (super_table k). i \<in> set (s_inodes s));
     Some (k\<lparr>super_table := map (\<lambda>s. s\<lparr>s_inodes := removeAll i (s_inodes s)\<rparr>) (super_table k)\<rparr>)
   }"

definition iput :: "nat option \<Rightarrow> 'w kernel \<Rightarrow> 'w kernel option" where
  "iput inode k =
     (case inode of None \<Rightarrow> Some k
      | Some i \<Rightarrow> do {
          n \<leftarrow> get_inode i k;
          if i_pipi n then put_pipe_inode i k
          else do {
            b \<leftarrow> i_buf n;
            bf \<leftarrow> rd (buffers k) b;
            k \<leftarrow> (if b_dirty bf then bwrite b k else Some k);
            k \<leftarrow> upd_inode i (\<lambda>n. n\<lparr>i_count := i_count n - 1\<rparr>) k;
            n \<leftarrow> get_inode i k;
            if i_count n \<noteq> 0 then Some k
            else do {
              k \<leftarrow> brelse (Some b) k;
              k \<leftarrow> unlink_inode i k;
              put_free_inode i k
            }
          }
        })"

definition fit_inode :: "nat \<Rightarrow> 'w kernel \<Rightarrow> (nat \<times> 'w kernel) option" where
  "fit_inode i k = do {
     n \<leftarrow> get_inode i k;
     if i_mount n = 0 then Some (i, k)
     else do {
       sb \<leftarrow> get_super (i_mount n) k;
       k \<leftarrow> iput (Some i) k;
       s \<leftarrow> get_sb sb k;
       r \<leftarrow> s_iroot s;
       k \<leftarrow> upd_inode r (\<lambda>n. n\<lparr>i_count := i_count n + 1\<rparr>) k;
       Some (r, k)
     }
   }"

definition iget :: "u32 \<Rightarrow> u32 \<Rightarrow> 'w kernel \<Rightarrow> (nat \<times> 'w kernel) option" where
  "iget dev nr k = do {
     found \<leftarrow> find_inode dev nr k;
     case found of
       Some i \<Rightarrow> do {
         k \<leftarrow> upd_inode i (\<lambda>n. n\<lparr>i_count := i_count n + 1, i_atime := sys_time k\<rparr>) k;
         fit_inode i k }
     | None \<Rightarrow> do {
         sb \<leftarrow> get_super dev k;
         inodes \<leftarrow> inodes_of sb k;
         check (nr \<le> ucast inodes);
         i \<leftarrow> get_free_inode k;
         k \<leftarrow> upd_inode i (\<lambda>n. n\<lparr>i_dev := dev, i_nr := nr, i_count := i_count n + 1\<rparr>) k;
         k \<leftarrow> upd_sb sb (\<lambda>s. s\<lparr>s_inodes := i # s_inodes s\<rparr>) k;
         block \<leftarrow> inode_block sb nr k;
         (b, k) \<leftarrow> bread dev block k;
         k \<leftarrow> upd_inode i (\<lambda>n. n\<lparr>i_buf := Some b, i_off := unat ((nr - 1) mod BLOCK_INODES) * 32\<rparr>) k;
         mtime \<leftarrow> mtime_of i k;
         k \<leftarrow> upd_inode i (\<lambda>n. n\<lparr>i_ctime := mtime, i_atime := sys_time k\<rparr>) k;
         Some (i, k) }
   }"

definition page_bytes :: "u32 \<Rightarrow> 'a vm_scheme \<Rightarrow> u8 list" where
  "page_bytes page h = map (\<lambda>j. ucast (drop_bit (8 * (j mod 4)) (phys h (unat (IDX page)) (j div 4)))) [0..<4096]"

definition get_pipe_inode :: "'w kernel \<Rightarrow> (nat \<times> 'w kernel) option" where
  "get_pipe_inode k = do {
     i \<leftarrow> get_free_inode k;
     (desc, h) \<leftarrow> kmalloc 16 (kheap k);
     (page, h) \<leftarrow> alloc_kpage 1 h;
     k \<leftarrow> upd_inode i (\<lambda>n. n\<lparr>i_dev := - 2, i_desc_ptr := desc, i_buf := None, i_page := page, i_count := 2,
            i_pipi := True, i_fifo := fifo_init (page_bytes page h) MEMORY_PAGE_SIZE\<rparr>) (k\<lparr>kheap := h\<rparr>);
     Some (i, k)
   }"

definition inode_init :: "'w kernel \<Rightarrow> 'w kernel" where
  "inode_init k = k\<lparr>inode_table := map (\<lambda>n. n\<lparr>i_dev := EOF\<rparr>) (inode_table k)\<rparr>"

section \<open>Reading and writing\<close>

text \<open>Signed division and remainder by the block size, as C computes them on \<^verbatim>\<open>off_t\<close>.\<close>

definition block_nr :: "u32 \<Rightarrow> u32" where
  "block_nr offset = word_of_int (sint offset sdiv 1024)"

definition block_start :: "u32 \<Rightarrow> u32" where
  "block_start offset = word_of_int (sint offset smod 1024)"

definition chunk :: "u32 \<Rightarrow> u32 \<Rightarrow> u32" where
  "chunk offset left = min (of_nat BLOCK_SIZE - block_start offset) left"

lemma chunk_le: "chunk offset left \<le> left"
  by (simp add: chunk_def)

lemma left_less: "c \<le> l \<Longrightarrow> c \<noteq> 0 \<Longrightarrow> unat (l - c) < unat (l :: u32)"
  by (simp add: unat_sub word_le_nat_alt) (metis diff_less le_zero_eq neq0_conv unat_eq_zero)

text \<open>
  The two loops, for the bytes \<open>left\<close>. A turn that copies nothing would be repeated for ever
  (\<open>None\<close>); it does not happen, since a block has room after every start.
\<close>

function read_loop :: "nat \<Rightarrow> ptr \<Rightarrow> u32 \<Rightarrow> u32 \<Rightarrow> 'w kernel \<Rightarrow> (u32 \<times> 'w kernel) option" where
  "read_loop inode buf left offset k =
     (if left = 0 then Some (offset, k)
      else do {
        (nr, k) \<leftarrow> bmap inode (block_nr offset) False k;
        check (nr \<noteq> 0);
        n \<leftarrow> get_inode inode k;
        (b, k) \<leftarrow> bread (i_dev n) nr k;
        let chars = chunk offset left;
        bf \<leftarrow> rd (buffers k) b;
        check (unat (block_start offset) + unat chars \<le> length (b_data bf));
        let k = k\<lparr>umem := put_bytes (umem k) buf (take (unat chars) (drop (unat (block_start offset)) (b_data bf)))\<rparr>;
        k \<leftarrow> brelse (Some b) k;
        if chars = 0 then None
        else read_loop inode (buf + unat chars) (left - chars) (offset + chars) k
      })"
  by pat_completeness auto
termination
  by (relation "measure (\<lambda>(inode, buf, left, offset, k). unat left)")
    (simp_all add: left_less chunk_le)

declare read_loop.simps [simp del]

definition inode_read :: "nat \<Rightarrow> ptr \<Rightarrow> u32 \<Rightarrow> u32 \<Rightarrow> 'w kernel \<Rightarrow> (u32 \<times> 'w kernel) option" where
  "inode_read inode buf len offset k = do {
     mode \<leftarrow> mode_of inode k;
     check (ISFILE mode \<or> ISDIR mode);
     sz \<leftarrow> size_of inode k;
     if offset \<ge> sz then Some (EOF, k)
     else do {
       (end, k) \<leftarrow> read_loop inode buf (min len (sz - offset)) offset k;
       k \<leftarrow> upd_inode inode (\<lambda>n. n\<lparr>i_atime := sys_time k\<rparr>) k;
       Some (end - offset, k)
     }
   }"

function write_loop :: "nat \<Rightarrow> ptr \<Rightarrow> u32 \<Rightarrow> u32 \<Rightarrow> 'w kernel \<Rightarrow> (u32 \<times> 'w kernel) option" where
  "write_loop inode buf left offset k =
     (if left = 0 then Some (offset, k)
      else do {
        (nr, k) \<leftarrow> bmap inode (block_nr offset) True k;
        check (nr \<noteq> 0);
        n \<leftarrow> get_inode inode k;
        (b, k) \<leftarrow> bread (i_dev n) nr k;
        k \<leftarrow> mark_dirty b k;
        let chars = chunk offset left;
        k \<leftarrow> put_data b (unat (block_start offset)) (map (umem k) [buf ..< buf + unat chars]) k;
        sz \<leftarrow> size_of inode k;
        k \<leftarrow> (if offset + chars > sz then do {
                k \<leftarrow> set_size inode (offset + chars) k;
                inode_dirty inode k }
              else Some k);
        k \<leftarrow> brelse (Some b) k;
        if chars = 0 then None
        else write_loop inode (buf + unat chars) (left - chars) (offset + chars) k
      })"
  by pat_completeness auto
termination
  by (relation "measure (\<lambda>(inode, buf, left, offset, k). unat left)")
    (simp_all add: left_less chunk_le)

declare write_loop.simps [simp del]

definition inode_write :: "nat \<Rightarrow> ptr \<Rightarrow> u32 \<Rightarrow> u32 \<Rightarrow> 'w kernel \<Rightarrow> (u32 \<times> 'w kernel) option" where
  "inode_write inode buf len offset k = do {
     mode \<leftarrow> mode_of inode k;
     check (ISFILE mode);
     (end, k) \<leftarrow> write_loop inode buf len offset k;
     k \<leftarrow> upd_inode inode (\<lambda>n. n\<lparr>i_atime := sys_time k\<rparr>) k;
     k \<leftarrow> set_mtime inode (sys_time k) k;
     n \<leftarrow> get_inode inode k;
     b \<leftarrow> i_buf n;
     k \<leftarrow> bwrite b k;
     Some (end - offset, k)
   }"

section \<open>Releasing the blocks\<close>

fun iterate :: "('a \<Rightarrow> 's \<Rightarrow> 's option) \<Rightarrow> 'a list \<Rightarrow> 's \<Rightarrow> 's option" where
  "iterate f [] s = Some s"
| "iterate f (x # xs) s = Option.bind (f x s) (iterate f xs)"

primrec inode_bfree :: "nat \<Rightarrow> u32 \<Rightarrow> nat \<Rightarrow> nat \<Rightarrow> nat \<Rightarrow> 'w kernel \<Rightarrow> 'w kernel option" where
  "inode_bfree 0 dev b base index k = do {
     z \<leftarrow> peek16 b (base + 2 * index) k;
     if z = 0 then Some k else bfree dev (ucast z) k
   }"
| "inode_bfree (Suc level) dev b base index k = do {
     z \<leftarrow> peek16 b (base + 2 * index) k;
     if z = 0 then Some k
     else do {
       (b', k) \<leftarrow> bread dev (ucast z) k;
       k \<leftarrow> iterate (\<lambda>i. inode_bfree level dev b' 0 i) [0..<512] k;
       k \<leftarrow> brelse (Some b') k;
       z \<leftarrow> peek16 b (base + 2 * index) k;
       bfree dev (ucast z) k
     }
   }"

definition inode_truncate :: "nat \<Rightarrow> 'w kernel \<Rightarrow> 'w kernel option" where
  "inode_truncate inode k = do {
     mode \<leftarrow> mode_of inode k;
     if \<not> ISFILE mode \<and> \<not> ISDIR mode then Some k
     else do {
       n \<leftarrow> get_inode inode k;
       (b, off) \<leftarrow> desc_at inode k;
       k \<leftarrow> iterate (\<lambda>i k. Option.bind (inode_bfree 0 (i_dev n) b (off + 14) i k) (set_zone inode i 0)) [0..<7] k;
       k \<leftarrow> inode_bfree 1 (i_dev n) b (off + 14) 7 k;
       k \<leftarrow> inode_bfree 2 (i_dev n) b (off + 14) 8 k;
       k \<leftarrow> set_zone inode 7 0 k;
       k \<leftarrow> set_zone inode 8 0 k;
       k \<leftarrow> set_size inode 0 k;
       k \<leftarrow> inode_dirty inode k;
       k \<leftarrow> set_mtime inode (sys_time k) k;
       bwrite b k
     }
   }"

definition new_inode :: "u32 \<Rightarrow> u32 \<Rightarrow> 'w kernel \<Rightarrow> (nat \<times> 'w kernel) option" where
  "new_inode dev nr k = do {
     task \<leftarrow> current_task k;
     (i, k) \<leftarrow> iget dev nr k;
     k \<leftarrow> inode_dirty i k;
     k \<leftarrow> set_mode i (0x1FF AND NOT (t_umask task)) k;
     k \<leftarrow> set_uid i (ucast (t_uid task)) k;
     k \<leftarrow> set_size i 0 k;
     k \<leftarrow> upd_inode i (\<lambda>n. n\<lparr>i_atime := sys_time k\<rparr>) k;
     k \<leftarrow> set_mtime i (sys_time k) k;
     k \<leftarrow> set_gid i (ucast (t_gid task)) k;
     k \<leftarrow> set_nlinks i 1 k;
     Some (i, k)
   }"

end
