(* ===== verification/File_Data.thy ===== *)
theory File_Data
  imports Inode Buffer_Hold Heap
begin

text \<open>
  What \<^verbatim>\<open>bmap\<close>, \<^verbatim>\<open>inode_read\<close> and \<^verbatim>\<open>inode_write\<close> mean for the bytes of a file. A file is described on
  the blocks as a reader of the cache sees them: the size and the block numbers lie in the
  descriptor, further numbers in index blocks, and the byte at a position lies in the block at
  the end of the trail of its block number.
\<close>

section \<open>A file on the blocks\<close>

type_synonym blocks = "u32 \<times> u32 \<Rightarrow> u8 list"

definition word16 :: "u8 list \<Rightarrow> nat \<Rightarrow> u16" where
  "word16 bs p = ucast (bs ! p) + push_bit 8 (ucast (bs ! (p + 1)))"

definition word32 :: "u8 list \<Rightarrow> nat \<Rightarrow> u32" where
  "word32 bs p = ucast (word16 bs p) + push_bit 16 (ucast (word16 bs (p + 2)))"

text \<open>The block numbers met from a first one through the index blocks, the last one the block itself.\<close>

fun trail :: "blocks \<Rightarrow> u32 \<Rightarrow> u16 \<Rightarrow> nat list \<Rightarrow> u16 list" where
  "trail view dev z [] = [z]"
| "trail view dev z (i # is) = z # trail view dev (word16 (view (dev, ucast z)) (2 * i)) is"

definition zone_path :: "nat \<Rightarrow> nat \<times> nat list" where
  "zone_path n = (if n < 7 then (n, []) else if n < 519 then (7, [n - 7])
     else (8, [(n - 519) div 512, (n - 519) mod 512]))"

text \<open>A file is the device, the block that holds its descriptor, and the position in it.\<close>

record file_at =
  fa_dev :: u32
  fa_block :: u32
  fa_off :: nat

definition file_desc :: "blocks \<Rightarrow> file_at \<Rightarrow> u8 list" where
  "file_desc view f = view (fa_dev f, fa_block f)"

definition file_trail :: "blocks \<Rightarrow> file_at \<Rightarrow> nat \<Rightarrow> u16 list" where
  "file_trail view f n = (case zone_path n of (j, is) \<Rightarrow>
     trail view (fa_dev f) (word16 (file_desc view f) (fa_off f + 14 + 2 * j)) is)"

definition file_block :: "blocks \<Rightarrow> file_at \<Rightarrow> nat \<Rightarrow> u32 \<times> u32" where
  "file_block view f n = (fa_dev f, ucast (last (file_trail view f n)))"

definition file_size :: "blocks \<Rightarrow> file_at \<Rightarrow> nat" where
  "file_size view f = unat (word32 (file_desc view f) (fa_off f + 4))"

definition file_mode :: "blocks \<Rightarrow> file_at \<Rightarrow> u16" where
  "file_mode view f = word16 (file_desc view f) (fa_off f)"

definition file_byte :: "blocks \<Rightarrow> file_at \<Rightarrow> nat \<Rightarrow> u8" where
  "file_byte view f p = view (file_block view f (p div 1024)) ! (p mod 1024)"

text \<open>The first \<open>N\<close> blocks of the file are there.\<close>

definition allocated :: "(u32 \<times> u32 \<Rightarrow> bool) \<Rightarrow> blocks \<Rightarrow> file_at \<Rightarrow> nat \<Rightarrow> bool" where
  "allocated in_range view f N \<longleftrightarrow> N \<le> 7 + 512 + 512 * 512 \<and> fa_off f + 32 \<le> 1024
     \<and> (\<forall>n < N. \<forall>z \<in> set (file_trail view f n). z \<noteq> 0 \<and> in_range (fa_dev f, ucast z))"

lemma trail_Nil [simp]: "trail view dev z is \<noteq> []"
  by (cases "is") simp_all

section \<open>The block map\<close>

text \<open>The indexes that \<^verbatim>\<open>bmap\<close> looks at below the first one.\<close>

fun walk_path :: "nat \<Rightarrow> u32 \<Rightarrow> u32 \<Rightarrow> nat list" where
  "walk_path 0 block divider = []"
| "walk_path (Suc level) block divider =
     unat (ucast (block div divider) :: u16) # walk_path level (block mod divider) (divider div 512)"

lemma peek16_word16:
  "b < length (buffers k) \<Longrightarrow> p + 1 < length (b_data (nbuf k b)) \<Longrightarrow> peek16 b p k = Some (word16 (b_data (nbuf k b)) p)"
  by (simp add: peek16_def peek8_def rd_def word16_def)

lemma peek32_word32:
  "b < length (buffers k) \<Longrightarrow> p + 3 < length (b_data (nbuf k b)) \<Longrightarrow> peek32 b p k = Some (word32 (b_data (nbuf k b)) p)"
  by (simp add: peek32_def peek16_word16 word32_def)

context block_disk
begin

lemma pinned_data:
  assumes "cinv c" "pinned c b"
  shows "length (b_data (nbuf c b)) = BLOCK_SIZE" "b_data (nbuf c b) = seen c (block_of c b)" "b < length (buffers c)"
  using cinvD(9)[OF assms(1), of b] seen_cached[OF assms(1), of b] assms(2) by (simp_all add: pinned_def)

lemma bmap_walk_law:
  fixes k k1 :: "'w kernel"
  assumes "cinv k1" "visiting S k b k1" "pinned k1 b" "has_room k"
    and "base + 2 * unat index + 1 < 1024" "\<forall>i \<in> set (walk_path level block divider). i < 512"
    and "\<forall>z \<in> set (trail (seen k1) dev (word16 (b_data (nbuf k1 b)) (base + 2 * unat index)) (walk_path level block divider)).
      z \<noteq> 0 \<and> in_range (dev, ucast z)"
  shows "\<exists>k'. bmap_walk level dev b base index block divider create k1
      = Some (ucast (last (trail (seen k1) dev (word16 (b_data (nbuf k1 b)) (base + 2 * unat index)) (walk_path level block divider))), k')
    \<and> cinv k' \<and> seen k' = seen k1 \<and> keeps S k k' \<and> cache.more k' = cache.more k1"
  using assms
proof (induction level arbitrary: k k1 b base index block divider)
  case 0
  let ?z = "word16 (b_data (nbuf k1 b)) (base + 2 * unat index)"
  have p: "peek16 b (base + 2 * unat index) k1 = Some ?z"
    using pinned_data[OF 0(1,3)] 0(5) by (intro peek16_word16) simp_all
  obtain k2 where r: "brelse (Some b) k1 = Some k2" "cinv k2" "seen k2 = seen k1" "keeps S k k2"
    "cache.more k2 = cache.more k1" "b < length (buffers k2)" "b_data (nbuf k2 b) = b_data (nbuf k1 b)"
    by (rule brelse_visit[OF 0(1,2,3)]) simp
  have "peek16 b (base + 2 * unat index) k2 = Some ?z"
    using pinned_data[OF 0(1,3)] 0(5) r(6,7) by (subst peek16_word16) simp_all
  then show ?case using p r 0(7) by (simp add: bmap_walk.simps)
next
  case (Suc level)
  let ?z = "word16 (b_data (nbuf k1 b)) (base + 2 * unat index)"
  let ?i = "ucast (block div divider) :: u16"
  have p: "peek16 b (base + 2 * unat index) k1 = Some ?z"
    using pinned_data[OF Suc.prems(1,3)] Suc.prems(5) by (intro peek16_word16) simp_all
  obtain k2 where r: "brelse (Some b) k1 = Some k2" "cinv k2" "seen k2 = seen k1" "keeps S k k2"
    "cache.more k2 = cache.more k1" "b < length (buffers k2)" "b_data (nbuf k2 b) = b_data (nbuf k1 b)"
    by (rule brelse_visit[OF Suc.prems(1,2,3)]) simp
  have p2: "peek16 b (base + 2 * unat index) k2 = Some ?z"
    using pinned_data[OF Suc.prems(1,3)] Suc.prems(5) r(6,7) by (subst peek16_word16) simp_all
  have z: "?z \<noteq> 0" "in_range (dev, ucast ?z)" using Suc.prems(7) by simp_all
  have room: "has_room k2" using r(4) Suc.prems(4) by (simp add: keeps_def)
  obtain b3 k3 where g: "bread dev (ucast ?z) k2 = Some (b3, k3)" "cinv k3" "seen k3 = seen k2"
    "pinned k3 b3" "b_data (nbuf k3 b3) = seen k2 (dev, ucast ?z)" "visiting S k2 b3 k3" "cache.more k3 = cache.more k2"
    by (rule bread_visit[OF r(2) room z(2), of S]) simp
  have "\<exists>k'. bmap_walk level dev b3 0 ?i (block mod divider) (divider div 512) create k3
      = Some (ucast (last (trail (seen k3) dev (word16 (b_data (nbuf k3 b3)) (0 + 2 * unat ?i)) (walk_path level (block mod divider) (divider div 512)))), k')
    \<and> cinv k' \<and> seen k' = seen k3 \<and> keeps S k2 k' \<and> cache.more k' = cache.more k3"
    by (rule Suc.IH[OF g(2,6,4) room]) (use Suc.prems(6,7) g(3,5) r(3) in simp_all)
  then show ?case
    using p p2 r g z keeps_trans[OF r(4)] by (auto simp: bmap_walk.simps)
qed

text \<open>The inode \<open>i\<close> of the table is open on the file \<open>f\<close>, its descriptor lies in buffer \<open>b\<close>.\<close>

end

definition open_on :: "'w kernel \<Rightarrow> nat \<Rightarrow> file_at \<Rightarrow> nat \<Rightarrow> bool" where
  "open_on k i f b \<longleftrightarrow> pinned k b \<and> block_of k b = (fa_dev f, fa_block f)
     \<and> (\<exists>n. get_inode i k = Some n \<and> i_buf n = Some b \<and> i_dev n = fa_dev f \<and> i_off n = fa_off f)"

lemma more_kernel:
  assumes "cache.more k' = cache.more (k :: 'w kernel)"
  shows "umem k' = umem k" "inode_table k' = inode_table k" "super_table k' = super_table k" "kheap k' = kheap k"
    "sch k' = sch k" "startup_time k' = startup_time k" "file_table k' = file_table k" "root_super k' = root_super k"
    "get_inode i k' = get_inode i k"
  using assms by (cases k; cases k'; simp add: get_inode_def)+

lemma open_on_keeps:
  assumes "open_on k i f b" "keeps S k k'" "b \<in> S" "inode_table k' = inode_table k"
  shows "open_on k' i f b"
  using assms keeps_pinned[OF assms(2,3)] keepsD(2)[OF assms(2,3)] by (auto simp: open_on_def get_inode_def)

lemma walk_path_1: "unat m < 512 \<Longrightarrow> walk_path 1 m 1 = [unat m]"
  by (simp add: unsigned_ucast_eq take_bit_eq_mod)

lemma walk_path_2:
  assumes "unat m < 512 * 512"
  shows "walk_path 2 m 512 = [unat m div 512, unat m mod 512]"
proof -
  have "unat (m div 512) = unat m div 512" "unat (m mod 512) = unat m mod 512"
    by (simp_all add: unat_div unat_mod)
  moreover have "unat m div 512 < 512" using assms by (simp add: less_mult_imp_div_less)
  moreover have "walk_path 2 m 512
      = [unat (ucast (m div 512) :: u16), unat (ucast (m mod 512 div 1) :: u16)]"
    by (simp only: numeral_2_eq_2 walk_path.simps) simp
  ultimately show ?thesis by (simp add: unsigned_ucast_eq take_bit_eq_mod)
qed

declare bmap_walk.simps [simp del]

context block_disk
begin

lemma bmap_law:
  fixes k :: "'w kernel"
  assumes I: "cinv k" and room: "has_room k" and op: "open_on k i f b" and al: "allocated in_range (seen k) f N" and n: "n < N"
  shows "\<exists>k'. bmap i (of_nat n) create k = Some (snd (file_block (seen k) f n), k')
    \<and> cinv k' \<and> seen k' = seen k \<and> keeps S k k' \<and> cache.more k' = cache.more k"
proof -
  have n': "n < 7 + 512 + 512 * 512" and off: "fa_off f + 32 \<le> 1024"
    and tr: "\<forall>z \<in> set (file_trail (seen k) f n). z \<noteq> 0 \<and> in_range (fa_dev f, ucast z)"
    using al n by (auto simp: allocated_def)
  have un: "unat (of_nat n :: u32) = n" using n' by (simp add: unat_of_nat)
  obtain nd where nd: "get_inode i k = Some nd" "i_buf nd = Some b" "i_dev nd = fa_dev f" "i_off nd = fa_off f"
    and b: "pinned k b" "block_of k b = (fa_dev f, fa_block f)" using op by (auto simp: open_on_def)
  obtain k1 where h: "upd_buffer b (\<lambda>bf. bf\<lparr>b_count := b_count bf + 1\<rparr>) k = Some k1" "cinv k1" "seen k1 = seen k"
    "pinned k1 b" "b_data (nbuf k1 b) = b_data (nbuf k b)" "visiting S k b k1" "cache.more k1 = cache.more k"
    by (rule hold_visit[OF I b(1), of S]) simp
  have data: "b_data (nbuf k1 b) = file_desc (seen k) f"
    using pinned_data[OF I b(1)] b(2) h(5) by (simp add: file_desc_def)
  have law: "\<exists>k'. bmap_walk level (fa_dev f) b (fa_off f + 14) index block divider create k1
      = Some (snd (file_block (seen k) f n), k')
    \<and> cinv k' \<and> seen k' = seen k \<and> keeps S k k' \<and> cache.more k' = cache.more k"
    if "zone_path n = (unat index, walk_path level block divider)" "unat index < 9"
      "\<forall>i \<in> set (walk_path level block divider). i < 512" for level index block divider
    using bmap_walk_law[OF h(2,6,4) room, of "fa_off f + 14" index level block divider "fa_dev f" create]
      that off tr h(3,7) data
    by (simp add: file_trail_def file_block_def add.assoc)
  have desc: "desc_at i k = Some (b, fa_off f)" using nd by (simp add: desc_at_def)
  note start = bmap_def nd(1,3) desc h(1) Let_def check_def word_less_nat_alt un
  consider "n < 7" | "7 \<le> n" "n < 519" | "519 \<le> n" by linarith
  then show ?thesis
  proof cases
    case 1
    let ?i = "ucast (of_nat n :: u32) :: u16"
    have i: "unat ?i = n" using 1 by (simp add: unsigned_ucast_eq un take_bit_eq_mod)
    have "bmap i (of_nat n) create k = bmap_walk 0 (fa_dev f) b (fa_off f + 14) ?i (of_nat n) 1 create k1"
      using 1 by (simp add: start)
    moreover have "zone_path n = (unat ?i, walk_path 0 (of_nat n) 1)" using 1 i by (simp add: zone_path_def)
    ultimately show ?thesis using law[of ?i 0 "of_nat n" 1] 1 i by simp
  next
    case 2
    then have m: "unat (of_nat n - 7 :: u32) = n - 7" by (simp add: unat_sub word_le_nat_alt un)
    have small: "n - 7 < 512" using 2 by linarith
    have w: "walk_path 1 (of_nat n - 7) 1 = [n - 7]" using walk_path_1[of "of_nat n - 7"] m 2 by simp
    have "bmap i (of_nat n) create k = bmap_walk 1 (fa_dev f) b (fa_off f + 14) 7 (of_nat n - 7) 1 create k1"
      using 2 n' m small by (simp add: start)
    moreover have "zone_path n = (unat (7 :: u16), walk_path 1 (of_nat n - 7) 1)"
      unfolding w using 2 by (simp add: zone_path_def)
    ultimately show ?thesis using law[of 7 1 "of_nat n - 7" 1] 2 unfolding w by simp
  next
    case 3
    then have m: "unat (of_nat n - 7 :: u32) = n - 7" by (simp add: unat_sub word_le_nat_alt un)
    with 3 have m2: "unat (of_nat n - 7 - 512 :: u32) = n - 519" by (subst unat_sub) (simp_all add: word_le_nat_alt)
    have large: "\<not> n - 7 < 512" "n - 519 < 512 * 512" using 3 n' by linarith+
    have w: "walk_path 2 (of_nat n - 7 - 512) 512 = [(n - 519) div 512, (n - 519) mod 512]"
      using walk_path_2[of "of_nat n - 7 - 512"] m2 n' 3 by simp
    have "bmap i (of_nat n) create k = bmap_walk 2 (fa_dev f) b (fa_off f + 14) 8 (of_nat n - 7 - 512) 512 create k1"
      using 3 n' m m2 large by (simp add: start)
    moreover have "zone_path n = (unat (8 :: u16), walk_path 2 (of_nat n - 7 - 512) 512)"
      using 3 unfolding w by (simp add: zone_path_def)
    moreover have "\<forall>i \<in> set (walk_path 2 (of_nat n - 7 - 512) 512). i < 512"
      unfolding w using 3 n' by auto
    ultimately show ?thesis using law[of 8 2 "of_nat n - 7 - 512" 512] by (simp only:) simp
  qed
qed

end

section \<open>Reading\<close>

lemma sint_small:
  assumes "unat (x :: u32) < 2 ^ 31" shows "sint x = int (unat x)"
proof -
  have "int (unat x) < int (2 ^ 31)" using assms by (simp only: of_nat_less_iff)
  then have "uint x < 2 ^ 31" by simp
  moreover have "- (2 ^ 31) \<le> uint x" by (rule order_trans[of _ 0]) simp_all
  ultimately show ?thesis by (simp add: sint_uint signed_take_bit_int_eq_self)
qed

lemma signed_div_pos: "int m sdiv 1024 = int (m div 1024)" "int m smod 1024 = int (m mod 1024)"
  by (cases "m = 0"; simp add: signed_divide_int_def signed_modulo_int_def zdiv_int zmod_int minus_div_mult_eq_mod)+

lemma file_offset:
  assumes "unat (offset :: u32) < 2 ^ 31"
  shows "block_nr offset = of_nat (unat offset div 1024)" "unat (block_start offset) = unat offset mod 1024"
proof -
  note s = sint_small[OF assms]
  show "block_nr offset = of_nat (unat offset div 1024)" unfolding block_nr_def s signed_div_pos by simp
  have "unat offset mod 1024 < 1024" by simp
  then have "unat offset mod 1024 < 2 ^ LENGTH(32)" by simp
  then have "unat (of_nat (unat offset mod 1024) :: u32) = unat offset mod 1024" unfolding unat_of_nat by (rule mod_less)
  then show "unat (block_start offset) = unat offset mod 1024" unfolding block_start_def s signed_div_pos by simp
qed

lemma chunk_unat:
  assumes "unat offset < 2 ^ 31"
  shows "unat (chunk offset left) = min (1024 - unat offset mod 1024) (unat left)"
proof -
  have "unat (of_nat BLOCK_SIZE - block_start offset) = 1024 - unat offset mod 1024"
    using file_offset(2)[OF assms] by (simp add: unat_sub word_le_nat_alt)
  then show ?thesis by (simp add: chunk_def min_def word_le_nat_alt)
qed

lemma umem_frame [simp]:
  fixes k :: "'w kernel"
  shows "cache_inv content in_range ok (k\<lparr>umem := m\<rparr>) = cache_inv content in_range ok k"
    "block_view content (k\<lparr>umem := m\<rparr>) = block_view content k" "pinned (k\<lparr>umem := m\<rparr>) = pinned k"
    "has_room (k\<lparr>umem := m\<rparr>) = has_room k" "visiting S c b (k\<lparr>umem := m\<rparr>) = visiting S c b k"
    "block_of (k\<lparr>umem := m\<rparr>) = block_of k"
proof -
  have bo: "block_of (k\<lparr>umem := m\<rparr>) = block_of k" by (rule ext) (simp add: block_of_def)
  show "block_of (k\<lparr>umem := m\<rparr>) = block_of k" by (rule bo)
  show "cache_inv content in_range ok (k\<lparr>umem := m\<rparr>) = cache_inv content in_range ok k"
    unfolding cache_inv_def bo by simp
  show "block_view content (k\<lparr>umem := m\<rparr>) = block_view content k"
    by (rule ext) (simp add: block_view_def bo split: list.split)
  show "pinned (k\<lparr>umem := m\<rparr>) = pinned k" by (rule ext) (simp add: pinned_def)
  show "has_room (k\<lparr>umem := m\<rparr>) = has_room k" by (simp add: has_room_def)
  show "visiting S c b (k\<lparr>umem := m\<rparr>) = visiting S c b k" by (simp add: visiting_def held_def has_room_def)
qed

lemma more_umem:
  "cache.more k' = cache.more (k\<lparr>umem := m\<rparr>) \<Longrightarrow> cache.more (k'\<lparr>umem := w\<rparr>) = cache.more ((k :: 'w kernel)\<lparr>umem := w\<rparr>)"
  by (cases k; cases k') simp

lemma put_bytes_append: "put_bytes (put_bytes m p xs) (p + length xs) ys = put_bytes m p (xs @ ys)"
  by (rule ext) (auto simp: put_bytes_def nth_append)

definition file_bytes :: "blocks \<Rightarrow> file_at \<Rightarrow> nat \<Rightarrow> nat \<Rightarrow> u8 list" where
  "file_bytes view f p m = map (file_byte view f) [p ..< p + m]"

lemma file_bytes_length [simp]: "length (file_bytes view f p m) = m"
  by (simp add: file_bytes_def)

lemma file_bytes_add: "file_bytes view f p (a + b) = file_bytes view f p a @ file_bytes view f (p + a) b"
  using upt_add_eq_append[of p "p + a" b] by (simp add: file_bytes_def add.assoc)

lemma file_bytes_block:
  assumes "p mod 1024 + m \<le> 1024" "length (view (file_block view f (p div 1024))) = 1024"
  shows "file_bytes view f p m = take m (drop (p mod 1024) (view (file_block view f (p div 1024))))"
proof (rule nth_equalityI)
  fix i assume "i < length (file_bytes view f p m)"
  then have i: "i < m" by simp
  have "p mod 1024 + i < 1024" using i assms(1) by simp
  then have "(p + i) div 1024 = p div 1024" "(p + i) mod 1024 = p mod 1024 + i"
    by (simp_all add: div_add1_eq[of p i] mod_add_eq[of p 1024 i, symmetric])
  then show "file_bytes view f p m ! i = take m (drop (p mod 1024) (view (file_block view f (p div 1024)))) ! i"
    using i assms by (simp add: file_bytes_def file_byte_def)
qed (use assms in simp)

context block_disk
begin

lemma allocated_block:
  assumes "allocated in_range view f N" "n < N"
  shows "in_range (file_block view f n)" "snd (file_block view f n) \<noteq> 0"
proof -
  have "last (file_trail view f n) \<in> set (file_trail view f n)"
    by (rule last_in_set) (simp add: file_trail_def split: prod.splits)
  then have "last (file_trail view f n) \<noteq> 0 \<and> in_range (fa_dev f, ucast (last (file_trail view f n)))"
    using assms unfolding allocated_def by blast
  moreover have "ucast z \<noteq> (0 :: u32)" if "z \<noteq> 0" for z :: u16
  proof -
    have "unat (ucast z :: u32) = unat z" using unsigned_less[of z, where ?'a = nat] by (simp add: unsigned_ucast_eq take_bit_nat_eq_self)
    then show ?thesis using that by (metis unat_eq_0)
  qed
  ultimately show "in_range (file_block view f n)" "snd (file_block view f n) \<noteq> 0"
    by (simp_all add: file_block_def)
qed

lemma read_loop_law:
  fixes k :: "'w kernel"
  assumes "cinv k" "has_room k" "open_on k i f b" "b \<in> S" "allocated in_range (seen k) f N"
    and "unat offset + unat left \<le> N * 1024"
  shows "\<exists>k'. read_loop i buf left offset k = Some (offset + left, k') \<and> cinv k' \<and> seen k' = seen k \<and> keeps S k k'
    \<and> cache.more k' = cache.more (k\<lparr>umem := put_bytes (umem k) buf (file_bytes (seen k) f (unat offset) (unat left))\<rparr>)"
  using assms
proof (induction "unat left" arbitrary: buf left offset k rule: less_induct)
  case less
  show ?case
  proof (cases "left = 0")
    case True
    then show ?thesis using less.prems(1) by (simp add: read_loop.simps file_bytes_def)
  next
    case False
    let ?o = "unat offset" and ?c = "chunk offset left"
    let ?blk = "file_block (seen k) f (?o div 1024)"
    have N: "N \<le> 7 + 512 + 512 * 512" using less.prems(5) by (simp add: allocated_def)
    have left: "0 < unat left" using False by (simp add: unat_gt_0)
    have o: "?o < 2 ^ 31" using less.prems(6) N left by simp
    have n: "?o div 1024 < N" using less.prems(6) left by (simp add: div_less_iff_less_mult)
    note fo = file_offset[OF o] chunk_unat[OF o, of left]
    have c: "0 < unat ?c" "unat ?c \<le> unat left" "?o mod 1024 + unat ?c \<le> 1024" using fo(3) left by simp_all
    obtain k1 where 1: "bmap i (block_nr offset) False k = Some (snd ?blk, k1)" "cinv k1" "seen k1 = seen k"
      "keeps S k k1" "cache.more k1 = cache.more k"
      using bmap_law[OF less.prems(1,2,3,5) n, of False S] unfolding fo(1) by blast
    obtain nd where nd: "get_inode i k = Some nd" "i_dev nd = fa_dev f" using less.prems(3) by (auto simp: open_on_def)
    have room: "has_room k1" using 1(4) less.prems(2) by (simp add: keeps_def)
    have blk: "in_range (fa_dev f, snd ?blk)" "(fa_dev f, snd ?blk) = ?blk" "snd ?blk \<noteq> 0"
      using allocated_block[OF less.prems(5) n] by (simp_all add: file_block_def)
    obtain b2 k2 where 2: "bread (fa_dev f) (snd ?blk) k1 = Some (b2, k2)" "cinv k2" "seen k2 = seen k1" "pinned k2 b2"
      "b_data (nbuf k2 b2) = seen k1 (fa_dev f, snd ?blk)" "visiting S k1 b2 k2" "cache.more k2 = cache.more k1"
      by (rule bread_visit[OF 1(2) room blk(1), of S]) simp
    have d: "length (b_data (nbuf k2 b2)) = 1024" "b2 < length (buffers k2)" using pinned_data[OF 2(2,4)] by simp_all
    have data: "b_data (nbuf k2 b2) = seen k ?blk" using 2(5) 1(3) blk(2) by simp
    let ?bs = "take (unat ?c) (drop (?o mod 1024) (seen k ?blk))"
    have bs: "?bs = file_bytes (seen k) f ?o (unat ?c)"
      using file_bytes_block[OF c(3), of "seen k" f] d(1) data by simp
    let ?k2 = "k2\<lparr>umem := put_bytes (umem k2) buf ?bs\<rparr>"
    have v: "cinv ?k2" "visiting S k1 b2 ?k2" "pinned ?k2 b2" using 2 by simp_all
    obtain k3 where 3: "brelse (Some b2) ?k2 = Some k3" "cinv k3" "seen k3 = seen ?k2" "keeps S k1 k3"
      "cache.more k3 = cache.more ?k2" by (rule brelse_visit[OF v]) simp
    have K: "keeps S k k3" by (rule keeps_trans[OF 1(4) 3(4)])
    have m: "umem k2 = umem k" "inode_table k3 = inode_table k" "umem k3 = put_bytes (umem k) buf ?bs"
      using more_kernel[OF 1(5)] more_kernel[OF 2(7)] more_kernel[OF 3(5)] by simp_all
    have sn: "seen k3 = seen k" using 3(3) 2(3) 1(3) by simp
    have lt: "unat (left - ?c) < unat left" "unat (left - ?c) = unat left - unat ?c" "unat (offset + ?c) = ?o + unat ?c"
      using c less.prems(6) N by (simp_all add: unat_sub word_le_nat_alt unat_add_lem[THEN iffD1])
    have "has_room k3" using K less.prems(2) by (simp add: keeps_def)
    moreover have "open_on k3 i f b" by (rule open_on_keeps[OF less.prems(3) K less.prems(4) m(2)])
    ultimately obtain k' where k': "read_loop i (buf + unat ?c) (left - ?c) (offset + ?c) k3 = Some (offset + left, k')"
      "cinv k'" "seen k' = seen k" "keeps S k3 k'"
      "cache.more k' = cache.more (k3\<lparr>umem := put_bytes (umem k3) (buf + unat ?c)
         (file_bytes (seen k) f (?o + unat ?c) (unat left - unat ?c))\<rparr>)"
      using less.hyps[OF lt(1) 3(2), of "offset + ?c" "buf + unat ?c"] less.prems(4,5,6) c(2) sn lt(2,3) by auto
    have "read_loop i buf left offset k = read_loop i (buf + unat ?c) (left - ?c) (offset + ?c) k3"
      using False 1(1) 2(1) 3(1) nd(2) more_kernel(9)[OF 1(5)] nd(1) blk(3) d c data fo(2)
      by (subst read_loop.simps) (simp add: Let_def unat_eq_0[symmetric])
    moreover have "put_bytes (umem k3) (buf + unat ?c) (file_bytes (seen k) f (?o + unat ?c) (unat left - unat ?c))
        = put_bytes (umem k) buf (file_bytes (seen k) f ?o (unat left))"
      using put_bytes_append[of "umem k" buf "file_bytes (seen k) f ?o (unat ?c)"] file_bytes_add[of "seen k" f ?o "unat ?c" "unat left - unat ?c"]
        m(3) bs c(2) by simp
    moreover have "cache.more (k3\<lparr>umem := w\<rparr>) = cache.more (k\<lparr>umem := w\<rparr>)" for w
      using more_umem[OF 3(5)] more_umem[where k = k and k' = k2 and m = "umem k"] 2(7) 1(5) by simp
    ultimately show ?thesis using k' keeps_trans[OF K k'(4)] by simp
  qed
qed

end

text \<open>The fields of the descriptor, read through the pinned buffer.\<close>

lemma desc_fields:
  fixes k :: "'w kernel"
  assumes "cache_inv content in_range ok k" "open_on k i f b" "fa_off f + 32 \<le> 1024"
    "b_data (nbuf k b) = file_desc view f" "length (b_data (nbuf k b)) = 1024"
  shows "mode_of i k = Some (file_mode view f)" "size_of i k = Some (word32 (file_desc view f) (fa_off f + 4))"
    "desc_at i k = Some (b, fa_off f)"
proof -
  have b: "b < length (buffers k)" using assms(2) by (simp add: open_on_def pinned_def)
  show d: "desc_at i k = Some (b, fa_off f)" using assms(2) by (auto simp: open_on_def desc_at_def)
  show "mode_of i k = Some (file_mode view f)"
    using d b assms(3-5) by (simp add: mode_of_def file_mode_def peek16_word16)
  show "size_of i k = Some (word32 (file_desc view f) (fa_off f + 4))"
    using d b assms(3-5) by (simp add: size_of_def peek32_word32)
qed

lemma open_on_desc:
  assumes "open_on k i f b" "inode_table k' = (inode_table k)[i := (inode_table k ! i)\<lparr>i_atime := t\<rparr>]"
    "pinned k' = pinned k" "block_of k' = block_of k"
  shows "open_on k' i f b"
  using assms by (auto simp: open_on_def get_inode_def rd_def split: if_splits)

lemma inode_table_frame [simp]:
  fixes k :: "'w kernel"
  shows "cache_inv content in_range ok (k\<lparr>inode_table := m\<rparr>) = cache_inv content in_range ok k"
    "block_view content (k\<lparr>inode_table := m\<rparr>) = block_view content k" "pinned (k\<lparr>inode_table := m\<rparr>) = pinned k"
    "has_room (k\<lparr>inode_table := m\<rparr>) = has_room k" "block_of (k\<lparr>inode_table := m\<rparr>) = block_of k"
proof -
  have bo: "block_of (k\<lparr>inode_table := m\<rparr>) = block_of k" by (rule ext) (simp add: block_of_def)
  show "block_of (k\<lparr>inode_table := m\<rparr>) = block_of k" by (rule bo)
  show "cache_inv content in_range ok (k\<lparr>inode_table := m\<rparr>) = cache_inv content in_range ok k"
    unfolding cache_inv_def bo by simp
  show "block_view content (k\<lparr>inode_table := m\<rparr>) = block_view content k"
    by (rule ext) (simp add: block_view_def bo split: list.split)
  show "pinned (k\<lparr>inode_table := m\<rparr>) = pinned k" by (rule ext) (simp add: pinned_def)
  show "has_room (k\<lparr>inode_table := m\<rparr>) = has_room k" by (simp add: has_room_def)
qed

context block_disk
begin

lemma pinned_desc:
  assumes "cinv (k :: 'w kernel)" "open_on k i f b"
  shows "b_data (nbuf k b) = file_desc (seen k) f" "length (b_data (nbuf k b)) = 1024"
  using pinned_data[OF assms(1), of b] assms(2) by (simp_all add: open_on_def file_desc_def)

lemma inode_read_law:
  fixes k :: "'w kernel"
  assumes I: "cinv k" "has_room k" "open_on k i f b" and al: "allocated in_range (seen k) f N"
    and mode: "ISFILE (file_mode (seen k) f) \<or> ISDIR (file_mode (seen k) f)" and sz: "file_size (seen k) f \<le> N * 1024"
  shows "\<exists>k'. inode_read i buf len offset k
      = Some (if file_size (seen k) f \<le> unat offset then EOF
              else of_nat (min (unat len) (file_size (seen k) f - unat offset)), k')
    \<and> umem k' = put_bytes (umem k) buf
        (file_bytes (seen k) f (unat offset) (min (unat len) (file_size (seen k) f - unat offset)))
    \<and> cinv k' \<and> seen k' = seen k \<and> has_room k' \<and> open_on k' i f b"
proof -
  let ?sz = "word32 (file_desc (seen k) f) (fa_off f + 4)"
  have off: "fa_off f + 32 \<le> 1024" using al by (simp add: allocated_def)
  note df = desc_fields[OF I(1,3) off pinned_desc[OF I(1,3)]]
  have us: "unat ?sz = file_size (seen k) f" by (simp add: file_size_def)
  show ?thesis
  proof (cases "?sz \<le> offset")
    case True
    then have "file_size (seen k) f \<le> unat offset" using us by (simp add: word_le_nat_alt)
    moreover have "inode_read i buf len offset k = Some (EOF, k)"
      using df mode True by (simp add: inode_read_def check_def)
    ultimately show ?thesis using I by (simp add: file_bytes_def)
  next
    case False
    let ?m = "min len (?sz - offset)"
    have lt: "unat offset < file_size (seen k) f" using False us by (simp add: word_le_nat_alt)
    have m: "unat ?m = min (unat len) (file_size (seen k) f - unat offset)"
      using False us by (simp add: min_def word_le_nat_alt unat_sub)
    have le: "unat offset + unat ?m \<le> N * 1024" unfolding m using lt sz by simp
    obtain k1 where k1: "read_loop i buf ?m offset k = Some (offset + ?m, k1)" "cinv k1" "seen k1 = seen k" "keeps {b} k k1"
      "cache.more k1 = cache.more (k\<lparr>umem := put_bytes (umem k) buf (file_bytes (seen k) f (unat offset) (unat ?m))\<rparr>)"
      using read_loop_law[OF I _ al le, of "{b}" buf] by auto
    have same: "inode_table k1 = inode_table k"
      "umem k1 = put_bytes (umem k) buf (file_bytes (seen k) f (unat offset) (unat ?m))"
      using more_kernel[OF k1(5)] by simp_all
    have op: "open_on k1 i f b" by (rule open_on_keeps[OF I(3) k1(4) _ same(1)]) simp
    let ?k2 = "k1\<lparr>inode_table := (inode_table k1)[i := (inode_table k1 ! i)\<lparr>i_atime := sys_time k1\<rparr>]\<rparr>"
    have i: "i < length (inode_table k1)" using op by (auto simp: open_on_def get_inode_def rd_def split: if_splits)
    have "inode_read i buf len offset k = Some (of_nat (min (unat len) (file_size (seen k) f - unat offset)), ?k2)"
      using df mode False k1(1) i m
      by (simp add: inode_read_def check_def upd_inode_def get_inode_def rd_def flip: m)
    moreover have "open_on ?k2 i f b" by (rule open_on_desc[OF op]) simp_all
    moreover have "has_room k1" using k1(4) I(2) by (simp add: keeps_def)
    ultimately show ?thesis using k1(2,3) same m lt by simp
  qed
qed

end

section \<open>A file on a memory disk\<close>

text \<open>
  The descriptor of inode 2 of the disk 1, in block 5: a regular file of 1500 bytes in the blocks
  7 and 8, and a kernel that has opened it.
\<close>

definition sample_block :: "u8 list" where
  "sample_block = replicate 32 0 @ [0xB4, 0x81, 0, 0, 0xDC, 5, 0, 0, 0, 0, 0, 0, 0, 1, 7, 0, 8, 0] @ replicate 974 0"

definition sample_fs_disk :: "mem dstate" where
  "sample_fs_disk = sample_ram\<lparr>world := put_bytes of_nat (ram_addr 1 (1, 5)) sample_block\<rparr>"

definition sample_file :: file_at where
  "sample_file = \<lparr>fa_dev = 1, fa_block = 5, fa_off = 32\<rparr>"

definition sample_inode :: inode where
  "sample_inode = \<lparr>i_buf = Some 0, i_off = 32, i_dev = 1, i_nr = 2, i_count = 1, i_atime = 0, i_ctime = 0, i_mount = 0,
     i_rxwaiter = None, i_txwaiter = None, i_pipi = False, i_fifo = fifo_init [] 0, i_desc_ptr = 0, i_page = 0\<rparr>"

definition sample_fs :: "mem kernel" where
  "sample_fs = \<lparr>buffers = [\<lparr>b_data = sample_block, b_dev = 1, b_block = 5, b_count = 1, b_dirty = False, b_valid = True\<rparr>],
     buffer_count = 1, buffer_ptr = KERNEL_BUFFER_MEM + 64, buffer_data = KERNEL_BUFFER_MEM + KERNEL_BUFFER_SIZE - 2048,
     hash_table = (\<lambda>_. [])(hash 1 5 := [0]), free_list = [], disk = sample_fs_disk,
     umem = (\<lambda>_. 0xAA), kheap = sample_heap, sch = sample_sched, inode_table = [sample_inode], super_table = [],
     root_super = None, file_table = [], startup_time = 1000\<rparr>"

lemma sample_block_length [simp]: "length sample_block = 1024"
  by (simp add: sample_block_def)

lemma sample_fs_disk_ok: "ram_ok 1 sample_fs_disk"
  using sample_ram_ok by (simp add: ram_ok_def sample_fs_disk_def)

lemma sample_fs_content: "ram_content 1 sample_fs_disk (1, 5) = sample_block"
  by (rule nth_equalityI) (simp_all add: ram_content_def ram_range_def sample_fs_disk_def put_bytes_def)

lemma sample_fs_one: "b < length (buffers sample_fs) \<longleftrightarrow> b = 0"
  by (simp add: sample_fs_def)

lemma sample_fs_block: "block_of sample_fs 0 = (1, 5)"
  by (simp add: block_of_def sample_fs_def)

lemma sample_fs_inv: "ram_cache_inv 1 sample_fs"
  unfolding cache_inv_def sample_fs_one
  using sample_fs_content sample_fs_disk_ok sample_fs_block
  by (auto simp: sample_fs_def ram_range_def inj_on_def)

lemma sample_fs_room: "has_room sample_fs"
  by (simp add: sample_fs_def has_room_def)

lemma sample_fs_open: "open_on sample_fs 0 sample_file 0"
  using sample_fs_block by (simp add: open_on_def pinned_def sample_file_def sample_fs_def sample_inode_def get_inode_def rd_def)

lemma sample_fs_view: "file_desc (ram_view 1 sample_fs) sample_file = sample_block"
  using rdk.pinned_desc(1)[OF sample_fs_inv sample_fs_open] by (simp add: sample_fs_def)

lemma sample_zones: "word16 sample_block 46 = 7" "word16 sample_block 48 = 8" "word16 sample_block 32 = 0x81B4"
  "word32 sample_block 36 = 1500" "word32 sample_block 40 = 0"
  by (simp_all add: word16_def word32_def sample_block_def nth_append nth_Cons')

lemma sample_file_fields:
  "file_mode (ram_view 1 sample_fs) sample_file = 0x81B4" "file_size (ram_view 1 sample_fs) sample_file = 1500"
  "n < 2 \<Longrightarrow> file_trail (ram_view 1 sample_fs) sample_file n = [if n = 0 then 7 else 8]"
  unfolding file_mode_def file_size_def file_trail_def sample_fs_view
  using sample_zones by (auto simp: sample_file_def zone_path_def less_2_cases_iff)

lemma sample_allocated: "allocated (ram_range 1) (ram_view 1 sample_fs) sample_file 2"
  unfolding allocated_def using sample_file_fields(3) by (auto simp: sample_file_def ram_range_def)

section \<open>Properties\<close>

text \<open>
  C9: reading a file returns the bytes of the file. On a consistent block cache over the memory
  disks, for an open regular file or directory whose blocks are there, \<^verbatim>\<open>inode_read\<close> returns at
  every offset the number of bytes asked for, cut at the end of the file (or \<open>EOF\<close> behind
  it), and the caller's buffer then holds exactly the bytes that the block map of the file,
  through direct, indirect and doubly indirect blocks, puts at these positions; no other memory
  and no block of the disks is changed.
\<close>

theorem inode_read_reads_file:
  assumes "ram_cache_inv base k" and "has_room k" and "open_on k i f b"
    and "allocated (ram_range base) (ram_view base k) f N"
    and "ISFILE (file_mode (ram_view base k) f) \<or> ISDIR (file_mode (ram_view base k) f)"
    and "file_size (ram_view base k) f \<le> N * 1024"
  shows "\<exists>k'. inode_read i buf len offset k
      = Some (if file_size (ram_view base k) f \<le> unat offset then EOF
              else of_nat (min (unat len) (file_size (ram_view base k) f - unat offset)), k')
    \<and> umem k' = put_bytes (umem k) buf
        (file_bytes (ram_view base k) f (unat offset) (min (unat len) (file_size (ram_view base k) f - unat offset)))
    \<and> ram_cache_inv base k' \<and> ram_view base k' = ram_view base k \<and> has_room k' \<and> open_on k' i f b"
  by (rule rdk.inode_read_law[OF assms])

lemma inode_read_reads_file_witness:
  "\<exists>k'. inode_read 0 4096 1000 1020 sample_fs = Some (480, k')
    \<and> umem k' = put_bytes (\<lambda>_. 0xAA) 4096 (file_bytes (ram_view 1 sample_fs) sample_file 1020 480)
    \<and> ram_cache_inv 1 k' \<and> ram_view 1 k' = ram_view 1 sample_fs \<and> has_room k' \<and> open_on k' 0 sample_file 0"
proof -
  have "umem sample_fs = (\<lambda>_. 0xAA)" by (simp add: sample_fs_def)
  then show ?thesis
    using inode_read_reads_file[OF sample_fs_inv sample_fs_room sample_fs_open sample_allocated, of 4096 1000 1020]
    by (simp add: sample_file_fields file_type_def)
qed

end
