(* ===== verification/File_Write.thy ===== *)
theory File_Write
  imports File_Data
begin

text \<open>
  What \<^verbatim>\<open>inode_write\<close> does to a file whose blocks are there already: the bytes written replace
  those of the file, the size grows to the end of the write, and no other block changes.
\<close>

section \<open>Storing words in a block\<close>

definition put16 :: "nat \<Rightarrow> u16 \<Rightarrow> u8 list \<Rightarrow> u8 list" where
  "put16 p v bs = bs[p := ucast v, p + 1 := ucast (drop_bit 8 v)]"

definition put32 :: "nat \<Rightarrow> u32 \<Rightarrow> u8 list \<Rightarrow> u8 list" where
  "put32 p v bs = put16 (p + 2) (ucast (drop_bit 16 v)) (put16 p (ucast v) bs)"

lemma put32_length [simp]: "length (put32 p v bs) = length bs"
  by (simp add: put32_def put16_def)

lemma put32_other: "j < p \<or> p + 4 \<le> j \<Longrightarrow> put32 p v bs ! j = bs ! j"
  by (auto simp: put32_def put16_def nth_list_update)

lemma word16_bytes: "ucast (ucast (v :: u16) :: u8) + push_bit 8 (ucast (ucast (drop_bit 8 v) :: u8)) = v"
proof -
  have "ucast (ucast v :: u8) = take_bit 8 v" by (rule bit_word_eqI) (auto simp: bit_simps)
  moreover have "ucast (ucast (drop_bit 8 v) :: u8) = drop_bit 8 v"
    by (rule bit_word_eqI) (auto simp: bit_simps dest: bit_imp_le_length)
  ultimately show ?thesis using bits_ident[of 8 v] by (simp add: add.commute)
qed

lemma word32_halves: "ucast (ucast (v :: u32) :: u16) + push_bit 16 (ucast (ucast (drop_bit 16 v) :: u16)) = v"
proof -
  have "ucast (ucast v :: u16) = take_bit 16 v" by (rule bit_word_eqI) (auto simp: bit_simps)
  moreover have "ucast (ucast (drop_bit 16 v) :: u16) = drop_bit 16 v"
    by (rule bit_word_eqI) (auto simp: bit_simps dest: bit_imp_le_length)
  ultimately show ?thesis using bits_ident[of 16 v] by (simp add: add.commute)
qed

lemma word32_put32: "p + 3 < length bs \<Longrightarrow> word32 (put32 p v bs) p = v"
  by (simp add: word32_def put32_def put16_def word16_def word16_bytes word32_halves)

lemma word32_put32_other: "q + 4 \<le> p \<or> p + 4 \<le> q \<Longrightarrow> word32 (put32 p v bs) q = word32 bs q"
  unfolding word32_def word16_def by (auto simp: put32_other)

section \<open>A write on the blocks\<close>

text \<open>
  The blocks of the file are all different, none of them is an index block of the file, and
  none of both is the block of the descriptors.
\<close>

definition separated :: "blocks \<Rightarrow> file_at \<Rightarrow> nat \<Rightarrow> bool" where
  "separated view f N \<longleftrightarrow>
     (\<forall>n < N. \<forall>z \<in> set (file_trail view f n). (fa_dev f, ucast z) \<noteq> (fa_dev f, fa_block f))
     \<and> (\<forall>n < N. \<forall>m < N. last (file_trail view f n) \<notin> set (butlast (file_trail view f m)))
     \<and> (\<forall>n < N. \<forall>m < N. last (file_trail view f n) = last (file_trail view f m) \<longrightarrow> n = m)"

text \<open>
  \<open>written N f p bs V V'\<close>: on the first \<open>N\<close> blocks, \<open>V'\<close> has the bytes \<open>bs\<close> at position \<open>p\<close> of the
  file and the size that goes with them; of the descriptor block only the size (the bytes 4 to
  7 of the descriptor) may differ, and every block outside the file is as before. \<open>touched\<close>
  sets the modification time.
\<close>

definition written :: "nat \<Rightarrow> file_at \<Rightarrow> nat \<Rightarrow> u8 list \<Rightarrow> blocks \<Rightarrow> blocks \<Rightarrow> bool" where
  "written N f p bs V V' \<longleftrightarrow>
     (\<forall>n < N. file_trail V' f n = file_trail V f n)
     \<and> (\<forall>q < N * 1024. file_byte V' f q = (if p \<le> q \<and> q < p + length bs then bs ! (q - p) else file_byte V f q))
     \<and> file_size V' f = (if bs = [] then file_size V f else max (file_size V f) (p + length bs))
     \<and> (\<forall>key. key \<noteq> (fa_dev f, fa_block f) \<longrightarrow> (\<forall>n < N. key \<noteq> file_block V f n) \<longrightarrow> V' key = V key)
     \<and> length (file_desc V' f) = length (file_desc V f)
     \<and> (\<forall>j. j < fa_off f + 4 \<or> fa_off f + 8 \<le> j \<longrightarrow> file_desc V' f ! j = file_desc V f ! j)"

definition touched :: "file_at \<Rightarrow> u32 \<Rightarrow> blocks \<Rightarrow> blocks" where
  "touched f t V = V((fa_dev f, fa_block f) := put32 (fa_off f + 8) t (file_desc V f))"

definition file_mtime :: "blocks \<Rightarrow> file_at \<Rightarrow> u32" where
  "file_mtime view f = word32 (file_desc view f) (fa_off f + 8)"

lemma writtenD:
  assumes "written N f p bs V V'"
  shows "n < N \<Longrightarrow> file_trail V' f n = file_trail V f n"
    "q < N * 1024 \<Longrightarrow> file_byte V' f q = (if p \<le> q \<and> q < p + length bs then bs ! (q - p) else file_byte V f q)"
    "file_size V' f = (if bs = [] then file_size V f else max (file_size V f) (p + length bs))"
    "key \<noteq> (fa_dev f, fa_block f) \<Longrightarrow> (\<And>n. n < N \<Longrightarrow> key \<noteq> file_block V f n) \<Longrightarrow> V' key = V key"
    "length (file_desc V' f) = length (file_desc V f)"
    "j < fa_off f + 4 \<or> fa_off f + 8 \<le> j \<Longrightarrow> file_desc V' f ! j = file_desc V f ! j"
    "n < N \<Longrightarrow> file_block V' f n = file_block V f n"
proof -
  note w = assms[unfolded written_def]
  show "n < N \<Longrightarrow> file_trail V' f n = file_trail V f n" for n using w by blast
  then show "n < N \<Longrightarrow> file_block V' f n = file_block V f n" by (simp add: file_block_def)
  show "q < N * 1024 \<Longrightarrow> file_byte V' f q = (if p \<le> q \<and> q < p + length bs then bs ! (q - p) else file_byte V f q)"
    using w by blast
  show "file_size V' f = (if bs = [] then file_size V f else max (file_size V f) (p + length bs))" using w by blast
  show "key \<noteq> (fa_dev f, fa_block f) \<Longrightarrow> (\<And>n. n < N \<Longrightarrow> key \<noteq> file_block V f n) \<Longrightarrow> V' key = V key" using w by blast
  show "length (file_desc V' f) = length (file_desc V f)" using w by blast
  show "j < fa_off f + 4 \<or> fa_off f + 8 \<le> j \<Longrightarrow> file_desc V' f ! j = file_desc V f ! j" using w by blast
qed

lemma written_refl [simp]: "written N f p [] V V"
  unfolding written_def by auto

lemma written_trans:
  assumes "written N f p as U V" "written N f (p + length as) bs V W"
  shows "written N f p (as @ bs) U W"
  unfolding written_def
proof (intro conjI allI impI)
  note 1 = writtenD[OF assms(1)]
  note 2 = writtenD[OF assms(2)]
  show "file_trail W f n = file_trail U f n" if "n < N" for n using 1(1)[OF that] 2(1)[OF that] by simp
  show "file_byte W f q = (if p \<le> q \<and> q < p + length (as @ bs) then (as @ bs) ! (q - p) else file_byte U f q)"
    if "q < N * 1024" for q
    using 1(2)[OF that] 2(2)[OF that] by (auto simp: nth_append)
  show "file_size W f = (if as @ bs = [] then file_size U f else max (file_size U f) (p + length (as @ bs)))"
    using 1(3) 2(3) by (auto simp: max_def)
  show "W key = U key" if "key \<noteq> (fa_dev f, fa_block f)" "\<forall>n < N. key \<noteq> file_block U f n" for key
    using that 1(4)[OF that(1)] 2(4)[OF that(1)] 1(7) by auto
  show "length (file_desc W f) = length (file_desc U f)" using 1(5) 2(5) by simp
  show "file_desc W f ! j = file_desc U f ! j" if "j < fa_off f + 4 \<or> fa_off f + 8 \<le> j" for j
    using 1(6)[OF that] 2(6)[OF that] by simp
qed

lemma trail_cong:
  assumes "\<And>z. z \<in> set (butlast (trail V dev z0 is)) \<Longrightarrow> V' (dev, ucast z) = V (dev, ucast z)"
  shows "trail V' dev z0 is = trail V dev z0 is"
  using assms
proof (induction "is" arbitrary: z0)
  case (Cons i "is")
  then have "V' (dev, ucast z0) = V (dev, ucast z0)" by simp
  moreover have "trail V' dev z is = trail V dev z is" if "z = word16 (V (dev, ucast z0)) (2 * i)" for z
    using Cons that by simp
  ultimately show ?case by simp
qed simp

lemma file_trail_cong:
  assumes "\<And>z. z \<in> set (butlast (file_trail V f n)) \<Longrightarrow> V' (fa_dev f, ucast z) = V (fa_dev f, ucast z)"
    and "\<And>j. fa_off f + 12 \<le> j \<Longrightarrow> file_desc V' f ! j = file_desc V f ! j"
  shows "file_trail V' f n = file_trail V f n"
proof -
  obtain j "is" where z: "zone_path n = (j, is)" by fastforce
  have w: "word16 (file_desc V' f) (fa_off f + 14 + 2 * j) = word16 (file_desc V f) (fa_off f + 14 + 2 * j)"
    by (simp add: word16_def assms(2))
  show ?thesis
    using trail_cong[of V "fa_dev f" "word16 (file_desc V f) (fa_off f + 14 + 2 * j)" "is" V'] assms(1)
    by (simp add: file_trail_def z w)
qed

lemma overwrite_nth:
  assumes "s + length bs \<le> length xs" "r < length xs"
  shows "overwrite xs s bs ! r = (if s \<le> r \<and> r < s + length bs then bs ! (r - s) else xs ! r)"
  using assms by (auto simp: overwrite_def nth_append)

lemma overwrite_length: "s + length bs \<le> length xs \<Longrightarrow> length (overwrite xs s bs) = length xs"
  by (simp add: overwrite_def)

text \<open>One block of the file is overwritten, and the descriptor gets its new size.\<close>

lemma written_turn:
  assumes sep: "separated V f N" and n: "n < N" and m: "s + length bs \<le> 1024" "bs \<noteq> []"
    and b: "length (V (file_block V f n)) = 1024"
    and d: "length d = length (file_desc V f)" "\<And>j. j < fa_off f + 4 \<or> fa_off f + 8 \<le> j \<Longrightarrow> d ! j = file_desc V f ! j"
    and sz: "unat (word32 d (fa_off f + 4)) = max (file_size V f) (n * 1024 + s + length bs)"
  defines "V' \<equiv> V(file_block V f n := overwrite (V (file_block V f n)) s bs, (fa_dev f, fa_block f) := d)"
  shows "written N f (n * 1024 + s) bs V V'"
proof -
  have key: "(fa_dev f, ucast z) \<noteq> (fa_dev f, fa_block f)" if "z \<in> set (file_trail V f i)" "i < N" for i z
    using sep that unfolding separated_def by blast
  have lst: "last (file_trail V f i) \<in> set (file_trail V f i)" for i
    by (rule last_in_set) (simp add: file_trail_def split: prod.splits)
  have up: "z = w" if "(ucast z :: u32) = ucast w" for z w :: u16
  proof -
    have "unat (ucast x :: u32) = unat x" for x :: u16
      using unsigned_less[of x, where ?'a = nat] by (simp add: unsigned_ucast_eq take_bit_nat_eq_self)
    then show ?thesis using that by (metis word_unat_eq_iff)
  qed
  have desc: "file_desc V' f = d" by (simp add: file_desc_def V'_def)
  have tr: "file_trail V' f i = file_trail V f i" if i: "i < N" for i
  proof (rule file_trail_cong)
    fix z assume z: "z \<in> set (butlast (file_trail V f i))"
    then have "z \<noteq> last (file_trail V f n)" using sep n i unfolding separated_def by blast
    then have "(fa_dev f, ucast z) \<noteq> file_block V f n" using up by (auto simp: file_block_def)
    moreover have "(fa_dev f, ucast z) \<noteq> (fa_dev f, fa_block f)" using key[OF in_set_butlastD[OF z] i] .
    ultimately show "V' (fa_dev f, ucast z) = V (fa_dev f, ucast z)" by (simp add: V'_def)
  qed (simp add: desc d(2))
  have blk: "file_block V' f i = file_block V f i" if "i < N" for i using tr[OF that] by (simp add: file_block_def)
  have other: "file_block V f i = file_block V f n \<longleftrightarrow> i = n" if "i < N" for i
    using sep n that up unfolding separated_def file_block_def by blast
  have at: "V' (file_block V f i) = (if i = n then overwrite (V (file_block V f n)) s bs else V (file_block V f i))"
    if "i < N" for i
    using other[OF that] key[OF lst that] by (auto simp: V'_def file_block_def)
  have bytes: "file_byte V' f q = (if n * 1024 + s \<le> q \<and> q < n * 1024 + s + length bs then bs ! (q - (n * 1024 + s)) else file_byte V f q)"
    if q: "q < N * 1024" for q
  proof -
    let ?r = "q mod 1024"
    have i: "q div 1024 < N" using q by (simp add: div_less_iff_less_mult)
    have qe: "q div 1024 * 1024 + ?r = q" by (rule div_mult_mod_eq)
    have r: "?r < 1024" by simp
    have f': "file_byte V' f q = (if q div 1024 = n then overwrite (V (file_block V f n)) s bs ! ?r else file_byte V f q)"
      using blk[OF i] at[OF i] by (simp add: file_byte_def)
    show ?thesis
    proof (cases "q div 1024 = n")
      case True
      then have q': "q = n * 1024 + ?r" using qe by simp
      have "overwrite (V (file_block V f n)) s bs ! ?r
          = (if s \<le> ?r \<and> ?r < s + length bs then bs ! (?r - s) else V (file_block V f n) ! ?r)"
        by (rule overwrite_nth) (use m(1) b r in simp_all)
      moreover have "n * 1024 + s \<le> q \<and> q < n * 1024 + s + length bs \<longleftrightarrow> s \<le> ?r \<and> ?r < s + length bs"
        using q' by linarith
      moreover have "q - (n * 1024 + s) = ?r - s" using q' by linarith
      moreover have "file_byte V f q = V (file_block V f n) ! ?r" using True by (simp add: file_byte_def)
      ultimately show ?thesis using f' True by presburger
    next
      case False
      have "\<not> (n * 1024 + s \<le> q \<and> q < n * 1024 + s + length bs)"
      proof
        assume a: "n * 1024 + s \<le> q \<and> q < n * 1024 + s + length bs"
        then have "q < (n + 1) * 1024" using m(1) by simp
        moreover have "n * 1024 \<le> q" using a by simp
        ultimately have "q div 1024 = n" by (intro div_nat_eqI) simp_all
        with False show False by contradiction
      qed
      then show ?thesis using f' False by presburger
    qed
  qed
  have rest: "V' k = V k" if "k \<noteq> (fa_dev f, fa_block f)" "\<forall>i < N. k \<noteq> file_block V f i" for k
    using that n by (simp add: V'_def)
  have size: "file_size V' f = (if bs = [] then file_size V f else max (file_size V f) (n * 1024 + s + length bs))"
    using sz m(2) by (simp add: file_size_def desc)
  show ?thesis unfolding written_def using tr bytes rest size desc d by simp
qed

section \<open>Changing a buffer\<close>

lemma upd_twice:
  "upd_buffer b f c = Some c' \<Longrightarrow> upd_buffer b g c' = upd_buffer b (\<lambda>bf. g (f bf)) c"
  by (auto simp: upd_buffer_def rd_def split: if_splits)

lemma upd_cong: "f (nbuf c b) = g (nbuf c b) \<Longrightarrow> upd_buffer b f c = upd_buffer b g c"
  by (simp add: upd_buffer_def rd_def)

lemma upd_some: "b < length (buffers c) \<Longrightarrow> \<exists>c'. upd_buffer b f c = Some c'"
  by (simp add: upd_buffer_def rd_def)

text \<open>A poke changes the bytes of the buffer.\<close>

definition edit_data :: "nat \<Rightarrow> (u8 list \<Rightarrow> u8 list) \<Rightarrow> 'w kernel \<Rightarrow> 'w kernel option" where
  "edit_data b f k = upd_buffer b (\<lambda>bf. bf\<lparr>b_data := f (b_data bf)\<rparr>) k"

lemma edit_data_some:
  assumes "b < length (buffers k)"
  obtains k' where "edit_data b f k = Some k'" "length (buffers k') = length (buffers k)"
    "b_data (nbuf k' b) = f (b_data (nbuf k b))"
  using assms by (auto simp: edit_data_def upd_buffer_def rd_def)

lemma edit_data_twice: "b < length (buffers k) \<Longrightarrow> Option.bind (edit_data b f k) (edit_data b g) = edit_data b (\<lambda>bs. g (f bs)) k"
  by (simp add: edit_data_def upd_buffer_def rd_def)

lemma poke8_edit:
  "b < length (buffers k) \<Longrightarrow> p < length (b_data (nbuf k b)) \<Longrightarrow> poke8 b p v k = edit_data b (\<lambda>bs. bs[p := v]) k"
  by (simp add: edit_data_def poke8_def rd_def wr_def upd_buffer_def)

lemma poke16_edit:
  assumes "b < length (buffers k)" "p + 1 < length (b_data (nbuf k b))"
  shows "poke16 b p v k = edit_data b (put16 p v) k"
proof -
  obtain k1 where 1: "edit_data b (\<lambda>bs. bs[p := ucast v]) k = Some k1" "length (buffers k1) = length (buffers k)"
    "b_data (nbuf k1 b) = (b_data (nbuf k b))[p := ucast v]" by (rule edit_data_some[OF assms(1)])
  have "poke8 b (p + 1) (ucast (drop_bit 8 v)) k1 = edit_data b (\<lambda>bs. bs[p + 1 := ucast (drop_bit 8 v)]) k1"
    by (rule poke8_edit) (use 1 assms in simp_all)
  then have "poke16 b p v k = Option.bind (edit_data b (\<lambda>bs. bs[p := ucast v]) k) (edit_data b (\<lambda>bs. bs[p + 1 := ucast (drop_bit 8 v)]))"
    using 1(1) assms by (simp add: poke16_def poke8_edit)
  then show ?thesis by (simp add: edit_data_twice[OF assms(1)] put16_def[abs_def])
qed

lemma poke32_edit:
  assumes "b < length (buffers k)" "p + 3 < length (b_data (nbuf k b))"
  shows "poke32 b p v k = edit_data b (put32 p v) k"
proof -
  obtain k1 where 1: "edit_data b (put16 p (ucast v)) k = Some k1" "length (buffers k1) = length (buffers k)"
    "b_data (nbuf k1 b) = put16 p (ucast v) (b_data (nbuf k b))" by (rule edit_data_some[OF assms(1)])
  have "poke16 b (p + 2) (ucast (drop_bit 16 v)) k1 = edit_data b (put16 (p + 2) (ucast (drop_bit 16 v))) k1"
    by (rule poke16_edit) (use 1 assms in \<open>simp_all add: put16_def\<close>)
  then have "poke32 b p v k = Option.bind (edit_data b (put16 p (ucast v)) k) (edit_data b (put16 (p + 2) (ucast (drop_bit 16 v))))"
    using 1(1) assms by (simp add: poke32_def poke16_edit)
  then show ?thesis by (simp add: edit_data_twice[OF assms(1)] put32_def[abs_def])
qed

lemma edit_then_dirty: "Option.bind (edit_data b f k) (mark_dirty b) = modify_buffer b f k"
  by (simp add: edit_data_def modify_buffer_def mark_dirty_def upd_buffer_def rd_def)

lemma dirty_then_put:
  assumes "s + length bs \<le> length (b_data (nbuf k b))"
  shows "Option.bind (mark_dirty b k) (put_data b s bs) = modify_buffer b (\<lambda>xs. overwrite xs s bs) k"
  using assms
  by (cases "nbuf k b") (simp add: put_data_def modify_buffer_def mark_dirty_def upd_buffer_def rd_def check_def)

lemma edit_dirty: "b < length (buffers k) \<Longrightarrow> b_dirty (nbuf k b) \<Longrightarrow> edit_data b f k = modify_buffer b f k"
  unfolding edit_data_def modify_buffer_def by (rule upd_cong) simp

lemma allocated_written:
  "written N f p bs V V' \<Longrightarrow> allocated in_range V f N \<Longrightarrow> allocated in_range V' f N"
  using writtenD(1)[of N f p bs V V'] by (simp add: allocated_def)

lemma separated_written:
  "written N f p bs V V' \<Longrightarrow> separated V f N \<Longrightarrow> separated V' f N"
  using writtenD(1)[of N f p bs V V'] by (simp add: separated_def)

context block_disk
begin

lemma open_only:
  assumes "open_on k i f b" "only b2 k k'" "b \<noteq> b2"
  shows "open_on (k' :: 'w kernel) i f b" "nbuf k' b = nbuf k b"
  using assms more_kernel(9)[of k' k i] by (auto simp: open_on_def only_def pinned_def block_of_def)

text \<open>The size of the file after a turn.\<close>

lemma size_step:
  fixes k :: "'w kernel"
  assumes I: "cinv k" and op: "open_on k i f b" and off: "fa_off f + 32 \<le> 1024"
  defines "sz \<equiv> word32 (file_desc (seen k) f) (fa_off f + 4)"
  obtains k' where "(if sz < e then Option.bind (set_size i e k) (inode_dirty i) else Some k) = Some k'" "cinv k'"
    "seen k' = (seen k)((fa_dev f, fa_block f) := if sz < e then put32 (fa_off f + 4) e (file_desc (seen k) f) else file_desc (seen k) f)"
    "only b k k'" "free_list k' = free_list k" "open_on k' i f b" "b_dirty (nbuf k' b) \<longleftrightarrow> sz < e \<or> b_dirty (nbuf k b)"
proof (cases "sz < e")
  case False
  then show thesis using that[of k] I op by (simp add: file_desc_def)
next
  case True
  note pd = pinned_desc[OF I op]
  note df = desc_fields[OF I op off pd]
  have b: "b < length (buffers k)" "b_valid (nbuf k b)" "0 < b_count (nbuf k b)" "block_of k b = (fa_dev f, fa_block f)"
    using op by (auto simp: open_on_def pinned_def)
  let ?f = "put32 (fa_off f + 4) e"
  obtain k' where m: "modify_buffer b ?f k = Some k'" "cinv k'"
    "seen k' = (seen k)(block_of k b := ?f (seen k (block_of k b)))" "length (buffers k') = length (buffers k)"
    "nbuf k' b = (nbuf k b)\<lparr>b_data := ?f (b_data (nbuf k b)), b_dirty := True\<rparr>" "block_of k' b = block_of k b"
    "free_list k' = free_list k" by (rule modify_law[where f = ?f, OF I b(1,2,3)]) (use pd(2) in simp_all)
  have o: "only b k k'" using m(1) unfolding modify_buffer_def by (rule only_upd)
  have tb: "get_inode i k' = get_inode i k" using o more_kernel(9)[of k' k i] by (simp add: only_def)
  obtain k1 where k1: "edit_data b ?f k = Some k1" by (rule edit_data_some[OF b(1)])
  have d1: "mark_dirty b k1 = Some k'" using edit_then_dirty[of b ?f k] k1 m(1) by simp
  have "get_inode i k1 = get_inode i k" using k1 by (auto simp: edit_data_def upd_buffer_def bind_Some get_inode_def)
  then have "inode_dirty i k1 = Some k'" using op d1 by (auto simp: open_on_def inode_dirty_def)
  moreover have "set_size i e k = Some k1"
    using df(3) k1 poke32_edit[OF b(1), of "fa_off f + 4" e] pd(2) off by (simp add: set_size_def)
  moreover have "open_on k' i f b" using op m(4,5,6) tb by (auto simp: open_on_def pinned_def)
  moreover have "seen k' = (seen k)((fa_dev f, fa_block f) := ?f (file_desc (seen k) f))"
    using m(3) b(4) by (simp add: file_desc_def)
  ultimately show thesis using that[of k'] True m o by simp
qed

text \<open>Copying bytes into a block that is visited, and ending the visit.\<close>

lemma write_turn:
  fixes k :: "'w kernel"
  assumes I: "cinv k" "has_room k" "open_on k i f b" and al: "allocated in_range (seen k) f N" and sep: "separated (seen k) f N"
    and n: "n < N" and m: "s + length bs \<le> 1024" "bs \<noteq> []" and e: "unat e = n * 1024 + s + length bs"
  defines "sz \<equiv> word32 (file_desc (seen k) f) (fa_off f + 4)"
  obtains k1 b2 k2 k3 k4 k5 where
    "bmap i (of_nat n) True k = Some (snd (file_block (seen k) f n), k1)"
    "get_inode i k1 = get_inode i k"
    "bread (fa_dev f) (snd (file_block (seen k) f n)) k1 = Some (b2, k2)"
    "Option.bind (mark_dirty b2 k2) (put_data b2 s bs) = Some k3" "umem k2 = umem k"
    "size_of i k3 = Some sz"
    "(if sz < e then Option.bind (set_size i e k3) (inode_dirty i) else Some k3) = Some k4"
    "brelse (Some b2) k4 = Some k5"
    "cinv k5" "has_room k5" "open_on k5 i f b" "cache.more k5 = cache.more k"
    "written N f (n * 1024 + s) bs (seen k) (seen k5)"
    "sz < e \<longrightarrow> b_dirty (nbuf k5 b)" "b_dirty (nbuf k5 b) \<longrightarrow> sz < e \<or> b_dirty (nbuf k b)"
proof -
  let ?blk = "file_block (seen k) f n"
  have off: "fa_off f + 32 \<le> 1024" using al by (simp add: allocated_def)
  obtain k1 where 1: "bmap i (of_nat n) True k = Some (snd ?blk, k1)" "cinv k1" "seen k1 = seen k" "keeps {b} k k1"
    "cache.more k1 = cache.more k"
    using bmap_law[OF I al n, of True "{b}"] by blast
  have op1: "open_on k1 i f b" by (rule open_on_keeps[OF I(3) 1(4)]) (simp_all add: more_kernel[OF 1(5)])
  have room: "has_room k1" using 1(4) I(2) by (simp add: keeps_def)
  have blk: "in_range (fa_dev f, snd ?blk)" "(fa_dev f, snd ?blk) = ?blk"
    using allocated_block[OF al n] by (simp_all add: file_block_def)
  obtain b2 k2 where 2: "bread (fa_dev f) (snd ?blk) k1 = Some (b2, k2)" "cinv k2" "seen k2 = seen k1" "pinned k2 b2"
    "block_of k2 b2 = (fa_dev f, snd ?blk)" "b_data (nbuf k2 b2) = seen k1 (fa_dev f, snd ?blk)" "visiting {b} k1 b2 k2"
    "cache.more k2 = cache.more k1"
    by (rule bread_visit[OF 1(2) room blk(1), of "{b}"]) simp
  have pb: "pinned k1 b" "block_of k1 b = (fa_dev f, fa_block f)" using op1 by (simp_all add: open_on_def)
  have h2: "held (if b = b2 then 1 else 0) k1 k2 b" using 2(7) pb by (simp add: visiting_def)
  have "last (file_trail (seen k) f n) \<in> set (file_trail (seen k) f n)"
    by (rule last_in_set) (simp add: file_trail_def split: prod.splits)
  then have blk_desc: "?blk \<noteq> (fa_dev f, fa_block f)"
    using sep n unfolding separated_def file_block_def by blast
  have nb: "b \<noteq> b2" using heldD(4)[OF h2] pb(2) 2(5) blk(2) blk_desc by auto
  have len: "length (b_data (nbuf k2 b2)) = 1024" using pinned_data(1)[OF 2(2,4)] by simp
  let ?f = "\<lambda>xs. overwrite xs s bs"
  obtain k3 where 3: "modify_buffer b2 ?f k2 = Some k3" "cinv k3" "seen k3 = (seen k2)(block_of k2 b2 := ?f (seen k2 (block_of k2 b2)))"
    "pinned k3 b2" "block_of k3 b2 = block_of k2 b2" "visiting {b} k1 b2 k3" "cache.more k3 = cache.more k2"
    by (rule modify_visit[where f = ?f, OF 2(2,7,4)]) (use nb len m(1) in \<open>simp_all add: overwrite_length\<close>)
  have w3: "Option.bind (mark_dirty b2 k2) (put_data b2 s bs) = Some k3"
    using dirty_then_put[of s bs k2 b2] m(1) len 3(1) by simp
  have h3: "held 0 k1 k3 b" using 3(6) pb nb by (simp add: visiting_def)
  have op3: "open_on k3 i f b"
    using op1 held_pinned[OF h3 pb(1)] heldD(4)[OF h3] more_kernel(9)[OF 3(7)] more_kernel(9)[OF 2(8)] by (simp add: open_on_def)
  have v3: "seen k3 = (seen k)(?blk := ?f (seen k ?blk))" using 3(3) 2(3,5) 1(3) blk(2) by simp
  have desc3: "file_desc (seen k3) f = file_desc (seen k) f" using v3 blk_desc by (simp add: file_desc_def)
  obtain k4 where 4: "(if sz < e then Option.bind (set_size i e k3) (inode_dirty i) else Some k3) = Some k4" "cinv k4"
    "seen k4 = (seen k3)((fa_dev f, fa_block f) := if sz < e then put32 (fa_off f + 4) e (file_desc (seen k) f) else file_desc (seen k) f)"
    "only b k3 k4" "free_list k4 = free_list k3" "open_on k4 i f b" "b_dirty (nbuf k4 b) \<longleftrightarrow> sz < e \<or> b_dirty (nbuf k3 b)"
    by (rule size_step[OF 3(2) op3 off, of e, unfolded desc3, folded sz_def])
  have n4: "nbuf k4 b2 = nbuf k3 b2" "pinned k4 b2" using 4(4) nb 3(4) by (simp_all add: only_def pinned_def)
  have "has_room k3 \<Longrightarrow> has_room k4" using only_room[OF 4(4)] 4(5) by simp
  then have v4: "visiting {} k1 b2 k4" using 3(6) n4 by (auto simp: visiting_def)
  obtain k5 where 5: "brelse (Some b2) k4 = Some k5" "cinv k5" "seen k5 = seen k4" "keeps {} k1 k5" "only b2 k4 k5"
    by (rule brelse_visit[OF 4(2) v4 n4(2)]) simp
  note op5 = open_only[OF 4(6) 5(5) nb]
  have lenV: "length (seen k ?blk) = 1024" using len 2(6) 1(3) blk(2) by simp
  let ?d = "if sz < e then put32 (fa_off f + 4) e (file_desc (seen k) f) else file_desc (seen k) f"
  have "length (file_desc (seen k) f) = 1024" using pinned_desc[OF I(1,3)] by simp
  then have "unat (word32 ?d (fa_off f + 4)) = max (file_size (seen k) f) (n * 1024 + s + length bs)"
    using off e by (auto simp: word32_put32 file_size_def sz_def[symmetric] word_less_nat_alt max_def)
  then have "written N f (n * 1024 + s) bs (seen k) ((seen k)(?blk := ?f (seen k ?blk), (fa_dev f, fa_block f) := ?d))"
    by (intro written_turn[OF sep n m lenV]) (auto simp: put32_other)
  then have wr: "written N f (n * 1024 + s) bs (seen k) (seen k5)" unfolding 5(3) 4(3) v3 .
  have sz3: "size_of i k3 = Some sz"
    using desc_fields(2)[OF 3(2) op3 off pinned_desc[OF 3(2) op3]] by (simp add: desc3 sz_def)
  have more: "cache.more k5 = cache.more k" using 5(5) 4(4) 3(7) 2(8) 1(5) by (simp add: only_def)
  have room5: "has_room k5" using 5(4) room by (simp add: keeps_def)
  have "b_dirty (nbuf k5 b) \<longleftrightarrow> sz < e \<or> b_dirty (nbuf k3 b)" using op5(2) 4(7) by simp
  moreover have "\<not> b_dirty (nbuf k b) \<Longrightarrow> \<not> b_dirty (nbuf k3 b)"
    using heldD(6)[OF h3] keepsD(4)[OF 1(4)] I(3) by (simp add: open_on_def)
  ultimately have "b_dirty (nbuf k5 b) \<longrightarrow> sz < e \<or> b_dirty (nbuf k b)" "sz < e \<longrightarrow> b_dirty (nbuf k5 b)" by blast+
  then show thesis
    using that[OF 1(1) more_kernel(9)[OF 1(5)] 2(1) w3 _ sz3 4(1) 5(1,2) room5 op5(1) more wr] more_kernel(1)[OF 1(5)]
      more_kernel(1)[OF 2(8)] by simp
qed

lemma write_loop_law:
  fixes k :: "'w kernel"
  assumes "cinv k" "has_room k" "open_on k i f b" "allocated in_range (seen k) f N" "separated (seen k) f N"
    and "unat offset + unat left \<le> N * 1024"
  shows "\<exists>k'. write_loop i buf left offset k = Some (offset + left, k') \<and> cinv k' \<and> has_room k' \<and> open_on k' i f b
    \<and> cache.more k' = cache.more k
    \<and> written N f (unat offset) (map (umem k) [buf ..< buf + unat left]) (seen k) (seen k')
    \<and> (0 < unat left \<and> file_size (seen k) f < unat offset + unat left \<longrightarrow> b_dirty (nbuf k' b))
    \<and> (b_dirty (nbuf k' b) \<longrightarrow> file_size (seen k) f < unat offset + unat left \<or> b_dirty (nbuf k b))"
  using assms
proof (induction "unat left" arbitrary: buf left offset k rule: less_induct)
  case less
  show ?case
  proof (cases "left = 0")
    case True
    then show ?thesis using less.prems(1-3) by (simp add: write_loop.simps)
  next
    case False
    let ?o = "unat offset" and ?c = "chunk offset left"
    let ?bs = "map (umem k) [buf ..< buf + unat ?c]"
    let ?n = "?o div 1024" and ?s = "?o mod 1024"
    have N: "N \<le> 7 + 512 + 512 * 512" using less.prems(4) by (simp add: allocated_def)
    have left: "0 < unat left" using False by (simp add: unat_gt_0)
    have o: "?o < 2 ^ 31" using less.prems(6) N left by simp
    have n: "?n < N" using less.prems(6) left by (simp add: div_less_iff_less_mult)
    note fo = file_offset[OF o] chunk_unat[OF o, of left]
    have c: "0 < unat ?c" "unat ?c \<le> unat left" "?s + unat ?c \<le> 1024" using fo(3) left by simp_all
    have pos: "?n * 1024 + ?s = ?o" by (rule div_mult_mod_eq)
    have uo: "unat (offset + ?c) = ?o + unat ?c" "unat (left - ?c) = unat left - unat ?c" "unat (left - ?c) < unat left"
      using c less.prems(6) N by (simp_all add: unat_sub word_le_nat_alt unat_add_lem[THEN iffD1])
    have e: "unat (offset + ?c) = ?n * 1024 + ?s + length ?bs" using uo(1) pos by simp
    have bs: "?s + length ?bs \<le> 1024" "?bs \<noteq> []" using c by simp_all
    obtain k1 b2 k2 k3 k4 k5 where t:
      "bmap i (of_nat ?n) True k = Some (snd (file_block (seen k) f ?n), k1)"
      "get_inode i k1 = get_inode i k"
      "bread (fa_dev f) (snd (file_block (seen k) f ?n)) k1 = Some (b2, k2)"
      "Option.bind (mark_dirty b2 k2) (put_data b2 ?s ?bs) = Some k3" "umem k2 = umem k"
      "size_of i k3 = Some (word32 (file_desc (seen k) f) (fa_off f + 4))"
      "(if word32 (file_desc (seen k) f) (fa_off f + 4) < offset + ?c then Option.bind (set_size i (offset + ?c) k3) (inode_dirty i) else Some k3) = Some k4"
      "brelse (Some b2) k4 = Some k5"
      "cinv k5" "has_room k5" "open_on k5 i f b" "cache.more k5 = cache.more k"
      "written N f (?n * 1024 + ?s) ?bs (seen k) (seen k5)"
      "word32 (file_desc (seen k) f) (fa_off f + 4) < offset + ?c \<longrightarrow> b_dirty (nbuf k5 b)"
      "b_dirty (nbuf k5 b) \<longrightarrow> word32 (file_desc (seen k) f) (fa_off f + 4) < offset + ?c \<or> b_dirty (nbuf k b)"
      by (rule write_turn[OF less.prems(1-5) n bs e])
    have nz: "snd (file_block (seen k) f ?n) \<noteq> 0" using allocated_block[OF less.prems(4) n] by simp
    obtain nd where nd: "get_inode i k = Some nd" "i_dev nd = fa_dev f" using less.prems(3) by (auto simp: open_on_def)
    have um: "umem k5 = umem k" by (rule more_kernel(1)[OF t(12)])
    obtain k2' where md: "mark_dirty b2 k2 = Some k2'" using t(4) by (auto simp: bind_Some)
    have um2: "umem k2' = umem k" using md t(5) by (auto simp: mark_dirty_def upd_buffer_def bind_Some)
    have "write_loop i buf left offset k = write_loop i (buf + unat ?c) (left - ?c) (offset + ?c) k5"
      using False t(1,3,4,6,7,8) t(2) nd nz c(1) um2 md fo(1,2)
      by (subst write_loop.simps) (simp add: Let_def unat_eq_0[symmetric])
    moreover obtain k' where k': "write_loop i (buf + unat ?c) (left - ?c) (offset + ?c) k5 = Some (offset + left, k')"
      "cinv k'" "has_room k'" "open_on k' i f b" "cache.more k' = cache.more k5"
      "written N f (?o + unat ?c) (map (umem k) [buf + unat ?c ..< buf + unat left]) (seen k5) (seen k')"
      "unat ?c < unat left \<and> file_size (seen k5) f < ?o + unat left \<longrightarrow> b_dirty (nbuf k' b)"
      "b_dirty (nbuf k' b) \<longrightarrow> file_size (seen k5) f < ?o + unat left \<or> b_dirty (nbuf k5 b)"
      using less.hyps[OF uo(3) t(9,10,11) allocated_written[OF t(13) less.prems(4)] separated_written[OF t(13) less.prems(5)], of "offset + ?c" "buf + unat ?c"]
        less.prems(6) c uo um by auto
    moreover have "written N f ?o (map (umem k) [buf ..< buf + unat left]) (seen k) (seen k')"
    proof -
      have "map (umem k) [buf ..< buf + unat left] = ?bs @ map (umem k) [buf + unat ?c ..< buf + unat left]"
        using upt_add_eq_append[of buf "buf + unat ?c" "unat left - unat ?c"] c(2) by simp
      moreover have "written N f ?o ?bs (seen k) (seen k5)" using t(13) unfolding pos .
      ultimately show ?thesis using written_trans[of N f ?o ?bs "seen k" "seen k5" _ "seen k'"] k'(6) by simp
    qed
    moreover have fs: "file_size (seen k5) f = max (file_size (seen k) f) (?o + unat ?c)"
      using writtenD(3)[OF t(13)] pos bs(2) by simp
    have lt: "word32 (file_desc (seen k) f) (fa_off f + 4) < offset + ?c \<longleftrightarrow> file_size (seen k) f < ?o + unat ?c"
      by (simp add: word_less_nat_alt uo(1) file_size_def)
    have "b_dirty (nbuf k' b)" if g: "file_size (seen k) f < ?o + unat left"
    proof (cases "unat ?c = unat left")
      case True
      then have "left - ?c = 0" using uo(2) by (simp add: unat_eq_0[symmetric])
      with k'(1) have "k' = k5" by (simp add: write_loop.simps)
      with t(14) lt g True show ?thesis by simp
    next
      case False
      with k'(7) fs g c(2) show ?thesis by simp
    qed
    moreover have "b_dirty (nbuf k' b) \<longrightarrow> file_size (seen k) f < ?o + unat left \<or> b_dirty (nbuf k b)"
      using k'(8) t(15) lt fs c(2) by auto
    ultimately show ?thesis using t(12) by simp
  qed
qed

end

lemma touched_file:
  assumes "separated V f N" "length (file_desc V f) = 1024" "fa_off f + 32 \<le> 1024"
  shows "n < N \<Longrightarrow> file_trail (touched f t V) f n = file_trail V f n"
    "q < N * 1024 \<Longrightarrow> file_byte (touched f t V) f q = file_byte V f q"
    "file_size (touched f t V) f = file_size V f" "file_mode (touched f t V) f = file_mode V f"
    "file_mtime (touched f t V) f = t"
proof -
  let ?V = "touched f t V"
  have d: "file_desc ?V f = put32 (fa_off f + 8) t (file_desc V f)" by (simp add: file_desc_def touched_def)
  have same: "?V (fa_dev f, ucast z) = V (fa_dev f, ucast z)" if "z \<in> set (file_trail V f n)" "n < N" for z n
    using assms(1) that by (auto simp: separated_def touched_def)
  show tr: "file_trail ?V f n = file_trail V f n" if "n < N" for n
    by (rule file_trail_cong) (use same[OF in_set_butlastD that] in \<open>auto simp: d put32_other\<close>)
  show "file_byte ?V f q = file_byte V f q" if "q < N * 1024"
  proof -
    have n: "q div 1024 < N" using that by (simp add: div_less_iff_less_mult)
    have "last (file_trail V f (q div 1024)) \<in> set (file_trail V f (q div 1024))"
      by (rule last_in_set) (simp add: file_trail_def split: prod.splits)
    from same[OF this n] show ?thesis by (simp add: file_byte_def file_block_def tr[OF n])
  qed
  show "file_size ?V f = file_size V f" unfolding file_size_def d by (simp add: word32_put32_other)
  show "file_mode ?V f = file_mode V f" unfolding file_mode_def d word16_def by (simp add: put32_other)
  show "file_mtime ?V f = t" unfolding file_mtime_def d using assms by (simp add: word32_put32)
qed

context block_disk
begin

text \<open>A buffer edited without marking it dirty: readers see the change, the disk does not have it.\<close>

lemma edit_seen:
  fixes k :: "'w kernel"
  assumes I: "cinv k" and p: "pinned k b" and e: "edit_data b f k = Some k'"
  shows "seen k' = (seen k)(block_of k b := f (b_data (nbuf k b)))" "pinned k' = pinned k" "block_of k' = block_of k"
    "cache.more k' = cache.more k" "disk k' = disk k" "b_dirty (nbuf k' b) = b_dirty (nbuf k b)"
    "length (buffers k') = length (buffers k)"
proof -
  have b: "b < length (buffers k)" "b_valid (nbuf k b)" using p by (simp_all add: pinned_def)
  have k': "k' = k\<lparr>buffers := (buffers k)[b := (nbuf k b)\<lparr>b_data := f (b_data (nbuf k b))\<rparr>]\<rparr>"
    using e unfolding edit_data_def by (rule upd_bufferE(2))
  have at: "nbuf k' a = (if a = b then (nbuf k b)\<lparr>b_data := f (b_data (nbuf k b))\<rparr> else nbuf k a)" for a
    using b by (simp add: k' nth_list_update)
  show len: "length (buffers k') = length (buffers k)" by (simp add: k')
  show bo: "block_of k' = block_of k" by (rule ext) (simp add: block_of_def at)
  have va: "b_valid (nbuf k' a) = b_valid (nbuf k a)" for a by (simp add: at)
  have dk: "disk k' = disk k" by (simp add: k')
  show "pinned k' = pinned k" by (rule ext) (simp add: pinned_def at len)
  show "cache.more k' = cache.more k" "disk k' = disk k" by (simp_all add: k')
  show "b_dirty (nbuf k' b) = b_dirty (nbuf k b)" by (simp add: at)
  show "seen k' = (seen k)(block_of k b := f (b_data (nbuf k b)))"
  proof
    fix key
    let ?L = "filter (\<lambda>a. block_of k a = key \<and> b_valid (nbuf k a)) [0..<length (buffers k)]"
    have s': "seen k' key = (case ?L of a # _ \<Rightarrow> b_data (nbuf k' a) | [] \<Rightarrow> content (disk k) key)"
      unfolding block_view_def bo len va dk by (rule refl)
    show "seen k' key = ((seen k)(block_of k b := f (b_data (nbuf k b)))) key"
    proof (cases "key = block_of k b")
      case True
      have "?L = filter (\<lambda>a. a = b) [0..<length (buffers k)]"
        using same_key[OF I _ b(1)] b(2) True by (intro filter_cong) auto
      then have "?L = [b]" using filter_upt_eq[OF b(1)] by simp
      then have "seen k' key = b_data (nbuf k' b)" unfolding s' by (simp only: list.case)
      with True show ?thesis by (simp add: at)
    next
      case False
      have n: "a \<noteq> b" if "?L = a # l" for a l
      proof -
        have "a \<in> set ?L" using that by simp
        then show ?thesis using False by auto
      qed
      show ?thesis
      proof (cases ?L)
        case Nil
        then have "seen k' key = content (disk k) key" unfolding s' by (simp only: list.case)
        moreover have "seen k key = content (disk k) key" unfolding block_view_def Nil by (simp only: list.case)
        ultimately show ?thesis using False by simp
      next
        case (Cons a l)
        then have "seen k' key = b_data (nbuf k' a)" unfolding s' by (simp only: list.case)
        moreover have "seen k key = b_data (nbuf k a)" unfolding block_view_def Cons by (simp only: list.case)
        ultimately show ?thesis using False n[OF Cons] by (simp add: at)
      qed
    qed
  qed
qed

lemma inode_write_law:
  fixes k :: "'w kernel"
  assumes I: "cinv k" "has_room k" "open_on k i f b" and al: "allocated in_range (seen k) f N" and sep: "separated (seen k) f N"
    and mode: "ISFILE (file_mode (seen k) f)" and le: "unat offset + unat len \<le> N * 1024"
  shows "\<exists>k' V. inode_write i buf len offset k = Some (len, k') \<and> umem k' = umem k
    \<and> written N f (unat offset) (map (umem k) [buf ..< buf + unat len]) (seen k) V
    \<and> seen k' = touched f (sys_time k) V
    \<and> (0 < unat len \<and> file_size (seen k) f < unat offset + unat len \<longrightarrow> cinv k' \<and> has_room k' \<and> open_on k' i f b)
    \<and> (unat offset + unat len \<le> file_size (seen k) f \<longrightarrow> \<not> b_dirty (nbuf k b)
        \<longrightarrow> file_mtime (content (disk k')) f = file_mtime (seen k) f)"
proof -
  have off: "fa_off f + 32 \<le> 1024" using al by (simp add: allocated_def)
  obtain k1 where 1: "write_loop i buf len offset k = Some (offset + len, k1)" "cinv k1" "has_room k1" "open_on k1 i f b"
    "cache.more k1 = cache.more k"
    "written N f (unat offset) (map (umem k) [buf ..< buf + unat len]) (seen k) (seen k1)"
    "0 < unat len \<and> file_size (seen k) f < unat offset + unat len \<longrightarrow> b_dirty (nbuf k1 b)"
    "b_dirty (nbuf k1 b) \<longrightarrow> file_size (seen k) f < unat offset + unat len \<or> b_dirty (nbuf k b)"
    using write_loop_law[OF I al sep le, of buf] by blast
  let ?t = "sys_time k"
  have st: "sys_time k1 = ?t" using more_kernel[OF 1(5)] by (simp add: sys_time_def)
  let ?k2 = "k1\<lparr>inode_table := (inode_table k1)[i := (inode_table k1 ! i)\<lparr>i_atime := ?t\<rparr>]\<rparr>"
  have i: "i < length (inode_table k1)" using 1(4) by (auto simp: open_on_def get_inode_def rd_def split: if_splits)
  have u2: "upd_inode i (\<lambda>n. n\<lparr>i_atime := sys_time k1\<rparr>) k1 = Some ?k2"
    using i st by (simp add: upd_inode_def get_inode_def rd_def)
  have op2: "open_on ?k2 i f b" by (rule open_on_desc[OF 1(4)]) simp_all
  have I2: "cinv ?k2" "seen ?k2 = seen k1" "has_room ?k2" using 1(2,3) by simp_all
  note pd = pinned_desc[OF I2(1) op2]
  have pin: "pinned ?k2 b" and bb: "b < length (buffers ?k2)" and blk: "block_of ?k2 b = (fa_dev f, fa_block f)"
    using op2 by (simp_all add: open_on_def pinned_def)
  let ?f = "put32 (fa_off f + 8) ?t"
  obtain k3 where 3: "edit_data b ?f ?k2 = Some k3" by (rule edit_data_some[OF bb])
  note es = edit_seen[OF I2(1) pin 3]
  have "sys_time ?k2 = ?t" using st by (simp add: sys_time_def)
  then have m3: "set_mtime i (sys_time ?k2) ?k2 = Some k3"
    using desc_fields(3)[OF I2(1) op2 off pd] poke32_edit[OF bb, of "fa_off f + 8" ?t] pd(2) off 3 by (simp add: set_mtime_def)
  have V3: "seen k3 = touched f ?t (seen k1)" using es(1) blk pd(1) I2(2) by (simp add: touched_def)
  have op3: "open_on k3 i f b" using op2 es(2,3) more_kernel(9)[OF es(4)] by (simp add: open_on_def)
  have um3: "umem k3 = umem k" using more_kernel(1)[OF es(4)] more_kernel(1)[OF 1(5)] by simp
  have run: "inode_write i buf len offset k = do { k' \<leftarrow> bwrite b k3; Some (len, k') }"
    using desc_fields(1)[OF I(1,3) off pinned_desc[OF I(1,3)]] mode 1(1) u2 m3 op3 st
    by (auto simp: inode_write_def check_def open_on_def)
  show ?thesis
  proof (cases "b_dirty (nbuf k1 b)")
    case False
    then have d3: "\<not> b_dirty (nbuf k3 b)" "b < length (buffers k3)" using es(6,7) bb by simp_all
    then have "bwrite b k3 = Some k3" by (simp add: bwrite_def rd_def)
    moreover have "file_mtime (content (disk k3)) f = file_mtime (seen k) f"
    proof -
      have "b_data (nbuf ?k2 b) = content (disk ?k2) (block_of ?k2 b)"
        by (rule cinvD(10)[OF I2(1) bb]) (use pin False in \<open>simp_all add: pinned_def\<close>)
      then have "file_desc (content (disk k3)) f = file_desc (seen k1) f"
        using pd(1) es(5) blk I2(2) by (simp add: file_desc_def)
      then show ?thesis using writtenD(6)[OF 1(6)] by (simp add: file_mtime_def word32_def word16_def)
    qed
    ultimately show ?thesis using run um3 1(6,7) V3 False by auto
  next
    case True
    have "b_valid (nbuf ?k2 b)" "0 < b_count (nbuf ?k2 b)" using pin by (simp_all add: pinned_def)
    then obtain k3' where "modify_buffer b ?f ?k2 = Some k3'" "cinv k3'" "free_list k3' = free_list ?k2"
      by (rule modify_law[where f = ?f, OF I2(1) bb]) (use pd(2) in simp_all)
    moreover have "edit_data b ?f ?k2 = modify_buffer b ?f ?k2" by (rule edit_dirty[OF bb]) (use True in simp)
    ultimately have c3: "cinv k3" "free_list k3 = free_list ?k2" using 3 by simp_all
    have o3: "only b ?k2 k3" using 3 unfolding edit_data_def by (rule only_upd)
    have room3: "has_room k3" using only_room[OF o3] c3(2) I2(3) by simp
    have bb3: "b < length (buffers k3)" using es(7) bb by simp
    obtain k4 where 4: "bwrite b k3 = Some k4" "cinv k4" "seen k4 = seen k3" "length (buffers k4) = length (buffers k3)"
      "nbuf k4 b = (nbuf k3 b)\<lparr>b_dirty := False\<rparr>" "block_of k4 b = block_of k3 b" "free_list k4 = free_list k3"
      by (rule bwrite_law[OF c3(1) bb3]) simp
    have o4: "only b k3 k4" by (rule bwrite_frame(1)[OF 4(1)])
    have "open_on k4 i f b"
      using op3 4(4,5,6) more_kernel(9)[of k4 k3 i] o4 by (simp add: open_on_def pinned_def only_def)
    moreover have "has_room k4" using only_room[OF o4] 4(7) room3 by simp
    moreover have "umem k4 = umem k" using more_kernel(1)[of k4 k3] o4 um3 by (simp add: only_def)
    ultimately show ?thesis using run 4 V3 1(6,7,8) True by auto
  qed
qed

end

section \<open>Properties\<close>

lemma sample_separated: "separated (ram_view 1 sample_fs) sample_file 2"
  unfolding separated_def using sample_file_fields(3) by (auto simp: sample_file_def less_2_cases_iff)

text \<open>
  C8: writing a file within the blocks it has replaces exactly the bytes written. On a
  consistent block cache over the memory disks, for an open regular file whose first \<open>N\<close>
  blocks are there and used once, \<^verbatim>\<open>inode_write\<close> of bytes that fit into these blocks returns their
  number; the file then has these bytes at the offset, its other bytes and its block map
  as before, the larger of its old size and the end of the write as size, and the
  current time as modification time. Of the blocks outside the file none changes, and of the block of the
  descriptor only the size and the time. When the file grows, the cache is consistent again.
\<close>

theorem inode_write_writes_file:
  assumes "ram_cache_inv base k" and "has_room k" and "open_on k i f b"
    and "allocated (ram_range base) (ram_view base k) f N" and "separated (ram_view base k) f N"
    and "ISFILE (file_mode (ram_view base k) f)" and "unat offset + unat len \<le> N * 1024"
  shows "\<exists>k' V. inode_write i buf len offset k = Some (len, k') \<and> umem k' = umem k
    \<and> written N f (unat offset) (map (umem k) [buf ..< buf + unat len]) (ram_view base k) V
    \<and> ram_view base k' = touched f (sys_time k) V
    \<and> (0 < unat len \<and> file_size (ram_view base k) f < unat offset + unat len
        \<longrightarrow> ram_cache_inv base k' \<and> has_room k' \<and> open_on k' i f b)"
  using rdk.inode_write_law[OF assms, of buf] by blast

lemma inode_write_writes_file_witness:
  "\<exists>k' V. inode_write 0 4096 100 1450 sample_fs = Some (100, k') \<and> umem k' = umem sample_fs
    \<and> written 2 sample_file 1450 (replicate 100 0xAA) (ram_view 1 sample_fs) V
    \<and> ram_view 1 k' = touched sample_file 1000 V \<and> ram_cache_inv 1 k'"
proof -
  have u: "map (umem sample_fs) [4096 ..< 4096 + unat (100 :: u32)] = replicate 100 0xAA"
    by (rule replicate_eqI) (auto simp: sample_fs_def)
  have t: "sys_time sample_fs = 1000" by (simp add: sys_time_def sample_fs_def sample_sched_def)
  show ?thesis
    using inode_write_writes_file[OF sample_fs_inv sample_fs_room sample_fs_open sample_allocated sample_separated, of 1450 100 4096]
    unfolding u t by (simp add: sample_file_fields file_type_def) blast
qed

text \<open>
  C10: what is written to a file is read back. After a write that makes the file longer, within
  the blocks it has, reading as many bytes at the same offset into any part of memory
  returns all of them, and the memory there holds the bytes that were written.
\<close>

theorem inode_read_after_write:
  assumes "ram_cache_inv base k" and "has_room k" and "open_on k i f b"
    and "allocated (ram_range base) (ram_view base k) f N" and "separated (ram_view base k) f N"
    and "ISFILE (file_mode (ram_view base k) f)" and "unat offset + unat len \<le> N * 1024"
    and "0 < len" and "file_size (ram_view base k) f < unat offset + unat len"
  shows "\<exists>k1 k2. inode_write i buf len offset k = Some (len, k1) \<and> inode_read i buf' len offset k1 = Some (len, k2)
    \<and> umem k2 = put_bytes (umem k) buf' (map (umem k) [buf ..< buf + unat len])"
proof -
  let ?bs = "map (umem k) [buf ..< buf + unat len]"
  have l: "0 < unat len" using assms(8) by (simp add: unat_gt_0 word_neq_0_conv)
  obtain k1 V where 1: "inode_write i buf len offset k = Some (len, k1)" "umem k1 = umem k"
    "written N f (unat offset) ?bs (ram_view base k) V" "ram_view base k1 = touched f (sys_time k) V"
    "ram_cache_inv base k1" "has_room k1" "open_on k1 i f b"
    using rdk.inode_write_law[OF assms(1-7), of buf] l assms(9) by blast
  note al = allocated_written[OF 1(3) assms(4)] and sep = separated_written[OF 1(3) assms(5)]
  have d: "length (file_desc V f) = 1024" "fa_off f + 32 \<le> 1024"
    using writtenD(5)[OF 1(3)] rdk.pinned_desc[OF assms(1,3)] assms(4) by (simp_all add: allocated_def)
  note t = touched_file[OF sep d, where t = "sys_time k", folded 1(4)]
  have "file_mode V f = file_mode (ram_view base k) f"
    using writtenD(6)[OF 1(3)] by (simp add: file_mode_def word16_def)
  then have mode: "ISFILE (file_mode (ram_view base k1) f)" using t(4) assms(6) by simp
  have size: "file_size (ram_view base k1) f = unat offset + unat len"
    using t(3) writtenD(3)[OF 1(3)] l assms(9) by simp
  have al1: "allocated (ram_range base) (ram_view base k1) f N" using al t(1) by (simp add: allocated_def)
  have "file_bytes (ram_view base k1) f (unat offset) (unat len) = ?bs"
  proof (rule nth_equalityI)
    fix j assume "j < length (file_bytes (ram_view base k1) f (unat offset) (unat len))"
    then have j: "j < unat len" "unat offset + j < N * 1024" using assms(7) by simp_all
    then show "file_bytes (ram_view base k1) f (unat offset) (unat len) ! j = ?bs ! j"
      using t(2)[OF j(2)] writtenD(2)[OF 1(3) j(2)] by (simp add: file_bytes_def)
  qed simp
  then show ?thesis
    using rdk.inode_read_law[OF 1(5-7) al1, of buf' len offset] mode size assms(7) l 1(1,2) by auto
qed

lemma inode_read_after_write_witness:
  "\<exists>k1 k2. inode_write 0 4096 100 1450 sample_fs = Some (100, k1) \<and> inode_read 0 9000 100 1450 k1 = Some (100, k2)
    \<and> umem k2 = put_bytes (umem sample_fs) 9000 (map (umem sample_fs) [4096 ..< 4196])"
  using inode_read_after_write[OF sample_fs_inv sample_fs_room sample_fs_open sample_allocated sample_separated, of 1450 100 4096 9000]
  by (simp add: sample_file_fields file_type_def)

text \<open>
  C38: overwriting a file does not save its modification time. When the buffer of the descriptor
  has no unsaved change and a write does not make the file longer, \<^verbatim>\<open>inode_write\<close> sets the new time in the buffer of the descriptor but does not mark the
  buffer dirty, and \<^verbatim>\<open>bwrite\<close> then writes nothing: readers of the cache see the current time,
  while the disk keeps the old one, which is what remains when the buffer is given to another block.
\<close>

theorem overwrite_loses_mtime:
  assumes "ram_cache_inv base k" and "has_room k" and "open_on k i f b" and "\<not> b_dirty (nbuf k b)"
    and "allocated (ram_range base) (ram_view base k) f N" and "separated (ram_view base k) f N"
    and "ISFILE (file_mode (ram_view base k) f)" and "unat offset + unat len \<le> N * 1024"
    and "unat offset + unat len \<le> file_size (ram_view base k) f"
  shows "\<exists>k'. inode_write i buf len offset k = Some (len, k')
    \<and> file_mtime (ram_view base k') f = sys_time k
    \<and> file_mtime (ram_content base (disk k')) f = file_mtime (ram_view base k) f"
proof -
  obtain k' V where 1: "inode_write i buf len offset k = Some (len, k')"
    "written N f (unat offset) (map (umem k) [buf ..< buf + unat len]) (ram_view base k) V"
    "ram_view base k' = touched f (sys_time k) V"
    "file_mtime (ram_content base (disk k')) f = file_mtime (ram_view base k) f"
    using rdk.inode_write_law[OF assms(1-3,5-8), of buf] assms(4,9) by blast
  have d: "length (file_desc V f) = 1024" "fa_off f + 32 \<le> 1024"
    using writtenD(5)[OF 1(2)] rdk.pinned_desc[OF assms(1,3)] assms(5) by (simp_all add: allocated_def)
  then have "file_mtime (ram_view base k') f = sys_time k"
    using touched_file(5)[OF separated_written[OF 1(2) assms(6)] d] 1(3) by simp
  with 1(1,4) show ?thesis by blast
qed

lemma overwrite_loses_mtime_witness:
  "\<exists>k'. inode_write 0 4096 100 20 sample_fs = Some (100, k')
    \<and> file_mtime (ram_view 1 k') sample_file = 1000 \<and> file_mtime (ram_content 1 (disk k')) sample_file = 0"
proof -
  have t: "sys_time sample_fs = 1000" by (simp add: sys_time_def sample_fs_def sample_sched_def)
  have "\<not> b_dirty (nbuf sample_fs 0)" by (simp add: sample_fs_def)
  moreover have "file_mtime (ram_view 1 sample_fs) sample_file = 0"
    unfolding file_mtime_def sample_fs_view using sample_zones(5) by (simp add: sample_file_def)
  ultimately show ?thesis
    using overwrite_loses_mtime[OF sample_fs_inv sample_fs_room sample_fs_open _ sample_allocated sample_separated, of 20 100 4096]
    by (simp add: t sample_file_fields file_type_def)
qed

end
