(* ===== verification/Namei.thy ===== *)
theory Namei
  imports Inode
begin

text \<open>
  \<^verbatim>\<open>fs/namei.c\<close>: directories, path names and the system calls on them. A directory entry is
  known by the buffer that holds it and its position there (inode number at +0, name at +2).
  Path names lie in \<open>umem\<close>. Functions that return an inode or \<^verbatim>\<open>NULL\<close> return an option.
\<close>

section \<open>Directory entries\<close>

text \<open>\<^verbatim>\<open>match_name\<close>: \<open>None\<close> is \<^verbatim>\<open>false\<close>, otherwise the new \<^verbatim>\<open>*next\<close>. The entry's name is the list
  of the bytes from its start to the end of its block.\<close>

fun match_name :: "mem \<Rightarrow> ptr \<Rightarrow> u8 list \<Rightarrow> ptr option option" where
  "match_name m lhs [] = None"
| "match_name m lhs (r # rs) =
     (if m lhs = r \<and> r \<noteq> EOS then match_name m (lhs + 1) rs
      else if r \<noteq> EOS then Some None
      else if m lhs \<noteq> EOS \<and> \<not> is_separator (m lhs) then Some None
      else Some (Some (if is_separator (m lhs) then lhs + 1 else lhs)))"

definition entry_nr :: "nat \<times> nat \<Rightarrow> 'w kernel \<Rightarrow> u16 option" where
  "entry_nr e k = peek16 (fst e) (snd e) k"

definition set_entry_nr :: "nat \<times> nat \<Rightarrow> u16 \<Rightarrow> 'w kernel \<Rightarrow> 'w kernel option" where
  "set_entry_nr e nr k = poke16 (fst e) (snd e) nr k"

definition entry_name :: "nat \<times> nat \<Rightarrow> 'w kernel \<Rightarrow> u8 list option" where
  "entry_name e k = do { bf \<leftarrow> rd (buffers k) (fst e); Some (drop (snd e + 2) (b_data bf)) }"

text \<open>The start of every turn of the loops over a directory: the next block when one is used up.\<close>

definition entry_block ::
    "nat \<Rightarrow> u32 \<Rightarrow> bool \<Rightarrow> nat option \<Rightarrow> nat \<Rightarrow> 'w kernel \<Rightarrow> (nat \<times> nat \<times> 'w kernel) option" where
  "entry_block dir i create buf pos k =
     (case buf of
        Some b \<Rightarrow> if pos < BLOCK_SIZE then Some (b, pos, k) else do {
          k \<leftarrow> brelse buf k;
          (block, k) \<leftarrow> bmap dir (i div BLOCK_DENTRIES) create k;
          check (block \<noteq> 0);
          n \<leftarrow> get_inode dir k;
          (b, k) \<leftarrow> bread (i_dev n) block k;
          Some (b, 0, k) }
      | None \<Rightarrow> do {
          (block, k) \<leftarrow> bmap dir (i div BLOCK_DENTRIES) create k;
          check (block \<noteq> 0);
          n \<leftarrow> get_inode dir k;
          (b, k) \<leftarrow> bread (i_dev n) block k;
          Some (b, 0, k) })"

fun find_loop :: "nat \<Rightarrow> u32 \<Rightarrow> nat \<Rightarrow> ptr \<Rightarrow> ptr \<Rightarrow> nat option \<Rightarrow> nat \<Rightarrow> 'w kernel
    \<Rightarrow> ((nat \<times> nat) option \<times> ptr \<times> 'w kernel) option" where
  "find_loop 0 i dir name next buf pos k = do {
     k \<leftarrow> brelse buf k;
     Some (None, next, k)
   }"
| "find_loop (Suc left) i dir name next buf pos k = do {
     (b, pos, k) \<leftarrow> entry_block dir i False buf pos k;
     ename \<leftarrow> entry_name (b, pos) k;
     nr \<leftarrow> entry_nr (b, pos) k;
     hit \<leftarrow> match_name (umem k) name ename;
     let next = (case hit of Some p \<Rightarrow> p | None \<Rightarrow> next);
     if hit \<noteq> None \<and> nr \<noteq> 0 then Some (Some (b, pos), next, k)
     else find_loop left (i + 1) dir name next (Some b) (pos + 16) k
   }"

text \<open>\<^verbatim>\<open>find_entry\<close> returns the directory too: \<^verbatim>\<open>..\<close> in the root of a mounted device leaves the device.\<close>

definition find_entry :: "nat \<Rightarrow> ptr \<Rightarrow> ptr \<Rightarrow> 'w kernel \<Rightarrow> (nat \<times> (nat \<times> nat) option \<times> ptr \<times> 'w kernel) option" where
  "find_entry dir name next k = do {
     mode \<leftarrow> mode_of dir k;
     check (ISDIR mode);
     up \<leftarrow> match_name (umem k) name [46, 46, 0];
     let next = (case up of Some p \<Rightarrow> p | None \<Rightarrow> next);
     n \<leftarrow> get_inode dir k;
     (dir, k) \<leftarrow> (if up \<noteq> None \<and> i_nr n = 1 then do {
         sb \<leftarrow> get_super (i_dev n) k;
         s \<leftarrow> get_sb sb k;
         m \<leftarrow> s_imount s;
         k \<leftarrow> upd_inode m (\<lambda>n. n\<lparr>i_count := i_count n + 1\<rparr>) k;
         k \<leftarrow> iput (Some dir) k;
         Some (m, k) }
       else Some (dir, k));
     sz \<leftarrow> size_of dir k;
     (found, next, k) \<leftarrow> find_loop (unat (sz div 16)) 0 dir name next None 0 k;
     Some (dir, found, next, k)
   }"

text \<open>The bytes \<^verbatim>\<open>strncpy\<close> writes for a count of \<open>Suc n\<close>; \<open>strncpy_bytes\<close> relates the two.\<close>

fun strncpy_list :: "mem \<Rightarrow> ptr \<Rightarrow> nat \<Rightarrow> u8 list" where
  "strncpy_list m src 0 = [EOS]"
| "strncpy_list m src (Suc n) = m src # (if m src = EOS then [] else strncpy_list m (src + 1) n)"

fun name_ok :: "nat \<Rightarrow> ptr \<Rightarrow> mem \<Rightarrow> bool" where
  "name_ok 0 name m = True"
| "name_ok (Suc left) name m = (m name = EOS \<or> \<not> is_separator (m name) \<and> name_ok left (name + 1) m)"

partial_function (option) add_loop :: "u32 \<Rightarrow> nat \<Rightarrow> ptr \<Rightarrow> nat option \<Rightarrow> nat \<Rightarrow> 'w kernel \<Rightarrow> ((nat \<times> nat) \<times> 'w kernel) option" where
  "add_loop i dir name buf pos k =
     Option.bind (entry_block dir i True buf pos k) (\<lambda>(b, pos, k).
     Option.bind (size_of dir k) (\<lambda>sz.
     Option.bind (if i * 16 \<ge> sz then do {
         k \<leftarrow> set_entry_nr (b, pos) 0 k;
         k \<leftarrow> set_size dir ((i + 1) * 16) k;
         inode_dirty dir k }
       else Some k) (\<lambda>k.
     Option.bind (entry_nr (b, pos) k) (\<lambda>nr.
     if nr \<noteq> 0 then add_loop (i + 1) dir name (Some b) (pos + 16) k
     else do {
       k \<leftarrow> put_data b (pos + 2) (strncpy_list (umem k) name (NAME_LEN - 1)) k;
       k \<leftarrow> mark_dirty b k;
       k \<leftarrow> set_mtime dir (sys_time k) k;
       k \<leftarrow> inode_dirty dir k;
       Some ((b, pos), k) }))))"

definition add_entry :: "nat \<Rightarrow> ptr \<Rightarrow> 'w kernel \<Rightarrow> ((nat \<times> nat) \<times> 'w kernel) option" where
  "add_entry dir name k = do {
     (dir, found, next, k) \<leftarrow> find_entry dir name 0 k;
     case found of
       Some e \<Rightarrow> Some (e, k)
     | None \<Rightarrow> do {
         check (name_ok NAME_LEN name (umem k));
         add_loop 0 dir name None 0 k }
   }"

definition permission :: "nat \<Rightarrow> u16 \<Rightarrow> 'w kernel \<Rightarrow> bool option" where
  "permission inode msk k = do {
     mode \<leftarrow> mode_of inode k;
     nlinks \<leftarrow> nlinks_of inode k;
     if nlinks = 0 then Some False
     else do {
       task \<leftarrow> current_task k;
       uid \<leftarrow> uid_of inode k;
       gid \<leftarrow> gid_of inode k;
       if t_uid task = KERNEL_USER then Some True
       else do {
         let mode = (if t_uid task = ucast uid then drop_bit 6 mode
                     else if t_gid task = ucast gid then drop_bit 3 mode else mode);
         Some (mode AND msk AND 7 = msk)
       }
     }
   }"

section \<open>Path names\<close>

text \<open>
  The loop of \<^verbatim>\<open>named\<close>, which walks the directories of a path up to \<open>right\<close>. As in the code the
  buffer of the last entry is not released on the way out.
\<close>

partial_function (option) named_loop ::
    "nat \<Rightarrow> ptr \<Rightarrow> ptr \<Rightarrow> nat option \<Rightarrow> ptr \<Rightarrow> 'w kernel \<Rightarrow> (nat option \<times> ptr \<times> 'w kernel) option" where
  "named_loop inode left right buf next k =
     Option.bind (brelse buf k) (\<lambda>k.
     Option.bind (find_entry inode left next k) (\<lambda>(inode, found, next, k).
     case found of
       None \<Rightarrow> do { k \<leftarrow> iput (Some inode) k; Some (None, next, k) }
     | Some e \<Rightarrow>
         Option.bind (do {
             n \<leftarrow> get_inode inode k;
             k \<leftarrow> iput (Some inode) k;
             nr \<leftarrow> entry_nr e k;
             (inode, k) \<leftarrow> iget (i_dev n) (ucast nr) k;
             mode \<leftarrow> mode_of inode k;
             ok \<leftarrow> (if ISDIR mode then permission inode P_EXEC k else Some False);
             Some (inode, ok, k) }) (\<lambda>(inode, ok, k).
         if \<not> ok then do { k \<leftarrow> iput (Some inode) k; Some (None, next, k) }
         else if right = next then Some (Some inode, next, k)
         else named_loop inode next right (Some (fst e)) next k)))"

definition named :: "ptr \<Rightarrow> ptr \<Rightarrow> 'w kernel \<Rightarrow> (nat option \<times> ptr \<times> 'w kernel) option" where
  "named pathname next k = do {
     task \<leftarrow> current_task k;
     if umem k pathname \<noteq> EOS then do {
       let absolute = is_separator (umem k pathname);
       inode \<leftarrow> (if absolute then t_iroot task else t_ipwd task);
       let left = (if absolute then pathname + 1 else pathname);
       k \<leftarrow> upd_inode inode (\<lambda>n. n\<lparr>i_count := i_count n + 1\<rparr>) k;
       if umem k left = EOS then Some (Some inode, left, k)
       else do {
         right \<leftarrow> strrsep left (umem k);
         case right of
           None \<Rightarrow> Some (Some inode, left, k)
         | Some r \<Rightarrow> if r < left then Some (Some inode, left, k)
             else named_loop inode left (r + 1) None left k
       }
     }
     else Some (None, next, k)
   }"

definition namei :: "ptr \<Rightarrow> 'w kernel \<Rightarrow> (nat option \<times> 'w kernel) option" where
  "namei pathname k = do {
     (found, next, k) \<leftarrow> named pathname 0 k;
     case found of
       None \<Rightarrow> Some (None, k)
     | Some dir \<Rightarrow>
         if umem k next = EOS then Some (Some dir, k)
         else do {
           (dir, entry, next, k) \<leftarrow> find_entry dir next next k;
           case entry of
             None \<Rightarrow> do { k \<leftarrow> iput (Some dir) k; Some (None, k) }
           | Some e \<Rightarrow> do {
               n \<leftarrow> get_inode dir k;
               nr \<leftarrow> entry_nr e k;
               (inode, k) \<leftarrow> iget (i_dev n) (ucast nr) k;
               k \<leftarrow> iput (Some dir) k;
               k \<leftarrow> brelse (Some (fst e)) k;
               Some (Some inode, k) }
         }
   }"

text \<open>The common ends of the system calls: the releases behind the label \<^verbatim>\<open>rollback\<close>.\<close>

definition release :: "nat option \<Rightarrow> nat option \<Rightarrow> nat option \<Rightarrow> 'w kernel \<Rightarrow> 'w kernel option" where
  "release buf inode inode' k = do { k \<leftarrow> brelse buf k; k \<leftarrow> iput inode k; iput inode' k }"

text \<open>\<^verbatim>\<open>inode_open\<close> from the label \<^verbatim>\<open>makeup\<close> on.\<close>

definition open_makeup :: "nat \<Rightarrow> nat \<Rightarrow> nat option \<Rightarrow> u32 \<Rightarrow> 'w kernel \<Rightarrow> (nat option \<times> 'w kernel) option" where
  "open_makeup dir inode buf flag k = do {
     ok \<leftarrow> permission inode (ACC_MODE flag) k;
     mode \<leftarrow> mode_of inode k;
     if \<not> ok \<or> ISDIR mode \<and> flag AND O_ACCMODE \<noteq> O_RDONLY then do {
       k \<leftarrow> release buf (Some dir) (Some inode) k;
       Some (None, k) }
     else do {
       k \<leftarrow> upd_inode inode (\<lambda>n. n\<lparr>i_atime := sys_time k\<rparr>) k;
       k \<leftarrow> (if flag AND O_TRUNC \<noteq> 0 then inode_truncate inode k else Some k);
       k \<leftarrow> brelse buf k;
       k \<leftarrow> iput (Some dir) k;
       Some (Some inode, k) }
   }"

definition inode_open :: "ptr \<Rightarrow> u32 \<Rightarrow> u32 \<Rightarrow> 'w kernel \<Rightarrow> (nat option \<times> 'w kernel) option" where
  "inode_open pathname flag mode k = do {
     (found, next, k) \<leftarrow> named pathname 0 k;
     case found of
       None \<Rightarrow> Some (None, k)
     | Some dir \<Rightarrow>
         if umem k next = EOS then Some (Some dir, k)
         else do {
           let flag = (if flag AND O_TRUNC \<noteq> 0 \<and> flag AND O_ACCMODE = O_RDONLY then flag OR O_RDWR else flag);
           let name = next;
           (dir, entry, next, k) \<leftarrow> find_entry dir name next k;
           case entry of
             Some e \<Rightarrow> do {
               n \<leftarrow> get_inode dir k;
               nr \<leftarrow> entry_nr e k;
               (inode, k) \<leftarrow> iget (i_dev n) (ucast nr) k;
               open_makeup dir inode (Some (fst e)) flag k }
           | None \<Rightarrow>
               if flag AND O_CREAT = 0 then do { k \<leftarrow> release None (Some dir) None k; Some (None, k) }
               else do {
                 ok \<leftarrow> permission dir P_WRITE k;
                 if \<not> ok then do { k \<leftarrow> release None (Some dir) None k; Some (None, k) }
                 else do {
                   (e, k) \<leftarrow> add_entry dir name k;
                   n \<leftarrow> get_inode dir k;
                   (nr, k) \<leftarrow> ialloc (i_dev n) k;
                   k \<leftarrow> set_entry_nr e (ucast nr) k;
                   nr \<leftarrow> entry_nr e k;
                   (inode, k) \<leftarrow> new_inode (i_dev n) (ucast nr) k;
                   task \<leftarrow> current_task k;
                   let mode = ucast (mode AND (0x1FF AND NOT (ucast (t_umask task)))) OR IFREG;
                   k \<leftarrow> set_mode inode mode k;
                   open_makeup dir inode (Some (fst e)) flag k
                 }
               }
         }
   }"

text \<open>
  \<^verbatim>\<open>abspath\<close> turns the path of the working directory into that of \<open>pathname\<close> taken from there.
  \<open>pwd_up\<close> is its repeated step "up one directory", the loop walks the directories of
  \<open>pathname\<close>; \<open>cur\<close> is where the path in \<open>pwd\<close> ends. Both paths are changed in place.
\<close>

definition pwd_up :: "ptr \<Rightarrow> ptr \<Rightarrow> mem \<Rightarrow> (ptr \<times> mem) option" where
  "pwd_up pwd cur m =
     (if cur - 1 \<noteq> pwd then do {
        let m = m(cur - 1 := EOS);
        sep \<leftarrow> strrsep pwd m;
        s \<leftarrow> sep;
        Some (s + 1, m(s + 1 := EOS)) }
      else Some (cur, m))"

definition dot_slash :: "u8 list" where "dot_slash = [46, 47]"
definition dot_dot_slash :: "u8 list" where "dot_dot_slash = [46, 46, 47]"

definition starts :: "u8 list \<Rightarrow> ptr \<Rightarrow> mem \<Rightarrow> bool" where
  "starts bs p m = (map m [p ..< p + length bs] = bs)"

partial_function (option) abspath_loop :: "ptr \<Rightarrow> ptr \<Rightarrow> ptr \<Rightarrow> mem \<Rightarrow> (ptr \<times> ptr \<times> mem) option" where
  "abspath_loop pwd cur pathname m =
     (if m pathname = EOS then Some (cur, pathname, m)
      else Option.bind (strsep pathname m) (\<lambda>sep.
        case sep of
          None \<Rightarrow> Some (cur, pathname, m)
        | Some p \<Rightarrow>
            let len = p - pathname + 1; m = m(p := 47) in
            Option.bind
              (if starts dot_slash pathname m then Some (cur, m)
               else if starts dot_dot_slash pathname m then pwd_up pwd cur m
               else Some (cur + len, snd (strncpy cur pathname (len + 1) m)))
              (\<lambda>(cur, m). abspath_loop pwd cur (pathname + len) m)))"

definition abspath :: "ptr \<Rightarrow> ptr \<Rightarrow> mem \<Rightarrow> mem option" where
  "abspath pwd pathname m = do {
     (cur, pathname, m) \<leftarrow>
       (if is_separator (m pathname) then Some (pwd + 1, pathname + 1, m(pwd + 1 := EOS))
        else do {
          sep \<leftarrow> strrsep pwd m;
          s \<leftarrow> sep;
          Some (s + 1, pathname, m(s + 1 := EOS)) });
     (cur, pathname, m) \<leftarrow> abspath_loop pwd cur pathname m;
     if m pathname = EOS then Some m
     else if m pathname = 46 \<and> m (pathname + 1) = EOS then Some m
     else if \<not> (m pathname = 46 \<and> m (pathname + 1) = 46 \<and> m (pathname + 2) = EOS) then do {
       (_, m) \<leftarrow> strcpy cur pathname m;
       n \<leftarrow> strlen pathname m;
       Some (m(cur + n := 47, cur + n + 1 := EOS)) }
     else map_option snd (pwd_up pwd cur m)
   }"

end
