(* ===== verification/Fs_Calls.thy ===== *)
theory Fs_Calls
  imports Namei
begin

text \<open>
  The system calls of \<^verbatim>\<open>fs/namei.c\<close> and \<^verbatim>\<open>fs/stat.c\<close>. A result of -1 is \<^verbatim>\<open>EOF\<close>. The releases
  behind the labels \<^verbatim>\<open>rollback\<close> are written out at every \<^verbatim>\<open>goto\<close>, in the order of the code.
\<close>

section \<open>Links\<close>

text \<open>\<^verbatim>\<open>sys_link\<close> from \<^verbatim>\<open>named(newname)\<close> on; the rollback releases \<open>buf\<close>, the file, the directory.\<close>

definition link_into :: "nat \<Rightarrow> ptr \<Rightarrow> 'w kernel \<Rightarrow> (u32 \<times> 'w kernel) option" where
  "link_into inode newname k = do {
     (found, next, k) \<leftarrow> named newname 0 k;
     case found of
       None \<Rightarrow> do { k \<leftarrow> release None (Some inode) None k; Some (EOF, k) }
     | Some dir \<Rightarrow> do {
         d \<leftarrow> get_inode dir k;
         n \<leftarrow> get_inode inode k;
         ok \<leftarrow> (if umem k next = EOS \<or> i_dev d \<noteq> i_dev n then Some False else permission dir P_WRITE k);
         if \<not> ok then do { k \<leftarrow> release None (Some inode) (Some dir) k; Some (EOF, k) }
         else do {
           let name = next;
           (dir, entry, next, k) \<leftarrow> find_entry dir name next k;
           case entry of
             Some e \<Rightarrow> do { k \<leftarrow> release (Some (fst e)) (Some inode) (Some dir) k; Some (EOF, k) }
           | None \<Rightarrow> do {
               (dir, entry, next, k) \<leftarrow> find_entry dir name next k;
               case entry of
                 Some e \<Rightarrow> do { k \<leftarrow> release (Some (fst e)) (Some inode) (Some dir) k; Some (EOF, k) }
               | None \<Rightarrow> do {
                   (e, k) \<leftarrow> add_entry dir name k;
                   n \<leftarrow> get_inode inode k;
                   k \<leftarrow> set_entry_nr e (ucast (i_nr n)) k;
                   k \<leftarrow> mark_dirty (fst e) k;
                   links \<leftarrow> nlinks_of inode k;
                   k \<leftarrow> set_nlinks inode (links + 1) k;
                   k \<leftarrow> upd_inode inode (\<lambda>n. n\<lparr>i_ctime := sys_time k\<rparr>) k;
                   k \<leftarrow> inode_dirty inode k;
                   k \<leftarrow> release (Some (fst e)) (Some inode) (Some dir) k;
                   Some (0, k) } } } }
   }"

definition sys_link :: "ptr \<Rightarrow> ptr \<Rightarrow> 'w kernel \<Rightarrow> (u32 \<times> 'w kernel) option" where
  "sys_link oldname newname k = do {
     (found, k) \<leftarrow> namei oldname k;
     case found of
       None \<Rightarrow> Some (EOF, k)
     | Some inode \<Rightarrow> do {
         mode \<leftarrow> mode_of inode k;
         if ISDIR mode then do { k \<leftarrow> release None (Some inode) None k; Some (EOF, k) }
         else link_into inode newname k }
   }"

text \<open>
  The start of the calls that work on an entry of a directory: the directory of the path, the
  entry's name and whether the caller may write to it. The result has \<open>None\<close> for the \<^verbatim>\<open>goto
  rollback\<close>, with the directory to release.
\<close>

definition parent_of :: "ptr \<Rightarrow> 'w kernel \<Rightarrow> (nat option \<times> ptr option \<times> 'w kernel) option" where
  "parent_of pathname k = do {
     (found, next, k) \<leftarrow> named pathname 0 k;
     case found of
       None \<Rightarrow> Some (None, None, k)
     | Some dir \<Rightarrow>
         if umem k next = EOS then Some (Some dir, None, k)
         else do {
           ok \<leftarrow> permission dir P_WRITE k;
           Some (Some dir, if ok then Some next else None, k) }
   }"

definition unlink_found :: "nat \<Rightarrow> nat \<times> nat \<Rightarrow> 'w kernel \<Rightarrow> (u32 \<times> 'w kernel) option" where
  "unlink_found dir e k = do {
     d \<leftarrow> get_inode dir k;
     nr \<leftarrow> entry_nr e k;
     (inode, k) \<leftarrow> iget (i_dev d) (ucast nr) k;
     mode \<leftarrow> mode_of inode k;
     uid \<leftarrow> uid_of inode k;
     task \<leftarrow> current_task k;
     if ISDIR mode \<or> mode AND ISVTX \<noteq> 0 \<and> t_uid task \<noteq> ucast uid then do {
       k \<leftarrow> release (Some (fst e)) (Some inode) (Some dir) k;
       Some (EOF, k) }
     else do {
       k \<leftarrow> set_entry_nr e 0 k;
       k \<leftarrow> mark_dirty (fst e) k;
       links \<leftarrow> nlinks_of inode k;
       k \<leftarrow> set_nlinks inode (links - 1) k;
       k \<leftarrow> inode_dirty inode k;
       links \<leftarrow> nlinks_of inode k;
       k \<leftarrow> (if links = 0 then do {
               k \<leftarrow> inode_truncate inode k;
               n \<leftarrow> get_inode inode k;
               ifree (i_dev n) (i_nr n) k }
             else Some k);
       k \<leftarrow> release (Some (fst e)) (Some inode) (Some dir) k;
       Some (0, k) }
   }"

definition sys_unlink :: "ptr \<Rightarrow> 'w kernel \<Rightarrow> (u32 \<times> 'w kernel) option" where
  "sys_unlink filename k = do {
     (dir, name, k) \<leftarrow> parent_of filename k;
     case (dir, name) of
       (Some d, Some name) \<Rightarrow> do {
         (d, entry, next, k) \<leftarrow> find_entry d name name k;
         case entry of
           None \<Rightarrow> do { k \<leftarrow> release None None (Some d) k; Some (EOF, k) }
         | Some e \<Rightarrow> unlink_found d e k }
     | _ \<Rightarrow> do { k \<leftarrow> release None None dir k; Some (EOF, k) }
   }"

section \<open>Directories\<close>

definition sys_chdir :: "ptr \<Rightarrow> 'w kernel \<Rightarrow> (u32 \<times> 'w kernel) option" where
  "sys_chdir pathname k = do {
     task \<leftarrow> current_task k;
     (found, k) \<leftarrow> namei pathname k;
     case found of
       None \<Rightarrow> Some (EOF, k)
     | Some inode \<Rightarrow> do {
         mode \<leftarrow> mode_of inode k;
         if \<not> ISDIR mode \<or> t_ipwd task = Some inode then do { k \<leftarrow> iput (Some inode) k; Some (EOF, k) }
         else do {
           m \<leftarrow> abspath (t_pwd task) pathname (umem k);
           k \<leftarrow> iput (t_ipwd task) (k\<lparr>umem := m\<rparr>);
           k \<leftarrow> upd_current (\<lambda>t. t\<lparr>t_ipwd := Some inode\<rparr>) k;
           Some (0, k) } }
   }"

definition sys_chroot :: "ptr \<Rightarrow> 'w kernel \<Rightarrow> (u32 \<times> 'w kernel) option" where
  "sys_chroot pathname k = do {
     task \<leftarrow> current_task k;
     (found, k) \<leftarrow> namei pathname k;
     case found of
       None \<Rightarrow> Some (EOF, k)
     | Some inode \<Rightarrow> do {
         mode \<leftarrow> mode_of inode k;
         if \<not> ISDIR mode \<or> t_ipwd task = Some inode then do { k \<leftarrow> iput (Some inode) k; Some (EOF, k) }
         else do {
           k \<leftarrow> iput (t_iroot task) k;
           k \<leftarrow> upd_current (\<lambda>t. t\<lparr>t_iroot := Some inode\<rparr>) k;
           Some (0, k) } }
   }"

definition sys_getcwd :: "ptr \<Rightarrow> u32 \<Rightarrow> 'w kernel \<Rightarrow> (ptr \<times> 'w kernel) option" where
  "sys_getcwd buf sz k = do {
     task \<leftarrow> current_task k;
     Some (buf, k\<lparr>umem := snd (strncpy buf (t_pwd task) (unat sz) (umem k))\<rparr>)
   }"

text \<open>The two entries of a new directory, as \<^verbatim>\<open>sys_mkdir\<close> and \<^verbatim>\<open>devmkfs\<close> write them.\<close>

definition dot_entries :: "nat \<Rightarrow> u16 \<Rightarrow> 'w kernel \<Rightarrow> 'w kernel option" where
  "dot_entries b nr k = do {
     k \<leftarrow> put_data b 2 [46, 0] k;
     k \<leftarrow> set_entry_nr (b, 0) nr k;
     k \<leftarrow> put_data b 18 [46, 46, 0] k;
     set_entry_nr (b, 16) nr k
   }"

definition mkdir_in :: "nat \<Rightarrow> ptr \<Rightarrow> u32 \<Rightarrow> 'w kernel \<Rightarrow> (u32 \<times> 'w kernel) option" where
  "mkdir_in dir name mode k = do {
     (e, k) \<leftarrow> add_entry dir name k;
     k \<leftarrow> mark_dirty (fst e) k;
     d \<leftarrow> get_inode dir k;
     (nr, k) \<leftarrow> ialloc (i_dev d) k;
     k \<leftarrow> set_entry_nr e (ucast nr) k;
     nr \<leftarrow> entry_nr e k;
     task \<leftarrow> current_task k;
     (inode, k) \<leftarrow> new_inode (i_dev d) (ucast nr) k;
     k \<leftarrow> set_mode inode (ucast (mode AND 0x1FF AND NOT (ucast (t_umask task))) OR IFDIR) k;
     k \<leftarrow> set_size inode 32 k;
     k \<leftarrow> set_nlinks inode 2 k;
     k \<leftarrow> inode_dirty dir k;
     links \<leftarrow> nlinks_of dir k;
     k \<leftarrow> set_nlinks dir (links + 1) k;
     (block, k) \<leftarrow> bmap inode 0 True k;
     n \<leftarrow> get_inode inode k;
     (z, k) \<leftarrow> bread (i_dev n) block k;
     k \<leftarrow> mark_dirty z k;
     d \<leftarrow> get_inode dir k;
     k \<leftarrow> dot_entries z (ucast (i_nr d)) k;
     k \<leftarrow> iput (Some inode) k;
     k \<leftarrow> iput (Some dir) k;
     k \<leftarrow> brelse (Some (fst e)) k;
     k \<leftarrow> brelse (Some z) k;
     Some (0, k)
   }"

definition sys_mkdir :: "ptr \<Rightarrow> u32 \<Rightarrow> 'w kernel \<Rightarrow> (u32 \<times> 'w kernel) option" where
  "sys_mkdir pathname mode k = do {
     (dir, name, k) \<leftarrow> parent_of pathname k;
     case (dir, name) of
       (Some d, Some name) \<Rightarrow> do {
         (d, entry, next, k) \<leftarrow> find_entry d name name k;
         case entry of
           Some e \<Rightarrow> do { k \<leftarrow> release (Some (fst e)) (Some d) None k; Some (EOF, k) }
         | None \<Rightarrow> mkdir_in d name mode k }
     | _ \<Rightarrow> do { k \<leftarrow> release None dir None k; Some (EOF, k) }
   }"

fun count_entries :: "nat \<Rightarrow> u32 \<Rightarrow> nat \<Rightarrow> nat option \<Rightarrow> nat \<Rightarrow> nat \<Rightarrow> 'w kernel \<Rightarrow> (nat \<times> 'w kernel) option" where
  "count_entries 0 i dir buf pos count k = do { k \<leftarrow> brelse buf k; Some (count, k) }"
| "count_entries (Suc left) i dir buf pos count k = do {
     (b, pos, k) \<leftarrow> entry_block dir i False buf pos k;
     nr \<leftarrow> entry_nr (b, pos) k;
     count_entries left (i + 1) dir (Some b) (pos + 16) (if nr \<noteq> 0 then Suc count else count) k
   }"

definition is_empty :: "nat \<Rightarrow> 'w kernel \<Rightarrow> (bool \<times> 'w kernel) option" where
  "is_empty inode k = do {
     mode \<leftarrow> mode_of inode k;
     check (ISDIR mode);
     sz \<leftarrow> size_of inode k;
     zone \<leftarrow> zone_of inode 0 k;
     if sz div 16 < 2 \<or> zone = 0 then Some (False, k)
     else do {
       (count, k) \<leftarrow> count_entries (unat (sz div 16)) 0 inode None 0 0 k;
       Some (count = 2, k)
     }
   }"

text \<open>
  \<^verbatim>\<open>sys_rmdir\<close> from the entry on. \<open>rmdir_allowed\<close> are its tests before \<^verbatim>\<open>is_empty\<close>; the rollback
  releases the directory to remove, its parent and the buffer of the entry.
\<close>

definition rmdir_allowed :: "nat \<Rightarrow> nat \<Rightarrow> 'w kernel \<Rightarrow> bool option" where
  "rmdir_allowed dir inode k = do {
     if inode = dir then Some False
     else do {
       mode \<leftarrow> mode_of inode k;
       if \<not> ISDIR mode then Some False
       else do {
         dmode \<leftarrow> mode_of dir k;
         uid \<leftarrow> uid_of inode k;
         task \<leftarrow> current_task k;
         d \<leftarrow> get_inode dir k;
         n \<leftarrow> get_inode inode k;
         Some (\<not> (dmode AND ISVTX \<noteq> 0 \<and> t_uid task \<noteq> ucast uid)
           \<and> \<not> (i_dev d \<noteq> i_dev n \<or> i_count n > 1)) } }
   }"

definition rmdir_remove :: "nat \<Rightarrow> nat \<Rightarrow> nat \<times> nat \<Rightarrow> 'w kernel \<Rightarrow> 'w kernel option" where
  "rmdir_remove dir inode e k = do {
     links \<leftarrow> nlinks_of inode k;
     check (links = 2);
     k \<leftarrow> inode_truncate inode k;
     n \<leftarrow> get_inode inode k;
     k \<leftarrow> ifree (i_dev n) (i_nr n) k;
     k \<leftarrow> set_nlinks inode 0 k;
     k \<leftarrow> inode_dirty inode k;
     k \<leftarrow> upd_inode inode (\<lambda>n. n\<lparr>i_nr := 0\<rparr>) k;
     links \<leftarrow> nlinks_of dir k;
     k \<leftarrow> set_nlinks dir (links - 1) k;
     k \<leftarrow> set_mtime dir (sys_time k) k;
     k \<leftarrow> upd_inode dir (\<lambda>n. n\<lparr>i_ctime := sys_time k, i_atime := sys_time k\<rparr>) k;
     k \<leftarrow> inode_dirty dir k;
     links \<leftarrow> nlinks_of dir k;
     check (links > 0);
     k \<leftarrow> set_entry_nr e 0 k;
     mark_dirty (fst e) k
   }"

definition rmdir_found :: "nat \<Rightarrow> nat \<times> nat \<Rightarrow> 'w kernel \<Rightarrow> (u32 \<times> 'w kernel) option" where
  "rmdir_found dir e k = do {
     d \<leftarrow> get_inode dir k;
     nr \<leftarrow> entry_nr e k;
     (inode, k) \<leftarrow> iget (i_dev d) (ucast nr) k;
     ok \<leftarrow> rmdir_allowed dir inode k;
     (ok, k) \<leftarrow> (if ok then is_empty inode k else Some (False, k));
     k \<leftarrow> (if ok then rmdir_remove dir inode e k else Some k);
     k \<leftarrow> iput (Some inode) k;
     k \<leftarrow> iput (Some dir) k;
     k \<leftarrow> brelse (Some (fst e)) k;
     Some (if ok then 0 else EOF, k)
   }"

definition sys_rmdir :: "ptr \<Rightarrow> 'w kernel \<Rightarrow> (u32 \<times> 'w kernel) option" where
  "sys_rmdir pathname k = do {
     (dir, name, k) \<leftarrow> parent_of pathname k;
     case (dir, name) of
       (Some d, Some name) \<Rightarrow> do {
         (d, entry, next, k) \<leftarrow> find_entry d name name k;
         case entry of
           None \<Rightarrow> do { k \<leftarrow> iput (Some d) k; Some (EOF, k) }
         | Some e \<Rightarrow> rmdir_found d e k }
     | _ \<Rightarrow> do { k \<leftarrow> iput dir k; Some (EOF, k) }
   }"

definition mknod_in :: "nat \<Rightarrow> ptr \<Rightarrow> u32 \<Rightarrow> u32 \<Rightarrow> 'w kernel \<Rightarrow> (u32 \<times> 'w kernel) option" where
  "mknod_in dir name mode dev k = do {
     (e, k) \<leftarrow> add_entry dir name k;
     k \<leftarrow> mark_dirty (fst e) k;
     d \<leftarrow> get_inode dir k;
     (nr, k) \<leftarrow> ialloc (i_dev d) k;
     k \<leftarrow> set_entry_nr e (ucast nr) k;
     nr \<leftarrow> entry_nr e k;
     (inode, k) \<leftarrow> new_inode (i_dev d) (ucast nr) k;
     k \<leftarrow> set_mode inode (ucast mode) k;
     k \<leftarrow> (if mode AND 0xF000 = 0x6000 \<or> mode AND 0xF000 = 0x2000 then set_zone inode 0 (ucast dev) k else Some k);
     k \<leftarrow> release (Some (fst e)) (Some inode) (Some dir) k;
     Some (0, k)
   }"

definition sys_mknod :: "ptr \<Rightarrow> u32 \<Rightarrow> u32 \<Rightarrow> 'w kernel \<Rightarrow> (u32 \<times> 'w kernel) option" where
  "sys_mknod filename mode dev k = do {
     (dir, name, k) \<leftarrow> parent_of filename k;
     case (dir, name) of
       (Some d, Some name) \<Rightarrow> do {
         (d, entry, next, k) \<leftarrow> find_entry d name name k;
         case entry of
           Some e \<Rightarrow> do { k \<leftarrow> release (Some (fst e)) None (Some d) k; Some (EOF, k) }
         | None \<Rightarrow> mknod_in d name mode dev k }
     | _ \<Rightarrow> do { k \<leftarrow> release None None dir k; Some (EOF, k) }
   }"

section \<open>Attributes of a file\<close>

record stat_t =
  st_dev :: u32
  st_nr :: u32
  st_mode :: u16
  st_nlinks :: u8
  st_uid :: u16
  st_gid :: u8
  st_rdev :: u32
  st_size :: u32
  st_atime :: u32
  st_mtime :: u32
  st_ctime :: u32

definition copy_stat :: "nat \<Rightarrow> 'w kernel \<Rightarrow> stat_t option" where
  "copy_stat inode k = do {
     n \<leftarrow> get_inode inode k;
     mode \<leftarrow> mode_of inode k;
     links \<leftarrow> nlinks_of inode k;
     uid \<leftarrow> uid_of inode k;
     gid \<leftarrow> gid_of inode k;
     rdev \<leftarrow> zone_of inode 0 k;
     sz \<leftarrow> size_of inode k;
     mtime \<leftarrow> mtime_of inode k;
     Some \<lparr>st_dev = i_dev n, st_nr = i_nr n, st_mode = mode, st_nlinks = links, st_uid = uid, st_gid = gid,
       st_rdev = ucast rdev, st_size = sz, st_atime = i_atime n, st_mtime = mtime, st_ctime = i_ctime n\<rparr>
   }"

definition sys_stat :: "ptr \<Rightarrow> 'w kernel \<Rightarrow> (u32 \<times> stat_t option \<times> 'w kernel) option" where
  "sys_stat filename k = do {
     (found, k) \<leftarrow> namei filename k;
     case found of
       None \<Rightarrow> Some (EOF, None, k)
     | Some inode \<Rightarrow> do {
         st \<leftarrow> copy_stat inode k;
         k \<leftarrow> iput (Some inode) k;
         Some (0, Some st, k) }
   }"

definition sys_fstat :: "int \<Rightarrow> 'w kernel \<Rightarrow> (u32 \<times> stat_t option) option" where
  "sys_fstat fd k =
     (if fd > TASK_FILE_NR then Some (EOF, None)
      else do {
        task \<leftarrow> current_task k;
        f \<leftarrow> rdi (t_files task) fd;
        case f of
          None \<Rightarrow> Some (EOF, None)
        | Some i \<Rightarrow> do {
            file \<leftarrow> rd (file_table k) i;
            check (f_inode file = None);
            inode \<leftarrow> f_inode file;
            st \<leftarrow> copy_stat inode k;
            Some (0, Some st) }
      })"

end
