(* ===== verification/Files.thy ===== *)
theory Files
  imports Fs_Calls
begin

text \<open>
  \<^verbatim>\<open>fs/file.c\<close> and \<^verbatim>\<open>fs/pipe.c\<close>: open files. A descriptor is an index into the file list of the
  running task, which holds indices of the file table. Reading an empty pipe (writing to a
  full one) puts the caller to sleep until another task runs: the result here is \<open>None\<close>; the
  theory \<open>Pipe\<close> has the interleaving of a reader and a writer.
\<close>

definition get_open :: "nat \<Rightarrow> 'w kernel \<Rightarrow> file_t option" where
  "get_open i k = rd (file_table k) i"

definition upd_file :: "nat \<Rightarrow> (file_t \<Rightarrow> file_t) \<Rightarrow> 'w kernel \<Rightarrow> 'w kernel option" where
  "upd_file i f k = do {
     x \<leftarrow> get_open i k;
     Some (k\<lparr>file_table := (file_table k)[i := f x]\<rparr>)
   }"

definition get_file :: "'w kernel \<Rightarrow> (nat \<times> 'w kernel) option" where
  "get_file k = do {
     i \<leftarrow> List.find (\<lambda>i. map_option f_count (get_open i k) = Some 0) [3..<FILE_NR];
     k \<leftarrow> upd_file i (\<lambda>f. f\<lparr>f_count := f_count f + 1\<rparr>) k;
     Some (i, k)
   }"

definition put_file :: "nat \<Rightarrow> 'w kernel \<Rightarrow> 'w kernel option" where
  "put_file i k = do {
     f \<leftarrow> get_open i k;
     check (f_count f > 0);
     k \<leftarrow> upd_file i (\<lambda>f. f\<lparr>f_count := f_count f - 1\<rparr>) k;
     f \<leftarrow> get_open i k;
     if f_count f = 0 then iput (f_inode f) k else Some k
   }"

definition file_init :: "'w kernel \<Rightarrow> 'w kernel" where
  "file_init k = k\<lparr>file_table := take 3 (file_table k) @ map (\<lambda>f. f\<lparr>f_mode := 0, f_count := 0, f_flags := 0,
     f_offset := 0, f_inode := None\<rparr>) (drop 3 (file_table k))\<rparr>"

text \<open>The file behind a descriptor, \<^verbatim>\<open>assert(file)\<close> included.\<close>

definition file_of :: "int \<Rightarrow> 'w kernel \<Rightarrow> (nat \<times> file_t) option" where
  "file_of fd k = do {
     task \<leftarrow> current_task k;
     slot \<leftarrow> rdi (t_files task) fd;
     i \<leftarrow> slot;
     f \<leftarrow> get_open i k;
     Some (i, f)
   }"

section \<open>Pipes\<close>

definition wake_waiter :: "nat option \<Rightarrow> 'w kernel \<Rightarrow> 'w kernel option" where
  "wake_waiter w k =
     (case w of None \<Rightarrow> Some k
      | Some t \<Rightarrow> do { s \<leftarrow> task_unblock t (sch k); Some (k\<lparr>sch := s\<rparr>) })"

definition pipe_take :: "nat \<Rightarrow> 'w kernel \<Rightarrow> (u8 \<times> 'w kernel) option" where
  "pipe_take inode k = do {
     n \<leftarrow> get_inode inode k;
     (byte, f) \<leftarrow> fifo_get (i_fifo n);
     k \<leftarrow> upd_inode inode (\<lambda>n. n\<lparr>i_fifo := f\<rparr>) k;
     k \<leftarrow> wake_waiter (i_txwaiter n) k;
     k \<leftarrow> upd_inode inode (\<lambda>n. n\<lparr>i_txwaiter := None\<rparr>) k;
     Some (byte, k)
   }"

fun pipe_read :: "nat \<Rightarrow> nat \<Rightarrow> ptr \<Rightarrow> 'w kernel \<Rightarrow> 'w kernel option" where
  "pipe_read 0 inode buf k = Some k"
| "pipe_read (Suc left) inode buf k = do {
     n \<leftarrow> get_inode inode k;
     check (\<not> fifo_empty (i_fifo n));
     (byte, k) \<leftarrow> pipe_take inode k;
     pipe_read left inode (buf + 1) (k\<lparr>umem := (umem k)(buf := byte)\<rparr>)
   }"

definition pipe_store :: "nat \<Rightarrow> u8 \<Rightarrow> 'w kernel \<Rightarrow> 'w kernel option" where
  "pipe_store inode byte k = do {
     n \<leftarrow> get_inode inode k;
     f \<leftarrow> fifo_put (i_fifo n) byte;
     k \<leftarrow> upd_inode inode (\<lambda>n. n\<lparr>i_fifo := f\<rparr>) k;
     k \<leftarrow> wake_waiter (i_rxwaiter n) k;
     upd_inode inode (\<lambda>n. n\<lparr>i_rxwaiter := None\<rparr>) k
   }"

fun pipe_write :: "nat \<Rightarrow> nat \<Rightarrow> ptr \<Rightarrow> 'w kernel \<Rightarrow> 'w kernel option" where
  "pipe_write 0 inode buf k = Some k"
| "pipe_write (Suc left) inode buf k = do {
     n \<leftarrow> get_inode inode k;
     check (\<not> fifo_full (i_fifo n));
     k \<leftarrow> pipe_store inode (umem k buf) k;
     pipe_write left inode (buf + 1) k
   }"

section \<open>Reading and writing\<close>

text \<open>The byte count of a call on a pipe is an \<^verbatim>\<open>int\<close>: a negative one copies nothing.\<close>

definition pipe_count :: "u32 \<Rightarrow> nat" where
  "pipe_count len = nat (sint len)"

definition sys_read :: "int \<Rightarrow> ptr \<Rightarrow> u32 \<Rightarrow> 'w kernel \<Rightarrow> (u32 \<times> 'w kernel) option" where
  "sys_read fd buf len k = do {
     (i, f) \<leftarrow> file_of fd k;
     if f_flags f AND O_ACCMODE = O_WRONLY then Some (EOF, k)
     else do {
       inode \<leftarrow> f_inode f;
       n \<leftarrow> get_inode inode k;
       if i_pipi n then do {
         k \<leftarrow> pipe_read (pipe_count len) inode buf k;
         Some (of_nat (pipe_count len), k) }
       else do {
         mode \<leftarrow> mode_of inode k;
         if ISCHR mode then do {
           dev \<leftarrow> zone_of inode 0 k;
           check (dev \<noteq> 0);
           (count, bytes, D) \<leftarrow> device_read (ucast dev) len 0 0 (disk k);
           Some (count, k\<lparr>disk := D, umem := (case bytes of Some bs \<Rightarrow> put_bytes (umem k) buf bs | None \<Rightarrow> umem k)\<rparr>) }
         else if ISBLK mode then do {
           dev \<leftarrow> zone_of inode 0 k;
           check (dev \<noteq> 0);
           check (block_start (f_offset f) = 0);
           check (len mod BLOCK_BITS = 0);
           (count, bytes, D) \<leftarrow> device_read (ucast dev) (len div 1024) (block_nr (f_offset f)) 0 (disk k);
           Some (count, k\<lparr>disk := D, umem := (case bytes of Some bs \<Rightarrow> put_bytes (umem k) buf bs | None \<Rightarrow> umem k)\<rparr>) }
         else do {
           (count, k) \<leftarrow> inode_read inode buf len (f_offset f) k;
           k \<leftarrow> (if count \<noteq> EOF then upd_file i (\<lambda>f. f\<lparr>f_offset := f_offset f + count\<rparr>) k else Some k);
           Some (count, k) }
       }
     }
   }"

definition sys_write :: "int \<Rightarrow> ptr \<Rightarrow> u32 \<Rightarrow> 'w kernel \<Rightarrow> (u32 \<times> 'w kernel) option" where
  "sys_write fd buf len k = do {
     (i, f) \<leftarrow> file_of fd k;
     if f_flags f AND O_ACCMODE = O_RDONLY then Some (EOF, k)
     else do {
       inode \<leftarrow> f_inode f;
       n \<leftarrow> get_inode inode k;
       if i_pipi n then do {
         k \<leftarrow> pipe_write (pipe_count len) inode buf k;
         Some (of_nat (pipe_count len), k) }
       else do {
         mode \<leftarrow> mode_of inode k;
         let bytes = map (umem k) [buf ..< buf + unat len];
         if ISCHR mode then do {
           dev \<leftarrow> zone_of inode 0 k;
           check (dev \<noteq> 0);
           (count, D) \<leftarrow> device_write (ucast dev) bytes len 0 0 (disk k);
           Some (count, k\<lparr>disk := D\<rparr>) }
         else if ISBLK mode then do {
           dev \<leftarrow> zone_of inode 0 k;
           check (dev \<noteq> 0);
           check (block_start (f_offset f) = 0);
           check (len mod 1024 = 0);
           (_, D) \<leftarrow> device_write (ucast dev) bytes (len div 1024) (block_nr (f_offset f)) 0 (disk k);
           Some (0, k\<lparr>disk := D\<rparr>) }
         else do {
           (count, k) \<leftarrow> inode_write inode buf len (f_offset f) k;
           k \<leftarrow> (if count \<noteq> EOF then upd_file i (\<lambda>f. f\<lparr>f_offset := f_offset f + count\<rparr>) k else Some k);
           Some (count, k) }
       }
     }
   }"

section \<open>Descriptors\<close>

definition sys_open :: "ptr \<Rightarrow> u32 \<Rightarrow> u32 \<Rightarrow> 'w kernel \<Rightarrow> (u32 \<times> 'w kernel) option" where
  "sys_open filename flags mode k = do {
     (found, k) \<leftarrow> inode_open filename flags mode k;
     case found of
       None \<Rightarrow> Some (EOF, k)
     | Some inode \<Rightarrow> do {
         task \<leftarrow> current_task k;
         fd \<leftarrow> task_get_fd task;
         (i, k) \<leftarrow> get_file k;
         slots \<leftarrow> wri (t_files task) fd (Some i);
         k \<leftarrow> upd_current (\<lambda>t. t\<lparr>t_files := slots\<rparr>) k;
         m \<leftarrow> mode_of inode k;
         sz \<leftarrow> size_of inode k;
         k \<leftarrow> upd_file i (\<lambda>f. f\<lparr>f_inode := Some inode, f_flags := flags, f_count := 1, f_mode := ucast m,
                f_offset := (if flags AND O_APPEND \<noteq> 0 then sz else 0)\<rparr>) k;
         Some (of_int fd, k) }
   }"

definition sys_close :: "int \<Rightarrow> 'w kernel \<Rightarrow> 'w kernel option" where
  "sys_close fd k = do {
     check (fd < TASK_FILE_NR);
     task \<leftarrow> current_task k;
     slot \<leftarrow> rdi (t_files task) fd;
     case slot of
       None \<Rightarrow> Some k
     | Some i \<Rightarrow> do {
         f \<leftarrow> get_open i k;
         check (f_inode f \<noteq> None);
         k \<leftarrow> put_file i k;
         task \<leftarrow> current_task k;
         task \<leftarrow> task_put_fd fd task;
         upd_current (\<lambda>_. task) k }
   }"

definition sys_creat :: "ptr \<Rightarrow> u32 \<Rightarrow> 'w kernel \<Rightarrow> (u32 \<times> 'w kernel) option" where
  "sys_creat filename mode k = sys_open filename (O_CREAT OR O_TRUNC) mode k"

abbreviation (input) SEEK_SET :: int where "SEEK_SET \<equiv> 1"
abbreviation (input) SEEK_CUR :: int where "SEEK_CUR \<equiv> 2"
abbreviation (input) SEEK_END :: int where "SEEK_END \<equiv> 3"

definition sys_lseek :: "int \<Rightarrow> u32 \<Rightarrow> int \<Rightarrow> 'w kernel \<Rightarrow> (u32 \<times> 'w kernel) option" where
  "sys_lseek fd offset whence k = do {
     check (fd < TASK_FILE_NR);
     (i, f) \<leftarrow> file_of fd k;
     inode \<leftarrow> f_inode f;
     new \<leftarrow> (if whence = SEEK_SET then do { check (sint offset \<ge> 0); Some offset }
           else if whence = SEEK_CUR then do { check (sint (f_offset f + offset) \<ge> 0); Some (f_offset f + offset) }
           else if whence = SEEK_END then do { sz \<leftarrow> size_of inode k; Some (sz + offset) }
           else None);
     k \<leftarrow> upd_file i (\<lambda>f. f\<lparr>f_offset := new\<rparr>) k;
     Some (new, k)
   }"

definition sys_readdir :: "int \<Rightarrow> ptr \<Rightarrow> u32 \<Rightarrow> 'w kernel \<Rightarrow> (u32 \<times> 'w kernel) option" where
  "sys_readdir fd dir count k = sys_read fd dir 16 k"

text \<open>The search of \<^verbatim>\<open>dupfd\<close> for a free descriptor, \<open>arg\<close> and above.\<close>

function free_fd :: "nat option list \<Rightarrow> int \<Rightarrow> int option" where
  "free_fd files arg =
     (if arg < TASK_FILE_NR then do {
        slot \<leftarrow> rdi files arg;
        if slot = None then Some arg else free_fd files (arg + 1) }
      else Some arg)"
  by pat_completeness auto
termination
  by (relation "measure (\<lambda>(files, arg). nat (TASK_FILE_NR - arg))") auto

declare free_fd.simps [simp del]

definition dupfd :: "int \<Rightarrow> int \<Rightarrow> 'w kernel \<Rightarrow> (u32 \<times> 'w kernel) option" where
  "dupfd fd arg k = do {
     task \<leftarrow> current_task k;
     slot \<leftarrow> (if fd > TASK_FILE_NR then Some None else rdi (t_files task) fd);
     case slot of
       None \<Rightarrow> Some (EOF, k)
     | Some i \<Rightarrow> do {
         arg \<leftarrow> free_fd (t_files task) arg;
         if arg \<ge> TASK_FILE_NR then Some (EOF, k)
         else do {
           slots \<leftarrow> wri (t_files task) arg (Some i);
           k \<leftarrow> upd_current (\<lambda>t. t\<lparr>t_files := slots\<rparr>) k;
           k \<leftarrow> upd_file i (\<lambda>f. f\<lparr>f_count := f_count f + 1\<rparr>) k;
           Some (of_int arg, k) } }
   }"

definition sys_dup :: "int \<Rightarrow> 'w kernel \<Rightarrow> (u32 \<times> 'w kernel) option" where
  "sys_dup oldfd k = dupfd oldfd 0 k"

definition sys_dup2 :: "int \<Rightarrow> int \<Rightarrow> 'w kernel \<Rightarrow> (u32 \<times> 'w kernel) option" where
  "sys_dup2 oldfd newfd k = do {
     k \<leftarrow> sys_close newfd k;
     dupfd oldfd newfd k
   }"

text \<open>One end of a pipe: a free descriptor of the task and a free file.\<close>

definition pipe_end :: "'w kernel \<Rightarrow> (int \<times> nat \<times> 'w kernel) option" where
  "pipe_end k = do {
     task \<leftarrow> current_task k;
     fd \<leftarrow> task_get_fd task;
     (i, k) \<leftarrow> get_file k;
     slots \<leftarrow> wri (t_files task) fd (Some i);
     k \<leftarrow> upd_current (\<lambda>t. t\<lparr>t_files := slots\<rparr>) k;
     Some (fd, i, k)
   }"

definition sys_pipe :: "'w kernel \<Rightarrow> (int \<times> int \<times> 'w kernel) option" where
  "sys_pipe k = do {
     (inode, k) \<leftarrow> get_pipe_inode k;
     (fd0, i0, k) \<leftarrow> pipe_end k;
     (fd1, i1, k) \<leftarrow> pipe_end k;
     k \<leftarrow> upd_file i0 (\<lambda>f. f\<lparr>f_inode := Some inode, f_flags := O_RDONLY\<rparr>) k;
     k \<leftarrow> upd_file i1 (\<lambda>f. f\<lparr>f_inode := Some inode, f_flags := O_WRONLY\<rparr>) k;
     Some (fd0, fd1, k)
   }"

end
