(* ===== verification/Mount.thy ===== *)
theory Mount
  imports Files
begin

text \<open>
  \<^verbatim>\<open>fs/super.c\<close> and \<^verbatim>\<open>fs/dev.c\<close>: super blocks, mounting, and making a file system.
\<close>

section \<open>Super blocks\<close>

definition get_free_super :: "'w kernel \<Rightarrow> nat option" where
  "get_free_super k = get_super EOF k"

fun release_maps :: "nat option list \<Rightarrow> nat \<Rightarrow> nat \<Rightarrow> 'w kernel \<Rightarrow> 'w kernel option" where
  "release_maps maps i 0 k = Some k"
| "release_maps maps i (Suc left) k = do {
     m \<leftarrow> rd maps i;
     k \<leftarrow> brelse m k;
     release_maps maps (i + 1) left k
   }"

definition put_super :: "nat option \<Rightarrow> 'w kernel \<Rightarrow> 'w kernel option" where
  "put_super sb k =
     (case sb of None \<Rightarrow> Some k
      | Some sb \<Rightarrow> do {
          s \<leftarrow> get_sb sb k;
          check (s_count s > 0);
          k \<leftarrow> upd_sb sb (\<lambda>s. s\<lparr>s_count := s_count s - 1\<rparr>) k;
          if s_count s - 1 \<noteq> 0 then Some k
          else do {
            k \<leftarrow> upd_sb sb (\<lambda>s. s\<lparr>s_dev := EOF\<rparr>) k;
            k \<leftarrow> iput (s_imount s) k;
            k \<leftarrow> iput (s_iroot s) k;
            imaps \<leftarrow> imap_blocks_of sb k;
            k \<leftarrow> release_maps (s_imaps s) 0 (unat imaps) k;
            zmaps \<leftarrow> zmap_blocks_of sb k;
            k \<leftarrow> release_maps (s_zmaps s) 0 (unat zmaps) k;
            brelse (s_buf s) k
          } })"

text \<open>
  The loops of \<^verbatim>\<open>read_super\<close> over the maps of a kind: \<open>limit\<close> is the bound the code asserts
  (\<^verbatim>\<open>IMAP_NR\<close>, and for the block maps \<^verbatim>\<open>ZEROPAD\<close>, which is 2), \<open>idx\<close> the next block to read.
\<close>

fun read_maps :: "nat \<Rightarrow> u32 \<Rightarrow> u32 \<Rightarrow> nat option list \<Rightarrow> nat \<Rightarrow> nat \<Rightarrow> 'w kernel \<Rightarrow> (nat option list \<times> u32 \<times> 'w kernel) option" where
  "read_maps limit dev idx maps i 0 k = Some (maps, idx, k)"
| "read_maps limit dev idx maps i (Suc left) k = do {
     check (i < limit);
     (b, k) \<leftarrow> bread dev idx k;
     maps \<leftarrow> wr maps i (Some b);
     read_maps limit dev (idx + 1) maps (i + 1) left k
   }"

definition read_super :: "u32 \<Rightarrow> 'w kernel \<Rightarrow> (nat \<times> 'w kernel) option" where
  "read_super dev k =
     (case get_super dev k of
        Some sb \<Rightarrow> do {
          k \<leftarrow> upd_sb sb (\<lambda>s. s\<lparr>s_count := s_count s + 1\<rparr>) k;
          Some (sb, k) }
      | None \<Rightarrow> do {
          sb \<leftarrow> get_free_super k;
          (b, k) \<leftarrow> bread dev 1 k;
          k \<leftarrow> upd_sb sb (\<lambda>s. s\<lparr>s_buf := Some b, s_dev := dev, s_count := 1\<rparr>) k;
          magic \<leftarrow> magic_of sb k;
          check (magic = MINIX1_MAGIC);
          imaps \<leftarrow> imap_blocks_of sb k;
          (im, idx, k) \<leftarrow> read_maps IMAP_NR dev 2 (replicate IMAP_NR None) 0 (unat imaps) k;
          zmaps \<leftarrow> zmap_blocks_of sb k;
          (zm, idx, k) \<leftarrow> read_maps 2 dev idx (replicate ZMAP_NR None) 0 (unat zmaps) k;
          k \<leftarrow> upd_sb sb (\<lambda>s. s\<lparr>s_imaps := im, s_zmaps := zm\<rparr>) k;
          Some (sb, k) })"

abbreviation (input) DEV_CONSOLE :: int where "DEV_CONSOLE \<equiv> 1"
abbreviation (input) DEV_KEYBOARD :: int where "DEV_KEYBOARD \<equiv> 2"
abbreviation (input) DEV_SERIAL :: int where "DEV_SERIAL \<equiv> 3"
abbreviation (input) DEV_IDE_DISK :: int where "DEV_IDE_DISK \<equiv> 4"
abbreviation (input) DEV_IDE_PART :: int where "DEV_IDE_PART \<equiv> 5"

definition mount_root :: "'w kernel \<Rightarrow> 'w kernel option" where
  "mount_root k = do {
     d \<leftarrow> device_find DEV_IDE_PART 0 (disk k);
     (sb, k) \<leftarrow> read_super (dv_dev d) k;
     (r, k) \<leftarrow> iget (dv_dev d) 1 (k\<lparr>root_super := Some sb\<rparr>);
     k \<leftarrow> upd_sb sb (\<lambda>s. s\<lparr>s_iroot := Some r\<rparr>) k;
     (m, k) \<leftarrow> iget (dv_dev d) 1 k;
     upd_sb sb (\<lambda>s. s\<lparr>s_imount := Some m\<rparr>) k
   }"

definition super_init :: "'w kernel \<Rightarrow> 'w kernel option" where
  "super_init k = mount_root (k\<lparr>super_table := map (\<lambda>s. s\<lparr>s_dev := EOF, s_buf := None, s_iroot := None,
     s_imount := None, s_inodes := []\<rparr>) (super_table k)\<rparr>)"

section \<open>Mounting\<close>

text \<open>\<^verbatim>\<open>sys_mount\<close> releases, on the way out, the super block, the device's inode and the directory.\<close>

definition mount_rollback :: "nat option \<Rightarrow> nat option \<Rightarrow> nat option \<Rightarrow> 'w kernel \<Rightarrow> (u32 \<times> 'w kernel) option" where
  "mount_rollback sb devinode dirinode k = do {
     k \<leftarrow> put_super sb k;
     k \<leftarrow> iput devinode k;
     k \<leftarrow> iput dirinode k;
     Some (EOF, k)
   }"

definition mount_on :: "nat \<Rightarrow> nat \<Rightarrow> u32 \<Rightarrow> 'w kernel \<Rightarrow> (u32 \<times> 'w kernel) option" where
  "mount_on devinode dirinode dev k = do {
     (sb, k) \<leftarrow> read_super dev k;
     s \<leftarrow> get_sb sb k;
     if s_imount s \<noteq> None then mount_rollback (Some sb) (Some devinode) (Some dirinode) k
     else do {
       (r, k) \<leftarrow> iget dev 1 k;
       k \<leftarrow> upd_sb sb (\<lambda>s. s\<lparr>s_iroot := Some r, s_imount := Some dirinode\<rparr>) k;
       k \<leftarrow> upd_inode dirinode (\<lambda>n. n\<lparr>i_mount := dev\<rparr>) k;
       k \<leftarrow> iput (Some devinode) k;
       Some (0, k)
     }
   }"

text \<open>The test \<^verbatim>\<open>if(!dirname)\<close> looks at the wrong variable: a directory that is not found is \<open>None\<close>.\<close>

definition sys_mount :: "ptr \<Rightarrow> ptr \<Rightarrow> 'w kernel \<Rightarrow> (u32 \<times> 'w kernel) option" where
  "sys_mount devname dirname k = do {
     (found, k) \<leftarrow> namei devname k;
     case found of
       None \<Rightarrow> mount_rollback None None None k
     | Some devinode \<Rightarrow> do {
         mode \<leftarrow> mode_of devinode k;
         if \<not> ISBLK mode then mount_rollback None (Some devinode) None k
         else do {
           dev \<leftarrow> zone_of devinode 0 k;
           (found, k) \<leftarrow> namei dirname k;
           if dirname = 0 then mount_rollback None (Some devinode) found k
           else do {
             dirinode \<leftarrow> found;
             mode \<leftarrow> mode_of dirinode k;
             n \<leftarrow> get_inode dirinode k;
             if \<not> ISDIR mode \<or> i_count n \<noteq> 1 \<or> i_mount n \<noteq> 0
             then mount_rollback None (Some devinode) (Some dirinode) k
             else mount_on devinode dirinode (ucast dev) k } } }
   }"

definition umount_release :: "nat \<Rightarrow> 'w kernel \<Rightarrow> 'w kernel option" where
  "umount_release sb k = do {
     s \<leftarrow> get_sb sb k;
     k \<leftarrow> iput (s_iroot s) k;
     k \<leftarrow> upd_sb sb (\<lambda>s. s\<lparr>s_iroot := None\<rparr>) k;
     m \<leftarrow> s_imount s;
     k \<leftarrow> upd_inode m (\<lambda>n. n\<lparr>i_mount := 0\<rparr>) k;
     k \<leftarrow> iput (Some m) k;
     upd_sb sb (\<lambda>s. s\<lparr>s_imount := None\<rparr>) k
   }"

definition umount_rollback :: "nat option \<Rightarrow> nat option \<Rightarrow> u32 \<Rightarrow> 'w kernel \<Rightarrow> (u32 \<times> 'w kernel) option" where
  "umount_rollback sb inode ret k = do {
     k \<leftarrow> put_super sb k;
     k \<leftarrow> iput inode k;
     Some (ret, k)
   }"

definition sys_umount :: "ptr \<Rightarrow> 'w kernel \<Rightarrow> (u32 \<times> 'w kernel) option" where
  "sys_umount target k = do {
     (found, k) \<leftarrow> namei target k;
     case found of
       None \<Rightarrow> umount_rollback None None EOF k
     | Some inode \<Rightarrow> do {
         mode \<leftarrow> mode_of inode k;
         n \<leftarrow> get_inode inode k;
         r \<leftarrow> root_super k;
         rs \<leftarrow> get_sb r k;
         if \<not> ISBLK mode \<and> i_nr n \<noteq> 1 \<or> s_imount rs = Some inode
         then umount_rollback None (Some inode) EOF k
         else do {
           zone \<leftarrow> zone_of inode 0 k;
           sb \<leftarrow> get_super (if ISBLK mode then ucast zone else i_dev n) k;
           s \<leftarrow> get_sb sb k;
           if s_imount s = None \<or> length (s_inodes s) > 1
           then umount_rollback (Some sb) (Some inode) EOF k
           else do {
             k \<leftarrow> umount_release sb k;
             umount_rollback (Some sb) (Some inode) 0 k } } }
   }"

section \<open>Making a file system\<close>

text \<open>The sizes \<^verbatim>\<open>devmkfs\<close> computes from the number of blocks and of inodes.\<close>

record layout =
  l_inodes :: u32
  l_imaps :: u32
  l_zcount :: u32
  l_zmaps :: u32
  l_first :: u32

definition fs_layout :: "u32 \<Rightarrow> u32 \<Rightarrow> layout" where
  "fs_layout blocks icount =
     (let inode_blocks = div_round_up (icount * 32) 1024;
          imaps = div_round_up icount BLOCK_BITS;
          zcount = blocks - imaps - inode_blocks - 2;
          zmaps = div_round_up zcount 1024
      in \<lparr>l_inodes = icount, l_imaps = imaps, l_zcount = zcount, l_zmaps = zmaps,
          l_first = 2 + imaps + zmaps + inode_blocks\<rparr>)"

text \<open>The loops that read and clear the maps; they stop silently at eight.\<close>

fun clear_maps :: "u32 \<Rightarrow> u32 \<Rightarrow> nat option list \<Rightarrow> nat \<Rightarrow> nat \<Rightarrow> 'w kernel \<Rightarrow> (nat option list \<times> u32 \<times> 'w kernel) option" where
  "clear_maps dev idx maps i 0 k = Some (maps, idx, k)"
| "clear_maps dev idx maps i (Suc left) k =
     (if i < 8 then do {
        (b, k) \<leftarrow> bread dev idx k;
        maps \<leftarrow> wr maps i (Some b);
        k \<leftarrow> put_data b 0 (replicate BLOCK_SIZE 0) k;
        k \<leftarrow> mark_dirty b k;
        clear_maps dev (idx + 1) maps (i + 1) left k }
      else Some (maps, idx, k))"

text \<open>The bits from \<open>count\<close> on are marked as used in the last map; the first byte is overwritten.\<close>

definition fill_tail :: "nat \<Rightarrow> u32 \<Rightarrow> 'w kernel \<Rightarrow> 'w kernel option" where
  "fill_tail b count k = do {
     let offset = sint count smod 8192;
     check (offset \<ge> 0);
     let begin = nat (offset div 8);
     k \<leftarrow> mark_dirty b k;
     k \<leftarrow> put_data b (begin + 1) (replicate (BLOCK_SIZE - begin - 1) 0xFF) k;
     put_data b begin [push_bit (nat (offset mod 8)) 0xFF] k
   }"

definition devmkfs :: "u32 \<Rightarrow> u32 \<Rightarrow> 'w kernel \<Rightarrow> 'w kernel option" where
  "devmkfs dev icount k = do {
     sectors \<leftarrow> device_ioctl dev DEV_CMD_SECTOR_COUNT (disk k);
     let blocks = sint sectors sdiv 2;
     check (blocks \<noteq> 0);
     check (icount < of_int blocks);
     let icount = (if icount = 0 then of_int (blocks sdiv 3) else icount);
     let l = fs_layout (of_int blocks) icount;
     sb \<leftarrow> get_free_super k;
     k \<leftarrow> upd_sb sb (\<lambda>s. s\<lparr>s_dev := dev, s_count := 1\<rparr>) k;
     (b, k) \<leftarrow> bread dev 1 k;
     k \<leftarrow> mark_dirty b k;
     k \<leftarrow> upd_sb sb (\<lambda>s. s\<lparr>s_buf := Some b\<rparr>) k;
     k \<leftarrow> poke16 b 2 (of_int blocks) k;
     k \<leftarrow> poke16 b 0 (ucast (l_inodes l)) k;
     k \<leftarrow> poke16 b 4 (ucast (l_imaps l)) k;
     imaps \<leftarrow> imap_blocks_of sb k;
     k \<leftarrow> poke16 b 6 (ucast (l_zmaps l)) k;
     zmaps \<leftarrow> zmap_blocks_of sb k;
     k \<leftarrow> poke16 b 8 (ucast (l_first l)) k;
     k \<leftarrow> poke16 b 10 0 k;
     k \<leftarrow> poke32 b 12 (BLOCK_BITS * TOTAL_BLOCK) k;
     k \<leftarrow> poke16 b 16 MINIX1_MAGIC k;
     (im, idx, k) \<leftarrow> clear_maps dev 2 (replicate IMAP_NR None) 0 (unat imaps) k;
     (zm, idx, k) \<leftarrow> clear_maps dev idx (replicate ZMAP_NR None) 0 (unat zmaps) k;
     k \<leftarrow> upd_sb sb (\<lambda>s. s\<lparr>s_imaps := im, s_zmaps := zm\<rparr>) k;
     (_, k) \<leftarrow> balloc dev k;
     (_, k) \<leftarrow> ialloc dev k;
     (_, k) \<leftarrow> ialloc dev k;
     m1 \<leftarrow> rdi im (uint imaps - 1);
     m2 \<leftarrow> rdi im (uint zmaps - 1);
     b1 \<leftarrow> m1;
     k \<leftarrow> fill_tail b1 (icount + 1) k;
     b2 \<leftarrow> m2;
     k \<leftarrow> fill_tail b2 (l_zcount l) k;
     task \<leftarrow> current_task k;
     (root, k) \<leftarrow> new_inode dev 1 k;
     k \<leftarrow> upd_sb sb (\<lambda>s. s\<lparr>s_iroot := Some root\<rparr>) k;
     k \<leftarrow> set_mode root ((0x1FF AND NOT (t_umask task)) OR IFDIR) k;
     k \<leftarrow> set_size root 32 k;
     k \<leftarrow> set_nlinks root 2 k;
     (block, k) \<leftarrow> bmap root 0 True k;
     (z, k) \<leftarrow> bread dev block k;
     k \<leftarrow> mark_dirty z k;
     k \<leftarrow> put_data z 0 (replicate BLOCK_SIZE 0) k;
     n \<leftarrow> get_inode root k;
     k \<leftarrow> dot_entries z (ucast (i_nr n)) k;
     brelse (Some z) k
   }"

text \<open>\<^verbatim>\<open>devmkfs\<close> ends without a \<^verbatim>\<open>return\<close>; \<open>eax\<close> is the value its caller finds in the register.\<close>

definition sys_mkfs :: "u32 \<Rightarrow> ptr \<Rightarrow> u32 \<Rightarrow> 'w kernel \<Rightarrow> (u32 \<times> 'w kernel) option" where
  "sys_mkfs eax devname icount k = do {
     (found, k) \<leftarrow> namei devname k;
     case found of
       None \<Rightarrow> Some (EOF, k)
     | Some inode \<Rightarrow> do {
         mode \<leftarrow> mode_of inode k;
         if \<not> ISBLK mode then do { k \<leftarrow> iput (Some inode) k; Some (EOF, k) }
         else do {
           dev \<leftarrow> zone_of inode 0 k;
           check (dev \<noteq> 0);
           k \<leftarrow> devmkfs (ucast dev) icount k;
           k \<leftarrow> iput (Some inode) k;
           Some (eax, k) } }
   }"

section \<open>The device files\<close>

text \<open>\<open>path\<close> puts a string constant (or the text of \<^verbatim>\<open>sprintf\<close>) at an address of the kernel.\<close>

definition path :: "ptr \<Rightarrow> string \<Rightarrow> 'w kernel \<Rightarrow> 'w kernel" where
  "path p s k = k\<lparr>umem := put_bytes (umem k) p (map of_char s @ [0])\<rparr>"

definition dev_node :: "ptr \<Rightarrow> string \<Rightarrow> u32 \<Rightarrow> u32 \<Rightarrow> 'w kernel \<Rightarrow> 'w kernel option" where
  "dev_node p s mode dev k = map_option snd (sys_mknod p mode dev (path p s k))"

text \<open>The loops of \<^verbatim>\<open>dev_init\<close> over the devices of a subtype, from number \<open>i\<close> on.\<close>

fun dev_nodes :: "nat \<Rightarrow> ptr \<Rightarrow> int \<Rightarrow> u32 \<Rightarrow> u32 \<Rightarrow> 'w kernel \<Rightarrow> 'w kernel option" where
  "dev_nodes 0 p subtype mode i k = Some k"
| "dev_nodes (Suc left) p subtype mode i k =
     (case device_find subtype i (disk k) of
        None \<Rightarrow> Some k
      | Some d \<Rightarrow> do {
          k \<leftarrow> dev_node p (''/dev/'' @ dv_name d) mode (dv_dev d) k;
          dev_nodes left p subtype mode (i + 1) k })"

definition std_file :: "nat \<Rightarrow> ptr \<Rightarrow> string \<Rightarrow> u32 \<Rightarrow> 'w kernel \<Rightarrow> 'w kernel option" where
  "std_file i p s flags k = do {
     (found, k) \<leftarrow> namei p (path p s k);
     inode \<leftarrow> found;
     mode \<leftarrow> mode_of inode k;
     upd_file i (\<lambda>f. f\<lparr>f_inode := Some inode, f_mode := ucast mode, f_flags := flags, f_offset := 0\<rparr>) k
   }"

definition dev_link :: "ptr \<Rightarrow> ptr \<Rightarrow> string \<Rightarrow> string \<Rightarrow> 'w kernel \<Rightarrow> 'w kernel option" where
  "dev_link p q old new k = map_option snd (sys_link p q (path q new (path p old k)))"

text \<open>\<^verbatim>\<open>dev_init\<close>, with \<open>p\<close> and \<open>q\<close> the addresses of the path strings; 64 devices bound the loops.\<close>

definition dev_init :: "ptr \<Rightarrow> ptr \<Rightarrow> 'w kernel \<Rightarrow> 'w kernel option" where
  "dev_init p q k = do {
     (_, k) \<leftarrow> sys_mkdir p 0x1ED (path p ''/dev'' k);
     d \<leftarrow> device_find DEV_RAMDISK 0 (disk k);
     k \<leftarrow> devmkfs (dv_dev d) 0 k;
     (sb, k) \<leftarrow> read_super (dv_dev d) k;
     (r, k) \<leftarrow> iget (dv_dev d) 1 k;
     k \<leftarrow> upd_sb sb (\<lambda>s. s\<lparr>s_iroot := Some r\<rparr>) k;
     (m, k) \<leftarrow> namei p (path p ''/dev'' k);
     k \<leftarrow> upd_sb sb (\<lambda>s. s\<lparr>s_imount := m\<rparr>) k;
     i \<leftarrow> m;
     k \<leftarrow> upd_inode i (\<lambda>n. n\<lparr>i_mount := dv_dev d\<rparr>) k;
     c \<leftarrow> device_find DEV_CONSOLE 0 (disk k);
     k \<leftarrow> dev_node p ''/dev/console'' (0x2000 OR 0x80) (dv_dev c) k;
     kb \<leftarrow> device_find DEV_KEYBOARD 0 (disk k);
     k \<leftarrow> dev_node p ''/dev/keyboard'' (0x2000 OR 0x100) (dv_dev kb) k;
     k \<leftarrow> dev_nodes 64 p DEV_IDE_DISK (0x6000 OR 0x180) 0 k;
     k \<leftarrow> dev_nodes 64 p DEV_IDE_PART (0x6000 OR 0x180) 0 k;
     k \<leftarrow> dev_nodes 64 p DEV_RAMDISK (0x6000 OR 0x180) 1 k;
     k \<leftarrow> dev_link p q ''/dev/console'' ''/dev/stdout'' k;
     k \<leftarrow> dev_link p q ''/dev/console'' ''/dev/stderr'' k;
     k \<leftarrow> dev_link p q ''/dev/keyboard'' ''/dev/stdin'' k;
     k \<leftarrow> dev_nodes 64 p DEV_SERIAL (0x2000 OR 0x180) 0 k;
     k \<leftarrow> std_file 0 p ''/dev/stdin'' O_RDONLY k;
     k \<leftarrow> std_file 1 p ''/dev/stdout'' O_WRONLY k;
     std_file 2 p ''/dev/stderr'' O_WRONLY k
   }"

end
