(* ===== verification/Process.thy ===== *)
theory Process
  imports Mount
begin

text \<open>
  \<^verbatim>\<open>kernel/task.c\<close>: the life of a process (\<^verbatim>\<open>task_create\<close>, \<^verbatim>\<open>task_fork\<close>, \<^verbatim>\<open>task_exit\<close>,
  \<^verbatim>\<open>task_waitpid\<close>). The frames on the stack of a new task, which the assembly of the task switch
  pops, are not modelled. A kernel task shares \<^verbatim>\<open>kernel_map\<close>; a process has its own bitmap, so
  that \<open>t_vmap\<close> is a value.
\<close>

section \<open>Creation\<close>

definition blank_task :: "nat \<Rightarrow> u32 \<Rightarrow> task" where
  "blank_task pid addr = \<lparr>t_pde = 0, t_uid = 0, t_end = 0, t_brk = 0, t_vmap = bitmap_make [] 0 0,
     t_addr = addr, t_linked = False, t_state = TASK_INIT, t_priority = 0, t_ticks = 0, t_jiffies = 0,
     t_gid = 0, t_pid = int pid, t_ppid = 0, t_vmap_ptr = 0, t_vmap_bits = 0, t_status = 0, t_waitpid = 0,
     t_pwd = 0, t_ipwd = None, t_iroot = None, t_iexec = None, t_umask = 0, t_files = replicate 16 None,
     t_magic = 0\<rparr>"

definition set_slot :: "nat \<Rightarrow> task option \<Rightarrow> 'w kernel \<Rightarrow> 'w kernel" where
  "set_slot t tk k = k\<lparr>sch := (sch k)\<lparr>task_table := (task_table (sch k))[t := tk]\<rparr>\<rparr>"

definition task_getFreeTask :: "'w kernel \<Rightarrow> (nat \<times> 'w kernel) option" where
  "task_getFreeTask k = do {
     i \<leftarrow> List.find (\<lambda>i. rd (task_table (sch k)) i = Some None) [0..<TASK_NUMBER];
     (addr, h) \<leftarrow> alloc_kpage 1 (kheap k);
     Some (i, set_slot i (Some (blank_task i addr)) (k\<lparr>kheap := h\<rparr>))
   }"

definition upd_proc :: "nat \<Rightarrow> (task \<Rightarrow> task) \<Rightarrow> 'w kernel \<Rightarrow> 'w kernel option" where
  "upd_proc t f k = do { s \<leftarrow> upd_task t f (sch k); Some (k\<lparr>sch := s\<rparr>) }"

definition inode_count_add :: "nat \<Rightarrow> u32 \<Rightarrow> 'w kernel \<Rightarrow> 'w kernel option" where
  "inode_count_add i d k = upd_inode i (\<lambda>n. n\<lparr>i_count := i_count n + d\<rparr>) k"

abbreviation (input) USER_EXEC_ADDR :: u32 where "USER_EXEC_ADDR \<equiv> 0x1000000"

definition task_create :: "u32 \<Rightarrow> u32 \<Rightarrow> 'w kernel \<Rightarrow> (nat \<times> 'w kernel) option" where
  "task_create priority uid k = do {
     (t, k) \<leftarrow> task_getFreeTask k;
     k \<leftarrow> upd_proc t (\<lambda>tk. tk\<lparr>t_priority := priority, t_ticks := priority, t_jiffies := 0, t_state := TASK_READY,
            t_uid := uid, t_gid := 0, t_vmap := kernel_map (kheap k), t_pde := 0x1000, t_brk := USER_EXEC_ADDR,
            t_end := USER_EXEC_ADDR, t_iexec := None\<rparr>) k;
     (pwd, h) \<leftarrow> alloc_kpage 1 (kheap k);
     let k = k\<lparr>kheap := h, umem := put_bytes (umem k) (unat pwd) [47, 0]\<rparr>;
     k \<leftarrow> inode_count_add get_root_inode 2 k;
     k \<leftarrow> upd_proc t (\<lambda>tk. tk\<lparr>t_pwd := unat pwd, t_iroot := Some get_root_inode, t_ipwd := Some get_root_inode,
            t_umask := 18, t_files := (t_files tk)[0 := Some 0, 1 := Some 1, 2 := Some 2],
            t_magic := ONIXS_MAGIC_NR\<rparr>) k;
     k \<leftarrow> iterate (\<lambda>i. upd_file i (\<lambda>f. f\<lparr>f_count := f_count f + 1\<rparr>)) [0, 1, 2] k;
     Some (t, k)
   }"

text \<open>Every open file of a task gets one more holder.\<close>

definition share_files :: "nat option list \<Rightarrow> 'w kernel \<Rightarrow> 'w kernel option" where
  "share_files files k =
     iterate (\<lambda>slot k. case slot of None \<Rightarrow> Some k | Some i \<Rightarrow> upd_file i (\<lambda>f. f\<lparr>f_count := f_count f + 1\<rparr>) k) files k"

definition task_fork :: "'w kernel \<Rightarrow> (int \<times> 'w kernel) option" where
  "task_fork k = do {
     task \<leftarrow> current_task k;
     check (\<not> t_linked task \<and> t_state task = TASK_RUNNING);
     (c, k) \<leftarrow> task_getFreeTask k;
     child \<leftarrow> get_task c (sch k);
     let child = task\<lparr>t_addr := t_addr child, t_pid := int c, t_ppid := t_pid task, t_ticks := t_priority task,
           t_state := TASK_READY\<rparr>;
     (vmap, h) \<leftarrow> kmalloc 12 (kheap k);
     (bits, h) \<leftarrow> alloc_kpage 1 h;
     (pde, h) \<leftarrow> copy_pde (proc_mem.truncate task) h;
     (pwd, h) \<leftarrow> alloc_kpage 1 h;
     let k = k\<lparr>kheap := h, umem := snd (strncpy (unat pwd) (t_pwd task) 4096 (umem k))\<rparr>;
     let k = set_slot c (Some (child\<lparr>t_vmap_ptr := vmap, t_vmap_bits := bits, t_pde := pde, t_pwd := unat pwd\<rparr>)) k;
     ipwd \<leftarrow> t_ipwd task;
     k \<leftarrow> inode_count_add ipwd 1 k;
     iroot \<leftarrow> t_iroot task;
     k \<leftarrow> inode_count_add iroot 1 k;
     k \<leftarrow> share_files (t_files task) k;
     Some (int c, k)
   }"

section \<open>Exit\<close>

text \<open>The children of \<open>pid\<close> become children of \<open>ppid\<close>.\<close>

definition reparent :: "int \<Rightarrow> int \<Rightarrow> task option list \<Rightarrow> task option list" where
  "reparent pid ppid ts = map (map_option (\<lambda>tk. if t_ppid tk = pid then tk\<lparr>t_ppid := ppid\<rparr> else tk)) ts"

definition exit_release :: "task \<Rightarrow> 'w kernel \<Rightarrow> 'w kernel option" where
  "exit_release task k = do {
     h \<leftarrow> free_pde (proc_mem.truncate task) (kheap k);
     h \<leftarrow> free_kpage (t_vmap_bits task) 1 h;
     h \<leftarrow> kfree (t_vmap_ptr task) h;
     h \<leftarrow> free_kpage (of_nat (t_pwd task)) 1 h;
     k \<leftarrow> iput (t_ipwd task) (k\<lparr>kheap := h\<rparr>);
     k \<leftarrow> iput (t_iroot task) k;
     k \<leftarrow> iput (t_iexec task) k;
     iterate (\<lambda>i k. do {
       tk \<leftarrow> current_task k;
       slot \<leftarrow> rd (t_files tk) i;
       if slot = None then Some k else sys_close (int i) k }) [0..<16] k
   }"

definition task_exit :: "int \<Rightarrow> 'w kernel \<Rightarrow> 'w kernel option" where
  "task_exit status k = do {
     task \<leftarrow> current_task k;
     check (\<not> t_linked task \<and> t_state task = TASK_RUNNING);
     k \<leftarrow> upd_current (\<lambda>t. t\<lparr>t_state := TASK_DIED, t_status := status\<rparr>) k;
     k \<leftarrow> exit_release task k;
     let s = sch k;
     let s = s\<lparr>task_table := reparent (t_pid task) (t_ppid task) (task_table s)\<rparr>;
     slot \<leftarrow> rdi (task_table s) (t_ppid task);
     parent \<leftarrow> slot;
     s \<leftarrow> (if t_state parent = TASK_WAITTING \<and> (t_waitpid parent = - 1 \<or> t_waitpid parent = t_pid task)
          then task_unblock (nat (t_ppid task)) s else Some s);
     s \<leftarrow> schedule s;
     Some (k\<lparr>sch := s\<rparr>)
   }"

section \<open>Waiting for a child\<close>

text \<open>
  One turn of the loop of \<^verbatim>\<open>task_waitpid\<close>: a dead child is taken out of the table and its page
  is freed, or the caller waits for one (and starts the next turn when it is woken), or there
  is no such child and the call returns -1.
\<close>

datatype 's wait_result = Reaped int int 's | Waiting 's | No_child

fun scan_children :: "int \<Rightarrow> int \<Rightarrow> nat \<Rightarrow> task option list \<Rightarrow> bool \<Rightarrow> (nat \<times> task) option \<times> bool" where
  "scan_children me pid i [] has_child = (None, has_child)"
| "scan_children me pid i (None # ts) has_child = scan_children me pid (Suc i) ts has_child"
| "scan_children me pid i (Some tk # ts) has_child =
     (if t_ppid tk \<noteq> me \<or> pid \<noteq> t_pid tk \<and> pid \<noteq> - 1 then scan_children me pid (Suc i) ts has_child
      else if t_state tk = TASK_DIED then (Some (i, tk), has_child)
      else scan_children me pid (Suc i) ts True)"

definition waitpid_turn :: "int \<Rightarrow> 'w kernel \<Rightarrow> 'w kernel wait_result option" where
  "waitpid_turn pid k = do {
     task \<leftarrow> current_task k;
     case scan_children (t_pid task) pid 2 (drop 2 (task_table (sch k))) False of
       (Some (i, child), _) \<Rightarrow> do {
         h \<leftarrow> free_kpage (t_addr child) 1 (kheap k);
         Some (Reaped (t_pid child) (t_status child) (set_slot i None (k\<lparr>kheap := h\<rparr>))) }
     | (None, True) \<Rightarrow> do {
         k \<leftarrow> upd_current (\<lambda>t. t\<lparr>t_waitpid := pid\<rparr>) k;
         s \<leftarrow> task_block (running (sch k)) Block_list TASK_WAITTING (sch k);
         Some (Waiting (k\<lparr>sch := s\<rparr>)) }
     | (None, False) \<Rightarrow> Some No_child
   }"

end
