(* ===== verification/Execve.thy ===== *)
theory Execve
  imports Process Memory_Words
begin

text \<open>
  \<^verbatim>\<open>kernel/execve.c\<close>: a new program takes the place of the running one. The headers of the
  program are read to the start of the program's memory and the code then reads them from there,
  each time it needs a field, while the segments are loaded over them: the model reads them from
  \<open>umem\<close> at the same moments. Bytes of a page that was just linked keep their value in \<open>umem\<close>
  until the loader writes them. The fields \<^verbatim>\<open>name\<close>, \<^verbatim>\<open>text\<close> and \<^verbatim>\<open>data\<close> of a task, which no
  code reads, are not part of the model, and the return to user mode is the value \<open>Enter\<close>.
\<close>

section \<open>ELF headers\<close>

abbreviation (input) ET_EXEC :: u16 where "ET_EXEC \<equiv> 2"
abbreviation (input) EM_386 :: u16 where "EM_386 \<equiv> 3"
abbreviation (input) EV_CURRENT :: u32 where "EV_CURRENT \<equiv> 1"
abbreviation (input) PT_LOAD :: u32 where "PT_LOAD \<equiv> 1"
abbreviation (input) PF_W :: u32 where "PF_W \<equiv> 2"
abbreviation (input) EHDR_SIZE :: nat where "EHDR_SIZE \<equiv> 52"
abbreviation (input) PHDR_SIZE :: nat where "PHDR_SIZE \<equiv> 32"
abbreviation (input) USER_EXEC :: ptr where "USER_EXEC \<equiv> 0x1000000"

record Elf32_Ehdr =
  e_ident :: "u8 list"
  e_type :: u16
  e_machine :: u16
  e_version :: u32
  e_entry :: u32
  e_phoff :: u32
  e_shoff :: u32
  e_flags :: u32
  e_ehsize :: u16
  e_phentsize :: u16
  e_phnum :: u16
  e_shentsize :: u16
  e_shnum :: u16
  e_shstrndx :: u16

record Elf32_Phdr =
  p_type :: u32
  p_offset :: u32
  p_vaddr :: u32
  p_paddr :: u32
  p_filesz :: u32
  p_memsz :: u32
  p_flags :: u32
  p_align :: u32

definition ehdr_at :: "mem \<Rightarrow> ptr \<Rightarrow> Elf32_Ehdr" where
  "ehdr_at m p = \<lparr>e_ident = map m [p ..< p + 16], e_type = load16 m (p + 16), e_machine = load16 m (p + 18),
     e_version = load32 m (p + 20), e_entry = load32 m (p + 24), e_phoff = load32 m (p + 28),
     e_shoff = load32 m (p + 32), e_flags = load32 m (p + 36), e_ehsize = load16 m (p + 40),
     e_phentsize = load16 m (p + 42), e_phnum = load16 m (p + 44), e_shentsize = load16 m (p + 46),
     e_shnum = load16 m (p + 48), e_shstrndx = load16 m (p + 50)\<rparr>"

definition phdr_at :: "mem \<Rightarrow> ptr \<Rightarrow> Elf32_Phdr" where
  "phdr_at m p = \<lparr>p_type = load32 m p, p_offset = load32 m (p + 4), p_vaddr = load32 m (p + 8),
     p_paddr = load32 m (p + 12), p_filesz = load32 m (p + 16), p_memsz = load32 m (p + 20),
     p_flags = load32 m (p + 24), p_align = load32 m (p + 28)\<rparr>"

definition elf_validate :: "Elf32_Ehdr \<Rightarrow> bool" where
  "elf_validate ehdr \<longleftrightarrow> take 7 (e_ident ehdr) = [127, 69, 76, 70, 1, 1, 1] \<and> e_type ehdr = ET_EXEC
     \<and> e_machine ehdr = EM_386 \<and> e_version ehdr = EV_CURRENT \<and> e_phentsize ehdr = of_nat PHDR_SIZE"

section \<open>Loading a segment\<close>

fun link_pages :: "u32 \<Rightarrow> u32 \<Rightarrow> nat \<Rightarrow> 'a vm_scheme \<Rightarrow> 'a vm_scheme option" where
  "link_pages vaddr i 0 s = Some s"
| "link_pages vaddr i (Suc left) s = do {
     let addr = vaddr + i * MEMORY_PAGE_SIZE;
     check (addr \<ge> USER_EXEC_ADDR \<and> addr < USER_MMAP_ADDR);
     s \<leftarrow> link_page addr s;
     link_pages vaddr (i + 1) left s
   }"

fun protect_pages :: "u32 \<Rightarrow> u32 \<Rightarrow> nat \<Rightarrow> 'a vm_scheme \<Rightarrow> 'a vm_scheme option" where
  "protect_pages vaddr i 0 s = Some s"
| "protect_pages vaddr i (Suc left) s = do {
     (entry, s) \<leftarrow> get_entry (vaddr + i * MEMORY_PAGE_SIZE) False s;
     e \<leftarrow> vread entry s;
     s \<leftarrow> vwrite entry (set_field 11 True (set_field 1 False e)) s;
     protect_pages vaddr (i + 1) left s
   }"

definition load_segment :: "nat \<Rightarrow> ptr \<Rightarrow> 'w kernel \<Rightarrow> 'w kernel option" where
  "load_segment inode phdr k = do {
     let ph = phdr_at (umem k) phdr;
     check (p_align ph = 0x1000);
     check (page_aligned (p_vaddr ph));
     let vaddr = p_vaddr ph;
     let count = div_round_up (max (p_memsz ph) (p_filesz ph)) MEMORY_PAGE_SIZE;
     h \<leftarrow> link_pages vaddr 0 (unat count) (kheap k);
     (_, k) \<leftarrow> inode_read inode (unat vaddr) (p_filesz ph) (p_offset ph) (k\<lparr>kheap := h\<rparr>);
     let ph = phdr_at (umem k) phdr;
     let k = (if p_filesz ph < p_memsz ph
              then k\<lparr>umem := memset (unat (vaddr + p_filesz ph)) 0 (unat (p_memsz ph - p_filesz ph)) (umem k)\<rparr>
              else k);
     let ph = phdr_at (umem k) phdr;
     h \<leftarrow> (if p_flags ph AND PF_W = 0 then protect_pages vaddr 0 (unat count) (kheap k) else Some (kheap k));
     upd_current (\<lambda>t. t\<lparr>t_end := max (t_end t) (vaddr + count * MEMORY_PAGE_SIZE)\<rparr>) (k\<lparr>kheap := h\<rparr>)
   }"

section \<open>Loading the program\<close>

lemma u16_less: "i < unat (n :: u16) \<Longrightarrow> i < 65536"
proof -
  have "unat n < 2 ^ LENGTH(16)" by (rule unsigned_less)
  then show "i < unat n \<Longrightarrow> i < 65536" by simp
qed

text \<open>
  The loop over the program headers, from header number \<open>i\<close> on. \<open>ptr\<close> moves only past the
  headers that are loaded.
\<close>

function load_headers :: "nat \<Rightarrow> nat \<Rightarrow> ptr \<Rightarrow> 'w kernel \<Rightarrow> 'w kernel option" where
  "load_headers inode i ptr k =
     (if i < unat (e_phnum (ehdr_at (umem k) USER_EXEC)) then
        (if p_type (phdr_at (umem k) ptr) \<noteq> PT_LOAD then load_headers inode (i + 1) ptr k
         else do {
           k \<leftarrow> load_segment inode ptr k;
           load_headers inode (i + 1) (ptr + PHDR_SIZE) k
         })
      else Some k)"
  by pat_completeness auto

termination
  by (relation "measure (\<lambda>(inode, i, ptr, k). 65536 - i)") (auto dest: u16_less)

declare load_headers.simps [simp del]

definition load_elf :: "nat \<Rightarrow> 'w kernel \<Rightarrow> (u32 \<times> 'w kernel) option" where
  "load_elf inode k = do {
     h \<leftarrow> link_page USER_EXEC_ADDR (kheap k);
     (n, k) \<leftarrow> inode_read inode USER_EXEC (of_nat EHDR_SIZE) 0 (k\<lparr>kheap := h\<rparr>);
     check (n = of_nat EHDR_SIZE);
     let ehdr = ehdr_at (umem k) USER_EXEC;
     if \<not> elf_validate ehdr then Some (EOF, k)
     else do {
       (_, k) \<leftarrow> inode_read inode (USER_EXEC + EHDR_SIZE) (ucast (e_phnum ehdr) * ucast (e_phentsize ehdr)) (e_phoff ehdr) k;
       k \<leftarrow> load_headers inode 0 (USER_EXEC + EHDR_SIZE) k;
       Some (e_entry (ehdr_at (umem k) USER_EXEC), k)
     }
   }"

section \<open>The arguments of the program\<close>

partial_function (option) count_from :: "mem \<Rightarrow> ptr \<Rightarrow> nat \<Rightarrow> nat option" where
  "count_from m argv i = (if load32 m (argv + 4 * i) \<noteq> 0 then count_from m argv (i + 1) else Some i)"

definition count_argv :: "mem \<Rightarrow> ptr \<Rightarrow> nat option" where
  "count_argv m argv = (if argv = 0 then Some 0 else count_from m argv 0)"

text \<open>
  One string goes below the strings copied so far: to \<open>ktop\<close> in the kernel pages, which the new
  program will see at \<open>utop\<close>.
\<close>

definition push_string :: "ptr \<Rightarrow> u32 \<times> u32 \<times> mem \<Rightarrow> (u32 \<times> u32 \<times> mem) option" where
  "push_string str = (\<lambda>(ktop, utop, m). do {
     n \<leftarrow> strlen str m;
     let len = of_nat (n + 1);
     Some (ktop - len, utop - len, memcpy (unat (ktop - len)) str (unat len) m)
   })"

text \<open>The loops over \<^verbatim>\<open>envp\<close> and \<^verbatim>\<open>argv\<close>, from the last string to the first.\<close>

fun copy_strings :: "ptr \<Rightarrow> ptr \<Rightarrow> nat \<Rightarrow> u32 \<times> u32 \<times> mem \<Rightarrow> (u32 \<times> u32 \<times> mem) option" where
  "copy_strings argv table 0 st = Some st"
| "copy_strings argv table (Suc i) (ktop, utop, m) = do {
     (ktop, utop, m) \<leftarrow> push_string (unat (load32 m (argv + 4 * i))) (ktop, utop, m);
     copy_strings argv table i (ktop, utop, store32 (table + 4 * i) utop m)
   }"

text \<open>
  \<^verbatim>\<open>copy_argv_envp\<close> in three parts: the strings and the tables of their user addresses
  (\<open>argvk\<close>, then \<open>envpk\<close>, in one page), the copies of the tables below the strings, and the copy
  of the whole to the user stack.
\<close>

definition fill_pages :: "ptr \<Rightarrow> ptr \<Rightarrow> ptr \<Rightarrow> nat \<Rightarrow> nat \<Rightarrow> ptr \<Rightarrow> u32 \<Rightarrow> mem \<Rightarrow> (u32 \<times> u32 \<times> mem) option" where
  "fill_pages filename argv envp argc envc argvk ktop m = do {
     let m = store32 (argvk + 4 * argc) 0 m;
     let envpk = argvk + 4 * (argc + 1);
     let m = store32 (envpk + 4 * envc) 0 m;
     (ktop, utop, m) \<leftarrow> copy_strings envp envpk envc (ktop, USER_STACK_TOP, m);
     (ktop, utop, m) \<leftarrow> copy_strings argv (argvk + 4) (argc - 1) (ktop, utop, m);
     (ktop, utop, m) \<leftarrow> push_string filename (ktop, utop, m);
     Some (ktop, utop, store32 argvk utop m)
   }"

definition push_tables :: "nat \<Rightarrow> nat \<Rightarrow> ptr \<Rightarrow> u32 \<Rightarrow> mem \<Rightarrow> u32 \<times> mem" where
  "push_tables argc envc argvk ktop m =
     (let ktop = ktop - of_nat ((envc + 1) * 4);
          m = memcpy (unat ktop) (argvk + 4 * (argc + 1)) ((envc + 1) * 4) m;
          ktop = ktop - of_nat ((argc + 1) * 4);
          m = memcpy (unat ktop) argvk ((argc + 1) * 4) m;
          ktop = ktop - 4
      in (ktop, store32 (unat ktop) (of_nat argc) m))"

definition copy_argv_envp :: "ptr \<Rightarrow> ptr \<Rightarrow> ptr \<Rightarrow> 'w kernel \<Rightarrow> (u32 \<times> 'w kernel) option" where
  "copy_argv_envp filename argv envp k = do {
     c \<leftarrow> count_argv (umem k) argv;
     let argc = c + 1;
     envc \<leftarrow> count_argv (umem k) envp;
     (pages, h) \<leftarrow> alloc_kpage 4 (kheap k);
     let pages_end = pages + 4 * MEMORY_PAGE_SIZE;
     (argvk, h) \<leftarrow> alloc_kpage 1 h;
     (ktop, utop, m) \<leftarrow> fill_pages filename argv envp argc envc (unat argvk) pages_end (umem k);
     let (ktop, m) = push_tables argc envc (unat argvk) ktop m;
     check (ktop > pages);
     let len = pages_end - ktop;
     let utop = USER_STACK_TOP - len;
     let m = memcpy (unat utop) (unat ktop) (unat len) m;
     h \<leftarrow> free_kpage argvk 1 h;
     h \<leftarrow> free_kpage pages 4 h;
     Some (utop, k\<lparr>kheap := h, umem := m\<rparr>)
   }"

section \<open>The system call\<close>

datatype exec_result = Failed u32 | Enter u32 u32

definition brk_current :: "u32 \<Rightarrow> 'w kernel \<Rightarrow> 'w kernel option" where
  "brk_current addr k = do {
     task \<leftarrow> current_task k;
     (_, pm, h) \<leftarrow> sys_brk addr (proc_mem.truncate task) (kheap k);
     upd_current (\<lambda>t. t\<lparr>t_brk := t_brk pm\<rparr>) (k\<lparr>kheap := h\<rparr>)
   }"

text \<open>From the moment the file is known to be a program the task may execute.\<close>

definition exec_program :: "nat \<Rightarrow> ptr \<Rightarrow> ptr \<Rightarrow> ptr \<Rightarrow> 'w kernel \<Rightarrow> (exec_result \<times> 'w kernel) option" where
  "exec_program inode filename argv envp k = do {
     (sp, k) \<leftarrow> copy_argv_envp filename argv envp k;
     k \<leftarrow> upd_current (\<lambda>t. t\<lparr>t_end := USER_EXEC_ADDR\<rparr>) k;
     k \<leftarrow> brk_current USER_EXEC_ADDR k;
     (entry, k) \<leftarrow> load_elf inode k;
     if entry = EOF then do { k \<leftarrow> iput (Some inode) k; Some (Failed EOF, k) }
     else do {
       task \<leftarrow> current_task k;
       k \<leftarrow> brk_current (t_end task) k;
       k \<leftarrow> iput (t_iexec task) k;
       k \<leftarrow> upd_current (\<lambda>t. t\<lparr>t_iexec := Some inode\<rparr>) k;
       Some (Enter entry sp, k)
     }
   }"

definition sys_execve :: "ptr \<Rightarrow> ptr \<Rightarrow> ptr \<Rightarrow> 'w kernel \<Rightarrow> (exec_result \<times> 'w kernel) option" where
  "sys_execve filename argv envp k = do {
     (found, k) \<leftarrow> namei filename k;
     case found of
       None \<Rightarrow> do { k \<leftarrow> iput None k; Some (Failed EOF, k) }
     | Some inode \<Rightarrow> do {
         mode \<leftarrow> mode_of inode k;
         ok \<leftarrow> (if ISFILE mode then permission inode P_EXEC k else Some False);
         if \<not> ok then do { k \<leftarrow> iput (Some inode) k; Some (Failed EOF, k) }
         else exec_program inode filename argv envp k }
   }"

section \<open>What the loops over the strings leave\<close>

definition string_block :: "u8 list list \<Rightarrow> u8 list" where
  "string_block ss = concat (map (\<lambda>s. s @ [EOS]) ss)"

text \<open>
  An array of strings as \<^verbatim>\<open>argv\<close> is one: pointers to strings, then a null pointer. All of it lies
  at \<open>lo\<close> or above.
\<close>

fun string_array :: "ptr \<Rightarrow> mem \<Rightarrow> ptr \<Rightarrow> u8 list list \<Rightarrow> bool" where
  "string_array lo m p [] \<longleftrightarrow> lo \<le> p \<and> load32 m p = 0"
| "string_array lo m p (s # ss) \<longleftrightarrow> lo \<le> p \<and> load32 m p \<noteq> 0 \<and> lo \<le> unat (load32 m p)
     \<and> cstr m (unat (load32 m p)) s \<and> string_array lo m (p + 4) ss"

lemma string_block_simps [simp]:
  "string_block [] = []" "string_block (s # ss) = s @ EOS # string_block ss"
  "string_block (ss @ ts) = string_block ss @ string_block ts"
  by (simp_all add: string_block_def)

lemma string_array_cong:
  "string_array lo m p ss \<Longrightarrow> (\<And>a. lo \<le> a \<Longrightarrow> m' a = m a) \<Longrightarrow> string_array lo m' p ss"
proof (induction ss arbitrary: p)
  case Nil
  then show ?case using load32_cong[of p m' m] by simp
next
  case (Cons s ss)
  have "load32 m' p = load32 m p" using Cons.prems by (intro load32_cong) simp
  moreover have "cstr m' (unat (load32 m p)) s"
    by (rule cstr_cong[of m]) (use Cons.prems in auto)
  ultimately show ?case using Cons by simp
qed

lemma string_array_nth:
  "string_array lo m p ss \<Longrightarrow> i < length ss \<Longrightarrow> lo \<le> unat (load32 m (p + 4 * i))
     \<and> cstr m (unat (load32 m (p + 4 * i))) (ss ! i)"
proof (induction ss arbitrary: p i)
  case (Cons s ss)
  then show ?case
  proof (cases i)
    case (Suc j)
    then show ?thesis using Cons.IH[of "p + 4" j] Cons.prems by (simp add: algebra_simps)
  qed simp
qed simp

lemma count_from_array:
  "string_array lo m (argv + 4 * i) ss \<Longrightarrow> count_from m argv i = Some (i + length ss)"
proof (induction ss arbitrary: i)
  case Nil
  then show ?case by (subst count_from.simps) simp
next
  case (Cons s ss)
  then have "count_from m argv (i + 1) = Some (i + 1 + length ss)" by (intro Cons.IH) (simp add: algebra_simps)
  then show ?case using Cons.prems by (subst count_from.simps) simp
qed

lemma count_argv_array: "string_array lo m argv ss \<Longrightarrow> 0 < lo \<Longrightarrow> count_argv m argv = Some (length ss)"
  using count_from_array[of lo m argv 0 ss] by (cases ss) (auto simp: count_argv_def)

lemma push_string_stored:
  assumes s: "cstr m str s" "unat ktop \<le> str" and r: "length s + 1 \<le> unat ktop" "length s + 1 \<le> unat utop"
  shows "\<exists>kt ut. push_string str (ktop, utop, m) = Some (kt, ut, put_bytes m (unat kt) (s @ [EOS]))
    \<and> unat kt = unat ktop - (length s + 1) \<and> unat ut = unat utop - (length s + 1)"
proof -
  let ?len = "of_nat (length s + 1) :: u32"
  have "length s + 1 < 2 ^ LENGTH(32)" using r(1) unsigned_less[of ktop] by (rule le_less_trans)
  then have n: "unat ?len = length s + 1" by (simp only: unat_of_nat) simp
  have u: "unat (ktop - ?len) = unat ktop - (length s + 1)" "unat (utop - ?len) = unat utop - (length s + 1)"
    using r n by (simp_all only: unat_sub word_le_nat_alt)
  have "map m [str ..< str + (length s + 1)] = s @ [EOS]"
    using stored_imp_map[OF cstr_stored[OF s(1)]] by simp
  moreover have "unat (ktop - ?len) + (length s + 1) \<le> str" using u(1) r(1) s(2) by simp
  ultimately have "memcpy (unat (ktop - ?len)) str (unat ?len) m = put_bytes m (unat (ktop - ?len)) (s @ [EOS])"
    using memcpy_bytes[of "unat (ktop - ?len)" "length s + 1" str m] n by simp
  then have "push_string str (ktop, utop, m) = Some (ktop - ?len, utop - ?len, put_bytes m (unat (ktop - ?len)) (s @ [EOS]))"
    using strlen_cstr[OF s(1)] by (simp only: push_string_def prod.case Option.bind_lunit Let_def)
  then show ?thesis using u by blast
qed


text \<open>The strings \<open>ss\<close> lie below \<open>kt\<close>, \<open>table\<close> holds their user addresses, and all else is as before.\<close>

definition strings_copied :: "mem \<Rightarrow> u32 \<Rightarrow> u32 \<Rightarrow> ptr \<Rightarrow> u8 list list \<Rightarrow> u32 \<Rightarrow> u32 \<Rightarrow> mem \<Rightarrow> bool" where
  "strings_copied m kt ut table ss kt' ut' m' \<longleftrightarrow>
     unat kt' = unat kt - length (string_block ss) \<and> unat ut' = unat ut - length (string_block ss)
     \<and> stored m' (unat kt') (string_block ss)
     \<and> (\<forall>i < length ss. load32 m' (table + 4 * i) = of_nat (unat ut' + length (string_block (take i ss))))
     \<and> (\<forall>a. (a < unat kt' \<or> unat kt \<le> a) \<longrightarrow> (a < table \<or> table + 4 * length ss \<le> a) \<longrightarrow> m' a = m a)"

lemma strings_copiedD:
  assumes "strings_copied m kt ut table ss kt' ut' m'"
  shows "unat kt' = unat kt - length (string_block ss)" "unat ut' = unat ut - length (string_block ss)"
    "stored m' (unat kt') (string_block ss)"
    "\<And>i. i < length ss \<Longrightarrow> load32 m' (table + 4 * i) = of_nat (unat ut' + length (string_block (take i ss)))"
    "\<And>a. a < unat kt' \<or> unat kt \<le> a \<Longrightarrow> a < table \<or> table + 4 * length ss \<le> a \<Longrightarrow> m' a = m a"
  using assms unfolding strings_copied_def by blast+

lemma copy_strings_stored:
  assumes "string_array lo m argv ss" "n \<le> length ss" "unat kt \<le> lo" "table + 4 * n \<le> lo"
    "table + 4 * n \<le> unat kt - length (string_block (take n ss)) \<or> unat kt \<le> table"
    "length (string_block (take n ss)) \<le> unat kt" "length (string_block (take n ss)) \<le> unat ut"
  shows "\<exists>kt' ut' m'. copy_strings argv table n (kt, ut, m) = Some (kt', ut', m')
    \<and> strings_copied m kt ut table (take n ss) kt' ut' m'"
  using assms
proof (induction n arbitrary: kt ut m)
  case (Suc n)
  define s where "s = ss ! n"
  define str where "str = unat (load32 m (argv + 4 * n))"
  have str: "lo \<le> str" "cstr m str s"
    using string_array_nth[OF Suc.prems(1), of n] Suc.prems(2) by (auto simp: str_def s_def)
  define L where "L = length (string_block (take n ss))"
  have tk: "take (Suc n) ss = take n ss @ [s]" using Suc.prems(2) by (simp add: s_def take_Suc_conv_app_nth)
  have len: "length (string_block (take (Suc n) ss)) = L + (length s + 1)" by (simp add: tk L_def)
  note bounds = Suc.prems(3-7)[unfolded len]
  obtain k1 u1 where p: "push_string str (kt, ut, m) = Some (k1, u1, put_bytes m (unat k1) (s @ [EOS]))"
    and k1: "unat k1 = unat kt - (length s + 1)" and u1: "unat u1 = unat ut - (length s + 1)"
    using push_string_stored[OF str(2), of kt ut] str(1) bounds by auto
  define m1 where "m1 = put_bytes m (unat k1) (s @ [EOS])"
  define m2 where "m2 = store32 (table + 4 * n) u1 m1"
  have m1: "m1 a = m a" if "\<not> (unat k1 \<le> a \<and> a < unat kt)" for a
    using that k1 bounds by (auto simp: m1_def put_bytes_def)
  have m2: "m2 a = m1 a" if "\<not> (table + 4 * n \<le> a \<and> a < table + 4 * n + 4)" for a
    using that by (auto simp: m2_def store32_def put_bytes_def)
  have "string_array lo m2 argv ss"
    by (rule string_array_cong[OF Suc.prems(1)]) (use m1 m2 bounds k1 in auto)
  moreover have "table + 4 * n \<le> unat k1 - L \<or> unat k1 \<le> table" "unat k1 \<le> lo" "L \<le> unat k1" "L \<le> unat u1"
    "table + 4 * n \<le> lo" "n \<le> length ss"
    using bounds k1 u1 Suc.prems(2) by auto
  ultimately obtain k' u' m' where c: "copy_strings argv table n (k1, u1, m2) = Some (k', u', m')"
    and sc: "strings_copied m2 k1 u1 table (take n ss) k' u' m'"
    using Suc.IH[of m2 k1 u1] unfolding L_def by blast
  have n: "length (take n ss) = n" "\<And>i. i < n \<Longrightarrow> take i (take n ss) = take i ss"
    "\<And>i. i < Suc n \<Longrightarrow> take i (take (Suc n) ss) = take i ss"
    using Suc.prems(2) by (simp_all add: min_absorb2)
  note k' = strings_copiedD(1)[OF sc, folded L_def] and u' = strings_copiedD(2)[OF sc, folded L_def]
    and st = strings_copiedD(3)[OF sc] and rest = strings_copiedD(5)[OF sc, unfolded n(1)]
  have tab: "load32 m' (table + 4 * i) = of_nat (unat u' + length (string_block (take i ss)))" if "i < n" for i
    using strings_copiedD(4)[OF sc, of i] that unfolding n(1) n(2)[OF that] by simp
  have D: "table + 4 * n + 4 \<le> unat k1 - L \<or> unat kt \<le> table" "L \<le> unat k1" "L \<le> unat u1" "unat k1 \<le> unat kt"
    using bounds k1 u1 by auto
  have "m' a = m1 a" if "unat k1 \<le> a" "a < unat kt" for a
  proof -
    have "a < table \<or> table + 4 * n + 4 \<le> a" using that D by linarith
    then show ?thesis using rest[of a] m2[of a] that by auto
  qed
  moreover have "unat k1 + length (s @ [EOS]) = unat kt" using k1 bounds by simp
  ultimately have "stored m' (unat k1) (s @ [EOS])"
    using stored_cong[OF stored_put_bytes[of m "unat k1" "s @ [EOS]"], of m'] by (simp only: m1_def)
  then have st': "stored m' (unat k') (string_block (take (Suc n) ss))"
    using st k' D(2) by (simp add: tk stored_append flip: L_def)
  have "load32 m' (table + 4 * n) = load32 m2 (table + 4 * n)"
  proof (rule load32_cong)
    fix a assume "table + 4 * n \<le> a" "a < table + 4 * n + 4"
    then show "m' a = m2 a" using D k' by (intro rest) linarith+
  qed
  also have "\<dots> = u1" by (rule load32_bytes) (simp add: m2_def store32_def)
  finally have "load32 m' (table + 4 * n) = of_nat (unat u' + L)"
    using u' D(3) by simp
  then have tab': "load32 m' (table + 4 * i) = of_nat (unat u' + length (string_block (take i ss)))" if "i < Suc n" for i
    using tab that unfolding L_def by (metis less_Suc_eq)
  have rest': "m' a = m a" if "a < unat k' \<or> unat kt \<le> a" "a < table \<or> table + 4 * Suc n \<le> a" for a
  proof -
    have "m' a = m2 a" using that D(4) by (intro rest) auto
    also have "\<dots> = m1 a" using that by (intro m2) auto
    also have "\<dots> = m a" using that D k' by (intro m1) auto
    finally show ?thesis .
  qed
  have "copy_strings argv table (Suc n) (kt, ut, m) = Some (k', u', m')"
    using p c by (simp add: str_def m1_def m2_def)
  moreover have "strings_copied m kt ut table (take (Suc n) ss) k' u' m'"
    unfolding strings_copied_def len
  proof (intro conjI allI impI)
    show "unat k' = unat kt - (L + (length s + 1))" "unat u' = unat ut - (L + (length s + 1))"
      using k' u' k1 u1 by simp_all
    have l: "length (take (Suc n) ss) = Suc n" using Suc.prems(2) by simp
    show "load32 m' (table + 4 * i) = of_nat (unat u' + length (string_block (take i (take (Suc n) ss))))"
      if "i < length (take (Suc n) ss)" for i
      using that tab'[of i] n(3)[of i] unfolding l by simp
    show "m' a = m a" if "a < unat k' \<or> unat kt \<le> a" "a < table \<or> table + 4 * length (take (Suc n) ss) \<le> a" for a
      using that by (intro rest') (simp_all only: l)
  qed (rule st')
  ultimately show ?case by blast
qed (simp add: strings_copied_def)

section \<open>The stack of the new program\<close>

lemma string_arrayI:
  assumes "stored m base (string_block ss)" "\<forall>s \<in> set ss. EOS \<notin> set s" "lo \<le> base" "0 < base" "lo \<le> p"
    "base + length (string_block ss) < 2 ^ 32" "load32 m (p + 4 * length ss) = 0"
    "\<And>i. i < length ss \<Longrightarrow> load32 m (p + 4 * i) = of_nat (base + length (string_block (take i ss)))"
  shows "string_array lo m p ss"
  using assms
proof (induction ss arbitrary: base p)
  case (Cons s ss)
  have n: "unat (of_nat base :: u32) = base" using Cons.prems(6) by (simp add: unat_of_nat)
  have h: "load32 m p = of_nat base" using Cons.prems(8)[of 0] by simp
  have st: "stored m base (s @ [EOS])" "stored m (base + (length s + 1)) (string_block ss)"
    using Cons.prems(1) by (simp_all add: stored_append)
  have "string_array lo m (p + 4) ss"
  proof (rule Cons.IH[OF st(2)])
    show "load32 m (p + 4 + 4 * i) = of_nat (base + (length s + 1) + length (string_block (take i ss)))"
      if "i < length ss" for i
      using Cons.prems(8)[of "Suc i"] that by (simp add: algebra_simps)
  qed (use Cons.prems in \<open>simp_all add: algebra_simps\<close>)
  moreover have "cstr m base s" using st(1) Cons.prems(2) by (intro stored_cstr) simp_all
  moreover have "(of_nat base :: u32) \<noteq> 0" using n Cons.prems(4) by (metis not_less0 unat_0)
  ultimately show ?case using Cons.prems(3,5) n h by simp
qed simp


text \<open>What \<open>fill_pages\<close> leaves: the strings \<open>args\<close> and \<open>envs\<close> and the two tables.\<close>

definition pages_filled :: "ptr \<Rightarrow> u8 list list \<Rightarrow> u8 list list \<Rightarrow> ptr \<Rightarrow> ptr \<Rightarrow> mem \<Rightarrow> bool" where
  "pages_filled argvk args envs ktop utop m \<longleftrightarrow>
     stored m ktop (string_block (args @ envs))
     \<and> (\<forall>i < length args. load32 m (argvk + 4 * i) = of_nat (utop + length (string_block (take i args))))
     \<and> load32 m (argvk + 4 * length args) = 0
     \<and> (\<forall>i < length envs. load32 m (argvk + 4 * (length args + 1) + 4 * i)
           = of_nat (utop + length (string_block args) + length (string_block (take i envs))))
     \<and> load32 m (argvk + 4 * (length args + 1) + 4 * length envs) = 0"

lemma fill_pages_filled:
  assumes args: "string_array lo m argv args" and envs: "string_array lo m envp envs"
    and f: "cstr m filename f" "lo \<le> filename"
    and b: "unat kt \<le> lo" "A + 4 * (length args + length envs + 3) \<le> lo"
    and B: "B = length (string_block (f # args @ envs))" "B \<le> unat kt" "B \<le> 0x10000000"
    and dis: "A + 4 * (length args + length envs + 3) \<le> unat kt - B \<or> unat kt \<le> A"
  shows "\<exists>kt' ut' m'. fill_pages filename argv envp (length args + 1) (length envs) A kt m = Some (kt', ut', m')
    \<and> unat kt' = unat kt - B \<and> unat ut' = 0x10000000 - B
    \<and> pages_filled A (f # args) envs (unat kt') (unat ut') m'"
proof -
  let ?n = "length args + 1"
  define E where "E = A + 4 * (?n + 1)"
  define m1 where "m1 = store32 (E + 4 * length envs) 0 (store32 (A + 4 * ?n) 0 m)"
  define BE where "BE = length (string_block envs)"
  define BA where "BA = length (string_block args)"
  have BB: "B = length f + 1 + BA + BE" by (simp add: B BE_def BA_def)
  have same1: "m1 a = m a" if "lo \<le> a" for a
    using that b(2) by (simp add: m1_def E_def store32_other)
  have "string_array lo m1 envp envs" by (rule string_array_cong[OF envs]) (rule same1)
  then have "\<exists>kt' ut' m'. copy_strings envp E (length envs) (kt, USER_STACK_TOP, m1) = Some (kt', ut', m')
      \<and> strings_copied m1 kt USER_STACK_TOP E (take (length envs) envs) kt' ut' m'"
    by (rule copy_strings_stored) (use b dis B(2,3) in \<open>auto simp: E_def BB BE_def\<close>)
  then obtain k1 u1 m2 where c1: "copy_strings envp E (length envs) (kt, USER_STACK_TOP, m1) = Some (k1, u1, m2)"
    and s1: "strings_copied m1 kt USER_STACK_TOP E envs k1 u1 m2" by auto
  note S1 = strings_copiedD[OF s1, folded BE_def]
  have same2: "m2 a = m a" if "lo \<le> a" for a
    using S1(5)[of a] same1[OF that] that b by (simp add: E_def)
  have "string_array lo m2 argv args"
    by (rule string_array_cong[OF args]) (rule same2)
  then have "\<exists>kt' ut' m'. copy_strings argv (A + 4) (length args) (k1, u1, m2) = Some (kt', ut', m')
      \<and> strings_copied m2 k1 u1 (A + 4) (take (length args) args) kt' ut' m'"
    by (rule copy_strings_stored) (use b dis B(2,3) S1(1,2) in \<open>auto simp: BB BA_def\<close>)
  then obtain k2 u2 m3 where c2: "copy_strings argv (A + 4) (length args) (k1, u1, m2) = Some (k2, u2, m3)"
    and s2: "strings_copied m2 k1 u1 (A + 4) args k2 u2 m3" by auto
  note S2 = strings_copiedD[OF s2, folded BA_def]
  have same3: "m3 a = m a" if "lo \<le> a" for a
  proof -
    have "m3 a = m2 a" by (rule S2(5)) (use that b S1(1) in auto)
    then show ?thesis using same2[OF that] by simp
  qed
  have "cstr m3 filename f"
    by (rule cstr_cong[OF f(1)]) (use same3 f(2) in auto)
  then have "\<exists>kt' ut'. push_string filename (k2, u2, m3) = Some (kt', ut', put_bytes m3 (unat kt') (f @ [EOS]))
      \<and> unat kt' = unat k2 - (length f + 1) \<and> unat ut' = unat u2 - (length f + 1)"
    by (rule push_string_stored) (use b f(2) B(2,3) S1(1,2) S2(1,2) in \<open>auto simp: BB\<close>)
  then obtain k3 u3 where c3: "push_string filename (k2, u2, m3) = Some (k3, u3, put_bytes m3 (unat k3) (f @ [EOS]))"
    and S3: "unat k3 = unat k2 - (length f + 1)" "unat u3 = unat u2 - (length f + 1)" by auto
  define m5 where "m5 = store32 A u3 (put_bytes m3 (unat k3) (f @ [EOS]))"
  have r: "fill_pages filename argv envp ?n (length envs) A kt m = Some (k3, u3, m5)"
    using c1 c2 c3 by (simp add: fill_pages_def m1_def m5_def E_def Let_def)
  have pos: "unat k1 = unat kt - BE" "unat k2 = unat kt - BE - BA" "unat k3 = unat kt - B"
    "unat u1 = 0x10000000 - BE" "unat u2 = 0x10000000 - BE - BA" "unat u3 = 0x10000000 - B"
    using S1(1,2) S2(1,2) S3 by (simp_all add: BB)
  have ad: "unat k2 = unat k3 + length f + 1" "unat k1 = unat k2 + BA" "unat kt = unat k1 + BE"
    "unat u2 = unat u3 + length f + 1" "unat u1 = unat u2 + BA" "0x10000000 = unat u1 + BE"
    using pos B(2,3) BB by simp_all
  have E: "E = A + 4 * length args + 8" by (simp add: E_def)
  have out: "a < unat k3 \<or> unat kt \<le> a" if "A \<le> a" "a < E + 4 * length envs + 4" for a
    using dis that unfolding pos(3) E by auto
  have m5: "m5 a = m3 a" if "a < A \<or> A + 4 \<le> a" "a < unat k3 \<or> unat k2 \<le> a" for a
    using that ad(1) by (simp add: m5_def store32_other put_bytes_other)
  have low: "A + 4 + 4 * length args \<le> E" "A \<le> E" using E by simp_all
  have blocks: "stored m5 (unat k3) (f @ [EOS])" "stored m5 (unat k2) (string_block args)"
    "stored m5 (unat k1) (string_block envs)"
  proof -
    have nt: "a < A \<or> E + 4 * length envs + 4 \<le> a" if "unat k3 \<le> a" "a < unat kt" for a
      using out[of a] that by linarith
    show "stored m5 (unat k3) (f @ [EOS])"
    proof (rule stored_cong[OF stored_put_bytes[of m3]])
      fix a assume "unat k3 \<le> a" "a < unat k3 + length (f @ [EOS])"
      then show "m5 a = put_bytes m3 (unat k3) (f @ [EOS]) a"
        using nt[of a] low ad unfolding m5_def by (intro store32_other) auto
    qed
    show "stored m5 (unat k2) (string_block args)"
    proof (rule stored_cong[OF S2(3)])
      fix a assume "unat k2 \<le> a" "a < unat k2 + length (string_block args)"
      then show "m5 a = m3 a"
        using nt[of a] low ad BA_def by (intro m5) auto
    qed
    show "stored m5 (unat k1) (string_block envs)"
    proof (rule stored_cong[OF S1(3)])
      fix a assume a: "unat k1 \<le> a" "a < unat k1 + length (string_block envs)"
      have "m5 a = m3 a" using a nt[of a] low ad BE_def by (intro m5) auto
      also have "\<dots> = m2 a" using a nt[of a] low ad BE_def by (intro S2(5)) auto
      finally show "m5 a = m2 a" .
    qed
  qed
  have t5: "load32 m5 q = load32 m3 q" if "A + 4 \<le> q" "q \<le> E + 4 * length envs" for q
  proof (rule load32_cong)
    fix a assume "q \<le> a" "a < q + 4"
    then show "m5 a = m3 a" using that out[of a] ad by (intro m5) auto
  qed
  have t3: "load32 m3 q = load32 m2 q" if "A + 4 + 4 * length args \<le> q" "q \<le> E + 4 * length envs" for q
  proof (rule load32_cong)
    fix a assume "q \<le> a" "a < q + 4"
    then show "m3 a = m2 a" using that out[of a] ad by (intro S2(5)) auto
  qed
  have t2: "load32 m2 q = load32 m1 q" if "A \<le> q" "q + 4 \<le> E \<or> q = E + 4 * length envs" for q
  proof (rule load32_cong)
    fix a assume "q \<le> a" "a < q + 4"
    then show "m2 a = m1 a" using that out[of a] ad E by (intro S1(5)) auto
  qed
  have "pages_filled A (f # args) envs (unat k3) (unat u3) m5"
    unfolding pages_filled_def
  proof (intro conjI allI impI)
    show "stored m5 (unat k3) (string_block ((f # args) @ envs))"
      using blocks ad by (simp add: stored_append BA_def BE_def)
    show "load32 m5 (A + 4 * i) = of_nat (unat u3 + length (string_block (take i (f # args))))"
      if "i < length (f # args)" for i
    proof (cases i)
      case 0
      then show ?thesis by (simp add: m5_def)
    next
      case (Suc j)
      have "load32 m5 (A + 4 * i) = load32 m3 (A + 4 + 4 * j)"
        using t5[of "A + 4 + 4 * j"] that Suc E by (simp add: add.assoc)
      also have "\<dots> = of_nat (unat u2 + length (string_block (take j args)))"
        by (rule S2(4)) (use that Suc in simp)
      also have "unat u2 = unat u3 + (length f + 1)" using ad by simp
      finally show ?thesis using Suc by (simp add: add.assoc)
    qed
    show "load32 m5 (A + 4 * length (f # args)) = 0"
      using t5[of "A + 4 * length (f # args)"] t3[of "A + 4 * length (f # args)"]
        t2[of "A + 4 * length (f # args)"] E by (simp add: m1_def load32_store32_other)
    show "load32 m5 (A + 4 * (length (f # args) + 1) + 4 * i)
        = of_nat (unat u3 + length (string_block (f # args)) + length (string_block (take i envs)))"
      if "i < length envs" for i
    proof -
      have "load32 m5 (E + 4 * i) = load32 m2 (E + 4 * i)"
        using t5[of "E + 4 * i"] t3[of "E + 4 * i"] that E by simp
      also have "\<dots> = of_nat (unat u1 + length (string_block (take i envs)))" by (rule S1(4)[OF that])
      also have "unat u1 = unat u3 + length (string_block (f # args))"
        using ad by (simp add: BA_def)
      finally show ?thesis by (simp add: E add.assoc algebra_simps)
    qed
    show "load32 m5 (A + 4 * (length (f # args) + 1) + 4 * length envs) = 0"
      using t5[of "E + 4 * length envs"] t3[of "E + 4 * length envs"] t2[of "E + 4 * length envs"] E
      by (simp add: m1_def algebra_simps)
  qed
  then show ?thesis using r pos by auto
qed


lemma push_tables_image:
  assumes W: "W = 4 * (argc + 1) + 4 * (envc + 1)" "W + 4 \<le> unat ktop"
    and dis: "A + W \<le> unat ktop - (W + 4) \<or> unat ktop \<le> A"
    and p: "push_tables argc envc A ktop m = (kt', m')"
  shows "unat kt' = unat ktop - (W + 4)" "load32 m' (unat kt') = of_nat argc"
    "j < W \<Longrightarrow> m' (unat kt' + 4 + j) = m (A + j)" "unat ktop \<le> a \<Longrightarrow> m' a = m a"
proof -
  let ?a = "(argc + 1) * 4" and ?e = "(envc + 1) * 4"
  define k1 where "k1 = ktop - of_nat ?e"
  define k2 where "k2 = k1 - of_nat ?a"
  have sub: "unat (k - of_nat n) = unat k - n" if "n \<le> unat k" for k :: u32 and n
  proof -
    have "unat k < 2 ^ LENGTH(32)" by (rule unsigned_less)
    then show ?thesis using that by (simp add: unat_sub word_le_nat_alt unat_of_nat)
  qed
  have k1: "unat k1 + ?e = unat ktop" using sub[of ?e ktop] W by (simp add: k1_def)
  have k2: "unat k2 + ?a = unat k1" using sub[of ?a k1] k1 W by (simp add: k2_def)
  have k3: "unat (k2 - 4) + 4 = unat k2" using sub[of 4 k2] k1 k2 W by simp
  have A: "A + W \<le> unat (k2 - 4) \<or> unat ktop \<le> A" using dis k1 k2 k3 W(1) by auto
  define m1 where "m1 = put_bytes m (unat k1) (map m [A + ?a ..< A + ?a + ?e])"
  define m2 where "m2 = put_bytes m1 (unat k2) (map m1 [A ..< A + ?a])"
  have c: "memcpy (unat k1) (A + 4 * (argc + 1)) ?e m = m1" unfolding m1_def
    using memcpy_bytes[of "unat k1" ?e "A + ?a" m] A k1 k2 k3 W(1) by (auto simp: mult.commute)
  have c2: "memcpy (unat k2) A ?a m1 = m2" unfolding m2_def
    using A k1 k2 k3 W(1) by (intro memcpy_bytes) auto
  have "push_tables argc envc A ktop m = (k2 - 4, store32 (unat (k2 - 4)) (of_nat argc) m2)"
    by (simp only: push_tables_def Let_def c c2 flip: k1_def k2_def)
  then have r: "kt' = k2 - 4" "m' = store32 (unat (k2 - 4)) (of_nat argc) m2"
    using p by simp_all
  show "unat kt' = unat ktop - (W + 4)" "load32 m' (unat kt') = of_nat argc"
    using k1 k2 k3 W(1) by (simp_all add: r)
  show "m' a = m a" if "unat ktop \<le> a"
    using that k1 k2 k3 by (simp add: r m2_def m1_def store32_other put_bytes_other)
  have m': "m' (unat kt' + 4 + j) = m2 (unat k2 + j)" for j
    using k3 by (simp add: r store32_other)
  show "m' (unat kt' + 4 + j) = m (A + j)" if j: "j < W"
  proof (cases "j < ?a")
    case True
    have "m2 (unat k2 + j) = m1 (A + j)" using True by (simp add: m2_def put_bytes_def)
    also have "\<dots> = m (A + j)" using True A k1 k2 k3 W(1) unfolding m1_def by (intro put_bytes_other) auto
    finally show ?thesis using m' by simp
  next
    case False
    then obtain i where i: "j = ?a + i" using le_Suc_ex not_less by blast
    have "m2 (unat k2 + j) = m1 (unat k1 + i)" using i k2 by (simp add: m2_def put_bytes_other add.assoc flip: k2)
    also have "\<dots> = m (A + ?a + i)" using j i W(1) by (simp add: m1_def put_bytes_def)
    finally show ?thesis unfolding m' by (simp add: i add.assoc)
  qed
qed

lemma alloc_kpage_dom:
  assumes wf: "kpages_wf f" and a: "alloc_kpage count f = Some (v, f')"
  shows "kregion v count \<subseteq> bm_dom (kernel_map f)" "bm_dom (kernel_map f') = bm_dom (kernel_map f)"
proof -
  have bw: "bm_wf (kernel_map f)" using wf by (simp add: kpages_wf_def)
  have c: "0 < unat count" using a by (auto simp: alloc_kpage_def unat_gt_0 split: if_splits)
  from bw c have "kregion v count \<subseteq> bm_dom (kernel_map f) \<and> bm_dom (kernel_map f') = bm_dom (kernel_map f)"
  proof (cases rule: bitmap_scan_cases)
    case full
    with a show ?thesis by (simp add: alloc_kpage_def scan_page_def split: if_splits)
  next
    case (found s m')
    with a c have v: "v = PAGE s" and f': "f' = f\<lparr>kernel_map := m'\<rparr>"
      by (simp_all add: alloc_kpage_def scan_page_def word_gt_0 split: if_splits)
    have "unat s \<in> bm_dom (kernel_map f)"
      using found(2) c unfolding free_run_def by (metis DiffE atLeastLessThan_iff less_add_same_cancel1 order_refl subsetD)
    then have "unat s < 2 ^ 20" using wf by (simp add: bm_dom_def kpages_wf_def)
    then have i: "IDX v = s" unfolding v by (rule IDX_PAGE)
    have "kregion v count \<subseteq> bm_dom (kernel_map f)"
      using found(2) unfolding kregion_def i free_run_def by blast
    moreover have "bm_dom (kernel_map f') = bm_dom (kernel_map f)" using found f' by (simp add: bm_dom_def)
    ultimately show ?thesis ..
  qed
  then show "kregion v count \<subseteq> bm_dom (kernel_map f)" "bm_dom (kernel_map f') = bm_dom (kernel_map f)" by auto
qed


text \<open>The pages the kernel hands out lie below the memory of programs.\<close>

definition kernel_pages_low :: "'a frames_scheme \<Rightarrow> bool" where
  "kernel_pages_low f \<longleftrightarrow> kpages_wf f \<and> (\<forall>i \<in> bm_dom (kernel_map f). i < 0x1000)"

lemma alloc_kpage_low:
  assumes wf: "kernel_pages_low f" and a: "alloc_kpage count f = Some (v, f')"
  shows "kernel_pages_low f'" "unat v + 4096 * unat count \<le> USER_EXEC" "unat v = 4096 * unat (IDX v)"
proof -
  have kw: "kpages_wf f" using wf by (simp add: kernel_pages_low_def)
  note law = alloc_kpage_law[OF kw a] and d = alloc_kpage_dom[OF kw a]
  show "kernel_pages_low f'" using wf law d(2) by (simp add: kernel_pages_low_def)
  show v: "unat v = 4096 * unat (IDX v)" using law aligned_nat(1) by blast
  have "0 < unat count" using law by (auto simp: unat_gt_0)
  then have "unat (IDX v) + unat count - 1 \<in> bm_dom (kernel_map f)"
    by (intro subsetD[OF d(1)]) (simp add: kregion_def)
  then have "unat (IDX v) + unat count - 1 < 0x1000" using wf by (simp add: kernel_pages_low_def)
  then show "unat v + 4096 * unat count \<le> USER_EXEC" using v by linarith
qed

text \<open>What a program finds at its stack pointer when it starts.\<close>

definition program_stack :: "mem \<Rightarrow> ptr \<Rightarrow> u8 list list \<Rightarrow> u8 list list \<Rightarrow> bool" where
  "program_stack m sp args envs \<longleftrightarrow> load32 m sp = of_nat (length args)
     \<and> string_array sp m (sp + 4) args \<and> string_array sp m (sp + 4 + 4 * (length args + 1)) envs"

lemma program_stack_image:
  assumes f: "pages_filled A args envs K U m" and z: "\<forall>s \<in> set (args @ envs). EOS \<notin> set s"
    and W: "W = 4 * (length args + 1) + 4 * (length envs + 1)"
    and U: "U + length (string_block (args @ envs)) = 0x10000000" "W + 4 \<le> U"
    and argc: "load32 m' (U - (W + 4)) = of_nat (length args)"
    and tab: "\<And>j. j < W \<Longrightarrow> m' (U - W + j) = m (A + j)"
    and str: "\<And>j. j < length (string_block (args @ envs)) \<Longrightarrow> m' (U + j) = m (K + j)"
  shows "program_stack m' (U - (W + 4)) args envs"
proof -
  let ?t = "U - (W + 4)"
  have word: "load32 m' (U - W + j) = load32 m (A + j)" if "j + 4 \<le> W" for j
    by (rule load32_shift) (use tab[of "j + i" for i] that in \<open>simp add: add.assoc\<close>)
  have st: "stored m' U (string_block (args @ envs))"
    using f str by (simp add: pages_filled_def stored_nth)
  have e: "?t + 4 = U - W" using U(2) by simp
  have "string_array ?t m' (U - W) args"
  proof (rule string_arrayI)
    show "stored m' U (string_block args)" using st by (simp add: stored_append)
    show "load32 m' (U - W + 4 * length args) = 0"
      using word[of "4 * length args"] f W by (simp add: pages_filled_def)
    show "load32 m' (U - W + 4 * i) = of_nat (U + length (string_block (take i args)))" if "i < length args" for i
      using word[of "4 * i"] f W that by (simp add: pages_filled_def)
  qed (use U z in \<open>simp_all\<close>)
  moreover have "string_array ?t m' (U - W + 4 * (length args + 1)) envs"
  proof (rule string_arrayI)
    show "stored m' (U + length (string_block args)) (string_block envs)" using st by (simp add: stored_append)
    show "load32 m' (U - W + 4 * (length args + 1) + 4 * length envs) = 0"
      using word[of "4 * (length args + 1) + 4 * length envs"] f W by (simp add: pages_filled_def add.assoc)
    show "load32 m' (U - W + 4 * (length args + 1) + 4 * i)
        = of_nat (U + length (string_block args) + length (string_block (take i envs)))" if "i < length envs" for i
      using word[of "4 * (length args + 1) + 4 * i"] f W that by (simp add: pages_filled_def add.assoc)
  qed (use U z in \<open>simp_all\<close>)
  ultimately show ?thesis using argc by (simp add: program_stack_def e)
qed


section \<open>Properties\<close>

text \<open>
  C18: a program receives the arguments it was started with. \<^verbatim>\<open>copy_argv_envp\<close>, called with
  strings and arrays in user memory that fit in the pages it takes, returns a stack pointer
  where the program finds the number of arguments, the array of its arguments (the file name
  first) and the array of its environment, each array ended by a null pointer, although the
  strings it copies may lie where the new stack is built.
\<close>

theorem exec_arguments_arrive:
  assumes low: "kernel_pages_low (kheap k)" and al: "alloc_seq alloc_kpage [4, 1] (kheap k) \<noteq> None"
    and args: "string_array USER_EXEC (umem k) argv args" and envs: "string_array USER_EXEC (umem k) envp envs"
    and f: "cstr (umem k) filename f" "USER_EXEC \<le> filename"
    and fit: "length (string_block (f # args @ envs)) + 4 * (length args + length envs + 4) < 0x4000"
      "4 * (length args + length envs + 3) \<le> 0x1000"
  shows "\<exists>sp k'. copy_argv_envp filename argv envp k = Some (sp, k')
    \<and> program_stack (umem k') (unat sp) (f # args) envs"
proof -
  obtain pages h1 tables h2 where a1: "alloc_kpage 4 (kheap k) = Some (pages, h1)"
    and a2: "alloc_kpage 1 h1 = Some (tables, h2)"
    using al by (auto split: bind_splits)
  note l1 = alloc_kpage_low[OF low a1] and l2 = alloc_kpage_low[OF alloc_kpage_low(1)[OF low a1] a2]
  have w: "kpages_wf (kheap k)" "kpages_wf h1" using low l1(1) by (simp_all add: kernel_pages_low_def)
  note law1 = alloc_kpage_law[OF w(1) a1] and law2 = alloc_kpage_law[OF w(2) a2]
  have "kregion pages 4 \<inter> kregion tables 1 = {}" using law1 law2 by blast
  then have dis: "unat pages + 0x4000 \<le> unat tables \<or> unat tables + 0x1000 \<le> unat pages"
    using kregion_addresses[of pages 4 tables 1] l1(3) l2(3) by simp
  obtain h3 where h3: "free_kpage tables 1 h2 = Some h3" "kpages_wf h3" "kpages h3 = kpages h2 - kregion tables 1"
    using free_kpage_law[of h2 tables 1] law2 by auto
  obtain h4 where h4: "free_kpage pages 4 h3 = Some h4"
    using free_kpage_law[of h3 pages 4] law1 law2 h3(2,3) by blast
  let ?argc = "length (f # args)" and ?A = "unat tables"
  define PE where "PE = pages + 4 * MEMORY_PAGE_SIZE"
  have PE: "unat PE = unat pages + 0x4000" "unat PE \<le> USER_EXEC"
    using l1(2) by (simp_all add: PE_def unat_word_ariths)
  define B where "B = length (string_block (f # args @ envs))"
  define W where "W = 4 * (?argc + 1) + 4 * (length envs + 1)"
  have BW: "B + W + 4 < 0x4000" "W \<le> 0x1000" using fit by (simp_all add: B_def W_def)
  have "\<exists>kt' ut' m'. fill_pages filename argv envp (length args + 1) (length envs) ?A PE (umem k) = Some (kt', ut', m')
      \<and> unat kt' = unat PE - B \<and> unat ut' = 0x10000000 - B
      \<and> pages_filled ?A (f # args) envs (unat kt') (unat ut') m'"
  proof (rule fill_pages_filled[OF args envs f])
    show "?A + 4 * (length args + length envs + 3) \<le> USER_EXEC" using l2(2) fit(2) by simp
    show "?A + 4 * (length args + length envs + 3) \<le> unat PE - B \<or> unat PE \<le> ?A"
      using dis PE fit(2) BW by linarith
  qed (use PE BW in \<open>simp_all add: B_def\<close>)
  then obtain k1 u1 m1 where
    fp: "fill_pages filename argv envp ?argc (length envs) ?A PE (umem k) = Some (k1, u1, m1)"
    and k1: "unat k1 = unat PE - B" and u1: "unat u1 = 0x10000000 - B"
    and pf: "pages_filled ?A (f # args) envs (unat k1) (unat u1) m1" by auto
  obtain k2 m2 where pt: "push_tables ?argc (length envs) ?A k1 m1 = (k2, m2)" by fastforce
  have d2: "W + 4 \<le> unat k1" "?A + W \<le> unat k1 - (W + 4) \<or> unat k1 \<le> ?A" using dis PE k1 BW by linarith+
  note P = push_tables_image[OF W_def d2 pt]
  define len where "len = PE - k2"
  define sp where "sp = USER_STACK_TOP - len"
  have k2: "unat k2 + (B + W + 4) = unat PE" using P(1) k1 d2(1) BW PE by simp
  then have len: "unat len = B + W + 4" by (simp add: len_def unat_sub word_le_nat_alt)
  then have sp: "unat sp = unat u1 - (W + 4)" using BW u1 by (simp add: sp_def unat_sub word_le_nat_alt)
  define m3 where "m3 = memcpy (unat sp) (unat k2) (unat len) m2"
  have "m3 = put_bytes m2 (unat sp) (map m2 [unat k2 ..< unat k2 + unat len])"
    unfolding m3_def using sp u1 BW k2 PE len by (intro memcpy_bytes) linarith
  then have m3: "m3 (unat sp + j) = m2 (unat k2 + j)" if "j < unat len" for j
    using that by (simp add: put_bytes_def)
  have "program_stack m3 (unat u1 - (W + 4)) (f # args) envs"
  proof (rule program_stack_image[OF pf _ W_def])
    show "\<forall>s \<in> set ((f # args) @ envs). EOS \<notin> set s"
      using cstr_nonzero[OF f(1)] string_array_nth[OF args] string_array_nth[OF envs] cstr_nonzero
      by (fastforce simp: in_set_conv_nth)
    show "unat u1 + length (string_block ((f # args) @ envs)) = 0x10000000" "W + 4 \<le> unat u1"
      using u1 BW by (simp_all add: B_def)
    have "load32 m3 (unat sp) = load32 m2 (unat k2)"
      using m3 len by (intro load32_shift) simp
    then show "load32 m3 (unat u1 - (W + 4)) = of_nat ?argc" using P(2) sp by simp
    show "m3 (unat u1 - W + j) = m1 (?A + j)" if "j < W" for j
      using m3[of "4 + j"] P(3)[OF that] that len sp u1 BW by (simp add: add.assoc)
    show "m3 (unat u1 + j) = m1 (unat k1 + j)" if "j < length (string_block ((f # args) @ envs))" for j
      using m3[of "W + 4 + j"] P(4)[of "unat k1 + j"] P(1) that len sp u1 BW d2(1) by (simp add: B_def add.assoc)
  qed
  moreover have "copy_argv_envp filename argv envp k = Some (sp, k\<lparr>kheap := h4, umem := m3\<rparr>)"
  proof -
    have c: "count_argv (umem k) argv = Some (length args)" "count_argv (umem k) envp = Some (length envs)"
      using count_argv_array[OF args] count_argv_array[OF envs] by simp_all
    have "pages < k2" using k2 PE BW by (simp add: word_less_nat_alt)
    moreover have "pages + 16384 = PE" by (simp add: PE_def)
    ultimately show ?thesis
      using fp pt h3(1) h4 by (simp add: copy_argv_envp_def c a1 a2 m3_def sp_def len_def Let_def flip: PE_def)
  qed
  ultimately show ?thesis using sp by auto
qed


definition exec_kernel :: "mem kernel" where
  "exec_kernel = cache.extend (buffer_init sample_ram)
     \<lparr>umem = put_bytes (put_bytes (put_bytes (\<lambda>_. 0) 0x1000400 [108, 115, 0]) 0x1000200 [45, 108, 0])
        0x1000100 [0, 2, 0, 1, 0, 0, 0, 0],
      kheap = vm.extend (frames.extend (sample_frames\<lparr>kernel_map := bitmap_make [0xF, 0] 2 256\<rparr>)
        \<lparr>cr3 = 0x1000, phys = \<lambda>_ _. 0\<rparr>) \<lparr>arenas = \<lambda>_. None, descriptors = []\<rparr>,
      sch = sample_sched, inode_table = [], super_table = [], root_super = None, file_table = [],
      startup_time = 0\<rparr>"

lemma exec_kernel_simps [simp]:
  "kernel_map (kheap exec_kernel) = bitmap_make [0xF, 0] 2 256"
  "umem exec_kernel = put_bytes (put_bytes (put_bytes (\<lambda>_. 0) 0x1000400 [108, 115, 0]) 0x1000200 [45, 108, 0])
        0x1000100 [0, 2, 0, 1, 0, 0, 0, 0]"
  by (simp_all add: exec_kernel_def cache.defs vm.defs frames.defs)

lemma exec_kernel_low: "kernel_pages_low (kheap exec_kernel)"
  by (auto simp: kernel_pages_low_def kpages_wf_def bm_wf_def bitmap_make_def bm_dom_def)

lemma exec_arguments_arrive_witness:
  "\<exists>sp k'. copy_argv_envp 0x1000400 0x1000100 0x1000104 exec_kernel = Some (sp, k')
    \<and> program_stack (umem k') (unat sp) [[108, 115], [45, 108]] []"
proof (rule exec_arguments_arrive[OF exec_kernel_low])
  have "scan_page (bitmap_make [0xF, 0] 2 256) 4 = Some (0x104000, bitmap_make [0xFF, 0] 2 256)"
    "scan_page (bitmap_make [0xFF, 0] 2 256) 1 = Some (0x108000, bitmap_make [0xFF, 1] 2 256)" by code_simp+
  then show "alloc_seq alloc_kpage [4, 1] (kheap exec_kernel) \<noteq> None"
    by (simp add: alloc_kpage_def)
  have l: "load32 (umem exec_kernel) 0x1000100 = 0x1000200" "load32 (umem exec_kernel) 0x1000104 = 0"
    by (simp_all add: load32_def load16_def put_bytes_def)
  have s: "cstr (umem exec_kernel) 0x1000200 [45, 108]" "cstr (umem exec_kernel) 0x1000400 [108, 115]"
    by (simp_all add: put_bytes_def)
  show "cstr (umem exec_kernel) 0x1000400 [108, 115]" by (rule s)
  show "string_array USER_EXEC (umem exec_kernel) 0x1000104 []"
    using l by (simp del: exec_kernel_simps)
  show "string_array USER_EXEC (umem exec_kernel) 0x1000100 [[45, 108]]"
    using l s by (simp del: exec_kernel_simps)
qed simp_all


text \<open>
  C39: the loader never gets past a program header it does not load. The loop of \<^verbatim>\<open>load_elf\<close> goes
  on to the next number but not to the next header, so that from the first header on whose type is
  not \<^verbatim>\<open>PT_LOAD\<close> nothing more of the program is loaded, whatever headers follow it.
\<close>

theorem load_stops_at_other_header:
  assumes "p_type (phdr_at (umem k) ptr) \<noteq> PT_LOAD"
  shows "load_headers inode i ptr k = Some k"
  using assms by (induction inode i ptr k rule: load_headers.induct) (subst load_headers.simps, simp)

definition two_headers :: "mem kernel" where
  "two_headers = exec_kernel\<lparr>umem := put_bytes (put_bytes (\<lambda>_. 0) 0x1000054 [1, 0, 0, 0]) 0x100002C [2, 0]\<rparr>"

lemma load_stops_at_other_header_witness:
  "e_phnum (ehdr_at (umem two_headers) USER_EXEC) = 2
    \<and> p_type (phdr_at (umem two_headers) (USER_EXEC + EHDR_SIZE + PHDR_SIZE)) = PT_LOAD
    \<and> load_headers 0 0 (USER_EXEC + EHDR_SIZE) two_headers = Some two_headers"
proof -
  have m: "umem two_headers = put_bytes (put_bytes (\<lambda>_. 0) 0x1000054 [1, 0, 0, 0]) 0x100002C [2, 0]"
    by (simp add: two_headers_def)
  have "p_type (phdr_at (umem two_headers) (USER_EXEC + EHDR_SIZE)) \<noteq> PT_LOAD"
    unfolding m by (simp add: phdr_at_def load32_def load16_def put_bytes_def)
  then have "load_headers 0 0 (USER_EXEC + EHDR_SIZE) two_headers = Some two_headers"
    by (rule load_stops_at_other_header)
  moreover have "e_phnum (ehdr_at (umem two_headers) USER_EXEC) = 2"
    unfolding m by (simp add: ehdr_at_def load32_def load16_def put_bytes_def)
  moreover have "p_type (phdr_at (umem two_headers) (USER_EXEC + EHDR_SIZE + PHDR_SIZE)) = PT_LOAD"
    unfolding m by (simp add: phdr_at_def load32_def load16_def put_bytes_def)
  ultimately show ?thesis by simp
qed

end
