(* ===== verification/Shell.thy ===== *)
theory Shell
  imports Fs_State Memory_Words
begin

text \<open>
  \<^verbatim>\<open>builtin/utils/osh.c\<close>: the shell. It is a program of its own and meets the kernel only in
  system calls, which are a parameter \<open>os\<close>: a call with its arguments, the memory of the program
  (which the kernel reads and writes) and the state of everything else gives the value the call
  returns and the new memory and state. A string constant is compared with \<open>cstr\<close>, \<open>vars\<close> holds
  the addresses of the static buffers, and \<^verbatim>\<open>argv\<close> is a list of addresses, 0 for a null pointer.
  \<open>Sys_waitpid\<close> and \<open>Sys_stat\<close> are calls whose result buffer the program does not look at, the variants
  with \<open>into\<close> have its address.
\<close>

section \<open>System calls\<close>

datatype syscall =
    Sys_read int ptr nat
  | Sys_write int "u8 list"
  | Sys_open ptr u32 u32
  | Sys_close int
  | Sys_dup2 int int
  | Sys_pipe ptr
  | Sys_fork
  | Sys_execve ptr "ptr list"
  | Sys_exit int
  | Sys_waitpid int
  | Sys_stat ptr
  | Sys_getcwd ptr nat
  | Sys_chdir ptr
  | Sys_mkdir ptr u32
  | Sys_rmdir ptr
  | Sys_unlink ptr
  | Sys_mount ptr ptr u32
  | Sys_umount ptr
  | Sys_mkfs ptr u32
  | Sys_clear
  | Sys_lseek int int u32
  | Sys_readdir int ptr nat
  | Sys_getpid
  | Sys_time
  | Sys_waitpid_into int ptr
  | Sys_stat_into ptr ptr

record 'k shell =
  user_mem :: mem
  others :: 'k

type_synonym 'k os = "syscall \<Rightarrow> 'k shell \<Rightarrow> int \<times> 'k shell"

record shell_vars =
  v_cwd :: ptr
  v_cmd :: ptr
  v_buf :: ptr
  v_pipefd :: ptr

abbreviation (input) MAX_CMD_LEN :: nat where "MAX_CMD_LEN \<equiv> 256"
abbreviation (input) MAX_ARG_NR :: nat where "MAX_ARG_NR \<equiv> 16"
abbreviation (input) MAX_PATH_LEN :: nat where "MAX_PATH_LEN \<equiv> 1024"

definition text_of :: "string \<Rightarrow> u8 list" where
  "text_of s = map of_char s"

definition is_text :: "'k shell \<Rightarrow> ptr \<Rightarrow> string \<Rightarrow> bool" where
  "is_text st p s \<longleftrightarrow> cstr (user_mem st) p (text_of s)"

definition run :: "'k os \<Rightarrow> syscall \<Rightarrow> 'k shell \<Rightarrow> 'k shell" where
  "run os c st = snd (os c st)"

definition string_at :: "'k shell \<Rightarrow> ptr \<Rightarrow> u8 list option" where
  "string_at st p = do {
     check (p \<noteq> 0);
     n \<leftarrow> strlen p (user_mem st);
     Some (map (user_mem st) [p ..< p + n])
   }"

text \<open>\<^verbatim>\<open>printf\<close> of a constant, a string and a constant.\<close>

definition print_text :: "'k os \<Rightarrow> string \<Rightarrow> ptr \<Rightarrow> string \<Rightarrow> 'k shell \<Rightarrow> 'k shell option" where
  "print_text os intro p outro st = do {
     s \<leftarrow> string_at st p;
     Some (run os (Sys_write 1 (text_of intro @ s @ text_of outro)) st)
   }"

section \<open>The prompt and the line\<close>

definition basename :: "ptr \<Rightarrow> mem \<Rightarrow> ptr option" where
  "basename name m = do {
     found \<leftarrow> strrsep name m;
     p \<leftarrow> found;
     Some (if m (p + 1) = EOS then p else p + 1)
   }"

definition print_prompt :: "'k os \<Rightarrow> shell_vars \<Rightarrow> 'k shell \<Rightarrow> 'k shell option" where
  "print_prompt os vars st = do {
     let st = run os (Sys_getcwd (v_cwd vars) MAX_PATH_LEN) st;
     found \<leftarrow> strrsep (v_cwd vars) (user_mem st);
     p \<leftarrow> found;
     let st = (if p \<noteq> v_cwd vars then st\<lparr>user_mem := (user_mem st)(p := 0)\<rparr> else st);
     base \<leftarrow> basename (v_cwd vars) (user_mem st);
     print_text os ''[root '' base '']# '' st
   }"

definition end_line :: "ptr \<Rightarrow> 'k shell \<Rightarrow> 'k shell" where
  "end_line p st = st\<lparr>user_mem := (user_mem st)(p := 0)\<rparr>"

text \<open>The loop of \<^verbatim>\<open>readline\<close>; a write behind the \<open>count\<close> bytes of the buffer is \<open>None\<close>.\<close>

partial_function (option) readline_loop :: "'k os \<Rightarrow> ptr \<Rightarrow> nat \<Rightarrow> nat \<Rightarrow> 'k shell \<Rightarrow> 'k shell option" where
  "readline_loop os buf count idx st =
     (if idx < count then
        let p = buf + idx; (ret, st) = os (Sys_read 0 p 1) st in
        if ret = - 1 then Some (end_line p st)
        else if user_mem st p = 10 \<or> user_mem st p = 13 then Some (run os (Sys_write 1 [10]) (end_line p st))
        else if user_mem st p = 8 then
          (if user_mem st buf \<noteq> 8 then readline_loop os buf count (idx - 1) (run os (Sys_write 1 [8]) st)
           else readline_loop os buf count idx st)
        else if user_mem st p = 9 then readline_loop os buf count idx st
        else readline_loop os buf count (idx + 1) (run os (Sys_write 1 [user_mem st p]) st)
      else None)"

definition readline :: "'k os \<Rightarrow> ptr \<Rightarrow> nat \<Rightarrow> 'k shell \<Rightarrow> 'k shell option" where
  "readline os buf count st = do { check (buf \<noteq> 0); readline_loop os buf count 0 st }"

section \<open>Words of a command\<close>

partial_function (option) skip_tokens :: "u8 \<Rightarrow> ptr \<Rightarrow> mem \<Rightarrow> ptr option" where
  "skip_tokens token next m = (if m next = token then skip_tokens token (next + 1) m else Some next)"

partial_function (option) skip_word :: "u8 \<Rightarrow> ptr \<Rightarrow> mem \<Rightarrow> ptr option" where
  "skip_word token next m = (if m next \<noteq> EOS \<and> m next \<noteq> token then skip_word token (next + 1) m else Some next)"

partial_function (option) parse_loop ::
    "u8 \<Rightarrow> ptr \<Rightarrow> nat \<Rightarrow> ptr list \<Rightarrow> mem \<Rightarrow> (nat \<times> ptr list \<times> mem) option" where
  "parse_loop token next argc argv m =
     (if m next \<noteq> EOS \<and> argc < MAX_ARG_NR then
        Option.bind (skip_tokens token next m) (\<lambda>word.
          if m word = EOS then Some (argc, argv, m)
          else Option.bind (wr argv argc word) (\<lambda>argv.
            Option.bind (skip_word token word m) (\<lambda>end.
              if m end \<noteq> EOS then parse_loop token (end + 1) (argc + 1) argv (m(end := 0))
              else parse_loop token end (argc + 1) argv m)))
      else Some (argc, argv, m))"

definition cmd_parse :: "ptr \<Rightarrow> ptr list \<Rightarrow> u8 \<Rightarrow> mem \<Rightarrow> (nat \<times> ptr list \<times> mem) option" where
  "cmd_parse cmd argv token m = do {
     check (cmd \<noteq> 0);
     (argc, argv, m) \<leftarrow> parse_loop token cmd 0 argv m;
     argv \<leftarrow> wr argv argc 0;
     Some (argc, argv, m)
   }"

section \<open>The commands of the shell\<close>

definition builtin_logo :: "'k os \<Rightarrow> 'k shell \<Rightarrow> 'k shell" where
  "builtin_logo os st = fold (\<lambda>s. run os (Sys_write 1 (text_of s)))
     [''                                ____        _     '' @ [CHR 0x0A, CHR 0x09],
      ''                               / __ '' @ CHR 0x5C # ''___  (_)_ __ '' @ [CHR 0x0A, CHR 0x09],
      ''                              / /_/ / _ '' @ CHR 0x5C # ''/ /'' @ CHR 0x5C # '' '' @ CHR 0x5C # '' / '' @ [CHR 0x0A, CHR 0x09],
      ''                              '' @ CHR 0x5C # ''____/_//_/_//_'' @ CHR 0x5C # ''_'' @ CHR 0x5C # '' @ user  '' @ [CHR 0x0A]]
     (run os Sys_clear st)"

definition builtin_pwd :: "'k os \<Rightarrow> shell_vars \<Rightarrow> 'k shell \<Rightarrow> 'k shell option" where
  "builtin_pwd os vars st =
     print_text os '''' (v_cwd vars) [CHR 0x0A] (run os (Sys_getcwd (v_cwd vars) MAX_PATH_LEN) st)"

definition builtin_cd :: "'k os \<Rightarrow> nat \<Rightarrow> ptr list \<Rightarrow> 'k shell \<Rightarrow> 'k shell" where
  "builtin_cd os argc argv st = (if argc = 1 then st else run os (Sys_chdir (argv ! 1)) st)"

definition builtin_mkdir :: "'k os \<Rightarrow> nat \<Rightarrow> ptr list \<Rightarrow> 'k shell \<Rightarrow> 'k shell" where
  "builtin_mkdir os argc argv st = (if argc = 1 then st else run os (Sys_mkdir (argv ! 1) 0x1ED) st)"

definition builtin_rmdir :: "'k os \<Rightarrow> nat \<Rightarrow> ptr list \<Rightarrow> 'k shell \<Rightarrow> 'k shell" where
  "builtin_rmdir os argc argv st = (if argc = 1 then st else run os (Sys_rmdir (argv ! 1)) st)"

definition builtin_rm :: "'k os \<Rightarrow> nat \<Rightarrow> ptr list \<Rightarrow> 'k shell \<Rightarrow> 'k shell" where
  "builtin_rm os argc argv st = (if argc = 1 then st else run os (Sys_unlink (argv ! 1)) st)"

definition builtin_mount :: "'k os \<Rightarrow> nat \<Rightarrow> ptr list \<Rightarrow> 'k shell \<Rightarrow> 'k shell" where
  "builtin_mount os argc argv st = (if argc < 3 then st else run os (Sys_mount (argv ! 1) (argv ! 2) 0) st)"

definition builtin_umount :: "'k os \<Rightarrow> nat \<Rightarrow> ptr list \<Rightarrow> 'k shell \<Rightarrow> 'k shell" where
  "builtin_umount os argc argv st = (if argc < 2 then st else run os (Sys_umount (argv ! 1)) st)"

definition builtin_mkfs :: "'k os \<Rightarrow> nat \<Rightarrow> ptr list \<Rightarrow> 'k shell \<Rightarrow> 'k shell" where
  "builtin_mkfs os argc argv st = (if argc < 2 then st else run os (Sys_mkfs (argv ! 1) 0) st)"

definition builtin_touch :: "'k os \<Rightarrow> nat \<Rightarrow> ptr list \<Rightarrow> 'k shell \<Rightarrow> 'k shell" where
  "builtin_touch os argc argv st =
     (if argc < 2 then st
      else let (fd, st) = os (Sys_open (argv ! 1) (O_CREAT OR O_RDWR) 0x1FF) st
           in if fd = - 1 then st else run os (Sys_close fd) st)"

section \<open>Redirection\<close>

record redirections =
  infile :: ptr
  outfile :: ptr
  errfile :: ptr
  outappend :: u32
  errappend :: u32

text \<open>
  The loop of \<^verbatim>\<open>dupfile\<close> over \<^verbatim>\<open>argv\<close>: an operator with a word behind it is taken out. \<^verbatim>\<open>strcmp\<close>
  of a null pointer is an access outside the program.
\<close>

fun scan_redirects :: "nat \<Rightarrow> nat \<Rightarrow> 'k shell \<Rightarrow> ptr list \<Rightarrow> redirections \<Rightarrow> (ptr list \<times> redirections) option" where
  "scan_redirects 0 i st argv r = Some (argv, r)"
| "scan_redirects (Suc left) i st argv r = do {
     p \<leftarrow> rd argv i;
     check (p \<noteq> 0);
     let operator = (\<lambda>s. is_text st p s \<and> 0 < left);
     let file = argv ! (i + 1);
     let taken = (\<lambda>r. scan_redirects (left - 1) (i + 2) st (argv[i := 0]) r);
     if operator ''<'' then taken (r\<lparr>infile := file\<rparr>)
     else if operator ''>'' then taken (r\<lparr>outfile := file\<rparr>)
     else if operator ''>>'' then taken (r\<lparr>outfile := file, outappend := O_APPEND\<rparr>)
     else if operator ''2>'' then taken (r\<lparr>errfile := file\<rparr>)
     else if operator ''2>>'' then taken (r\<lparr>errfile := file, outappend := O_APPEND\<rparr>)
     else scan_redirects left (i + 1) st argv r
   }"

definition close_all :: "'k os \<Rightarrow> int list \<Rightarrow> 'k shell \<Rightarrow> 'k shell" where
  "close_all os fds st = fold (\<lambda>fd. if fd \<noteq> - 1 then run os (Sys_close fd) else id) fds st"

text \<open>One of the three opens: the file, its flags and the descriptors so far.\<close>

definition open_redirect :: "'k os \<Rightarrow> ptr \<Rightarrow> ptr \<Rightarrow> u32 \<Rightarrow> nat \<Rightarrow> int list \<times> 'k shell
    \<Rightarrow> (int list option \<times> 'k shell) option" where
  "open_redirect os file shown flags n = (\<lambda>(fds, st).
     if file = 0 then Some (Some fds, st)
     else let (fd, st) = os (Sys_open file flags 0x1ED) st in
       if fd = - 1 then do {
         st \<leftarrow> print_text os ''open file '' shown ('' failure'' @ [CHR 0x0A]) st;
         Some (None, close_all os fds st) }
       else Some (Some (fds[n := fd]), st))"

definition dupfile :: "'k os \<Rightarrow> nat \<Rightarrow> ptr list \<Rightarrow> 'k shell \<Rightarrow> (ptr list \<times> int list option \<times> 'k shell) option" where
  "dupfile os argc argv st = do {
     (argv, r) \<leftarrow> scan_redirects argc 0 st argv \<lparr>infile = 0, outfile = 0, errfile = 0, outappend = 0, errappend = 0\<rparr>;
     (fds, st) \<leftarrow> open_redirect os (infile r) (infile r) (O_RDONLY OR outappend r OR O_CREAT) 0 ([- 1, - 1, - 1], st);
     (fds, st) \<leftarrow> (case fds of None \<Rightarrow> Some (None, st)
        | Some fds \<Rightarrow> open_redirect os (outfile r) (infile r) (O_WRONLY OR outappend r OR O_CREAT) 1 (fds, st));
     (fds, st) \<leftarrow> (case fds of None \<Rightarrow> Some (None, st)
        | Some fds \<Rightarrow> open_redirect os (errfile r) (infile r) (O_RDONLY OR errappend r OR O_CREAT) 2 (fds, st));
     Some (argv, fds, st)
   }"

section \<open>Running programs\<close>

text \<open>A process either goes on (with a value) or has ended, after \<^verbatim>\<open>exit\<close> or a successful \<^verbatim>\<open>execve\<close>.\<close>

datatype ('a, 'k) outcome = Ended "'k shell" | Back 'a "'k shell"

definition move_fd :: "'k os \<Rightarrow> int \<Rightarrow> int \<Rightarrow> 'k shell \<Rightarrow> 'k shell" where
  "move_fd os fd target st =
     (if fd \<noteq> - 1 then run os (Sys_close fd) (run os (Sys_dup2 fd target) st) else st)"

definition builtin_command :: "'k os \<Rightarrow> ptr \<Rightarrow> ptr list \<Rightarrow> int \<Rightarrow> int \<Rightarrow> int \<Rightarrow> 'k shell \<Rightarrow> (int, 'k) outcome" where
  "builtin_command os filename argv infd outfd errfd st =
     (let (pid, st) = os Sys_fork st in
      if pid \<noteq> 0 then Back pid (close_all os [infd, outfd, errfd] st)
      else let st = move_fd os errfd 2 (move_fd os outfd 1 (move_fd os infd 0 st));
               (i, st) = os (Sys_execve filename argv) st
           in Ended (run os (Sys_exit i) st))"

record pipeline =
  pl_ready :: bool
  pl_args :: "nat option"
  pl_name :: ptr
  pl_infd :: int
  pl_count :: nat

definition args_from :: "nat option \<Rightarrow> ptr list \<Rightarrow> ptr list" where
  "args_from start argv = (case start of None \<Rightarrow> [] | Some i \<Rightarrow> takeWhile (\<lambda>a. a \<noteq> 0) (drop i argv))"

text \<open>
  The loop of \<^verbatim>\<open>builtin_exec\<close>, from word number \<open>i\<close> on. \<open>pl_ready\<close> is \<^verbatim>\<open>p\<close>: the next word names a
  program. The value \<open>None\<close> inside \<open>Back\<close> is the return after \<^verbatim>\<open>command not found\<close>.
\<close>

fun exec_loop :: "'k os \<Rightarrow> shell_vars \<Rightarrow> nat \<Rightarrow> nat \<Rightarrow> ptr list \<Rightarrow> pipeline \<Rightarrow> 'k shell
    \<Rightarrow> ((ptr list \<times> pipeline) option, 'k) outcome option" where
  "exec_loop os vars 0 i argv pl st = Some (Back (Some (argv, pl)) st)"
| "exec_loop os vars (Suc left) i argv pl st = do {
     p \<leftarrow> rd argv i;
     if p = 0 then exec_loop os vars left (i + 1) argv pl st
     else if \<not> pl_ready pl \<and> is_text st p ''|'' then do {
       let argv = argv[i := 0];
       let st = run os (Sys_pipe (v_pipefd vars)) st;
       let infd = sint (load32 (user_mem st) (v_pipefd vars));
       let outfd = sint (load32 (user_mem st) (v_pipefd vars + 4));
       case builtin_command os (pl_name pl) (args_from (pl_args pl) argv) (pl_infd pl) outfd (- 1) st of
         Ended st \<Rightarrow> Some (Ended st)
       | Back pid st \<Rightarrow> do {
           len \<leftarrow> strlen (pl_name pl) (user_mem st);
           exec_loop os vars left (i + 1) argv
             (pl\<lparr>pl_count := pl_count pl + 1, pl_infd := infd, pl_name := pl_name pl + (len + 1), pl_ready := True\<rparr>) st } }
     else if \<not> pl_ready pl then exec_loop os vars left (i + 1) argv pl st
     else do {
       s \<leftarrow> string_at st p;
       let st = st\<lparr>user_mem := put_bytes (user_mem st) (pl_name pl) (text_of ''/bin/'' @ s @ [0])\<rparr>;
       let (r, st) = os (Sys_stat (pl_name pl)) st;
       if r = - 1 then map_option (Back None) (print_text os ''osh: command not found: '' p [CHR 0x0A] st)
       else exec_loop os vars left (i + 1) argv (pl\<lparr>pl_args := Some (i + 1), pl_ready := False\<rparr>) st }
   }"

definition builtin_exec :: "'k os \<Rightarrow> shell_vars \<Rightarrow> nat \<Rightarrow> ptr list \<Rightarrow> 'k shell \<Rightarrow> (unit, 'k) outcome option" where
  "builtin_exec os vars argc argv st = do {
     (argv, found, st) \<leftarrow> dupfile os argc argv st;
     case found of None \<Rightarrow> Some (Back () st)
     | Some fds \<Rightarrow> do {
         r \<leftarrow> exec_loop os vars argc 0 argv
           \<lparr>pl_ready = True, pl_args = None, pl_name = v_buf vars, pl_infd = fds ! 0, pl_count = 0\<rparr> st;
         case r of Ended st \<Rightarrow> Some (Ended st)
         | Back None st \<Rightarrow> Some (Back () st)
         | Back (Some (argv, pl)) st \<Rightarrow>
             (case builtin_command os (pl_name pl) (args_from (pl_args pl) argv) (pl_infd pl) (fds ! 1) (fds ! 2) st of
                Ended st \<Rightarrow> Some (Ended st)
              | Back pid st \<Rightarrow> Some (Back () ((run os (Sys_waitpid (- 1)) ^^ (pl_count pl + 1)) st))) }
   }"

definition builtin_exit :: "'k os \<Rightarrow> nat \<Rightarrow> ptr list \<Rightarrow> 'k shell \<Rightarrow> (unit, 'k) outcome option" where
  "builtin_exit os argc argv st = do {
     code \<leftarrow> (if argc = 2 then map_option sint (atoi (argv ! 1) (user_mem st)) else Some 0);
     Some (Ended (run os (Sys_exit code) st))
   }"

definition execute :: "'k os \<Rightarrow> shell_vars \<Rightarrow> nat \<Rightarrow> ptr list \<Rightarrow> 'k shell \<Rightarrow> (unit, 'k) outcome option" where
  "execute os vars argc argv st =
     (let line = (\<lambda>s. is_text st (argv ! 0) s); back = (\<lambda>st. Some (Back () st)) in
      if argc = 0 then back st
      else if line ''logo'' then back (builtin_logo os st)
      else if line ''pwd'' then map_option (Back ()) (builtin_pwd os vars st)
      else if line ''clear'' then back (run os Sys_clear st)
      else if line ''exit'' then builtin_exit os argc argv st
      else if line ''cd'' then back (builtin_cd os argc argv st)
      else if line ''mkdir'' then back (builtin_mkdir os argc argv st)
      else if line ''rmdir'' then back (builtin_rmdir os argc argv st)
      else if line ''rm'' then back (builtin_rm os argc argv st)
      else if line ''mount'' then back (builtin_mount os argc argv st)
      else if line ''umount'' then back (builtin_umount os argc argv st)
      else if line ''mkfs'' then back (builtin_mkfs os argc argv st)
      else if line ''touch'' then back (builtin_touch os argc argv st)
      else if line ''exec'' then builtin_exec os vars (argc - 1) (drop 1 argv) st
      else builtin_exec os vars argc argv st)"

text \<open>One turn of the loop of \<^verbatim>\<open>main\<close>; \<open>argv\<close> is the static array as the turn before left it.\<close>

definition shell_turn :: "'k os \<Rightarrow> shell_vars \<Rightarrow> ptr list \<Rightarrow> 'k shell \<Rightarrow> (unit, 'k) outcome option" where
  "shell_turn os vars argv st = do {
     st \<leftarrow> print_prompt os vars st;
     st \<leftarrow> readline os (v_cmd vars) MAX_CMD_LEN st;
     if user_mem st (v_cmd vars) = 0 then Some (Back () st)
     else do {
       (argc, argv, m) \<leftarrow> cmd_parse (v_cmd vars) argv 32 (user_mem st);
       let st = st\<lparr>user_mem := m\<rparr>;
       if argc \<ge> MAX_ARG_NR then Some (Back () st) else execute os vars argc argv st }
   }"

section \<open>What the parser finds\<close>

text \<open>The words of a line between one or more separators.\<close>

function words :: "u8 \<Rightarrow> u8 list \<Rightarrow> u8 list list" where
  "words t s = (case dropWhile (\<lambda>c. c = t) s of [] \<Rightarrow> []
     | c # cs \<Rightarrow> takeWhile (\<lambda>c. c \<noteq> t) (c # cs) # words t (dropWhile (\<lambda>c. c \<noteq> t) (c # cs)))"
  by pat_completeness auto
termination
proof (relation "measure (\<lambda>(t, s). length s)")
  fix t :: u8 and s c cs
  assume e: "dropWhile (\<lambda>c. c = t) s = c # cs"
  then have "c \<noteq> t" using hd_dropWhile[of "\<lambda>c. c = t" s] by simp
  then have "length (dropWhile (\<lambda>c. c \<noteq> t) (c # cs)) < length (c # cs)"
    using length_dropWhile_le[of "\<lambda>c. c \<noteq> t" cs] by simp
  also have "length (c # cs) \<le> length s" using e length_dropWhile_le[of "\<lambda>c. c = t" s] by simp
  finally show "((t, dropWhile (\<lambda>c. c \<noteq> t) (c # cs)), t, s) \<in> measure (\<lambda>(t, s). length s)" by simp
qed simp

declare words.simps [simp del]

lemma words_Nil [simp]: "words t [] = []"
  by (subst words.simps) simp

lemma words_sep [simp]: "words t (t # s) = words t s"
  by (subst (1 2) words.simps) simp

lemma words_word:
  assumes "dropWhile (\<lambda>c. c = t) s = w @ r" "w \<noteq> []" "\<forall>c \<in> set w. c \<noteq> t" "r = [] \<or> hd r = t"
  shows "words t s = w # words t r"
proof -
  have d: "takeWhile (\<lambda>c. c \<noteq> t) (w @ r) = w" "dropWhile (\<lambda>c. c \<noteq> t) (w @ r) = r"
    using assms(3,4) by (cases r; simp)+
  obtain c cs where c: "w @ r = c # cs" using assms(2) by (cases w) auto
  show ?thesis by (subst words.simps) (simp only: assms(1) c list.case d[unfolded c])
qed

lemma skip_tokens_run: "cstr m p s \<Longrightarrow> t \<noteq> 0 \<Longrightarrow>
    skip_tokens t p m = Some (p + length (takeWhile (\<lambda>c. c = t) s))"
proof (induction s arbitrary: p)
  case Nil
  then show ?case by (subst skip_tokens.simps) simp
next
  case (Cons c s)
  then show ?case using Cons.IH[of "p + 1"] by (subst skip_tokens.simps) simp
qed

lemma skip_word_run: "cstr m p s \<Longrightarrow> skip_word t p m = Some (p + length (takeWhile (\<lambda>c. c \<noteq> t) s))"
proof (induction s arbitrary: p)
  case Nil
  then show ?case by (subst skip_word.simps) simp
next
  case (Cons c s)
  then show ?case using Cons.IH[of "p + 1"] by (subst skip_word.simps) simp
qed

lemma cstr_append: "cstr m p (s @ r) \<longleftrightarrow> stored m p s \<and> EOS \<notin> set s \<and> cstr m (p + length s) r"
  by (induction s arbitrary: p) auto

lemma cstr_end: "cstr m p s \<Longrightarrow> m (p + length s) = EOS"
  by (induction m p s rule: cstr.induct) auto

text \<open>The state after parsing: the words found from number \<open>argc\<close> on, and nothing else changed.\<close>

definition parsed :: "ptr \<Rightarrow> nat \<Rightarrow> nat \<Rightarrow> ptr list \<Rightarrow> mem \<Rightarrow> u8 list list \<Rightarrow> ptr list \<Rightarrow> mem \<Rightarrow> bool" where
  "parsed p n argc argv m ws argv' m' \<longleftrightarrow> length argv' = MAX_ARG_NR \<and> (\<forall>j < argc. argv' ! j = argv ! j)
     \<and> (\<forall>j < length ws. argc + j < MAX_ARG_NR \<longrightarrow> cstr m' (argv' ! (argc + j)) (ws ! j))
     \<and> (\<forall>a. a < p \<or> p + n \<le> a \<longrightarrow> m' a = m a)"

lemma parse_loop_words:
  assumes "cstr m p s" "t \<noteq> 0" "length argv = MAX_ARG_NR" "argc \<le> MAX_ARG_NR"
  shows "\<exists>argv' m'. parse_loop t p argc argv m = Some (min MAX_ARG_NR (argc + length (words t s)), argv', m')
    \<and> parsed p (length s) argc argv m (words t s) argv' m'"
  using assms
proof (induction "length s" arbitrary: s p argc argv m rule: less_induct)
  case less
  show ?case
  proof (cases "s = [] \<or> argc = MAX_ARG_NR")
    case True
    then have "parse_loop t p argc argv m = Some (argc, argv, m)"
      using less.prems(1) by (subst parse_loop.simps) auto
    then show ?thesis using True less.prems(3,4) by (auto simp: parsed_def)
  next
    case False
    define k where "k = length (takeWhile (\<lambda>c. c = t) s)"
    define u where "u = dropWhile (\<lambda>c. c = t) s"
    have su: "s = takeWhile (\<lambda>c. c = t) s @ u" by (simp add: u_def)
    have lu: "length s = k + length u" using arg_cong[OF su, of length] by (simp add: k_def)
    have "cstr m p (takeWhile (\<lambda>c. c = t) s @ u)" using less.prems(1) by (simp add: u_def)
    then have cu: "cstr m (p + k) u" by (simp add: cstr_append k_def)
    have mp: "m p \<noteq> EOS" using less.prems(1) False by (cases s) auto
    have sk: "skip_tokens t p m = Some (p + k)" using skip_tokens_run[OF less.prems(1,2)] by (simp add: k_def)
    show ?thesis
    proof (cases "u = []")
      case True
      then have "parse_loop t p argc argv m = Some (argc, argv, m)"
        using cu sk mp False by (subst parse_loop.simps) simp
      moreover have "words t s = []" using True unfolding u_def by (subst words.simps) (simp only: list.case)
      ultimately show ?thesis using less.prems(3,4) by (auto simp: parsed_def)
    next
      case un: False
      define w where "w = takeWhile (\<lambda>c. c \<noteq> t) u"
      define r where "r = dropWhile (\<lambda>c. c \<noteq> t) u"
      have uw: "u = w @ r" by (simp add: w_def r_def)
      have "hd u \<noteq> t" using hd_dropWhile[of "\<lambda>c. c = t" s] un by (simp add: u_def)
      then have wn: "w \<noteq> []" using un by (cases u) (auto simp: w_def)
      have wt: "\<forall>c \<in> set w. c \<noteq> t" using set_takeWhileD by (fastforce simp: w_def)
      have rt: "r = [] \<or> hd r = t" using hd_dropWhile[of "\<lambda>c. c \<noteq> t" u] by (auto simp: r_def)
      have ws: "words t s = w # words t r" using uw wn wt rt by (intro words_word) (simp_all add: u_def)
      have sw: "skip_word t (p + k) m = Some (p + k + length w)"
        using skip_word_run[OF cu] by (simp add: w_def)
      have st: "stored m (p + k) w" "EOS \<notin> set w" "cstr m (p + k + length w) r"
        using cu by (simp_all add: uw cstr_append)
      have mk: "m (p + k) \<noteq> EOS" using cu un by (cases u) auto
      have lr: "length s = k + length w + length r" using lu by (simp add: uw)
      define argv1 where "argv1 = argv[argc := p + k]"
      define e where "e = p + k + length w"
      define m1 where "m1 = m(e := EOS)"
      have argc: "argc < MAX_ARG_NR" using False less.prems(4) by simp
      have w1: "cstr m1 (p + k) w"
        by (intro stored_cstr)
          (use st(1,2) stored_cong[OF st(1), of m1] in \<open>auto simp: stored_append m1_def e_def\<close>)
      have step: "parse_loop t p argc argv m = (if m e \<noteq> EOS then parse_loop t (e + 1) (argc + 1) argv1 m1
          else parse_loop t e (argc + 1) argv1 m)"
        using mp sk mk sw argc less.prems(3) unfolding e_def m1_def argv1_def by (subst parse_loop.simps) simp
      have "\<exists>q ss m2. length ss < length s \<and> cstr m2 q ss \<and> words t ss = words t r \<and> p + k + length w \<le> q
          \<and> q + length ss = p + length s \<and> parse_loop t p argc argv m = parse_loop t q (argc + 1) argv1 m2
          \<and> cstr m2 (p + k) w \<and> (\<forall>a. a < p \<or> p + length s \<le> a \<longrightarrow> m2 a = m a) \<and> (q = e \<longrightarrow> m2 e = EOS \<and> ss = [])"
      proof (cases r)
        case Nil
        then have me: "m e = EOS" using st(3) by (simp add: e_def)
        then have "m1 = m" by (auto simp: m1_def)
        moreover have "0 < length w" using wn by simp
        ultimately show ?thesis using Nil step me w1 lr
          by (intro exI[of _ e] exI[of _ "[] :: u8 list"] exI[of _ m]) (auto simp: e_def)
      next
        case (Cons c r')
        then have c: "c = t" "m e = t" using rt st(3) by (simp_all add: e_def)
        have "cstr m (e + 1) r'" using st(3) Cons by (simp add: e_def)
        then have "cstr m1 (e + 1) r'" by (rule cstr_cong) (simp add: m1_def)
        then show ?thesis using step c less.prems(2) w1 lr Cons
          by (intro exI[of _ "e + 1"] exI[of _ r'] exI[of _ m1]) (auto simp: e_def m1_def)
      qed
      then obtain q ss m2 where q: "length ss < length s" "cstr m2 q ss" "words t ss = words t r" "p + k + length w \<le> q"
        "q + length ss = p + length s" "parse_loop t p argc argv m = parse_loop t q (argc + 1) argv1 m2"
        "cstr m2 (p + k) w" "\<And>a. a < p \<or> p + length s \<le> a \<Longrightarrow> m2 a = m a" "q = e \<Longrightarrow> m2 e = EOS \<and> ss = []"
        by blast
      have la: "length argv1 = MAX_ARG_NR" "argc + 1 \<le> MAX_ARG_NR" using less.prems(3) argc by (simp_all add: argv1_def)
      obtain argv' m' where r: "parse_loop t q (argc + 1) argv1 m2 = Some (min MAX_ARG_NR (argc + 1 + length (words t ss)), argv', m')"
        and P: "parsed q (length ss) (argc + 1) argv1 m2 (words t ss) argv' m'"
        using less.hyps[OF q(1,2) less.prems(2) la] by blast
      have "cstr m' (p + k) w"
      proof (rule cstr_cong[OF q(7)])
        fix a assume a: "p + k \<le> a" "a \<le> p + k + length w"
        then show "m' a = m2 a" using P q(4,9) by (cases "a < q") (auto simp: parsed_def e_def)
      qed
      moreover have "argv' ! argc = p + k" using P less.prems(3) argc by (simp add: parsed_def argv1_def)
      moreover have "argv' ! j = argv ! j" if "j < argc" for j
        using P that by (simp add: parsed_def argv1_def)
      moreover have "cstr m' (argv' ! (argc + j)) (words t s ! j)" if "0 < j" "j < length (words t s)" "argc + j < MAX_ARG_NR" for j
        using P that ws q(3) by (cases j) (auto simp: parsed_def)
      moreover have "m' a = m a" if "a < p \<or> p + length s \<le> a" for a
        using P q(4,5) q(8)[of a] that by (auto simp: parsed_def)
      ultimately have "parsed p (length s) argc argv m (words t s) argv' m'"
        using P ws q(3) by (auto simp: parsed_def nth_Cons split: nat.splits)
      then show ?thesis using r q(3,6) ws by auto
    qed
  qed
qed

section \<open>What the editor leaves\<close>

text \<open>
  The documented behaviour of the two calls of \<^verbatim>\<open>readline\<close>: \<^verbatim>\<open>read\<close> of one byte of the standard input
  stores the next byte of the input and returns 1, \<^verbatim>\<open>write\<close> changes neither the memory of the
  program nor its input. \<open>pending\<close> is the input that is still to be read.
\<close>

definition reads_input :: "'k os \<Rightarrow> ('k \<Rightarrow> u8 list) \<Rightarrow> bool" where
  "reads_input os pending \<longleftrightarrow>
     (\<forall>p st c cs. pending (others st) = c # cs \<longrightarrow> (\<exists>k. os (Sys_read 0 p 1) st =
        (1, \<lparr>user_mem = (user_mem st)(p := c), others = k\<rparr>) \<and> pending k = cs))
     \<and> (\<forall>bs st. user_mem (run os (Sys_write 1 bs) st) = user_mem st
        \<and> pending (others (run os (Sys_write 1 bs) st)) = pending (others st))"

text \<open>A line is edited: a backspace takes the last character away, a tabulator is ignored.\<close>

fun edit :: "u8 list \<Rightarrow> u8 list \<Rightarrow> u8 list" where
  "edit s [] = s"
| "edit s (c # cs) = edit (if c = 8 then butlast s else if c = 9 then s else s @ [c]) cs"

text \<open>The line never fills the buffer while it is edited.\<close>

fun edit_fits :: "nat \<Rightarrow> u8 list \<Rightarrow> u8 list \<Rightarrow> bool" where
  "edit_fits n s [] \<longleftrightarrow> length s < n"
| "edit_fits n s (c # cs) \<longleftrightarrow> length s < n
     \<and> edit_fits n (if c = 8 then butlast s else if c = 9 then s else s @ [c]) cs"

lemma readline_edits_loop:
  assumes "reads_input os pending" "pending (others st) = cs @ [10] @ rest" "stored (user_mem st) buf s"
    "set s \<inter> {0, 8} = {}" "set cs \<inter> {0, 10, 13} = {}" "edit_fits count s cs" "length s = idx"
  shows "\<exists>st'. readline_loop os buf count idx st = Some st' \<and> cstr (user_mem st') buf (edit s cs)
    \<and> pending (others st') = rest"
  using assms(2-)
proof (induction cs arbitrary: s idx st)
  case Nil
  have r: "\<And>p st c cs. pending (others st) = c # cs \<Longrightarrow> \<exists>k. os (Sys_read 0 p 1) st =
        (1, \<lparr>user_mem = (user_mem st)(p := c), others = k\<rparr>) \<and> pending k = cs"
    and w: "\<And>bs st. user_mem (run os (Sys_write 1 bs) st) = user_mem st"
      "\<And>bs st. pending (others (run os (Sys_write 1 bs) st)) = pending (others st)"
    using assms(1) by (auto simp: reads_input_def)
  obtain k where k: "os (Sys_read 0 (buf + idx) 1) st = (1, \<lparr>user_mem = (user_mem st)(buf + idx := 10), others = k\<rparr>)"
    "pending k = rest" using r[of st 10 rest] Nil.prems(1) by auto
  have "stored ((user_mem st)(buf + idx := 0)) buf s"
    by (rule stored_cong[OF Nil.prems(2)]) (use Nil.prems(6) in auto)
  then have "cstr ((user_mem st)(buf + idx := 0)) buf s"
    using Nil.prems(3,6) by (intro stored_cstr) (auto simp: stored_append)
  then show ?case using k w Nil.prems(5,6)
    by (subst readline_loop.simps) (simp add: end_line_def Let_def)
next
  case (Cons c cs)
  have r: "\<And>p st c cs. pending (others st) = c # cs \<Longrightarrow> \<exists>k. os (Sys_read 0 p 1) st =
        (1, \<lparr>user_mem = (user_mem st)(p := c), others = k\<rparr>) \<and> pending k = cs"
    and w: "\<And>bs st. user_mem (run os (Sys_write 1 bs) st) = user_mem st"
      "\<And>bs st. pending (others (run os (Sys_write 1 bs) st)) = pending (others st)"
    using assms(1) by (auto simp: reads_input_def)
  obtain k where k: "os (Sys_read 0 (buf + idx) 1) st = (1, \<lparr>user_mem = (user_mem st)(buf + idx := c), others = k\<rparr>)"
    "pending k = cs @ [10] @ rest" using r[of st c "cs @ [10] @ rest"] Cons.prems(1) by auto
  define st1 where "st1 = \<lparr>user_mem = (user_mem st)(buf + idx := c), others = k\<rparr>"
  have n: "idx < count" using Cons.prems(5,6) by simp
  have c: "c \<noteq> 10" "c \<noteq> 13" "c \<noteq> 0" using Cons.prems(4) by auto
  have s1: "stored (user_mem st1) buf s"
    by (rule stored_cong[OF Cons.prems(2)]) (use Cons.prems(6) in \<open>auto simp: st1_def\<close>)
  have at: "user_mem st1 (buf + idx) = c" by (simp add: st1_def)
  have p1: "pending (others st1) = cs @ [10] @ rest" using k by (simp add: st1_def)
  have step: "readline_loop os buf count idx st =
      (if c = 8 then (if user_mem st1 buf \<noteq> 8 then readline_loop os buf count (idx - 1) (run os (Sys_write 1 [8]) st1)
           else readline_loop os buf count idx st1)
       else if c = 9 then readline_loop os buf count idx st1
       else readline_loop os buf count (idx + 1) (run os (Sys_write 1 [c]) st1))"
    using n k(1) c at by (subst readline_loop.simps) (simp add: Let_def flip: st1_def)
  consider "c = 8" "s = []" | "c = 8" "s \<noteq> []" | "c = 9" | "c \<noteq> 8" "c \<noteq> 9" by blast
  then show ?case
  proof cases
    case 1
    then have "user_mem st1 buf = 8" using at Cons.prems(6) by simp
    then show ?thesis using Cons.IH[OF p1 s1] 1 step Cons.prems by simp
  next
    case 2
    then have "user_mem st1 buf \<noteq> 8" using s1 Cons.prems(3) by (cases s) auto
    moreover have "stored (user_mem (run os (Sys_write 1 [8]) st1)) buf (butlast s)"
      using s1 2 by (cases s rule: rev_cases) (simp_all add: w stored_append)
    moreover have "set (butlast s) \<inter> {0, 8} = {}" using Cons.prems(3) by (auto dest: in_set_butlastD)
    ultimately show ?thesis
      using Cons.IH[of "run os (Sys_write 1 [8]) st1" "butlast s" "idx - 1"] 2 step Cons.prems p1 w by simp
  next
    case 3
    then show ?thesis using Cons.IH[OF p1 s1] step Cons.prems by simp
  next
    case 4
    have "stored (user_mem (run os (Sys_write 1 [c]) st1)) buf (s @ [c])"
      using s1 at Cons.prems(6) by (simp add: w stored_append)
    then show ?thesis
      using Cons.IH[of "run os (Sys_write 1 [c]) st1" "s @ [c]" "idx + 1"] 4 step Cons.prems p1 w c by simp
  qed
qed

section \<open>Properties\<close>

text \<open>
  C34: \<^verbatim>\<open>readline\<close> returns the line as it was edited. With fewer than \<^verbatim>\<open>count\<close> characters at every
  moment, the buffer holds, as a string, the characters typed up to the newline with every
  backspace applied (at the start of the line it does nothing) and tabulators left out, and the
  input behind the newline is still to be read.
\<close>

theorem readline_edits:
  assumes "reads_input os pending" "pending (others st) = cs @ [10] @ rest" "set cs \<inter> {0, 10, 13} = {}"
    "edit_fits count [] cs" "buf \<noteq> 0"
  shows "\<exists>st'. readline os buf count st = Some st' \<and> cstr (user_mem st') buf (edit [] cs)
    \<and> pending (others st') = rest"
  using readline_edits_loop[OF assms(1,2), of buf "[]" count 0] assms(3-5) by (simp add: readline_def)

definition typed_os :: "u8 list os" where
  "typed_os c st = (case c of
     Sys_read fd p n \<Rightarrow> (case others st of [] \<Rightarrow> (- 1, st)
       | b # bs \<Rightarrow> (1, st\<lparr>user_mem := (user_mem st)(p := b), others := bs\<rparr>))
   | _ \<Rightarrow> (0, st))"

lemma typed_os_reads: "reads_input typed_os (\<lambda>k. k)"
  by (auto simp: reads_input_def typed_os_def run_def)

lemma readline_edits_witness:
  "\<exists>st'. readline typed_os 0x1000 256 \<lparr>user_mem = (\<lambda>_. 0), others = [108, 120, 8, 115, 10, 65]\<rparr> = Some st'
    \<and> cstr (user_mem st') 0x1000 [108, 115] \<and> others st' = [65]"
  using readline_edits[where st = "\<lparr>user_mem = (\<lambda>_. 0), others = [108, 120, 8, 115, 10, 65]\<rparr>"
    and cs = "[108, 120, 8, 115]" and rest = "[65]" and count = "256" and buf = "0x1000", OF typed_os_reads] by simp

text \<open>
  C33: \<^verbatim>\<open>cmd_parse\<close> splits a command line into its words. For a line of fewer than 16 words it returns
  their number, \<^verbatim>\<open>argv\<close> holds the addresses of the words in order, each now a string of its own in
  the line, and a null pointer ends it.
\<close>

theorem cmd_parse_splits:
  assumes "cstr m cmd s" "cmd \<noteq> 0" "t \<noteq> 0" "length argv = MAX_ARG_NR" "length (words t s) < MAX_ARG_NR"
  shows "\<exists>argv' m'. cmd_parse cmd argv t m = Some (length (words t s), argv', m')
    \<and> list_all2 (cstr m') (take (length (words t s)) argv') (words t s) \<and> argv' ! length (words t s) = 0"
proof -
  obtain argv' m' where r: "parse_loop t cmd 0 argv m = Some (length (words t s), argv', m')"
    and P: "parsed cmd (length s) 0 argv m (words t s) argv' m'"
    using parse_loop_words[OF assms(1,3,4), of 0] assms(5) by auto
  have "cmd_parse cmd argv t m = Some (length (words t s), argv'[length (words t s) := 0], m')"
    using r P assms(2,5) by (simp add: cmd_parse_def parsed_def)
  moreover have "list_all2 (cstr m') (take (length (words t s)) argv') (words t s)"
    using P assms(5) by (simp add: list_all2_conv_all_nth parsed_def)
  ultimately show ?thesis using P assms(5) by (auto simp: parsed_def)
qed

lemma cmd_parse_splits_witness:
  "\<exists>argv' m'. cmd_parse 100 (replicate 16 0) 32 (put_bytes (\<lambda>_. 0) 100 [108, 115, 32, 32, 45, 108, 0]) = Some (2, argv', m')
    \<and> list_all2 (cstr m') (take 2 argv') [[108, 115], [45, 108]] \<and> argv' ! 2 = 0"
proof -
  have w: "words 32 [108, 115, 32, 32, 45, 108] = [[108, 115], [45, 108]]" by code_simp
  have "cstr (put_bytes (\<lambda>_. 0) 100 ([108, 115, 32, 32, 45, 108] @ [EOS])) 100 [108, 115, 32, 32, 45, 108]"
    by (rule cstr_put_bytes) simp
  from cmd_parse_splits[OF this, of 32 "replicate 16 0"] w show ?thesis by (simp del: cstr.simps flip: numeral_2_eq_2)
qed

text \<open>
  A line of 16 or more words makes \<^verbatim>\<open>cmd_parse\<close> write behind the end of \<^verbatim>\<open>argv\<close>: the null pointer
  that ends the array goes to \<^verbatim>\<open>argv[16]\<close>, before \<^verbatim>\<open>main\<close> looks at the number of words.
\<close>

lemma cmd_parse_overflow:
  assumes "cstr m cmd s" "t \<noteq> 0" "length argv = MAX_ARG_NR" "MAX_ARG_NR \<le> length (words t s)"
  shows "cmd_parse cmd argv t m = None"
proof -
  obtain argv' m' where "parse_loop t cmd 0 argv m = Some (MAX_ARG_NR, argv', m')"
    and "parsed cmd (length s) 0 argv m (words t s) argv' m'"
    using parse_loop_words[OF assms(1,2,3), of 0] assms(4) by (auto simp: min_def)
  then show ?thesis by (auto simp: cmd_parse_def parsed_def wr_def)
qed

end
