(* ===== verification/Utils.thy ===== *)
theory Utils
  imports Shell Format Calendar
begin

text \<open>
  The small user programs of \<^verbatim>\<open>builtin/utils\<close>: \<^verbatim>\<open>cat\<close>, \<^verbatim>\<open>dup\<close>, \<^verbatim>\<open>echo\<close>, \<^verbatim>\<open>env\<close>, \<^verbatim>\<open>init\<close> and \<^verbatim>\<open>ls\<close>,
  on the kernel \<open>os\<close> of the shell. \<open>lit\<close> gives the address of a string constant of the program,
  \<open>pbuf\<close> is the static buffer of \<^verbatim>\<open>printf\<close>.
\<close>

section \<open>Output\<close>

type_synonym literals = "string \<Rightarrow> ptr"

definition printf :: "'k os \<Rightarrow> ptr \<Rightarrow> ptr \<Rightarrow> u32 list \<Rightarrow> 'k shell \<Rightarrow> 'k shell option" where
  "printf os pbuf fmt args st = do {
     (i, m) \<leftarrow> vsprintf pbuf fmt args (user_mem st);
     Some (run os (Sys_write 1 (map m [pbuf ..< pbuf + i])) (st\<lparr>user_mem := m\<rparr>))
   }"

definition bytes_at :: "'k shell \<Rightarrow> ptr \<Rightarrow> nat \<Rightarrow> u8 list" where
  "bytes_at st p n = map (user_mem st) [p ..< p + n]"

section \<open>cat\<close>

text \<open>The loop ends only when the kernel returns \<^verbatim>\<open>EOF\<close>.\<close>

partial_function (option) cat_loop :: "'k os \<Rightarrow> int \<Rightarrow> ptr \<Rightarrow> 'k shell \<Rightarrow> 'k shell option" where
  "cat_loop os fd buf st =
     (let (len, st) = os (Sys_read fd buf 1024) st
      in if len = - 1 then Some st
         else cat_loop os fd buf (run os (Sys_write 1 (bytes_at st buf (nat len))) st))"

definition cat :: "'k os \<Rightarrow> literals \<Rightarrow> ptr \<Rightarrow> ptr \<Rightarrow> nat \<Rightarrow> ptr list \<Rightarrow> 'k shell \<Rightarrow> (int \<times> 'k shell) option" where
  "cat os lit pbuf buf argc argv st =
     (if argc < 2 then Some (- 1, st)
      else do {
        arg \<leftarrow> rd argv 1;
        let (fd, st) = os (Sys_open arg 0 0) st;
        if fd = - 1 then do {
          st \<leftarrow> printf os pbuf (lit ''file %s not exists\<newline>'') [of_nat arg] st;
          Some (- 1, st) }
        else do {
          st \<leftarrow> cat_loop os fd buf st;
          Some (0, run os (Sys_close fd) st) }
      })"

section \<open>dup, echo, env, init\<close>

partial_function (option) dup_main :: "'k os \<Rightarrow> ptr \<Rightarrow> 'k shell \<Rightarrow> 'k shell option" where
  "dup_main os ch st =
     (let (n, st) = os (Sys_read 0 ch 1) st
      in if n = - 1 then Some st
         else if user_mem st ch = 10 then Some (run os (Sys_write 1 [user_mem st ch]) st)
         else let st = run os (Sys_write 1 [user_mem st ch]) st
              in dup_main os ch (run os (Sys_write 1 [user_mem st ch]) st))"

text \<open>An argument of \<^verbatim>\<open>echo\<close> is itself the format of \<^verbatim>\<open>printf\<close>: there are no arguments for it.\<close>

fun echo_loop :: "'k os \<Rightarrow> literals \<Rightarrow> ptr \<Rightarrow> ptr list \<Rightarrow> 'k shell \<Rightarrow> 'k shell option" where
  "echo_loop os lit pbuf [] st = Some st"
| "echo_loop os lit pbuf (a # as) st = do {
     st \<leftarrow> printf os pbuf a [] st;
     st \<leftarrow> (if as \<noteq> [] then printf os pbuf (lit '' '') [] st else Some st);
     echo_loop os lit pbuf as st
   }"

definition echo :: "'k os \<Rightarrow> literals \<Rightarrow> ptr \<Rightarrow> nat \<Rightarrow> ptr list \<Rightarrow> 'k shell \<Rightarrow> 'k shell option" where
  "echo os lit pbuf argc argv st = do {
     check (argc \<le> length argv);
     st \<leftarrow> echo_loop os lit pbuf (drop 1 (take argc argv)) st;
     printf os pbuf (lit ''\<newline>'') [] st
   }"

fun env_args :: "'k os \<Rightarrow> literals \<Rightarrow> ptr \<Rightarrow> ptr list \<Rightarrow> 'k shell \<Rightarrow> 'k shell option" where
  "env_args os lit pbuf [] st = Some st"
| "env_args os lit pbuf (a # as) st =
     Option.bind (printf os pbuf (lit ''%s\<newline>'') [of_nat a] st) (env_args os lit pbuf as)"

text \<open>The pointer is printed before it is compared with \<^verbatim>\<open>NULL\<close>; behind the array the result is \<open>None\<close>.\<close>

fun env_loop :: "'k os \<Rightarrow> literals \<Rightarrow> ptr \<Rightarrow> ptr list \<Rightarrow> 'k shell \<Rightarrow> 'k shell option" where
  "env_loop os lit pbuf [] st = None"
| "env_loop os lit pbuf (e # es) st = do {
     st \<leftarrow> printf os pbuf (lit ''%s\<newline>'') [of_nat e] st;
     if e = 0 then Some st
     else do {
       _ \<leftarrow> strlen e (user_mem st);
       env_loop os lit pbuf es st }
   }"

definition env :: "'k os \<Rightarrow> literals \<Rightarrow> ptr \<Rightarrow> nat \<Rightarrow> ptr list \<Rightarrow> ptr list \<Rightarrow> 'k shell \<Rightarrow> 'k shell option" where
  "env os lit pbuf argc argv envp st = do {
     st \<leftarrow> printf os pbuf (lit ''hello world\<newline>'') [] st;
     check (argc \<le> length argv);
     st \<leftarrow> env_args os lit pbuf (take argc argv) st;
     env_loop os lit pbuf envp st
   }"

text \<open>
  One turn of the loop of \<^verbatim>\<open>init\<close>, in the parent or in the child; \<open>status\<close> is the local variable, which
  the kernel writes in \<^verbatim>\<open>waitpid\<close>.
\<close>

definition init_turn :: "'k os \<Rightarrow> literals \<Rightarrow> ptr \<Rightarrow> ptr \<Rightarrow> 'k shell \<Rightarrow> (unit, 'k) outcome option" where
  "init_turn os lit pbuf status st = do {
     let (pid, st) = os Sys_fork st;
     if pid \<noteq> 0 then do {
       let (child, st) = os (Sys_waitpid_into pid status) st;
       let (now, st) = os Sys_time st;
       st \<leftarrow> printf os pbuf (lit ''wait pid %d status %d %d\<newline>'') [of_int child, load32 (user_mem st) status, of_int now] st;
       Some (Back () st) }
     else do {
       let (err, st) = os (Sys_execve (lit ''/bin/osh'') []) st;
       st \<leftarrow> printf os pbuf (lit ''execve /bin/osh.out error %d\<newline>'') [of_int err] st;
       Some (Ended (run os (Sys_exit err) st)) }
   }"

definition init_starts :: "'k os \<Rightarrow> literals \<Rightarrow> ptr \<Rightarrow> 'k shell \<Rightarrow> (bool \<times> 'k shell) option" where
  "init_starts os lit pbuf st = do {
     let (pid, st) = os Sys_getpid st;
     if pid \<noteq> 1 then do {
       st \<leftarrow> printf os pbuf (lit ''init already running...\<newline>'') [] st;
       Some (False, st) }
     else Some (True, st)
   }"

section \<open>ls\<close>

abbreviation (input) IFMT :: u32 where "IFMT \<equiv> 0xF000"

definition mode_char :: "u32 \<Rightarrow> u8" where
  "mode_char mode =
     (let t = mode AND IFMT
      in if t = 0x8000 then 45 else if t = 0x6000 then 98 else if t = 0x4000 then 100
         else if t = 0x2000 then 99 else if t = 0x1000 then 112 else if t = 0xA000 then 108
         else if t = 0xC000 then 115 else 63)"

definition mode_bits :: "u32 \<Rightarrow> nat \<Rightarrow> ptr \<Rightarrow> mem \<Rightarrow> mem" where
  "mode_bits mode i p m =
     (let fmt = signed_drop_bit i mode AND 7;
          m = (if fmt AND 4 \<noteq> 0 then m(p := 114) else m);
          m = (if fmt AND 2 \<noteq> 0 then m(p + 1 := 119) else m)
      in if fmt AND 1 \<noteq> 0 then m(p + 2 := 120) else m)"

definition parsemode :: "u32 \<Rightarrow> ptr \<Rightarrow> mem \<Rightarrow> mem" where
  "parsemode mode buf m =
     (let m = memset buf 45 10 m;
          m = m(buf + 10 := 0);
          m = m(buf := mode_char mode);
          m = mode_bits mode 6 (buf + 1) m;
          m = mode_bits mode 3 (buf + 4) m
      in mode_bits mode 0 (buf + 7) m)"

definition qualifies :: "u8 list" where
  "qualifies = [66, 75, 77, 71, 84]"

text \<open>The loop of \<^verbatim>\<open>reckon_size\<close>: the number left, the index, the size and the letter.\<close>

partial_function (option) reckon_loop :: "u32 \<Rightarrow> nat \<Rightarrow> u32 \<Rightarrow> u8 \<Rightarrow> (u32 \<times> u8) option" where
  "reckon_loop num i sz q =
     (if num \<noteq> 0 then Option.bind (rd qualifies i) (\<lambda>q. reckon_loop (signed_drop_bit 10 num) (i + 1) num q)
      else Some (sz, q))"

definition reckon_size :: "u32 \<Rightarrow> (u32 \<times> u8) option" where
  "reckon_size sz = reckon_loop sz 0 sz 66"

definition strftime :: "literals \<Rightarrow> u32 \<Rightarrow> ptr \<Rightarrow> mem \<Rightarrow> mem option" where
  "strftime lit stamp buf m = do {
     t \<leftarrow> localtime stamp;
     (_, m) \<leftarrow> vsprintf buf (lit ''%d-%02d-%02d %02d:%02d:%02d'')
       [of_int (tm_year t + 1900), of_int (tm_mon t), of_int (tm_mday t), of_int (tm_hour t), of_int (tm_min t), of_int (tm_sec t)] m;
     Some m
   }"

text \<open>Where the variables of \<^verbatim>\<open>ls\<close> are; \<^verbatim>\<open>stat_t\<close> is read from memory at its offsets.\<close>

record ls_vars =
  ls_path :: ptr
  ls_entry :: ptr
  ls_stat :: ptr
  ls_buf :: ptr
  ls_pbuf :: ptr

definition ls_entry_line :: "'k os \<Rightarrow> literals \<Rightarrow> ls_vars \<Rightarrow> 'k shell \<Rightarrow> 'k shell option" where
  "ls_entry_line os lit vars st = do {
     let name = ls_entry vars + 2;
     let st = run os (Sys_stat_into name (ls_stat vars)) st;
     let m = user_mem st;
     let m = parsemode (ucast (load16 m (ls_stat vars + 8))) (ls_buf vars) m;
     st \<leftarrow> printf os (ls_pbuf vars) (lit ''%s '') [of_nat (ls_buf vars)] (st\<lparr>user_mem := m\<rparr>);
     m \<leftarrow> strftime lit (load32 (user_mem st) (ls_stat vars + 32)) (ls_buf vars) (user_mem st);
     (sz, q) \<leftarrow> reckon_size (load32 m (ls_stat vars + 20));
     st \<leftarrow> printf os (ls_pbuf vars) (lit ''hello world\<newline>'') [] (st\<lparr>user_mem := m\<rparr>);
     let m = user_mem st;
     printf os (ls_pbuf vars) (lit ''% 2d % 2d % 2d % 4d%c %s %s\<newline>'')
       [ucast (m (ls_stat vars + 10)), ucast (load16 m (ls_stat vars + 12)), ucast (m (ls_stat vars + 14)),
        sz, ucast q, of_nat (ls_buf vars), of_nat name] st
   }"

partial_function (option) ls_loop :: "'k os \<Rightarrow> literals \<Rightarrow> ls_vars \<Rightarrow> int \<Rightarrow> bool \<Rightarrow> 'k shell \<Rightarrow> 'k shell option" where
  "ls_loop os lit vars fd list st =
     (let (len, st) = os (Sys_readdir fd (ls_entry vars) 1) st
      in if len = - 1 then Some st
         else if load16 (user_mem st) (ls_entry vars) = 0 then ls_loop os lit vars fd list st
         else Option.bind (strcmp (ls_entry vars + 2) (lit ''.'') (user_mem st)) (\<lambda>one.
           Option.bind (if one = 0 then Some 0 else strcmp (ls_entry vars + 2) (lit ''..'') (user_mem st)) (\<lambda>two.
             if two = 0 then ls_loop os lit vars fd list st
             else Option.bind
               (if list then ls_entry_line os lit vars st
                else printf os (ls_pbuf vars) (lit ''%s '') [of_nat (ls_entry vars + 2)] st)
               (ls_loop os lit vars fd list))))"

definition ls :: "'k os \<Rightarrow> literals \<Rightarrow> ls_vars \<Rightarrow> nat \<Rightarrow> ptr list \<Rightarrow> 'k shell \<Rightarrow> (int \<times> 'k shell) option" where
  "ls os lit vars argc argv st = do {
     let st = run os (Sys_getcwd (ls_path vars) 128) st;
     let (fd, st) = os (Sys_open (ls_path vars) 0 0) st;
     if fd = - 1 then Some (- 1, st)
     else do {
       list \<leftarrow> (if argc = 2 then do { a \<leftarrow> rd argv 1; r \<leftarrow> strcmp a (lit ''-l'') (user_mem st); Some (r = 0) } else Some False);
       st \<leftarrow> ls_loop os lit vars fd list (run os (Sys_lseek fd 0 1) st);
       st \<leftarrow> (if list then Some st else printf os (ls_pbuf vars) (lit ''\<newline>'') [] st);
       Some (0, run os (Sys_close fd) st)
     }
   }"

section \<open>What they do\<close>

text \<open>The text of a mode: the letter of the type and three times the letters of the rights.\<close>

definition rights :: "u32 \<Rightarrow> u8 list" where
  "rights f = [if f AND 4 \<noteq> 0 then 114 else 45, if f AND 2 \<noteq> 0 then 119 else 45, if f AND 1 \<noteq> 0 then 120 else 45]"

lemma eleven: "[p ..< p + 11] = [p, p + 1, p + 2, p + 3, p + 4, p + 5, p + 6, p + 7, p + 8, p + 9, p + 10]"
  by (simp add: upt_rec)

lemma mode_bits_at:
  "mode_bits mode i p m q = (if q = p \<and> signed_drop_bit i mode AND 4 \<noteq> 0 then 114
     else if q = p + 1 \<and> signed_drop_bit i mode AND 2 \<noteq> 0 then 119
     else if q = p + 2 \<and> signed_drop_bit i mode AND 1 \<noteq> 0 then 120 else m q)"
proof -
  have "(f AND 7) AND 4 = f AND 4" "(f AND 7) AND 2 = f AND 2" "(f AND 7) AND 1 = f AND 1" for f :: u32
    by (simp_all add: and.assoc)
  then show ?thesis unfolding mode_bits_def Let_def by simp
qed

lemma memset_at: "memset p ch n m q = (if p \<le> q \<and> q < p + n then of_int ch else m q)"
  by (induction n arbitrary: p m) auto

lemma parsemode_text:
  "map (parsemode mode buf m) [buf ..< buf + 11]
    = mode_char mode # concat (map (\<lambda>i. rights (signed_drop_bit i mode)) [6, 3, 0]) @ [0]"
  unfolding eleven by (simp add: parsemode_def Let_def mode_bits_at memset_at rights_def)

lemma signed_drop_nonneg:
  assumes "unat (num :: u32) < 2 ^ 31"
  shows "signed_drop_bit 10 num = drop_bit 10 num" "unat (drop_bit 10 num) = unat num div 1024"
proof -
  have "num = take_bit 31 num" using assms by (simp add: word_unat_eq_iff unsigned_take_bit_eq take_bit_nat_eq_self)
  then have b: "\<not> bit num 31" by (metis bit_take_bit_iff less_irrefl)
  show "signed_drop_bit 10 num = drop_bit 10 num"
    by (rule bit_word_eqI) (use b in \<open>auto simp: bit_simps not_le min_def dest: bit_imp_le_length\<close>)
  have "unat num < 2 ^ 32" using assms by simp
  then show "unat (drop_bit 10 num) = unat num div 1024"
    by (simp only: unsigned_drop_bit_eq) (simp add: take_bit_eq_mod drop_bit_eq_div)
qed

lemma reckon_loop_law:
  "0 < unat num \<Longrightarrow> unat num < 1024 ^ j \<Longrightarrow> i + j \<le> 5 \<Longrightarrow> unat num < 2 ^ 31 \<Longrightarrow>
    \<exists>k v. reckon_loop num i sz q = Some (v, qualifies ! (i + k)) \<and> k < j \<and> unat v = unat num div 1024 ^ k
      \<and> 0 < unat v \<and> unat v < 1024"
proof (induction j arbitrary: num i sz q)
  case (Suc j)
  let ?n = "drop_bit 10 num"
  have n: "unat ?n = unat num div 1024" by (rule signed_drop_nonneg(2)[OF Suc(5)])
  have "num \<noteq> 0" using Suc(2) by auto
  then have s: "reckon_loop num i sz q = reckon_loop ?n (i + 1) num (qualifies ! i)"
    using Suc(4) signed_drop_nonneg(1)[OF Suc(5)]
    by (subst reckon_loop.simps) (simp add: rd_def qualifies_def)
  show ?case
  proof (cases "unat ?n = 0")
    case True
    then have z: "?n = 0" by (simp only: unsigned_eq_0_iff)
    have "reckon_loop num i sz q = Some (num, qualifies ! (i + 0))" unfolding s z by (subst reckon_loop.simps) simp
    moreover have "unat num < 1024" using True n by (simp add: div_eq_0_iff)
    ultimately show ?thesis using Suc(2) by (intro exI[of _ 0] exI[of _ num]) simp
  next
    case False
    have "\<exists>k v. reckon_loop ?n (i + 1) num (qualifies ! i) = Some (v, qualifies ! (i + 1 + k)) \<and> k < j
        \<and> unat v = unat ?n div 1024 ^ k \<and> 0 < unat v \<and> unat v < 1024"
      by (rule Suc.IH) (use False n Suc(3,4,5) in \<open>auto simp: less_mult_imp_div_less\<close>)
    then obtain k v where "reckon_loop ?n (i + 1) num (qualifies ! i) = Some (v, qualifies ! (i + Suc k))" "k < j"
        "unat v = unat num div 1024 ^ Suc k" "0 < unat v" "unat v < 1024"
      unfolding n by (auto simp: div_mult2_eq)
    then show ?thesis unfolding s by (intro exI[of _ "Suc k"] exI[of _ v]) simp
  qed
qed simp

text \<open>A size is shown as the number of the largest unit of which it has at least one.\<close>

lemma reckon_size_law:
  assumes "0 < unat sz" "unat sz < 2 ^ 31"
  shows "\<exists>k v. reckon_size sz = Some (v, qualifies ! k) \<and> k < 4 \<and> unat v = unat sz div 1024 ^ k \<and> 0 < unat v \<and> unat v < 1024"
  using reckon_loop_law[OF assms(1), of 4 0 sz 66] assms(2) by (simp add: reckon_size_def)

text \<open>A file that the kernel hands out piece by piece, and what has been written to the output.\<close>

definition serves :: "'k os \<Rightarrow> int \<Rightarrow> ptr \<Rightarrow> ('k \<Rightarrow> u8 list) \<Rightarrow> ('k \<Rightarrow> u8 list) \<Rightarrow> bool" where
  "serves os fd buf rest shown \<longleftrightarrow>
     (\<forall>st. let (len, st') = os (Sys_read fd buf 1024) st in
        shown (others st') = shown (others st)
        \<and> (if rest (others st) = [] then len = - 1
           else 0 < len \<and> nat len \<le> length (rest (others st)) \<and> bytes_at st' buf (nat len) = take (nat len) (rest (others st))
             \<and> rest (others st') = drop (nat len) (rest (others st))))
     \<and> (\<forall>st bs. shown (others (run os (Sys_write 1 bs) st)) = shown (others st) @ bs
          \<and> rest (others (run os (Sys_write 1 bs) st)) = rest (others st))"

lemma cat_copies:
  assumes S: "serves os fd buf rest shown"
  shows "\<exists>st'. cat_loop os fd buf st = Some st' \<and> shown (others st') = shown (others st) @ rest (others st)"
proof (induction "length (rest (others st))" arbitrary: st rule: less_induct)
  case less
  obtain len st1 where r: "os (Sys_read fd buf 1024) st = (len, st1)" by fastforce
  let ?r = "rest (others st)"
  have s: "shown (others st1) = shown (others st)" and e: "?r = [] \<Longrightarrow> len = - 1"
    and n: "?r \<noteq> [] \<Longrightarrow> 0 < len \<and> nat len \<le> length ?r \<and> bytes_at st1 buf (nat len) = take (nat len) ?r \<and> rest (others st1) = drop (nat len) ?r"
    using S r unfolding serves_def by (auto dest!: spec[of _ st])
  show ?case
  proof (cases "?r = []")
    case True
    then show ?thesis using r s e by (subst cat_loop.simps) simp
  next
    case False
    let ?st = "run os (Sys_write 1 (bytes_at st1 buf (nat len))) st1"
    have w: "shown (others ?st) = shown (others st) @ take (nat len) ?r" "rest (others ?st) = drop (nat len) ?r"
      using S s n[OF False] unfolding serves_def by simp_all
    have "length (rest (others ?st)) < length ?r" using n[OF False] False w(2) by simp
    then obtain st' where "cat_loop os fd buf ?st = Some st'" "shown (others st') = shown (others ?st) @ rest (others ?st)"
      using less by blast
    moreover have "cat_loop os fd buf st = cat_loop os fd buf ?st" using r n[OF False] by (subst cat_loop.simps) simp
    ultimately show ?thesis using w by simp
  qed
qed

end
