(* ===== verification/Spec2Isabelle.thy ===== *)
theory Spec2Isabelle
  imports Prelude Bitmap Fifo Linked_List CString Memory_Words Format Calendar Frames Paging Device Buffer Buffer_Hold Tasks Interrupt Clock_Chip Syscalls Serial Ide Ata Mutex Pipe Console Diagnostics Keyboard Keyboard_Ports Arena Heap Fs_State Fs_Bitmap Inode File_Data File_Write Namei Fs_Calls Files Mount Process Execve Shell Utils
begin

text \<open>
  The Onix kernel (the C files under \<^verbatim>\<open>src/src\<close>): a small 32-bit x86 kernel with paging,
  preemptive tasks, block devices behind a cache, a Minix file system and a shell.

  \<^bold>\<open>The parts and where they are modelled.\<close> Every definition has the name of the function it
  models, or that of the function with a suffix for a loop or a branch of it that is a
  definition of its own.

  \<^item> \<open>Prelude\<close>: the C integer types as words; \<open>check\<close>, \<open>rd\<close>, \<open>wr\<close> for \<^verbatim>\<open>assert\<close> and array
    accesses. A result \<open>None\<close> is a call that does not return: a failed assertion, a panic, an
    access outside the object (or, in a sequential model, a sleep). \<^verbatim>\<open>EOF\<close>, \<^verbatim>\<open>NULL\<close> and
    \<^verbatim>\<open>false\<close> are ordinary values.
  \<^item> The libraries: \<open>Bitmap\<close> (\<^verbatim>\<open>lib/bitmap.c\<close>), \<open>Fifo\<close> (\<^verbatim>\<open>lib/fifo.c\<close>), \<open>Linked_List\<close>
    (\<^verbatim>\<open>lib/list.c\<close>, on a heap of \<^verbatim>\<open>prev\<close> and \<^verbatim>\<open>next\<close> pointers), \<open>CString\<close> (\<^verbatim>\<open>lib/string.c\<close>,
    \<^verbatim>\<open>lib/stdlib.c\<close>, on a byte memory), \<open>Format\<close> (\<^verbatim>\<open>lib/vsprintf.c\<close>), \<open>Calendar\<close>
    (\<^verbatim>\<open>kernel/time.c\<close>, \<^verbatim>\<open>kernel/rtc.c\<close>).
  \<^item> Memory: \<open>Frames\<close> (page frames and the kernel page bitmap) and \<open>Paging\<close> (page tables, fork's
    sharing, copy on write) for \<^verbatim>\<open>kernel/memory.c\<close>; \<open>Arena\<close> for \<^verbatim>\<open>kernel/arena.c\<close>.
  \<^item> Tasks: \<open>Tasks\<close> (the table, the wait lists, the scheduler and the clock of \<^verbatim>\<open>kernel/task.c\<close> and
    \<^verbatim>\<open>kernel/clock.c\<close>), \<open>Mutex\<close> (\<^verbatim>\<open>kernel/mutex.c\<close>), \<open>Pipe\<close> (\<^verbatim>\<open>fs/pipe.c\<close> with both tasks),
    \<open>Process\<close> (create, fork, exit, waitpid).
  \<^item> Devices: \<open>Device\<close> (\<^verbatim>\<open>kernel/device.c\<close>, \<^verbatim>\<open>kernel/ramdisk.c\<close>) and \<open>Buffer\<close> (\<^verbatim>\<open>kernel/buffer.c\<close>).
  \<^item> The file system: \<open>Fs_State\<close> (\<^verbatim>\<open>include/onixs/fs.h\<close>: inodes, super blocks, files and the state
    \<open>kernel\<close> that all system calls share), \<open>Fs_Bitmap\<close> (\<^verbatim>\<open>fs/bitmap.c\<close>), \<open>Inode\<close> (\<^verbatim>\<open>fs/inode.c\<close>),
    \<open>Namei\<close> and \<open>Fs_Calls\<close> (\<^verbatim>\<open>fs/namei.c\<close>, \<^verbatim>\<open>fs/stat.c\<close>), \<open>Files\<close> (\<^verbatim>\<open>fs/file.c\<close>, \<^verbatim>\<open>fs/pipe.c\<close>),
    \<open>Mount\<close> (\<^verbatim>\<open>fs/super.c\<close>, \<^verbatim>\<open>fs/dev.c\<close>).
  \<^item> File contents: \<open>Buffer_Hold\<close> (what the users of the block cache keep while other blocks are
    visited), \<open>File_Data\<close> (the bytes of a file as the blocks hold them, the block map and reading) and
    \<open>File_Write\<close> (writing within the blocks of a file).
  \<^item> Terminals: \<open>Console\<close> (\<^verbatim>\<open>kernel/console.c\<close>, the text screen and its escape characters) and
    \<open>Keyboard\<close> (\<^verbatim>\<open>kernel/keyboard.c\<close>, scan codes to characters); \<open>Diagnostics\<close> (\<^verbatim>\<open>kernel/printk.c\<close>,
    \<^verbatim>\<open>kernel/debug.c\<close>, \<^verbatim>\<open>kernel/assert.c\<close>).
  \<^item> \<open>Heap\<close>: the owners of all kernel pages, the proof that the kernel heap is memory safe.
  \<^item> Programs: \<open>Execve\<close> (\<^verbatim>\<open>kernel/execve.c\<close>, the program headers, the loading of segments, the
    stack of a new program), \<open>Memory_Words\<close> (words in a byte memory),
    \<open>Shell\<close> (\<^verbatim>\<open>builtin/utils/osh.c\<close>, with the system calls as a parameter) and \<open>Utils\<close> (the other
    programs of \<^verbatim>\<open>builtin/utils\<close>).
  \<^item> The hardware: \<open>Interrupt\<close> (\<^verbatim>\<open>kernel/interrupt.c\<close>, \<^verbatim>\<open>kernel/clock.c\<close>, \<^verbatim>\<open>kernel/global.c\<close>, with the port
    instructions as a parameter), \<open>Clock_Chip\<close> (\<^verbatim>\<open>kernel/rtc.c\<close>), \<open>Keyboard_Ports\<close> (the controller of the keyboard), \<open>Serial\<close>
    (\<^verbatim>\<open>kernel/serial.c\<close>), \<open>Ide\<close> (\<^verbatim>\<open>kernel/ide.c\<close>), \<open>Ata\<close> (what
    the driver relies on of an ATA channel, and what reading returns), \<open>Syscalls\<close> (\<^verbatim>\<open>lib/syscall.c\<close> and
    the table of \<^verbatim>\<open>kernel/gate.c\<close>).

  \<^bold>\<open>State.\<close> A component's static variables are a \<open>record\<close>; a component that uses another extends
  its record (\<open>vm = frames + \<dots>\<close>, \<open>kernel = cache + \<dots>\<close>), so that the operations and the lemmas of the
  smaller state apply to the larger one. Pointers to tasks, inodes, files and buffers are indices
  into their tables. Wait lists are HOL lists, which the refinement in \<open>Linked_List\<close> justifies.
  Memory that only one component looks at is part of its state (the words of page tables in \<open>phys\<close>,
  the headers of the kernel heap in \<open>arenas\<close>, the bytes of paths and user buffers in \<open>umem\<close>).

  \<^bold>\<open>Interfaces.\<close> Locales state what a client relies on, and are interpreted on the model:
  \<open>bounded_queue\<close> by the ring buffer, \<open>wait_list\<close> (what a list of waiting tasks promises to the
  scheduler) by the linked lists, \<open>region_allocator\<close> by the kernel pages, \<open>block_disk\<close> (a block
  device reads back what was written) by the memory disks.

  \<^bold>\<open>Loops and fuel.\<close> Loops over a count are recursive on it; loops whose end is a theorem are
  \<open>function\<close>s with a termination proof; loops that end only on well-formed data (\<^verbatim>\<open>strlen\<close>, the walk
  of a path, \<^verbatim>\<open>fifo_put\<close>) are partial functions whose value \<open>None\<close> is a run that does not end, and
  the properties show that they return. The only bounds are \<open>64\<close> in \<open>dev_nodes\<close>, the size of the
  device table, those of the tables themselves, and in \<open>serve\<close> the number of queued requests, which
  \<open>elevator_order\<close> shows to be enough.

  \<^bold>\<open>What the lemmas show.\<close> For each component an invariant and its preservation by every operation,
  the functional behaviour of the operations on every branch, and the abstract object it implements:
  a set of numbers for the bitmaps, lists for the queues, a store of blocks for the cache
  (\<open>cache_inv\<close>, \<open>block_view\<close>), a translation of addresses for the page tables (\<open>vm_inv\<close>,
  \<open>translate\<close>), one running task and disjoint wait lists for the scheduler (\<open>sched_inv\<close>). The
  machines of \<open>Tasks\<close>, \<open>Mutex\<close> and \<open>Pipe\<close> are inductive step relations whose steps are the
  code between two points where another task can run; their properties hold in all interleavings. Runs of
  operations that the properties speak of (\<open>serve\<close> of \<open>request_finish\<close>, \<open>interrupts\<close> of
  \<open>clock_handler\<close>) only repeat the modelled operations.

  \<^bold>\<open>Not modelled.\<close> The assembly (boot, interrupt entry, the task switch): the processor continues in
  the task \<open>running\<close> after \<open>schedule\<close>; where a driver sleeps, what happens until it runs again is the
  parameter \<open>resume\<close>. The frames on the stack of a new task, the
  list of initialisations in \<^verbatim>\<open>kernel/main.c\<close>, and \<^verbatim>\<open>lib/time.c\<close>, which repeats \<^verbatim>\<open>kernel/time.c\<close>.
\<close>

end
